(* ===== verification/Prelude.thy ===== *)
theory Prelude
  imports Complex_Main "HOL-Library.AList" "HOL-Library.Word"
begin

section \<open>Shared vocabulary of the development\<close>

text \<open>
  The types, JavaScript idioms and generic lemmas the component theories share.

  \<^item> Paths, identifiers, hashes and messages are HOL strings; the code only compares them,
    splits them at ASCII characters, or searches them for ASCII substrings.
  \<^item> Chunk texts are sequences of UTF-16 code units (\<open>jstext\<close>), because the code measures and
    slices them by code unit; \<open>js\<close> turns an ASCII literal into such a text.
  \<^item> A JavaScript \<open>Map\<close> is an association list in insertion order: \<open>AList.update\<close> overwrites
    in place and appends a new key, as \<open>Map.prototype.set\<close> does.
  \<^item> A thrown error is the left side of a sum.
  \<^item> Numbers used as counts are \<open>nat\<close> or \<open>int\<close>; fractions and scores are exact reals or
    rationals, so the rounding of IEEE doubles is not modelled (the storage of vectors as
    32-bit floats is, in theory \<open>Float32\<close>).
\<close>

named_theorems list_idioms \<open>Characteristic facts of the list idioms of the code\<close>

subsection \<open>Texts and strings\<close>

type_synonym jstext = "16 word list"

definition js :: "string \<Rightarrow> jstext" where
  "js s = map (\<lambda>c. of_nat (of_char c)) s"

lemma js_Nil [simp]: "js [] = []"
  by (simp add: js_def)

lemma js_Cons [simp]: "js (c # s) = of_nat (of_char c) # js s"
  by (simp add: js_def)

lemma length_js [simp]: "length (js s) = length s"
  by (simp add: js_def)

lemma of_char_word_inj: "((of_nat (of_char c) :: 16 word) = of_nat (of_char d)) = (c = d)"
proof -
  have small: "of_char x < (65536::nat)" for x :: char
    by (rule less_trans [OF nat_of_char_less_256]) simp
  have "unat (of_nat (of_char x) :: 16 word) = of_char x" for x :: char
    using small [of x] by (simp add: unat_of_nat take_bit_nat_eq_self)
  then show ?thesis by (metis of_char_eq_iff)
qed

lemma js_inject [simp]: "(js a = js b) = (a = b)"
proof (induction a arbitrary: b)
  case Nil
  show ?case by (cases b) (simp_all add: js_def)
next
  case (Cons x a)
  show ?case by (cases b) (simp_all add: Cons.IH of_char_word_inj)
qed

text \<open>\<open>String.prototype.startsWith\<close> and \<open>includes\<close>.\<close>

fun starts_with :: "'a list \<Rightarrow> 'a list \<Rightarrow> bool" where
  "starts_with [] _ = True"
| "starts_with (_ # _) [] = False"
| "starts_with (p # ps) (x # xs) = (p = x \<and> starts_with ps xs)"

fun contains :: "'a list \<Rightarrow> 'a list \<Rightarrow> bool" where
  "contains p [] = (p = [])"
| "contains p (x # xs) = (starts_with p (x # xs) \<or> contains p xs)"

lemma starts_with_iff: "starts_with p s \<longleftrightarrow> (\<exists>t. s = p @ t)"
  by (induction p s rule: starts_with.induct) auto

lemma contains_iff: "contains p s \<longleftrightarrow> (\<exists>u t. s = u @ p @ t)"
proof (induction s)
  case Nil
  then show ?case by simp
next
  case (Cons x xs)
  show ?case
  proof
    assume "contains p (x # xs)"
    then consider "starts_with p (x # xs)" | "contains p xs" by auto
    then show "\<exists>u t. x # xs = u @ p @ t"
    proof cases
      case 1
      then obtain t where "x # xs = p @ t" by (auto simp: starts_with_iff)
      then have "x # xs = [] @ p @ t" by simp
      then show ?thesis by blast
    next
      case 2
      then obtain u t where "xs = u @ p @ t" using Cons.IH by blast
      then have "x # xs = (x # u) @ p @ t" by simp
      then show ?thesis by blast
    qed
  next
    assume "\<exists>u t. x # xs = u @ p @ t"
    then obtain u t where eq: "x # xs = u @ p @ t" by blast
    show "contains p (x # xs)"
    proof (cases u)
      case Nil
      with eq have "x # xs = p @ t" by simp
      then have "starts_with p (x # xs)" using starts_with_iff by blast
      then show ?thesis by simp
    next
      case (Cons y ys)
      with eq have "xs = ys @ p @ t" by simp
      then have "contains p xs" using Cons.IH by blast
      then show ?thesis by simp
    qed
  qed
qed

text \<open>\<open>toLowerCase\<close> on ASCII letters (error messages are compared with ASCII phrases only).\<close>

definition lower_char :: "char \<Rightarrow> char" where
  "lower_char c =
     (let n = of_char c :: nat in if 65 \<le> n \<and> n \<le> 90 then char_of (n + 32) else c)"

definition lower_case :: "string \<Rightarrow> string" where
  "lower_case s = map lower_char s"

text \<open>\<open>p.replace(/\\/g, "/")\<close>\<close>

definition to_posix :: "string \<Rightarrow> string" where
  "to_posix p = map (\<lambda>c. if c = CHR 0x5C then CHR 0x2F else c) p"

lemma to_posix_idem [simp]: "to_posix (to_posix p) = to_posix p"
  by (simp add: to_posix_def)

text \<open>\<open>String.prototype.split\<close> at a single character: never the empty list.\<close>

fun split_on :: "'a \<Rightarrow> 'a list \<Rightarrow> 'a list list" where
  "split_on d [] = [[]]"
| "split_on d (x # xs) =
     (if x = d then [] # split_on d xs
      else (case split_on d xs of [] \<Rightarrow> [[x]] | w # ws \<Rightarrow> (x # w) # ws))"

fun join_with :: "'a list \<Rightarrow> 'a list list \<Rightarrow> 'a list" where
  "join_with d [] = []"
| "join_with d [w] = w"
| "join_with d (w # v # ws) = w @ d @ join_with d (v # ws)"

lemma split_on_ne [simp]: "split_on d xs \<noteq> []"
  by (induction xs) (auto split: list.splits)

lemma join_with_Cons: "ws \<noteq> [] \<Longrightarrow> join_with d (w # ws) = w @ d @ join_with d ws"
  by (cases ws) auto

lemma join_split [simp]: "join_with [d] (split_on d xs) = xs"
proof (induction xs)
  case Nil
  then show ?case by simp
next
  case (Cons x xs)
  obtain w ws where ws: "split_on d xs = w # ws" by (cases "split_on d xs") auto
  show ?case
  proof (cases "x = d")
    case True
    then show ?thesis using Cons.IH by (simp add: join_with_Cons)
  next
    case False
    then show ?thesis using Cons.IH ws by (cases ws) auto
  qed
qed

lemma split_on_no_sep: "w \<in> set (split_on d xs) \<Longrightarrow> d \<notin> set w"
  by (induction xs arbitrary: w) (auto split: if_splits list.splits)

subsection \<open>First occurrences: the \<open>seen\<close> set idiom\<close>

text \<open>
  The code removes duplicates with a \<open>Set\<close> of the keys seen so far and \<open>filter\<close>; \<open>new Set(xs)\<close>
  spread into an array keeps the same elements in the same order.
\<close>

fun filter_unseen :: "('a \<Rightarrow> 'k) \<Rightarrow> 'k list \<Rightarrow> 'a list \<Rightarrow> 'a list" where
  "filter_unseen key seen [] = []"
| "filter_unseen key seen (x # xs) =
     (if key x \<in> set seen then filter_unseen key seen xs
      else x # filter_unseen key (key x # seen) xs)"

definition dedup :: "'a list \<Rightarrow> 'a list" where
  "dedup xs = filter_unseen (\<lambda>x. x) [] xs"

lemma filter_unseen_keys:
  "key ` set (filter_unseen key seen xs) = key ` set xs - set seen"
  by (induction key seen xs rule: filter_unseen.induct) auto

lemma filter_unseen_distinct: "distinct (map key (filter_unseen key seen xs))"
proof (induction key seen xs rule: filter_unseen.induct)
  case (2 key seen x xs)
  then show ?case using filter_unseen_keys [of key "key x # seen" xs] by auto
qed simp

lemma filter_unseen_subset: "set (filter_unseen key seen xs) \<subseteq> set xs"
  by (induction key seen xs rule: filter_unseen.induct) auto

lemma filter_unseen_id:
  "distinct (map key xs) \<Longrightarrow> key ` set xs \<inter> set seen = {} \<Longrightarrow> filter_unseen key seen xs = xs"
  by (induction key seen xs rule: filter_unseen.induct) auto

text \<open>The element kept for a key is the first one that has it.\<close>

lemma filter_unseen_first:
  "k \<notin> set seen \<Longrightarrow>
   find (\<lambda>x. key x = k) (filter_unseen key seen xs) = find (\<lambda>x. key x = k) xs"
  by (induction key seen xs rule: filter_unseen.induct) auto

lemma length_filter_unseen: "length (filter_unseen key seen xs) \<le> length xs"
  by (induction key seen xs rule: filter_unseen.induct) auto

lemma dedup_set [simp]: "set (dedup xs) = set xs"
  using filter_unseen_keys [of "\<lambda>x. x" "[]" xs] by (simp add: dedup_def)

lemma dedup_distinct [simp]: "distinct (dedup xs)"
  using filter_unseen_distinct [of "\<lambda>x. x" "[]" xs] by (simp add: dedup_def)

lemma dedup_id: "distinct xs \<Longrightarrow> dedup xs = xs"
  by (simp add: dedup_def filter_unseen_id)

lemma dedup_Nil [simp]: "dedup [] = []"
  by (simp add: dedup_def)

lemma dedup_eq_Nil [simp]: "dedup xs = [] \<longleftrightarrow> xs = []"
  by (metis dedup_set set_empty)

lemmas dedup_facts [list_idioms] = dedup_set dedup_distinct dedup_id dedup_Nil dedup_eq_Nil

subsection \<open>JavaScript maps as association lists\<close>

text \<open>Setting every entry of a list in turn: \<open>new Map(entries)\<close> and loops of \<open>set\<close>.\<close>

definition map_set_all :: "('k \<times> 'v) list \<Rightarrow> ('k \<times> 'v) list \<Rightarrow> ('k \<times> 'v) list" where
  "map_set_all es m = fold (\<lambda>(k, v). AList.update k v) es m"

lemma update_new: "k \<notin> fst ` set m \<Longrightarrow> AList.update k v m = m @ [(k, v)]"
  by (induction m) auto

lemma map_set_all_Nil [simp]: "map_set_all [] m = m"
  by (simp add: map_set_all_def)

lemma map_set_all_Cons [simp]: "map_set_all ((k, v) # es) m = map_set_all es (AList.update k v m)"
  by (simp add: map_set_all_def)

lemma map_of_map_set_all: "map_of (map_set_all es m) = map_of m ++ map_of (rev es)"
proof (induction es arbitrary: m)
  case Nil
  then show ?case by simp
next
  case (Cons e es)
  obtain k v where e: "e = (k, v)" by force
  show ?case
    by (rule ext) (auto simp: e Cons.IH update_conv' map_add_def split: option.splits)
qed

lemma distinct_map_set_all:
  "distinct (map fst m) \<Longrightarrow> distinct (map fst (map_set_all es m))"
proof (induction es arbitrary: m)
  case (Cons e es)
  then show ?case by (cases e) (simp add: distinct_update)
qed simp

lemma map_set_all_dom: "fst ` set (map_set_all es m) = fst ` set m \<union> fst ` set es"
proof (induction es arbitrary: m)
  case (Cons e es)
  then show ?case by (cases e) (auto simp: dom_update)
qed simp

lemma map_of_some_iff_mem:
  "distinct (map fst m) \<Longrightarrow> map_of m k = Some v \<longleftrightarrow> (k, v) \<in> set m"
  by (rule map_of_eq_Some_iff)

text \<open>White space as \<open>trim\<close> and \<open>\s\<close> know it.\<close>

definition js_space :: "16 word \<Rightarrow> bool" where
  "js_space u = (u \<in> {9, 10, 11, 12, 13, 32, 0xA0, 0x1680, 0x2028, 0x2029, 0x202F, 0x205F, 0x3000, 0xFEFF}
     \<or> (0x2000 \<le> u \<and> u \<le> 0x200A))"

subsection \<open>Errors\<close>

text \<open>
  The exceptions of the program: the class of \<open>src/packages/virage-core/src/core/errors.ts\<close>
  and the message. \<open>EError\<close> is the built-in \<open>Error\<close>.
\<close>

datatype err_class = EError | RagError | ConfigError | ChunkError | EmbedError | UploadError

datatype js_error = Err (class_of: err_class) (message: string)

type_synonym 'a result = "js_error + 'a"

fun result_bind :: "'a result \<Rightarrow> ('a \<Rightarrow> 'b result) \<Rightarrow> 'b result" where
  "result_bind (Inl e) f = Inl e"
| "result_bind (Inr x) f = f x"

lemma result_bind_Inr:
  "result_bind m f = Inr y \<longleftrightarrow> (\<exists>x. m = Inr x \<and> f x = Inr y)"
  by (cases m) auto

lemma returnedE:
  assumes "\<not> isl (fst p)" obtains x w where "p = (Inr x, w)"
proof (cases p)
  case (Pair r w)
  then show ?thesis using assms that by (cases r) auto
qed

subsection \<open>Sequencing\<close>

text \<open>Calls that change a state and may fail, one after the other; the first failure ends them.\<close>

definition and_then ::
  "('s \<Rightarrow> 'a result \<times> 's) \<Rightarrow> ('a \<Rightarrow> 's \<Rightarrow> 'b result \<times> 's) \<Rightarrow> 's \<Rightarrow> 'b result \<times> 's" where
  "and_then m f s = (case m s of (Inl e, s') \<Rightarrow> (Inl e, s') | (Inr x, s') \<Rightarrow> f x s')"

definition give :: "'a \<Rightarrow> 's \<Rightarrow> 'a result \<times> 's" where
  "give x s = (Inr x, s)"

definition assign :: "('s \<Rightarrow> 's) \<Rightarrow> 's \<Rightarrow> unit result \<times> 's" where
  "assign f s = (Inr (), f s)"

lemma and_thenE:
  assumes "and_then m f s = (r, s')"
  obtains (failed) e where "m s = (Inl e, s')" "r = Inl e"
    | (returned) x s1 where "m s = (Inr x, s1)" "f x s1 = (r, s')"
proof (cases "m s")
  case (Pair a s1)
  then show ?thesis using assms that by (cases a) (auto simp: and_then_def)
qed

end
