(* ===== verification/Formatting.thy ===== *)
theory Formatting
  imports Prelude
begin

section \<open>Formatting of numbers and columns\<close>

text \<open>
  What the code uses of JavaScript's standard library to print: decimal numbers, \<open>toFixed\<close>,
  \<open>toLocaleString\<close>, \<open>padStart\<close>, \<open>padEnd\<close>, \<open>repeat\<close> and \<open>Math.round\<close>. Fractions are exact, so
  \<open>toFixed\<close> rounds the exact value (ties away from zero).
\<close>

subsection \<open>Numbers\<close>

definition digit :: "nat \<Rightarrow> char" where
  "digit d = char_of (48 + d)"

fun show_nat :: "nat \<Rightarrow> string" where
  "show_nat n = (if n < 10 then [digit n] else show_nat (n div 10) @ [digit (n mod 10)])"

declare show_nat.simps [simp del]

definition show_int :: "int \<Rightarrow> string" where
  "show_int i = (if i < 0 then CHR ''-'' # show_nat (nat (- i)) else show_nat (nat i))"

text \<open>\<open>Math.round\<close>: to the nearest integer, halves upwards.\<close>

definition math_round :: "rat \<Rightarrow> int" where
  "math_round x = \<lfloor>x + 1 / 2\<rfloor>"

text \<open>\<open>Number.prototype.toFixed\<close>: the integer nearest to \<open>x * 10 ^ k\<close>, the larger one of two,
  on the absolute value; the sign is that of the number.\<close>

definition fixed_digits :: "nat \<Rightarrow> rat \<Rightarrow> nat" where
  "fixed_digits k x = nat (math_round (\<bar>x\<bar> * 10 ^ k))"

definition to_fixed :: "nat \<Rightarrow> rat \<Rightarrow> string" where
  "to_fixed k x =
     (let n = fixed_digits k x;
          body = if k = 0 then show_nat n
                 else show_nat (n div 10 ^ k) @ CHR ''.'' #
                   (let s = show_nat (n mod 10 ^ k) in replicate (k - length s) (CHR ''0'') @ s)
      in if x < 0 then CHR ''-'' # body else body)"

text \<open>\<open>Number(x.toFixed(k))\<close>\<close>

definition rounded :: "nat \<Rightarrow> rat \<Rightarrow> rat" where
  "rounded k x = (if x < 0 then - (of_nat (fixed_digits k x) / 10 ^ k) else of_nat (fixed_digits k x) / 10 ^ k)"

text \<open>\<open>toLocaleString()\<close> of a count, in the English locale: groups of three digits.\<close>

fun group_digits :: "nat \<Rightarrow> string" where
  "group_digits n = (if n < 1000 then show_nat n
     else group_digits (n div 1000) @ CHR '','' #
       (let s = show_nat (n mod 1000) in replicate (3 - length s) (CHR ''0'') @ s))"

declare group_digits.simps [simp del]

subsection \<open>Columns\<close>

definition pad_start :: "nat \<Rightarrow> 'a \<Rightarrow> 'a list \<Rightarrow> 'a list" where
  "pad_start n c s = replicate (n - length s) c @ s"

definition pad_end :: "nat \<Rightarrow> 'a \<Rightarrow> 'a list \<Rightarrow> 'a list" where
  "pad_end n c s = s @ replicate (n - length s) c"

lemma length_pad_start [simp]: "length (pad_start n c s) = max n (length s)"
  by (simp add: pad_start_def max_def)

lemma length_pad_end [simp]: "length (pad_end n c s) = max n (length s)"
  by (simp add: pad_end_def max_def)

subsection \<open>Facts\<close>

lemma show_nat_ne [simp]: "show_nat n \<noteq> []"
  by (subst show_nat.simps) simp

lemma show_nat_digits: "c \<in> set (show_nat n) \<Longrightarrow> \<exists>d < 10. c = digit d"
proof (induction n rule: show_nat.induct)
  case (1 n)
  show ?case
  proof (cases "n < 10")
    case True
    then show ?thesis using 1(2) by (subst (asm) show_nat.simps) auto
  next
    case False
    then have "c \<in> set (show_nat (n div 10)) \<or> c = digit (n mod 10)"
      using 1(2) by (subst (asm) show_nat.simps) auto
    then show ?thesis using 1(1) False by (elim disjE) (auto intro: exI [of _ "n mod 10"])
  qed
qed

text \<open>What a reader makes of the digits: the number itself.\<close>

definition digit_value :: "char \<Rightarrow> nat" where
  "digit_value c = of_char c - 48"

definition read_nat :: "string \<Rightarrow> nat" where
  "read_nat s = foldl (\<lambda>n c. n * 10 + digit_value c) 0 s"

lemma digit_value_digit [simp]: "d < 10 \<Longrightarrow> digit_value (digit d) = d"
  by (simp add: digit_value_def digit_def)

lemma read_show_nat [simp]: "read_nat (show_nat n) = n"
proof (induction n rule: show_nat.induct)
  case (1 n)
  then show ?case by (subst show_nat.simps) (auto simp: read_nat_def)
qed

lemma show_nat_inject [simp]: "show_nat a = show_nat b \<longleftrightarrow> a = b"
  by (metis read_show_nat)

lemma math_round_bounds: "of_int (math_round x) - 1 / 2 \<le> x" "x < of_int (math_round x) + 1 / 2"
  unfolding math_round_def by linarith+

lemma math_round_of_int [simp]: "math_round (of_int i) = i"
  unfolding math_round_def by linarith

lemma math_round_mono: "x \<le> y \<Longrightarrow> math_round x \<le> math_round y"
  unfolding math_round_def by (intro floor_mono) simp

text \<open>Rounding to \<open>k\<close> decimals moves a value by at most half a unit of the last place.\<close>

lemma rounded_close: "\<bar>rounded k x - x\<bar> \<le> 1 / (2 * 10 ^ k)"
proof -
  let ?n = "math_round (\<bar>x\<bar> * 10 ^ k)"
  have "0 \<le> ?n" using math_round_mono [of 0 "\<bar>x\<bar> * 10 ^ k"] math_round_of_int [of 0] by simp
  then have n: "of_nat (fixed_digits k x) = (of_int ?n :: rat)" by (simp add: fixed_digits_def)
  have "\<bar>of_int ?n - \<bar>x\<bar> * 10 ^ k\<bar> \<le> 1 / 2" using math_round_bounds [of "\<bar>x\<bar> * 10 ^ k"] by linarith
  then have "\<bar>of_int ?n / 10 ^ k - \<bar>x\<bar>\<bar> \<le> 1 / (2 * 10 ^ k)"
    by (simp add: field_simps abs_le_iff)
  then show ?thesis unfolding rounded_def n by (cases "x < 0") (auto simp: abs_le_iff)
qed

lemma rounded_nonneg: "0 \<le> x \<Longrightarrow> 0 \<le> rounded k x"
  by (simp add: rounded_def)

lemma rounded_le_one: "0 \<le> x \<Longrightarrow> x \<le> 1 \<Longrightarrow> rounded k x \<le> 1"
proof -
  assume "0 \<le> x" and "x \<le> 1"
  then have "math_round (x * 10 ^ k) \<le> math_round (of_int (10 ^ k))" by (intro math_round_mono) simp
  then have "math_round (x * 10 ^ k) \<le> 10 ^ k" by (simp only: math_round_of_int)
  moreover have "0 \<le> math_round (x * 10 ^ k)"
    using math_round_mono [of 0 "x * 10 ^ k"] math_round_of_int [of 0] \<open>0 \<le> x\<close> by simp
  ultimately have "of_nat (fixed_digits k x) \<le> (10 ^ k :: rat)"
    using \<open>0 \<le> x\<close> by (simp add: fixed_digits_def)
  then show ?thesis using \<open>0 \<le> x\<close> by (simp add: rounded_def)
qed

end
