(* ===== verification/Utils.thy ===== *)
theory Utils
  imports Prelude
begin

section \<open>Pipeline utilities\<close>

text \<open>
  The helpers of \<open>src/packages/virage-core/src/core/utils.ts\<close>: retry with backoff, batching,
  path splitting, the classification of retryable errors. The two concurrency helpers
  (\<open>withConcurrency\<close> and \<open>Semaphore\<close>) are state machines and stand in theory \<open>Concurrency\<close>.

  A call of external code is a function from the state of the outside world to an outcome and
  the next state (\<open>'w \<Rightarrow> 'a result \<times> 'w\<close>), so that a retried call may fail first and
  succeed later. Sleeping is recorded as the list of waiting times.
\<close>

subsection \<open>Which errors are retried\<close>

definition is_digit :: "char \<Rightarrow> bool" where
  "is_digit c \<longleftrightarrow> (let n = of_char c :: nat in 48 \<le> n \<and> n \<le> 57)"

definition is_word_char :: "char \<Rightarrow> bool" where
  "is_word_char c \<longleftrightarrow>
     (let n = of_char c :: nat
      in is_digit c \<or> (65 \<le> n \<and> n \<le> 90) \<or> (97 \<le> n \<and> n \<le> 122) \<or> n = 95)"

text \<open>
  The first match of \<open>/\b4(\d{2})\b/\<close>; the first argument says whether the character before the
  current position is a word character.
\<close>

fun match_4xx :: "bool \<Rightarrow> string \<Rightarrow> string option" where
  "match_4xx pw (c # a # b # rest) =
     (if \<not> pw \<and> c = CHR ''4'' \<and> is_digit a \<and> is_digit b
         \<and> (case rest of [] \<Rightarrow> True | d # _ \<Rightarrow> \<not> is_word_char d)
      then Some [c, a, b]
      else match_4xx (is_word_char c) (a # b # rest))"
| "match_4xx pw _ = None"

definition defaultIsRetryable :: "js_error \<Rightarrow> bool" where
  "defaultIsRetryable err =
     (let msg = message err; lower = lower_case msg
      in if contains ''access denied'' lower \<or> contains ''forbidden'' lower
            \<or> contains ''unauthorized'' lower \<or> contains ''not found'' lower
         then False
         else (case match_4xx False msg of
                 Some m \<Rightarrow> m = ''429''
               | None \<Rightarrow> True))"

subsection \<open>Retry with exponential backoff\<close>

record retry_options =
  maxRetries :: "nat option"
  retryDelayMs :: "real option"
  retryBackoffFactor :: "real option"
  isRetryable :: "(js_error \<Rightarrow> bool) option"

definition no_retry_options :: retry_options where
  "no_retry_options = \<lparr>maxRetries = None, retryDelayMs = None, retryBackoffFactor = None, isRetryable = None\<rparr>"

definition nullish :: "'a option \<Rightarrow> 'a \<Rightarrow> 'a" where
  "nullish x d = (case x of None \<Rightarrow> d | Some v \<Rightarrow> v)"

lemma nullish_simps [simp]: "nullish None d = d" "nullish (Some v) d = v"
  by (simp_all add: nullish_def)

definition js_round :: "real \<Rightarrow> int" where
  "js_round x = \<lfloor>x + 1 / 2\<rfloor>"

text \<open>
  The loop of \<open>withRetry\<close> from attempt number \<open>attempt\<close>. \<open>lastErr\<close> is the variable of that
  name; it is \<open>None\<close> (undefined) only before the first attempt.
\<close>

function retry_loop ::
  "(js_error \<Rightarrow> bool) option \<Rightarrow> nat \<Rightarrow> real \<Rightarrow> real \<Rightarrow> ('w \<Rightarrow> 'a result \<times> 'w)
   \<Rightarrow> nat \<Rightarrow> js_error option \<Rightarrow> 'w \<Rightarrow> 'a result \<times> 'w \<times> int list" where
  "retry_loop retryable mx delay factor fn attempt lastErr w =
     (if attempt \<le> mx then
        (case fn w of
           (Inr x, w') \<Rightarrow> (Inr x, w', [])
         | (Inl e, w') \<Rightarrow>
             if (case retryable of None \<Rightarrow> False | Some p \<Rightarrow> \<not> p e) then (Inl e, w', [])
             else
               let (r, w'', waits) =
                     retry_loop retryable mx delay factor fn (Suc attempt) (Some e) w'
               in (r, w'',
                   (if attempt < mx then js_round (delay * factor ^ attempt) # waits else waits)))
      else (Inl (nullish lastErr (Err EError ''undefined'')), w, []))"
  by pat_completeness auto
termination
  by (relation "measure (\<lambda>(_, mx, _, _, _, attempt, _, _). Suc mx - attempt)") auto

declare retry_loop.simps [simp del]

text \<open>What every attempt establishes from a state in which attempts may start holds at the end.\<close>

lemma retry_loop_invariant:
  assumes step: "\<And>w r w'. P w \<Longrightarrow> fn w = (r, w') \<Longrightarrow> Q r w'"
    and again: "\<And>e w'. Q (Inl e) w' \<Longrightarrow> P w'"
  shows "attempt \<le> mx \<Longrightarrow> P w \<Longrightarrow>
    retry_loop retryable mx delay factor fn attempt lastErr w = (r, w', ws) \<Longrightarrow> Q r w'"
proof (induction "mx - attempt" arbitrary: attempt lastErr w ws)
  case 0
  obtain r1 w1 where run: "fn w = (r1, w1)" by (cases "fn w")
  have "\<not> Suc attempt \<le> mx" using 0 by simp
  then have "retry_loop retryable mx delay factor fn (Suc attempt) (Some e) w1 = (Inl e, w1, [])" for e
    by (simp add: retry_loop.simps nullish_def)
  then have "(r, w') = (r1, w1)"
    using 0 run by (subst (asm) (2) retry_loop.simps) (auto split: sum.splits if_splits)
  then show ?case using step [OF 0(3) run] by simp
next
  case (Suc n)
  obtain r1 w1 where run: "fn w = (r1, w1)" by (cases "fn w")
  have q: "Q r1 w1" using step [OF Suc.prems(2) run] .
  show ?case
  proof (cases r1)
    case (Inr x)
    then show ?thesis using Suc.prems(1,3) run q by (simp add: retry_loop.simps)
  next
    case (Inl e)
    have le: "Suc attempt \<le> mx" and n: "n = mx - Suc attempt" using Suc.hyps(2) by simp_all
    obtain r2 w2 ws2 where
      rest: "retry_loop retryable mx delay factor fn (Suc attempt) (Some e) w1 = (r2, w2, ws2)"
      by (cases "retry_loop retryable mx delay factor fn (Suc attempt) (Some e) w1")
    have "Q r2 w2 " if "(r, w') = (r2, w2)"
      using Suc.hyps(1) [OF n le again [OF q [unfolded Inl]], of "Some e" ws2] rest that by simp
    moreover have "(r, w') = (r1, w1) \<or> (r, w') = (r2, w2)"
      using Suc.prems(1,3) run Inl rest
      by (subst (asm) retry_loop.simps) (auto split: if_splits)
    ultimately show ?thesis using q by auto
  qed
qed

definition withRetry ::
  "retry_options \<Rightarrow> ('w \<Rightarrow> 'a result \<times> 'w) \<Rightarrow> 'w \<Rightarrow> 'a result \<times> 'w \<times> int list" where
  "withRetry opts fn w =
     retry_loop (isRetryable opts) (nullish (maxRetries opts) 3)
       (nullish (retryDelayMs opts) 1000) (nullish (retryBackoffFactor opts) 2) fn 0 None w"

lemma withRetry_invariant:
  assumes "\<And>w r w'. P w \<Longrightarrow> fn w = (r, w') \<Longrightarrow> Q r w'" and "\<And>e w'. Q (Inl e) w' \<Longrightarrow> P w'"
    and "P w" and "withRetry opts fn w = (r, w', ws)"
  shows "Q r w'"
  using retry_loop_invariant [of P fn Q, OF assms(1,2) _ assms(3) assms(4) [unfolded withRetry_def]]
  by simp

text \<open>The world before attempt \<open>k\<close>, when every attempt before it was made.\<close>

definition world_at :: "('w \<Rightarrow> 'a result \<times> 'w) \<Rightarrow> 'w \<Rightarrow> nat \<Rightarrow> 'w" where
  "world_at fn w k = ((\<lambda>v. snd (fn v)) ^^ k) w"

definition gives_up :: "(js_error \<Rightarrow> bool) option \<Rightarrow> 'a result \<Rightarrow> bool" where
  "gives_up retryable r =
     (case r of Inr _ \<Rightarrow> True
      | Inl e \<Rightarrow> (case retryable of None \<Rightarrow> False | Some p \<Rightarrow> \<not> p e))"

lemma world_at_0 [simp]: "world_at fn w 0 = w"
  by (simp add: world_at_def)

lemma world_at_Suc: "world_at fn w (Suc k) = world_at fn (snd (fn w)) k"
  by (simp add: world_at_def funpow_swap1 del: funpow.simps) (simp add: funpow_Suc_right del: funpow.simps)

text \<open>
  The loop from attempt \<open>a\<close> stops at the first attempt that succeeds or fails for good, and at
  attempt \<open>mx\<close> otherwise; it waits between two attempts, and only there.
\<close>

lemma retry_loop_spec:
  assumes "a \<le> mx"
  shows "\<exists>k. a + k \<le> mx
    \<and> (\<forall>j<k. \<not> gives_up retryable (fst (fn (world_at fn w j))))
    \<and> (gives_up retryable (fst (fn (world_at fn w k))) \<or> a + k = mx)
    \<and> retry_loop retryable mx delay factor fn a le w =
        (fst (fn (world_at fn w k)), snd (fn (world_at fn w k)),
         map (\<lambda>j. js_round (delay * factor ^ j)) [a..<a + k])"
  using assms
proof (induction "mx - a" arbitrary: a le w)
  case 0
  then have "a = mx" by simp
  obtain r w' where fw: "fn w = (r, w')" by force
  have "retry_loop retryable mx delay factor fn a le w = (r, w', [])"
  proof (cases r)
    case (Inr x)
    then show ?thesis using fw \<open>a = mx\<close> by (subst retry_loop.simps) simp
  next
    case (Inl e)
    have "retry_loop retryable mx delay factor fn (Suc mx) (Some e) w' = (Inl e, w', [])"
      by (subst retry_loop.simps) simp
    then show ?thesis using fw \<open>a = mx\<close> Inl by (subst retry_loop.simps) (simp split: option.splits)
  qed
  then show ?case using fw \<open>a = mx\<close> by (intro exI [of _ 0]) simp
next
  case (Suc d)
  obtain r w' where fw: "fn w = (r, w')" by force
  show ?case
  proof (cases "gives_up retryable r")
    case True
    then have "retry_loop retryable mx delay factor fn a le w = (r, w', [])"
      using fw Suc.prems
      by (subst retry_loop.simps) (auto simp: gives_up_def split: sum.splits option.splits)
    then show ?thesis using True fw Suc.prems by (intro exI [of _ 0]) simp
  next
    case False
    then obtain e where e: "r = Inl e" by (auto simp: gives_up_def split: sum.splits)
    have am: "a < mx" using Suc.hyps(2) by simp
    have "Suc a \<le> mx" and "d = mx - Suc a" using Suc.hyps(2) by simp_all
    then obtain k where k: "Suc a + k \<le> mx"
      "\<forall>j<k. \<not> gives_up retryable (fst (fn (world_at fn w' j)))"
      "gives_up retryable (fst (fn (world_at fn w' k))) \<or> Suc a + k = mx"
      "retry_loop retryable mx delay factor fn (Suc a) (Some e) w' =
        (fst (fn (world_at fn w' k)), snd (fn (world_at fn w' k)),
         map (\<lambda>j. js_round (delay * factor ^ j)) [Suc a..<Suc a + k])"
      using Suc.hyps(1) [of "Suc a" w' "Some e"] by blast
    have step: "world_at fn w (Suc j) = world_at fn w' j" for j
      using fw by (simp add: world_at_Suc)
    have lt: "\<forall>j<Suc k. \<not> gives_up retryable (fst (fn (world_at fn w j)))"
    proof (intro allI impI)
      fix j assume "j < Suc k"
      then show "\<not> gives_up retryable (fst (fn (world_at fn w j)))"
        using k(2) False fw step by (cases j) auto
    qed
    have "retry_loop retryable mx delay factor fn a le w =
        (fst (fn (world_at fn w' k)), snd (fn (world_at fn w' k)),
         js_round (delay * factor ^ a) # map (\<lambda>j. js_round (delay * factor ^ j)) [Suc a..<Suc a + k])"
      using fw e am False k(4)
      by (subst retry_loop.simps) (auto simp: gives_up_def split: option.splits)
    moreover have "[a..<a + Suc k] = a # [Suc a..<Suc a + k]"
      by (simp add: upt_conv_Cons)
    ultimately show ?thesis
      using k(1,3) lt step by (intro exI [of _ "Suc k"]) auto
  qed
qed

subsection \<open>Batching\<close>

text \<open>
  \<open>batchArray\<close>: a step of 0 on a non-empty array never reaches its end, so the loop is a
  partial function.
\<close>

partial_function (option) batch_from :: "'a list \<Rightarrow> nat \<Rightarrow> nat \<Rightarrow> 'a list list option" where
  "batch_from xs sz i =
     (if i < length xs
      then Option.bind (batch_from xs sz (i + sz)) (\<lambda>bs. Some (take sz (drop i xs) # bs))
      else Some [])"

definition batchArray :: "'a list \<Rightarrow> nat \<Rightarrow> 'a list list option" where
  "batchArray xs sz = batch_from xs sz 0"

lemma batch_from_pos:
  assumes "0 < sz"
  shows "\<exists>bs. batch_from xs sz i = Some bs \<and> concat bs = drop i xs
     \<and> (\<forall>b\<in>set bs. b \<noteq> [] \<and> length b \<le> sz) \<and> (\<forall>b\<in>set (butlast bs). length b = sz)"
proof (induction "length xs - i" arbitrary: i rule: less_induct)
  case less
  show ?case
  proof (cases "i < length xs")
    case False
    then show ?thesis by (simp add: batch_from.simps)
  next
    case True
    then have "length xs - (i + sz) < length xs - i" using assms by simp
    from less [OF this] obtain bs where bs: "batch_from xs sz (i + sz) = Some bs"
      "concat bs = drop (i + sz) xs" "\<forall>b\<in>set bs. b \<noteq> [] \<and> length b \<le> sz"
      "\<forall>b\<in>set (butlast bs). length b = sz" by blast
    let ?b = "take sz (drop i xs)"
    have eq: "batch_from xs sz i = Some (?b # bs)"
      using True bs(1) by (simp add: batch_from.simps [of xs sz i])
    have cat: "concat (?b # bs) = drop i xs"
      using bs(2) append_take_drop_id [of sz "drop i xs"] by (simp add: add.commute)
    have full: "bs \<noteq> [] \<Longrightarrow> length ?b = sz"
    proof -
      assume "bs \<noteq> []"
      then have "drop (i + sz) xs \<noteq> []" using bs(2,3) by (cases bs) auto
      then show ?thesis by simp
    qed
    have ne: "?b \<noteq> [] \<and> length ?b \<le> sz" using True assms by simp
    have "\<forall>b\<in>set (butlast (?b # bs)). length b = sz"
      using bs(4) full by auto
    moreover have "\<forall>b\<in>set (?b # bs). b \<noteq> [] \<and> length b \<le> sz"
      using bs(3) ne by simp
    ultimately show ?thesis using eq cat by blast
  qed
qed

lemma batch_from_zero: "i < length xs \<Longrightarrow> batch_from xs 0 i = None"
proof (rule ccontr)
  assume i: "i < length xs" and "batch_from xs 0 i \<noteq> None"
  then obtain bs where bs: "batch_from xs 0 i = Some bs" by blast
  have "batch_from xs 0 i = Option.bind (batch_from xs 0 i) (\<lambda>bs. Some (take 0 (drop i xs) # bs))"
    using i by (subst batch_from.simps) simp
  then show False using bs by simp
qed

text \<open>\<open>batchBySize\<close>; a \<open>maxSize\<close> of \<open>None\<close> is \<open>Infinity\<close>.\<close>

definition exceeds :: "nat \<Rightarrow> nat option \<Rightarrow> bool" where
  "exceeds n limit = (case limit of None \<Rightarrow> False | Some m \<Rightarrow> n > m)"

fun batch_loop ::
  "nat \<Rightarrow> ('a \<Rightarrow> nat) \<Rightarrow> nat option \<Rightarrow> 'a list \<Rightarrow> 'a list list \<Rightarrow> 'a list \<Rightarrow> nat \<Rightarrow> 'a list list" where
  "batch_loop maxItems getSize maxSize [] batches current currentSize =
     (if length current > 0 then batches @ [current] else batches)"
| "batch_loop maxItems getSize maxSize (item # items) batches current currentSize =
     (let sz = getSize item
      in if length current > 0
            \<and> (length current \<ge> maxItems \<or> exceeds (currentSize + sz) maxSize)
         then batch_loop maxItems getSize maxSize items (batches @ [current]) [item] (0 + sz)
         else batch_loop maxItems getSize maxSize items batches (current @ [item])
                (currentSize + sz))"

definition batchBySize ::
  "'a list \<Rightarrow> nat \<Rightarrow> ('a \<Rightarrow> nat) \<Rightarrow> nat option \<Rightarrow> 'a list list" where
  "batchBySize items maxItems getSize maxSize = batch_loop maxItems getSize maxSize items [] [] 0"

definition batch_ok :: "nat \<Rightarrow> ('a \<Rightarrow> nat) \<Rightarrow> nat option \<Rightarrow> 'a list \<Rightarrow> bool" where
  "batch_ok maxItems getSize maxSize b \<longleftrightarrow>
     b \<noteq> [] \<and> length b \<le> max 1 maxItems
     \<and> (length b = 1 \<or> \<not> exceeds (sum_list (map getSize b)) maxSize)"

lemma batch_loop_spec:
  assumes "\<forall>b\<in>set batches. batch_ok maxItems getSize maxSize b"
    and "current = [] \<or> batch_ok maxItems getSize maxSize current"
    and "currentSize = sum_list (map getSize current)"
  shows "concat (batch_loop maxItems getSize maxSize items batches current currentSize)
           = concat batches @ current @ items
       \<and> (\<forall>b\<in>set (batch_loop maxItems getSize maxSize items batches current currentSize).
            batch_ok maxItems getSize maxSize b)"
  using assms
proof (induction items arbitrary: batches current currentSize)
  case Nil
  then show ?case by auto
next
  case (Cons item items)
  show ?case
  proof (cases "length current > 0
      \<and> (length current \<ge> maxItems \<or> exceeds (currentSize + getSize item) maxSize)")
    case True
    have cur: "batch_ok maxItems getSize maxSize current" using True Cons.prems(2) by auto
    have one: "batch_ok maxItems getSize maxSize [item]" by (simp add: batch_ok_def)
    have bs: "\<forall>b\<in>set (batches @ [current]). batch_ok maxItems getSize maxSize b"
      using Cons.prems(1) cur by simp
    have step: "batch_loop maxItems getSize maxSize (item # items) batches current currentSize
        = batch_loop maxItems getSize maxSize items (batches @ [current]) [item] (getSize item)"
      using True by simp
    show ?thesis
      unfolding step using Cons.IH [OF bs, of "[item]" "getSize item"] one by simp
  next
    case False
    have ok: "batch_ok maxItems getSize maxSize (current @ [item])"
      using False Cons.prems(2,3) by (auto simp: batch_ok_def exceeds_def)
    have step: "batch_loop maxItems getSize maxSize (item # items) batches current currentSize
        = batch_loop maxItems getSize maxSize items batches (current @ [item])
            (currentSize + getSize item)"
      using False by (simp only: batch_loop.simps Let_def if_False)
    show ?thesis
      unfolding step
      using Cons.IH [OF Cons.prems(1), of "current @ [item]" "currentSize + getSize item"]
        ok Cons.prems(3) by simp
  qed
qed

lemma batchBySize_concat: "concat (batchBySize items maxItems getSize maxSize) = items"
  using batch_loop_spec [of "[]" maxItems getSize maxSize "[]" 0 items]
  by (simp add: batchBySize_def)

lemma batchBySize_ok:
  "b \<in> set (batchBySize items maxItems getSize maxSize) \<Longrightarrow> batch_ok maxItems getSize maxSize b"
  using batch_loop_spec [of "[]" maxItems getSize maxSize "[]" 0 items]
  by (simp add: batchBySize_def)

lemma batchBySize_Nil [simp]: "batchBySize [] maxItems getSize maxSize = []"
  by (simp add: batchBySize_def)

subsection \<open>Content hashes and paths\<close>

text \<open>The digest function of the platform (\<open>sha256\<close> as lower-case hex) is a parameter.\<close>

definition computeContentHash :: "(jstext \<Rightarrow> string) \<Rightarrow> jstext \<Rightarrow> string" where
  "computeContentHash sha256_hex content = take 16 (sha256_hex content)"

definition extractFileName :: "string \<Rightarrow> string" where
  "extractFileName filePath =
     (let popped = last (split_on CHR ''/'' filePath)
      in if popped = [] then filePath else popped)"

definition extractDirectory :: "string \<Rightarrow> string" where
  "extractDirectory filePath = join_with ''/'' (butlast (split_on CHR ''/'' filePath))"

lemma join_with_snoc: "ws \<noteq> [] \<Longrightarrow> join_with d (ws @ [w]) = join_with d ws @ d @ w"
proof (induction ws)
  case (Cons v ws)
  then show ?case by (cases ws) auto
qed simp

lemma split_on_single: "length (split_on d xs) = 1 \<longleftrightarrow> d \<notin> set xs"
proof (induction xs)
  case (Cons x xs)
  then show ?case by (cases "split_on d xs") auto
qed simp

subsection \<open>Properties\<close>

text \<open>
  C3. \<open>withRetry\<close> makes at most \<open>maxRetries + 1\<close> attempts (4 by default): it returns the outcome
  of the first attempt that succeeds or fails with an error the predicate rejects, otherwise
  the error of the last attempt, and it sleeps exactly between consecutive attempts, for
  \<open>round(delay * factor ^ j)\<close> milliseconds after attempt \<open>j\<close>.
\<close>

theorem withRetry_first_final_attempt:
  "\<exists>k \<le> nullish (maxRetries opts) 3.
     (\<forall>j<k. \<not> gives_up (isRetryable opts) (fst (fn (world_at fn w j))))
     \<and> (gives_up (isRetryable opts) (fst (fn (world_at fn w k)))
        \<or> k = nullish (maxRetries opts) 3)
     \<and> withRetry opts fn w =
        (fst (fn (world_at fn w k)), snd (fn (world_at fn w k)),
         map (\<lambda>j. js_round (nullish (retryDelayMs opts) 1000
                            * nullish (retryBackoffFactor opts) 2 ^ j)) [0..<k])"
  unfolding withRetry_def
  using retry_loop_spec [of 0 "nullish (maxRetries opts) 3" "isRetryable opts" fn w
      "nullish (retryDelayMs opts) 1000" "nullish (retryBackoffFactor opts) 2" None]
  by (simp add: conj_assoc)

definition flaky :: "nat \<Rightarrow> nat result \<times> nat" where
  "flaky w = (if w < 2 then Inl (Err EError ''timeout'') else Inr w, Suc w)"

lemma world_at_flaky: "world_at flaky w k = w + k"
  by (induction k arbitrary: w) (simp_all add: world_at_Suc flaky_def)

lemma withRetry_first_final_attempt_witness:
  "withRetry no_retry_options flaky 0 = (Inr 2, 3, [1000, 2000])"
proof -
  obtain k where k: "k \<le> 3" "\<forall>j<k. \<not> gives_up None (fst (flaky (world_at flaky 0 j)))"
      "gives_up None (fst (flaky (world_at flaky 0 k))) \<or> k = 3"
    and res: "withRetry no_retry_options flaky 0 =
        (fst (flaky (world_at flaky 0 k)), snd (flaky (world_at flaky 0 k)),
         map (\<lambda>j. js_round (1000 * 2 ^ j)) [0..<k])"
    using withRetry_first_final_attempt [of no_retry_options flaky 0]
    by (auto simp: no_retry_options_def nullish_def)
  have "\<not> 2 < k" using k(2) by (auto simp: world_at_flaky gives_up_def flaky_def)
  moreover have "2 \<le> k"
    using k(3) by (auto simp: world_at_flaky gives_up_def flaky_def split: if_splits)
  ultimately have "k = 2" by simp
  moreover have "js_round 1000 = 1000" "js_round 2000 = 2000"
    by (simp_all add: js_round_def floor_eq_iff)
  ultimately show ?thesis
    unfolding res by (simp add: world_at_flaky flaky_def upt_rec)
qed

end
