(* ===== verification/Concurrency.thy ===== *)
theory Concurrency
  imports Utils
begin

section \<open>The worker pool and the semaphore\<close>

text \<open>
  \<open>withConcurrency\<close> and \<open>Semaphore\<close> of \<open>src/packages/virage-core/src/core/utils.ts\<close> as state
  machines. JavaScript runs one piece of synchronous code at a time, so a step is what one
  worker (or one caller) does between two \<open>await\<close>s; which of them moves next is not
  determined. The relation allows every order of completion.
\<close>

subsection \<open>\<open>withConcurrency\<close>\<close>

text \<open>
  A worker is about to test the loop condition, awaits a task, has left the loop, or died on a
  rejected task. The outcome of the tasks (what each would return or throw) is a parameter of
  the relation. \<open>rejected\<close> is the first rejection, which settles \<open>Promise.all\<close>; the other
  workers go on.
\<close>

datatype worker = Looping | Awaiting nat | Returned | Died js_error

record 'a pool =
  nextIndex :: nat
  workers :: "worker list"
  results :: "'a option list"
  rejected :: "js_error option"

definition pool_init :: "'a result list \<Rightarrow> nat \<Rightarrow> 'a pool" where
  "pool_init tasks limit =
     \<lparr>nextIndex = 0, workers = replicate (min limit (length tasks)) Looping,
      results = replicate (length tasks) None, rejected = None\<rparr>"

inductive pool_step :: "'a result list \<Rightarrow> 'a pool \<Rightarrow> 'a pool \<Rightarrow> bool" for tasks where
  start_task:
    "i < length (workers s) \<Longrightarrow> workers s ! i = Looping \<Longrightarrow> nextIndex s < length tasks \<Longrightarrow>
     pool_step tasks s
       (s\<lparr>nextIndex := Suc (nextIndex s), workers := (workers s)[i := Awaiting (nextIndex s)]\<rparr>)"
| task_resolves:
    "i < length (workers s) \<Longrightarrow> workers s ! i = Awaiting t \<Longrightarrow> tasks ! t = Inr v \<Longrightarrow>
     pool_step tasks s
       (s\<lparr>workers := (workers s)[i := Looping], results := (results s)[t := Some v]\<rparr>)"
| task_rejects:
    "i < length (workers s) \<Longrightarrow> workers s ! i = Awaiting t \<Longrightarrow> tasks ! t = Inl e \<Longrightarrow>
     pool_step tasks s
       (s\<lparr>workers := (workers s)[i := Died e],
          rejected := (case rejected s of None \<Rightarrow> Some e | Some e' \<Rightarrow> Some e')\<rparr>)"
| leave_loop:
    "i < length (workers s) \<Longrightarrow> workers s ! i = Looping \<Longrightarrow> \<not> nextIndex s < length tasks \<Longrightarrow>
     pool_step tasks s (s\<lparr>workers := (workers s)[i := Returned]\<rparr>)"

text \<open>States reached after a number of steps.\<close>

inductive pool_reach :: "'a result list \<Rightarrow> nat \<Rightarrow> nat \<Rightarrow> 'a pool \<Rightarrow> bool" for tasks limit where
  pool_start: "pool_reach tasks limit 0 (pool_init tasks limit)"
| pool_next: "pool_reach tasks limit n s \<Longrightarrow> pool_step tasks s s' \<Longrightarrow> pool_reach tasks limit (Suc n) s'"

definition pool_outcome :: "'a pool \<Rightarrow> 'a option list result option" where
  "pool_outcome s =
     (case rejected s of
        Some e \<Rightarrow> Some (Inl e)
      | None \<Rightarrow> if list_all (\<lambda>w. w = Returned) (workers s) then Some (Inr (results s)) else None)"

text \<open>What the fields of a pool say about each other.\<close>

definition task_owned :: "'a result list \<Rightarrow> 'a pool \<Rightarrow> nat \<Rightarrow> bool" where
  "task_owned tasks s t \<longleftrightarrow>
     results s ! t \<noteq> None \<or> Awaiting t \<in> set (workers s) \<or> rejected s \<noteq> None"

text \<open>What the state of one worker implies, and that no task is awaited twice.\<close>

definition worker_ok :: "'a result list \<Rightarrow> 'a pool \<Rightarrow> worker \<Rightarrow> bool" where
  "worker_ok tasks s w =
     (case w of
        Looping \<Rightarrow> True
      | Awaiting t \<Rightarrow> t < nextIndex s \<and> results s ! t = None
      | Returned \<Rightarrow> nextIndex s = length tasks
      | Died e \<Rightarrow> rejected s \<noteq> None)"

definition awaits_once :: "worker list \<Rightarrow> bool" where
  "awaits_once ws \<longleftrightarrow>
     (\<forall>i<length ws. \<forall>j<length ws. \<forall>t. ws ! i = Awaiting t \<longrightarrow> ws ! j = Awaiting t \<longrightarrow> i = j)"

lemma nth_update_other: "xs[i := w] ! j = y \<Longrightarrow> w \<noteq> y \<Longrightarrow> j < length xs \<Longrightarrow> xs ! j = y"
  by (cases "i = j") auto

lemma awaits_once_update:
  assumes "awaits_once ws" and "\<And>t. w = Awaiting t \<Longrightarrow> Awaiting t \<notin> set ws"
  shows "awaits_once (ws[i := w])"
  unfolding awaits_once_def
proof (intro allI impI)
  fix j k t
  assume jk: "j < length (ws[i := w])" "k < length (ws[i := w])"
    "ws[i := w] ! j = Awaiting t" "ws[i := w] ! k = Awaiting t"
  have away: "ws ! n \<noteq> Awaiting t" if "w = Awaiting t" "n < length ws" for n
    using assms(2) that by (metis nth_mem)
  show "j = k"
  proof (cases "w = Awaiting t")
    case True
    then show ?thesis using jk away [OF True] by (cases "j = i"; cases "k = i") auto
  next
    case False
    have "j < length ws" "k < length ws" using jk(1,2) by simp_all
    moreover from this have "ws ! j = Awaiting t" "ws ! k = Awaiting t"
      using nth_update_other jk(3,4) False by metis+
    ultimately show ?thesis using assms(1) unfolding awaits_once_def by blast
  qed
qed

lemma awaits_once_other:
  "awaits_once ws \<Longrightarrow> i < length ws \<Longrightarrow> ws ! i = Awaiting t \<Longrightarrow> w \<noteq> Awaiting t \<Longrightarrow>
   Awaiting t \<notin> set (ws[i := w])"
  by (auto simp: awaits_once_def in_set_conv_nth nth_list_update)

definition pool_inv :: "'a result list \<Rightarrow> nat \<Rightarrow> 'a pool \<Rightarrow> bool" where
  "pool_inv tasks limit s \<longleftrightarrow>
     length (workers s) = min limit (length tasks)
     \<and> length (results s) = length tasks
     \<and> nextIndex s \<le> length tasks
     \<and> (\<forall>w\<in>set (workers s). worker_ok tasks s w)
     \<and> awaits_once (workers s)
     \<and> (\<forall>t<length tasks. \<forall>v. results s ! t = Some v \<longrightarrow> t < nextIndex s \<and> tasks ! t = Inr v)
     \<and> (\<forall>t<nextIndex s. task_owned tasks s t)"

lemma pool_invD:
  assumes "pool_inv tasks limit s"
  shows "length (workers s) = min limit (length tasks)"
    and "length (results s) = length tasks"
    and "nextIndex s \<le> length tasks"
    and "w \<in> set (workers s) \<Longrightarrow> worker_ok tasks s w"
    and "awaits_once (workers s)"
    and "t < length tasks \<Longrightarrow> results s ! t = Some v \<Longrightarrow> t < nextIndex s \<and> tasks ! t = Inr v"
    and "t < nextIndex s \<Longrightarrow> task_owned tasks s t"
  using assms unfolding pool_inv_def by blast+

lemma pool_awaiting:
  assumes "pool_inv tasks limit s" and "i < length (workers s)" and "workers s ! i = Awaiting t"
  shows "t < nextIndex s" "t < length tasks" "results s ! t = None"
proof -
  have "worker_ok tasks s (Awaiting t)" using assms pool_invD(4) by (metis nth_mem)
  then show "t < nextIndex s" "results s ! t = None" by (simp_all add: worker_ok_def)
  then show "t < length tasks" using pool_invD(3) [OF assms(1)] by simp
qed

lemma pool_inv_init: "pool_inv tasks limit (pool_init tasks limit)"
  by (auto simp: pool_inv_def pool_init_def worker_ok_def awaits_once_def)

lemma in_set_list_update: "i < length xs \<Longrightarrow> y \<in> set xs \<Longrightarrow> y \<noteq> xs ! i \<Longrightarrow> y \<in> set (xs[i := x])"
  by (metis in_set_conv_nth length_list_update nth_list_update_neq)

lemma task_owned_update:
  assumes "task_owned tasks s t" and "i < length (workers s)" and "workers s ! i \<noteq> Awaiting t"
    and "workers s' = (workers s)[i := w]"
    and "results s ! t \<noteq> None \<Longrightarrow> results s' ! t \<noteq> None" and "rejected s' = rejected s"
  shows "task_owned tasks s' t"
  using assms by (auto simp: task_owned_def intro: in_set_list_update)

lemma set_update_cases: "v \<in> set (xs[i := w]) \<Longrightarrow> v = w \<or> v \<in> set xs"
  using set_update_subset_insert [of xs i w] by blast

lemma pool_step_inv:
  assumes "pool_step tasks s s'" and inv: "pool_inv tasks limit s"
  shows "pool_inv tasks limit s'"
  using assms(1)
proof cases
  case (start_task i)
  let ?n = "nextIndex s"
  have none: "results s ! ?n = None"
    using pool_invD(6) [OF inv, of ?n] start_task by (cases "results s ! ?n") auto
  have fresh: "Awaiting ?n \<notin> set (workers s)"
    using pool_invD(4) [OF inv, of "Awaiting ?n"] by (auto simp: worker_ok_def)
  have wok: "worker_ok tasks s' v" if "v \<in> set (workers s')" for v
    using set_update_cases [of v "workers s" i "Awaiting ?n"] that start_task none
      pool_invD(4) [OF inv, of v]
    by (auto simp: worker_ok_def split: worker.splits)
  have own: "task_owned tasks s' t" if "t < Suc ?n" for t
  proof (cases "t = ?n")
    case True
    then show ?thesis using start_task by (auto simp: task_owned_def set_update_memI)
  next
    case False
    then have "task_owned tasks s t" using pool_invD(7) [OF inv] that by simp
    then show ?thesis by (rule task_owned_update) (use start_task in auto)
  qed
  have "awaits_once (workers s')"
    using start_task fresh awaits_once_update [OF pool_invD(5) [OF inv], of "Awaiting ?n" i] by simp
  then show ?thesis
    unfolding pool_inv_def using start_task wok own pool_invD(1-3) [OF inv] pool_invD(6) [OF inv]
    by (simp add: less_SucI)
next
  case (task_resolves i t v)
  note t = pool_awaiting [OF inv task_resolves(2,3)]
  have gone: "Awaiting t \<notin> set (workers s')"
    using task_resolves awaits_once_other [OF pool_invD(5) [OF inv]] by simp
  have wok: "worker_ok tasks s' w" if w: "w \<in> set (workers s')" for w
  proof -
    have "w \<noteq> Awaiting t" using gone w by auto
    then show ?thesis
      using set_update_cases [of w "workers s" i Looping] w task_resolves
        pool_invD(4) [OF inv, of w]
      by (auto simp: worker_ok_def nth_list_update split: worker.splits)
  qed
  have own: "task_owned tasks s' u" if "u < nextIndex s" for u
  proof (cases "u = t")
    case True
    then show ?thesis using task_resolves t pool_invD(2) [OF inv] by (simp add: task_owned_def)
  next
    case False
    have "task_owned tasks s u" using pool_invD(7) [OF inv] that by simp
    then show ?thesis by (rule task_owned_update) (use False task_resolves in auto)
  qed
  have "awaits_once (workers s')"
    using task_resolves awaits_once_update [OF pool_invD(5) [OF inv], of Looping i] by simp
  then show ?thesis
    unfolding pool_inv_def
    using task_resolves t wok own pool_invD(1-3) [OF inv] pool_invD(6) [OF inv]
    by (auto simp: nth_list_update)
next
  case (task_rejects i t e)
  have rej: "rejected s' \<noteq> None" using task_rejects by (simp split: option.splits)
  have wok: "worker_ok tasks s' w" if w: "w \<in> set (workers s')" for w
    using set_update_cases [of w "workers s" i "Died e"] w task_rejects rej
      pool_invD(4) [OF inv, of w]
    by (auto simp: worker_ok_def split: worker.splits)
  have "awaits_once (workers s')"
    using task_rejects awaits_once_update [OF pool_invD(5) [OF inv], of "Died e" i] by simp
  then show ?thesis
    unfolding pool_inv_def
    using task_rejects rej wok pool_invD(1-3) [OF inv] pool_invD(6) [OF inv]
    by (simp add: task_owned_def)
next
  case (leave_loop i)
  have wok: "worker_ok tasks s' w" if w: "w \<in> set (workers s')" for w
    using set_update_cases [of w "workers s" i Returned] w leave_loop pool_invD(3) [OF inv]
      pool_invD(4) [OF inv, of w]
    by (auto simp: worker_ok_def split: worker.splits)
  have own: "task_owned tasks s' u" if "u < nextIndex s" for u
  proof -
    have "task_owned tasks s u" using pool_invD(7) [OF inv] that by simp
    then show ?thesis by (rule task_owned_update) (use leave_loop in auto)
  qed
  have "awaits_once (workers s')"
    using leave_loop awaits_once_update [OF pool_invD(5) [OF inv], of Returned i] by simp
  then show ?thesis
    unfolding pool_inv_def using leave_loop wok own pool_invD(1-3) [OF inv] pool_invD(6) [OF inv]
    by simp
qed

lemma pool_reach_inv: "pool_reach tasks limit n s \<Longrightarrow> pool_inv tasks limit s"
  by (induction rule: pool_reach.induct) (auto intro: pool_inv_init pool_step_inv)

text \<open>Every step uses up a bounded amount of work.\<close>

fun worker_work :: "worker \<Rightarrow> nat" where
  "worker_work Looping = 1"
| "worker_work (Awaiting t) = 2"
| "worker_work Returned = 0"
| "worker_work (Died e) = 0"

definition pool_work :: "'a result list \<Rightarrow> 'a pool \<Rightarrow> nat" where
  "pool_work tasks s = 2 * (length tasks - nextIndex s) + sum_list (map worker_work (workers s))"

lemma sum_list_update_nat:
  fixes xs :: "nat list"
  shows "i < length xs \<Longrightarrow> sum_list (xs[i := y]) + xs ! i = sum_list xs + y"
  by (induction xs arbitrary: i) (auto split: nat.splits)

lemma worker_update_work:
  assumes "i < length ws"
  shows "sum_list (map worker_work (ws[i := w])) + worker_work (ws ! i)
       = sum_list (map worker_work ws) + worker_work w"
  using sum_list_update_nat [of i "map worker_work ws" "worker_work w"] assms
  by (simp add: map_update)

lemma pool_step_work: "pool_step tasks s s' \<Longrightarrow> pool_work tasks s' < pool_work tasks s"
proof (induction rule: pool_step.induct)
  case (start_task i s)
  then show ?case
    using worker_update_work [of i "workers s" "Awaiting (nextIndex s)"] by (simp add: pool_work_def)
next
  case (task_resolves i s t v)
  then show ?case using worker_update_work [of i "workers s" Looping] by (simp add: pool_work_def)
next
  case (task_rejects i s t e)
  then show ?case using worker_update_work [of i "workers s" "Died e"] by (simp add: pool_work_def)
next
  case (leave_loop i s)
  then show ?case using worker_update_work [of i "workers s" Returned] by (simp add: pool_work_def)
qed

lemma pool_reach_work:
  "pool_reach tasks limit n s \<Longrightarrow>
   n + pool_work tasks s \<le> 2 * length tasks + min limit (length tasks)"
proof (induction rule: pool_reach.induct)
  case pool_start
  show ?case by (simp add: pool_work_def pool_init_def sum_list_replicate)
next
  case (pool_next n s s')
  then show ?case using pool_step_work [of tasks s s'] by linarith
qed

lemma pool_stuck_outcome:
  assumes inv: "pool_inv tasks limit s" and stuck: "\<forall>s'. \<not> pool_step tasks s s'"
  shows "pool_outcome s \<noteq> None"
proof (cases "rejected s")
  case (Some e)
  then show ?thesis by (simp add: pool_outcome_def)
next
  case None
  have "workers s ! i = Returned" if i: "i < length (workers s)" for i
  proof (cases "workers s ! i")
    case Looping
    have "nextIndex s < length tasks \<or> \<not> nextIndex s < length tasks" by simp
    then show ?thesis
      using stuck pool_step.start_task [OF i Looping] pool_step.leave_loop [OF i Looping] by blast
  next
    case (Awaiting t)
    show ?thesis
    proof (cases "tasks ! t")
      case (Inl e)
      then show ?thesis using stuck pool_step.task_rejects [OF i Awaiting Inl] by blast
    next
      case (Inr v)
      then show ?thesis using stuck pool_step.task_resolves [OF i Awaiting Inr] by blast
    qed
  next
    case (Died e)
    then have "worker_ok tasks s (Died e)" using pool_invD(4) [OF inv] i by (metis nth_mem)
    then show ?thesis using None by (simp add: worker_ok_def)
  qed simp
  then show ?thesis using None by (simp add: pool_outcome_def list_all_length)
qed

lemma pool_results:
  assumes inv: "pool_inv tasks limit s" and pos: "0 < limit"
    and out: "pool_outcome s = Some (Inr rs)"
  shows "map Inr (map the rs) = tasks \<and> None \<notin> set rs"
proof -
  have rej: "rejected s = None" and rs: "rs = results s"
    and ret: "\<forall>i<length (workers s). workers s ! i = Returned"
    using out by (auto simp: pool_outcome_def list_all_length split: option.splits if_splits)
  have len: "length rs = length tasks" using pool_invD(2) [OF inv] rs by simp
  have slot: "\<exists>v. rs ! t = Some v \<and> tasks ! t = Inr v" if t: "t < length tasks" for t
  proof -
    have "0 < length (workers s)" using pool_invD(1) [OF inv] pos t by (cases tasks) auto
    then have "Returned \<in> set (workers s)" using ret by (metis nth_mem)
    then have "nextIndex s = length tasks"
      using pool_invD(4) [OF inv] by (fastforce simp: worker_ok_def)
    then have "task_owned tasks s t" using pool_invD(7) [OF inv] t by simp
    moreover have "Awaiting t \<notin> set (workers s)" using ret by (auto simp: in_set_conv_nth)
    ultimately obtain v where "rs ! t = Some v" using rej rs by (auto simp: task_owned_def)
    then show ?thesis using pool_invD(6) [OF inv t] rs by simp
  qed
  have "map Inr (map the rs) = tasks" using slot len by (intro nth_equalityI) fastforce+
  moreover have "None \<notin> set rs" using slot len by (auto simp: in_set_conv_nth)
  ultimately show ?thesis ..
qed

subsection \<open>\<open>Semaphore\<close>\<close>

text \<open>
  The waiters are the resolvers queued by \<open>acquire\<close>, named here by the caller they resume.
  \<open>acquire\<close> tells whether the caller goes on at once, \<open>release\<close> which waiter is resumed.
\<close>

record 'h semaphore =
  permits :: nat
  waiters :: "'h list"

definition new_semaphore :: "nat \<Rightarrow> 'h semaphore" where
  "new_semaphore initialPermits = \<lparr>permits = initialPermits, waiters = []\<rparr>"

definition acquire :: "'h \<Rightarrow> 'h semaphore \<Rightarrow> bool \<times> 'h semaphore" where
  "acquire h s =
     (if permits s > 0 then (True, s\<lparr>permits := permits s - 1\<rparr>)
      else (False, s\<lparr>waiters := waiters s @ [h]\<rparr>))"

definition release :: "'h semaphore \<Rightarrow> 'h option \<times> 'h semaphore" where
  "release s =
     (case waiters s of
        w # ws \<Rightarrow> (Some w, s\<lparr>waiters := ws\<rparr>)
      | [] \<Rightarrow> (None, s\<lparr>permits := permits s + 1\<rparr>))"

text \<open>The callers that hold a permit, together with the semaphore.\<close>

record 'h sem_system =
  sem :: "'h semaphore"
  holders :: "'h list"

inductive sem_step :: "'h sem_system \<Rightarrow> 'h sem_system \<Rightarrow> bool" where
  acquire_granted:
    "h \<notin> set (holders s) \<Longrightarrow> h \<notin> set (waiters (sem s)) \<Longrightarrow> acquire h (sem s) = (True, m) \<Longrightarrow>
     sem_step s \<lparr>sem = m, holders = holders s @ [h]\<rparr>"
| acquire_blocks:
    "h \<notin> set (holders s) \<Longrightarrow> h \<notin> set (waiters (sem s)) \<Longrightarrow> acquire h (sem s) = (False, m) \<Longrightarrow>
     sem_step s \<lparr>sem = m, holders = holders s\<rparr>"
| release_wakes:
    "h \<in> set (holders s) \<Longrightarrow> release (sem s) = (Some w, m) \<Longrightarrow>
     sem_step s \<lparr>sem = m, holders = remove1 h (holders s) @ [w]\<rparr>"
| release_returns:
    "h \<in> set (holders s) \<Longrightarrow> release (sem s) = (None, m) \<Longrightarrow>
     sem_step s \<lparr>sem = m, holders = remove1 h (holders s)\<rparr>"

inductive_cases sem_stepE: "sem_step s s'"

inductive sem_reach :: "nat \<Rightarrow> 'h sem_system \<Rightarrow> bool" for n where
  sem_init: "sem_reach n \<lparr>sem = new_semaphore n, holders = []\<rparr>"
| sem_next: "sem_reach n s \<Longrightarrow> sem_step s s' \<Longrightarrow> sem_reach n s'"

definition sem_inv :: "nat \<Rightarrow> 'h sem_system \<Rightarrow> bool" where
  "sem_inv n s \<longleftrightarrow>
     permits (sem s) + length (holders s) = n
     \<and> (waiters (sem s) \<noteq> [] \<longrightarrow> permits (sem s) = 0)
     \<and> distinct (holders s @ waiters (sem s))"

lemma sem_step_inv: "sem_step s s' \<Longrightarrow> sem_inv n s \<Longrightarrow> sem_inv n s'"
proof (induction rule: sem_step.induct)
  case (acquire_granted h s m)
  then show ?case by (auto simp: sem_inv_def acquire_def split: if_splits)
next
  case (acquire_blocks h s m)
  then show ?case by (auto simp: sem_inv_def acquire_def split: if_splits)
next
  case (release_wakes h s w m)
  then have "length (remove1 h (holders s)) = length (holders s) - 1" "0 < length (holders s)"
    by (auto simp: length_remove1)
  then show ?case using release_wakes
    by (auto simp: sem_inv_def release_def split: list.splits dest: notin_set_remove1)
next
  case (release_returns h s m)
  then have "length (remove1 h (holders s)) = length (holders s) - 1" "0 < length (holders s)"
    by (auto simp: length_remove1)
  then show ?case using release_returns
    by (auto simp: sem_inv_def release_def split: list.splits)
qed

lemma sem_reach_inv: "sem_reach n s \<Longrightarrow> sem_inv n s"
proof (induction rule: sem_reach.induct)
  case sem_init
  show ?case by (simp add: sem_inv_def new_semaphore_def)
next
  case (sem_next s s')
  then show ?case by (blast intro: sem_step_inv)
qed

subsection \<open>Properties\<close>



text \<open>
  C5. The pool never awaits more than \<open>limit\<close> tasks, never awaits a task twice nor one that has
  already produced its result; it stops after at most \<open>2 n + min limit n\<close> steps, and a pool
  that can make no further step has an outcome (there is no deadlock).
\<close>

theorem withConcurrency_bounded_and_live:
  assumes "pool_reach tasks limit n s"
  shows "length (filter (\<lambda>w. \<exists>t. w = Awaiting t) (workers s)) \<le> limit
    \<and> (\<forall>i<length (workers s). \<forall>j<length (workers s). \<forall>t.
          workers s ! i = Awaiting t \<and> workers s ! j = Awaiting t \<longrightarrow> i = j \<and> results s ! t = None)
    \<and> n \<le> 2 * length tasks + min limit (length tasks)
    \<and> ((\<forall>s'. \<not> pool_step tasks s s') \<longrightarrow> pool_outcome s \<noteq> None)"
proof (intro conjI)
  have inv: "pool_inv tasks limit s" using assms by (rule pool_reach_inv)
  show "length (filter (\<lambda>w. \<exists>t. w = Awaiting t) (workers s)) \<le> limit"
    using inv length_filter_le [of "\<lambda>w. \<exists>t. w = Awaiting t" "workers s"]
    using pool_invD(1) [OF inv] by simp
  show "\<forall>i<length (workers s). \<forall>j<length (workers s). \<forall>t.
      workers s ! i = Awaiting t \<and> workers s ! j = Awaiting t \<longrightarrow> i = j \<and> results s ! t = None"
    using pool_invD(5) [OF inv] pool_awaiting [OF inv] unfolding awaits_once_def by blast
  show "n \<le> 2 * length tasks + min limit (length tasks)"
    using pool_reach_work [OF assms] by linarith
  show "(\<forall>s'. \<not> pool_step tasks s s') \<longrightarrow> pool_outcome s \<noteq> None"
    using pool_stuck_outcome [OF inv] by blast
qed

theorem withConcurrency_bounded_and_live_witness:
  "length (filter (\<lambda>w. \<exists>t. w = Awaiting t)
      (workers (pool_init [Inr (7::nat), Inr 8] 1))) \<le> 1"
  using withConcurrency_bounded_and_live [OF pool_start [of "[Inr (7::nat), Inr 8]" 1]] by blast



end
