(* ===== verification/Float32.thy ===== *)
theory Float32
  imports Prelude
begin

section \<open>Vectors stored as 32-bit floats\<close>

text \<open>
  Embedding vectors are arrays of JavaScript numbers; \<open>virage-db.ts\<close> stores them through
  \<open>Float32Array\<close>, which rounds every component to the nearest IEEE-754 binary32 value (ties to
  even, overflow to infinity, gradual underflow). A number is a rational, an infinity or NaN;
  the two zeros are one. The blob is the list of the binary32 values its bytes encode.
\<close>

datatype jsnum = Fin rat | PosInf | NegInf | NaN

definition round_half_even :: "rat \<Rightarrow> int" where
  "round_half_even x =
     (let f = \<lfloor>x\<rfloor>; d = x - of_int f
      in if d < 1 / 2 then f
         else if d > 1 / 2 then f + 1
         else if even f then f else f + 1)"

text \<open>
  The unit in the last place of the binade of \<open>a\<close>: the least \<open>q \<ge> -149\<close> with
  \<open>a < 2 ^ (q + 24)\<close>, up to 104. The first argument counts the candidates left.
\<close>

fun f32_quantum :: "nat \<Rightarrow> int \<Rightarrow> rat \<Rightarrow> int option" where
  "f32_quantum 0 q a = None"
| "f32_quantum (Suc n) q a = (if a < 2 powi (q + 24) then Some q else f32_quantum n (q + 1) a)"

fun fround :: "jsnum \<Rightarrow> jsnum" where
  "fround (Fin x) =
     (case f32_quantum 254 (-149) \<bar>x\<bar> of
        None \<Rightarrow> (if x > 0 then PosInf else NegInf)
      | Some q \<Rightarrow>
          let r = of_int (round_half_even (x / 2 powi q)) * 2 powi q
          in if \<bar>r\<bar> \<ge> 2 powi 128 then (if x > 0 then PosInf else NegInf) else Fin r)"
| "fround v = v"

definition vectorToBlob :: "jsnum list \<Rightarrow> jsnum list" where
  "vectorToBlob v = map fround v"

definition blobToVector :: "jsnum list \<Rightarrow> jsnum list" where
  "blobToVector b = b"

subsection \<open>Rounding to an integer\<close>

lemma round_half_even_int [simp]: "round_half_even (of_int k) = k"
  by (simp add: round_half_even_def)

lemma round_half_even_near: "\<bar>of_int (round_half_even x) - x\<bar> \<le> 1 / 2"
proof -
  have "of_int \<lfloor>x\<rfloor> \<le> x" "x < of_int \<lfloor>x\<rfloor> + 1"
    using floor_correct [of x] by simp_all
  then show ?thesis unfolding round_half_even_def Let_def by (auto simp: abs_le_iff)
qed

lemma round_half_even_le:
  assumes "x \<le> of_int n"
  shows "round_half_even x \<le> n"
proof (cases "x = of_int n")
  case False
  then have "\<lfloor>x\<rfloor> < n" using assms by (simp add: floor_less_iff)
  then show ?thesis by (auto simp: round_half_even_def Let_def)
qed simp

lemma round_half_even_ge:
  assumes "of_int n \<le> x"
  shows "n \<le> round_half_even x"
proof -
  have "n \<le> \<lfloor>x\<rfloor>" using assms by (simp add: le_floor_iff)
  then show ?thesis by (auto simp: round_half_even_def Let_def)
qed

lemma round_half_even_abs_le:
  assumes "\<bar>x\<bar> \<le> of_int n"
  shows "\<bar>round_half_even x\<bar> \<le> n"
  using round_half_even_le [of x n] round_half_even_ge [of "- n" x] assms
  by (auto simp: abs_le_iff)

subsection \<open>The quantum\<close>

lemma powi_pos [simp]: "(2 :: rat) powi q > 0"
  by (simp add: zero_less_power_int)

lemma powi_Suc: "(2 :: rat) powi (q + 1) = 2 * 2 powi q"
  by (simp add: power_int_add)

lemma powi_mono: "p \<le> q \<Longrightarrow> (2 :: rat) powi p \<le> 2 powi q"
  by (simp add: power_int_increasing)

lemma f32_quantum_Some:
  assumes "f32_quantum n q a = Some r"
  shows "q \<le> r \<and> r < q + int n \<and> a < 2 powi (r + 24) \<and> (r = q \<or> 2 powi (r + 23) \<le> a)"
  using assms
proof (induction n arbitrary: q)
  case (Suc n)
  show ?case
  proof (cases "a < 2 powi (q + 24)")
    case True
    then show ?thesis using Suc.prems by simp
  next
    case False
    then have "f32_quantum n (q + 1) a = Some r" using Suc.prems by simp
    from Suc.IH [OF this] False show ?thesis by (auto simp: algebra_simps)
  qed
qed simp

lemma f32_quantum_exists:
  assumes "a < 2 powi (r + 24)" and "q \<le> r" and "r < q + int n"
  shows "\<exists>q'. f32_quantum n q a = Some q' \<and> q' \<le> r"
  using assms
proof (induction n arbitrary: q)
  case (Suc n)
  show ?case
  proof (cases "a < 2 powi (q + 24)")
    case True
    then show ?thesis using Suc.prems by simp
  next
    case False
    then have "q \<noteq> r" using Suc.prems by auto
    then show ?thesis using Suc.IH [of "q + 1"] Suc.prems False by auto
  qed
qed simp

text \<open>A value that is a multiple of its quantum is left as it is.\<close>

lemma fround_multiple:
  assumes q: "f32_quantum 254 (-149) \<bar>r\<bar> = Some q'" and r: "r = of_int m * 2 powi q"
    and le: "q' \<le> q" and small: "\<bar>r\<bar> < 2 powi 128"
  shows "fround (Fin r) = Fin r"
proof -
  have "r / 2 powi q' = of_int m * 2 powi (q - q')"
    by (simp add: r power_int_diff)
  also have "\<dots> = of_int (m * 2 ^ nat (q - q'))"
    using le by (simp add: power_int_def)
  finally have "r / 2 powi q' = of_int (m * 2 ^ nat (q - q'))" .
  then have "of_int (round_half_even (r / 2 powi q')) * 2 powi q' = r"
    by (metis round_half_even_int nonzero_eq_divide_eq powi_pos less_irrefl)
  then show ?thesis using q small by (simp add: Let_def)
qed

lemma fround_Fin_cases:
  assumes "fround (Fin x) = Fin r"
  obtains q k where "f32_quantum 254 (-149) \<bar>x\<bar> = Some q"
    and "k = round_half_even (x / 2 powi q)" and "r = of_int k * 2 powi q" and "\<bar>r\<bar> < 2 powi 128"
  using assms by (auto simp: Let_def split: option.splits if_splits)

lemma fround_idem_Fin:
  assumes "fround (Fin x) = Fin r"
  shows "fround (Fin r) = Fin r"
proof -
  obtain q k where q: "f32_quantum 254 (-149) \<bar>x\<bar> = Some q"
    and k: "k = round_half_even (x / 2 powi q)"
    and r: "r = of_int k * 2 powi q" and small: "\<bar>r\<bar> < 2 powi 128"
    using assms by (rule fround_Fin_cases)
  have qq: "-149 \<le> q" "q < 105" "\<bar>x\<bar> < 2 powi (q + 24)" using f32_quantum_Some [OF q] by auto
  have "\<bar>x / 2 powi q\<bar> < 2 ^ 24"
    using qq(3) by (simp add: power_int_add pos_divide_less_eq)
  then have kb: "\<bar>k\<bar> \<le> 2 ^ 24" unfolding k by (intro round_half_even_abs_le) simp
  have absr: "\<bar>r\<bar> = of_int \<bar>k\<bar> * 2 powi q" by (simp add: r abs_mult)
  show ?thesis
  proof (cases "\<bar>k\<bar> = 2 ^ 24")
    case False
    then have "\<bar>k\<bar> < 2 ^ 24" using kb by simp
    then have "of_int \<bar>k\<bar> < (of_int (2 ^ 24) :: rat)" by (simp only: of_int_less_iff)
    then have "\<bar>r\<bar> < 2 powi (q + 24)" by (simp add: absr power_int_add mult.commute)
    then obtain q' where "f32_quantum 254 (-149) \<bar>r\<bar> = Some q'" "q' \<le> q"
      using f32_quantum_exists [of "\<bar>r\<bar>" q "-149" 254] qq by auto
    then show ?thesis using fround_multiple r small by blast
  next
    case True
    then have ar: "\<bar>r\<bar> = 2 powi (q + 24)" by (simp add: absr power_int_add mult.commute)
    then have "q + 24 < 128"
      using small powi_mono [of 128 "q + 24"] by (metis linorder_not_le)
    then have "q + 1 < 105" by simp
    moreover have "\<bar>r\<bar> < 2 powi ((q + 1) + 24)" using ar powi_Suc [of "q + 24"] by (simp add: algebra_simps)
    ultimately obtain q' where q': "f32_quantum 254 (-149) \<bar>r\<bar> = Some q'" "q' \<le> q + 1"
      using f32_quantum_exists [of "\<bar>r\<bar>" "q + 1" "-149" 254] qq by auto
    have "k = 16777216 \<or> k = - 16777216" using True by auto
    then have "k = 2 * (k div 2)" by auto
    then have "of_int k = (2 :: rat) * of_int (k div 2)"
      by (metis of_int_mult of_int_numeral)
    then have "r = of_int (k div 2) * 2 powi (q + 1)" by (simp add: r powi_Suc)
    then show ?thesis using fround_multiple q' small by blast
  qed
qed

lemma fround_idem [simp]: "fround (fround v) = fround v"
proof (cases v)
  case (Fin x)
  show ?thesis
  proof (cases "fround (Fin x)")
    case (Fin r)
    then show ?thesis using fround_idem_Fin \<open>v = Fin x\<close> by simp
  qed (use Fin in simp_all)
qed simp_all

lemma blob_roundtrip: "blobToVector (vectorToBlob v) = map fround v"
  by (simp add: blobToVector_def vectorToBlob_def)

lemma blob_stable [simp]: "vectorToBlob (blobToVector (vectorToBlob v)) = vectorToBlob v"
  by (simp add: blobToVector_def vectorToBlob_def)

subsection \<open>Properties\<close>

text \<open>
  C7. A vector read back from the database is off by at most the rounding of binary32 in each
  component: a relative error of at most \<open>2 ^ -24\<close>, or an absolute error of at most \<open>2 ^ -150\<close>
  where the value is subnormal.
\<close>

theorem stored_component_error:
  assumes "blobToVector (vectorToBlob [Fin x]) = [Fin r]"
  shows "\<bar>r - x\<bar> \<le> max (\<bar>x\<bar> * 2 powi (-24)) (2 powi (-150))"
proof -
  have "fround (Fin x) = Fin r" using assms by (simp only: blob_roundtrip list.map list.inject)
  then obtain q k where q: "f32_quantum 254 (-149) \<bar>x\<bar> = Some q"
    and k: "k = round_half_even (x / 2 powi q)" and r: "r = of_int k * 2 powi q"
    by (rule fround_Fin_cases)
  have "r - x = (of_int k - x / 2 powi q) * 2 powi q" by (simp add: r left_diff_distrib)
  then have "\<bar>r - x\<bar> = \<bar>of_int k - x / 2 powi q\<bar> * 2 powi q" by (simp add: abs_mult)
  also have "\<dots> \<le> 1 / 2 * 2 powi q"
    unfolding k by (intro mult_right_mono round_half_even_near) simp
  finally have err: "\<bar>r - x\<bar> \<le> 2 powi (q - 1)" by (simp add: power_int_diff)
  consider "q = -149" | "2 powi (q + 23) \<le> \<bar>x\<bar>" using f32_quantum_Some [OF q] by blast
  then show ?thesis
  proof cases
    case 1
    then have "q - 1 = -150" by simp
    then have "\<bar>r - x\<bar> \<le> 2 powi (-150)" using err by (simp only:)
    then show ?thesis by (rule max.coboundedI2)
  next
    case 2
    have "2 powi (q - 1) = 2 powi (q + 23) * (2 :: rat) powi (-24)"
      using power_int_add [of "2 :: rat" "q + 23" "-24"] by simp
    also have "\<dots> \<le> \<bar>x\<bar> * 2 powi (-24)" using 2 by (intro mult_right_mono) simp_all
    finally have "\<bar>r - x\<bar> \<le> \<bar>x\<bar> * 2 powi (-24)" using err by (rule order_trans [rotated])
    then show ?thesis by (rule max.coboundedI1)
  qed
qed

theorem stored_component_error_witness:
  "blobToVector (vectorToBlob [Fin (1 / 10)]) = [Fin (13421773 / 134217728)]
   \<and> \<bar>13421773 / 134217728 - 1 / 10\<bar> \<le> max (\<bar>1 / 10\<bar> * 2 powi (-24)) ((2 :: rat) powi (-150))"
proof -
  have h: "blobToVector (vectorToBlob [Fin (1 / 10)]) = [Fin (13421773 / 134217728)]"
    by code_simp
  show ?thesis using h stored_component_error [OF h] by (rule conjI)
qed

end
