(* ===== verification/SqlTable.thy ===== *)
theory SqlTable
  imports Prelude "HOL-Library.Char_ord" "HOL-Library.List_Lexorder" "HOL-Library.Multiset"
begin

section \<open>SQL tables\<close>

text \<open>
  The statements \<open>virage-db.ts\<close> sends to SQLite, as operations on tables. A table is the list
  of its rows in \<open>rowid\<close> order: a new row is appended, an updated row keeps its place, and a
  replaced row is deleted and appended. The primary key is a function of the row. A query
  without \<open>ORDER BY\<close> lists rows in that order; text compares bytewise (\<open>BINARY\<close> collation),
  which is the lexicographic order of strings.
\<close>

definition get_row :: "('r \<Rightarrow> 'k) \<Rightarrow> 'k \<Rightarrow> 'r list \<Rightarrow> 'r option" where
  "get_row key k t = find (\<lambda>r. key r = k) t"

definition insert_or_ignore :: "('r \<Rightarrow> 'k) \<Rightarrow> 'r \<Rightarrow> 'r list \<Rightarrow> 'r list" where
  "insert_or_ignore key r t = (if key r \<in> key ` set t then t else t @ [r])"

definition insert_or_replace :: "('r \<Rightarrow> 'k) \<Rightarrow> 'r \<Rightarrow> 'r list \<Rightarrow> 'r list" where
  "insert_or_replace key r t = filter (\<lambda>x. key x \<noteq> key r) t @ [r]"

text \<open>\<open>INSERT ... ON CONFLICT(key) DO UPDATE\<close>: \<open>f\<close> updates the row in place.\<close>

definition upsert_row :: "('r \<Rightarrow> 'k) \<Rightarrow> 'r \<Rightarrow> ('r \<Rightarrow> 'r) \<Rightarrow> 'r list \<Rightarrow> 'r list" where
  "upsert_row key r f t =
     (if key r \<in> key ` set t then map (\<lambda>x. if key x = key r then f x else x) t else t @ [r])"

definition update_where :: "('r \<Rightarrow> bool) \<Rightarrow> ('r \<Rightarrow> 'r) \<Rightarrow> 'r list \<Rightarrow> 'r list" where
  "update_where P f t = map (\<lambda>x. if P x then f x else x) t"

definition delete_where :: "('r \<Rightarrow> bool) \<Rightarrow> 'r list \<Rightarrow> 'r list" where
  "delete_where P t = filter (\<lambda>x. \<not> P x) t"

definition order_by_asc :: "('r \<Rightarrow> 'o::linorder) \<Rightarrow> 'r list \<Rightarrow> 'r list" where
  "order_by_asc k t = sort_key k t"

definition order_by_desc :: "('r \<Rightarrow> 'o::linorder) \<Rightarrow> 'r list \<Rightarrow> 'r list" where
  "order_by_desc k t = rev (sort_key k (rev t))"

abbreviation keyed :: "('r \<Rightarrow> 'k) \<Rightarrow> 'r list \<Rightarrow> bool" where
  "keyed key t \<equiv> distinct (map key t)"

named_theorems sql_keyed \<open>Statements keep the primary key unique\<close>
named_theorems sql_get \<open>What a statement makes of a lookup by primary key\<close>

subsection \<open>The primary key stays unique\<close>

lemma keyed_Nil [sql_keyed]: "keyed key []"
  by simp

lemma keyed_filter [sql_keyed]: "keyed key t \<Longrightarrow> keyed key (filter P t)"
  by (rule distinct_map_filter)

lemma keyed_delete [sql_keyed]: "keyed key t \<Longrightarrow> keyed key (delete_where P t)"
  unfolding delete_where_def by (rule distinct_map_filter)

lemma keyed_insert_or_ignore [sql_keyed]: "keyed key t \<Longrightarrow> keyed key (insert_or_ignore key r t)"
  by (auto simp: insert_or_ignore_def)

lemma keyed_insert_or_replace [sql_keyed]: "keyed key t \<Longrightarrow> keyed key (insert_or_replace key r t)"
  by (auto simp: insert_or_replace_def distinct_map_filter)

lemma map_key_update_where:
  "(\<And>x. P x \<Longrightarrow> key (f x) = key x) \<Longrightarrow> map key (update_where P f t) = map key t"
  by (simp add: update_where_def)

lemma keyed_update_where [sql_keyed]:
  "(\<And>x. P x \<Longrightarrow> key (f x) = key x) \<Longrightarrow> keyed key t \<Longrightarrow> keyed key (update_where P f t)"
  by (simp add: map_key_update_where)

lemma keyed_upsert [sql_keyed]:
  assumes "\<And>x. key x = key r \<Longrightarrow> key (f x) = key x" and "keyed key t"
  shows "keyed key (upsert_row key r f t)"
proof (cases "key r \<in> key ` set t")
  case True
  have "map key (map (\<lambda>x. if key x = key r then f x else x) t) = map key t"
    using assms(1) by simp
  then show ?thesis using True assms(2) by (simp add: upsert_row_def del: map_map)
next
  case False
  then show ?thesis using assms(2) by (auto simp: upsert_row_def)
qed

subsection \<open>Lookups\<close>

lemma get_row_Nil [simp]: "get_row key k [] = None"
  by (simp add: get_row_def)

lemma get_row_Cons: "get_row key k (r # t) = (if key r = k then Some r else get_row key k t)"
  by (simp add: get_row_def)

lemma get_row_Some_iff: "keyed key t \<Longrightarrow> get_row key k t = Some r \<longleftrightarrow> r \<in> set t \<and> key r = k"
  by (induction t) (auto simp: get_row_Cons)

lemma get_row_key: "get_row key k t = Some r \<Longrightarrow> key r = k \<and> r \<in> set t"
  by (induction t) (auto simp: get_row_Cons split: if_splits)

lemma get_row_None_iff: "get_row key k t = None \<longleftrightarrow> k \<notin> key ` set t"
  by (induction t) (auto simp: get_row_Cons)

lemma get_row_append:
  "get_row key k (t @ u) = (case get_row key k t of None \<Rightarrow> get_row key k u | Some r \<Rightarrow> Some r)"
  by (induction t) (auto simp: get_row_Cons)

lemma get_insert_or_ignore [sql_get]:
  "get_row key k (insert_or_ignore key r t) =
     (if get_row key k t = None \<and> key r = k then Some r else get_row key k t)"
proof (cases "key r \<in> key ` set t")
  case True
  then have "get_row key (key r) t \<noteq> None" by (simp add: get_row_None_iff)
  then show ?thesis using True by (auto simp: insert_or_ignore_def)
next
  case False
  then have "get_row key (key r) t = None" by (simp add: get_row_None_iff)
  then show ?thesis
    using False by (auto simp: insert_or_ignore_def get_row_append get_row_Cons split: option.splits)
qed

lemma get_filter_other: "key r = k \<Longrightarrow> get_row key k (filter (\<lambda>x. key x \<noteq> k') t) =
    (if k = k' then None else get_row key k t)"
  by (induction t) (auto simp: get_row_Cons)

lemma get_insert_or_replace [sql_get]:
  "get_row key k (insert_or_replace key r t) = (if key r = k then Some r else get_row key k t)"
proof (induction t)
  case Nil
  then show ?case by (simp add: insert_or_replace_def get_row_Cons)
next
  case (Cons x t)
  then show ?case by (auto simp: insert_or_replace_def get_row_Cons)
qed

lemma get_update_where [sql_get]:
  assumes "\<And>x. P x \<Longrightarrow> key (f x) = key x"
  shows "get_row key k (update_where P f t)
     = map_option (\<lambda>r. if P r then f r else r) (get_row key k t)"
  by (induction t) (auto simp: update_where_def get_row_Cons assms)

lemma get_upsert [sql_get]:
  assumes "\<And>x. key x = key r \<Longrightarrow> key (f x) = key x"
  shows "get_row key k (upsert_row key r f t) =
     (if k = key r then Some (case get_row key k t of None \<Rightarrow> r | Some x \<Rightarrow> f x)
      else get_row key k t)"
proof (cases "key r \<in> key ` set t")
  case True
  have "upsert_row key r f t = update_where (\<lambda>x. key x = key r) f t"
    using True by (simp add: upsert_row_def update_where_def)
  moreover have "\<exists>x. get_row key (key r) t = Some x"
    using True get_row_None_iff [of key "key r" t] by (cases "get_row key (key r) t") auto
  ultimately show ?thesis
    using get_update_where [of "\<lambda>x. key x = key r" key f k t] assms
    by (cases "get_row key k t") (auto dest: get_row_key)
next
  case False
  then have "upsert_row key r f t = t @ [r]" and "get_row key (key r) t = None"
    by (simp_all add: upsert_row_def get_row_None_iff)
  then show ?thesis by (auto simp: get_row_append get_row_Cons split: option.splits)
qed

lemma get_delete_where [sql_get]:
  assumes "keyed key t"
  shows "get_row key k (delete_where P t) =
    (case get_row key k t of None \<Rightarrow> None | Some r \<Rightarrow> if P r then None else Some r)"
  using assms
proof (induction t)
  case (Cons x t)
  then have "get_row key (key x) (delete_where P t) = None"
    by (auto simp: get_row_None_iff delete_where_def)
  with Cons show ?case by (auto simp: delete_where_def get_row_Cons)
qed (simp add: delete_where_def)

lemma set_delete_where [simp]: "set (delete_where P t) = {r \<in> set t. \<not> P r}"
  by (simp add: delete_where_def)

lemma set_insert_or_ignore:
  "set (insert_or_ignore key r t) = (if key r \<in> key ` set t then set t else insert r (set t))"
  by (auto simp: insert_or_ignore_def)

lemma set_insert_or_replace:
  "set (insert_or_replace key r t) = insert r {x \<in> set t. key x \<noteq> key r}"
  by (auto simp: insert_or_replace_def)

lemma keyed_inj: "keyed key t \<Longrightarrow> x \<in> set t \<Longrightarrow> y \<in> set t \<Longrightarrow> key x = key y \<Longrightarrow> x = y"
  by (meson distinct_map inj_onD)

text \<open>Sorting orders the rows it lists and loses none.\<close>

lemma order_by_desc_sorted: "sorted (rev (map k (order_by_desc k t)))"
  by (simp add: order_by_desc_def rev_map)

lemma set_order_by [simp]: "set (order_by_asc k t) = set t" "set (order_by_desc k t) = set t"
  by (simp_all add: order_by_asc_def order_by_desc_def)

lemma mset_order_by [simp]:
  "mset (order_by_asc k t) = mset t" "mset (order_by_desc k t) = mset t"
  by (simp_all add: order_by_asc_def order_by_desc_def)

lemma length_order_by [simp]:
  "length (order_by_asc k t) = length t" "length (order_by_desc k t) = length t"
  by (simp_all add: order_by_asc_def order_by_desc_def)

end
