(* ===== verification/Interfaces.thy ===== *)
theory Interfaces
  imports Prelude Float32
begin

section \<open>The data of the pipeline\<close>

text \<open>
  The types of \<open>src/packages/virage-core/src/interfaces\<close> that the components exchange.
  Chunk metadata is an opaque JSON object to the pipeline; it is kept as the object's entries in
  order. A JSON column of the database holds the value its text parses to, or a text
  \<open>JSON.parse\<close> rejects.
\<close>

datatype json = JNull | JBool bool | JNum rat | JStr string | JArr "json list"
  | JObj "(string \<times> json) list"

type_synonym json_obj = "(string \<times> json) list"

datatype 'a json_col = Json 'a | Malformed string

text \<open>A property of an object: \<open>undefined\<close> is \<open>None\<close>.\<close>

definition get_prop :: "string \<Rightarrow> json_obj \<Rightarrow> json option" where
  "get_prop k m = map_of m k"

definition set_prop :: "string \<Rightarrow> json \<Rightarrow> json_obj \<Rightarrow> json_obj" where
  "set_prop k v m = AList.update k v m"

lemma get_set_prop [simp]: "get_prop k (set_prop k' v m) = (if k = k' then Some v else get_prop k m)"
  by (simp add: get_prop_def set_prop_def update_conv')

record chunk =
  denseText :: jstext
  sparseText :: jstext
  denseTextHash :: string
  sparseTextGeneratorId :: string
  metadataGeneratorId :: string
  metadata :: json_obj
  sourceFile :: string
  commitHash :: string

record embedded_chunk = chunk +
  denseVector :: "jsnum list"
  embeddedAt :: rat

text \<open>\<open>{ ...chunk, denseVector, embeddedAt }\<close>\<close>

definition embed_with :: "jsnum list \<Rightarrow> rat \<Rightarrow> chunk \<Rightarrow> embedded_chunk" where
  "embed_with v t c = chunk.extend c (embedded_chunk.fields v t)"

lemma embed_with_simps [simp]:
  "denseText (embed_with v t c) = denseText c"
  "sparseText (embed_with v t c) = sparseText c"
  "denseTextHash (embed_with v t c) = denseTextHash c"
  "sparseTextGeneratorId (embed_with v t c) = sparseTextGeneratorId c"
  "metadataGeneratorId (embed_with v t c) = metadataGeneratorId c"
  "metadata (embed_with v t c) = metadata c"
  "sourceFile (embed_with v t c) = sourceFile c"
  "commitHash (embed_with v t c) = commitHash c"
  "denseVector (embed_with v t c) = v"
  "embeddedAt (embed_with v t c) = t"
  by (simp_all add: embed_with_def chunk.defs embedded_chunk.defs)

lemma truncate_embed_with [simp]: "chunk.truncate (embed_with v t c) = c"
  by (simp add: embed_with_def chunk.defs embedded_chunk.defs)

record embeddings_meta =
  schemaVersion :: nat
  providerName :: string
  providerDimensions :: "nat option"
  metaModel :: "string option"
  vectorStoreName :: "string option"
  createdAt :: int
  updatedAt :: int

text \<open>Documents of the vector store; the optional \<open>id\<close> is always set by the uploader.\<close>

record vector_document =
  docId :: string
  docDenseText :: jstext
  docSparseText :: jstext
  docDenseTextHash :: string
  docSparseTextGeneratorId :: string
  docMetadataGeneratorId :: string
  docMetadata :: json_obj
  docTags :: "json list option"
  docDenseVector :: "jsnum list"
  docSourceFile :: string
  docCommitHash :: string
  docCollection :: "string option"

end
