(* ===== verification/VirageDb.thy ===== *)
theory VirageDb
  imports Interfaces SqlTable
begin

section \<open>The staging database\<close>

text \<open>
  The tables \<open>chunks\<close>, \<open>meta\<close> and \<open>file_revisions\<close> of
  \<open>src/packages/virage-core/src/core/virage-db.ts\<close> and the methods of \<open>VirageDb\<close> that touch them.
  One record holds the three tables; the other tables of the file are in \<open>RunsDb\<close> and
  \<open>TelemetryDb\<close>, since no method but the constructor touches both groups. \<open>chunks\<close> has one row per
  dense-text hash; \<open>dense_vector\<close> is NULL until the chunk is embedded. The bounds SQLite puts on
  the number of placeholders of a statement and I/O failures are not modelled.
\<close>

record chunk_row =
  dense_text_hash :: string
  source_file :: string
  file_revision :: string
  dense_text :: jstext
  sparse_text :: jstext
  sparse_text_generator_id :: string
  metadata_generator_id :: string
  metadata_json :: "json_obj json_col"
  dense_vector :: "jsnum list option"
  embedded_at :: "int option"
  uploaded :: nat

record virage_db =
  t_chunks :: "chunk_row list"
  t_meta :: "(string \<times> embeddings_meta json_col) list"
  t_file_revisions :: "(string \<times> string) list"

definition empty_db :: virage_db where
  "empty_db = \<lparr>t_chunks = [], t_meta = [], t_file_revisions = []\<rparr>"

fun parseChunkMeta :: "json_obj json_col \<Rightarrow> json_obj" where
  "parseChunkMeta (Json m) = m"
| "parseChunkMeta (Malformed s) = []"

subsection \<open>Metadata of the index\<close>

definition getMeta :: "virage_db \<Rightarrow> embeddings_meta option" where
  "getMeta db =
     (case get_row fst ''meta'' (t_meta db) of
        None \<Rightarrow> None
      | Some (_, v) \<Rightarrow> (case v of Json m \<Rightarrow> Some m | Malformed _ \<Rightarrow> None))"

definition setMeta :: "embeddings_meta \<Rightarrow> virage_db \<Rightarrow> virage_db" where
  "setMeta m db = db\<lparr>t_meta := insert_or_replace fst (''meta'', Json m) (t_meta db)\<rparr>"

definition getMetaValue :: "string \<Rightarrow> virage_db \<Rightarrow> embeddings_meta json_col option" where
  "getMetaValue k db = map_option snd (get_row fst k (t_meta db))"

definition setMetaValue :: "string \<Rightarrow> embeddings_meta json_col \<Rightarrow> virage_db \<Rightarrow> virage_db" where
  "setMetaValue k v db = db\<lparr>t_meta := insert_or_replace fst (k, v) (t_meta db)\<rparr>"

subsection \<open>Streaming pipeline methods\<close>

text \<open>The row an \<open>INSERT\<close> writes for a chunk, under the source file it binds.\<close>

definition chunk_to_row :: "string \<Rightarrow> chunk \<Rightarrow> chunk_row" where
  "chunk_to_row f c =
     \<lparr>dense_text_hash = denseTextHash c, source_file = f, file_revision = commitHash c,
      dense_text = denseText c, sparse_text = sparseText c,
      sparse_text_generator_id = sparseTextGeneratorId c,
      metadata_generator_id = metadataGeneratorId c, metadata_json = Json (metadata c),
      dense_vector = None, embedded_at = None, uploaded = 0\<rparr>"

definition insertChunk :: "chunk \<Rightarrow> virage_db \<Rightarrow> virage_db" where
  "insertChunk c db =
     db\<lparr>t_chunks := insert_or_ignore dense_text_hash (chunk_to_row (sourceFile c) c) (t_chunks db)\<rparr>"

definition insertChunks :: "chunk list \<Rightarrow> virage_db \<Rightarrow> virage_db" where
  "insertChunks cs db =
     db\<lparr>t_chunks := fold (\<lambda>c. insert_or_ignore dense_text_hash (chunk_to_row (sourceFile c) c)) cs
                    (t_chunks db)\<rparr>"

definition updateDenseVector :: "string \<Rightarrow> jsnum list \<Rightarrow> rat \<Rightarrow> virage_db \<Rightarrow> virage_db" where
  "updateDenseVector h v t db =
     db\<lparr>t_chunks := update_where (\<lambda>r. dense_text_hash r = h)
          (\<lambda>r. r\<lparr>dense_vector := Some (vectorToBlob v), embedded_at := Some \<lfloor>t\<rfloor>\<rparr>) (t_chunks db)\<rparr>"

definition clearDenseVector :: "string \<Rightarrow> virage_db \<Rightarrow> virage_db" where
  "clearDenseVector h db =
     db\<lparr>t_chunks := update_where (\<lambda>r. dense_text_hash r = h)
          (\<lambda>r. r\<lparr>dense_vector := None, embedded_at := None\<rparr>) (t_chunks db)\<rparr>"

definition deleteBySourceFile :: "string \<Rightarrow> virage_db \<Rightarrow> virage_db" where
  "deleteBySourceFile f db =
     db\<lparr>t_chunks := delete_where (\<lambda>r. source_file r = f) (t_chunks db),
        t_file_revisions := delete_where (\<lambda>r. fst r = f) (t_file_revisions db)\<rparr>"

text \<open>
  The upsert of \<open>replaceChunks\<close>: on a conflict the text columns are overwritten, while
  \<open>dense_vector\<close>, \<open>embedded_at\<close> and \<open>uploaded\<close> stay.
\<close>

definition overwrite_text :: "chunk_row \<Rightarrow> chunk_row \<Rightarrow> chunk_row" where
  "overwrite_text excluded r =
     r\<lparr>source_file := source_file excluded, file_revision := file_revision excluded,
       dense_text := dense_text excluded, sparse_text := sparse_text excluded,
       sparse_text_generator_id := sparse_text_generator_id excluded,
       metadata_generator_id := metadata_generator_id excluded,
       metadata_json := metadata_json excluded\<rparr>"

definition upsert_chunk :: "string \<Rightarrow> chunk \<Rightarrow> chunk_row list \<Rightarrow> chunk_row list" where
  "upsert_chunk f c t =
     upsert_row dense_text_hash (chunk_to_row f c) (overwrite_text (chunk_to_row f c)) t"

definition replace_rows :: "string \<Rightarrow> chunk list \<Rightarrow> chunk_row list \<Rightarrow> chunk_row list" where
  "replace_rows f cs t =
     (let newHashes = map denseTextHash cs
      in fold (upsert_chunk f) cs
           (if length newHashes > 0
            then delete_where (\<lambda>r. source_file r = f \<and> dense_text_hash r \<notin> set newHashes) t
            else delete_where (\<lambda>r. source_file r = f) t))"

definition replaceChunks ::
  "string \<Rightarrow> chunk list \<Rightarrow> string option \<Rightarrow> virage_db \<Rightarrow> virage_db" where
  "replaceChunks f cs fileRevision db =
     (let db' = db\<lparr>t_chunks := replace_rows f cs (t_chunks db)\<rparr>;
          fr = (case fileRevision of
                  Some r \<Rightarrow> Some r
                | None \<Rightarrow> (case cs of [] \<Rightarrow> None | c # _ \<Rightarrow> Some (commitHash c)))
      in case fr of
           None \<Rightarrow> db'
         | Some r \<Rightarrow>
             if r = [] then db'
             else db'\<lparr>t_file_revisions :=
                    upsert_row fst (f, r) (\<lambda>p. (fst p, r)) (t_file_revisions db')\<rparr>)"

definition getEmbeddedDenseTextHashes :: "string \<Rightarrow> virage_db \<Rightarrow> string list" where
  "getEmbeddedDenseTextHashes f db =
     map dense_text_hash
       (filter (\<lambda>r. source_file r = f \<and> dense_vector r \<noteq> None) (t_chunks db))"

definition row_to_chunk :: "chunk_row \<Rightarrow> chunk" where
  "row_to_chunk r =
     \<lparr>denseText = dense_text r, sparseText = sparse_text r, denseTextHash = dense_text_hash r,
      sparseTextGeneratorId = sparse_text_generator_id r,
      metadataGeneratorId = metadata_generator_id r, metadata = parseChunkMeta (metadata_json r),
      sourceFile = source_file r, commitHash = file_revision r\<rparr>"

definition getPendingEmbedChunks :: "virage_db \<Rightarrow> chunk list" where
  "getPendingEmbedChunks db =
     map row_to_chunk (filter (\<lambda>r. dense_vector r = None \<and> uploaded r = 0) (t_chunks db))"

text \<open>
  \<open>rowsToEmbeddedChunks\<close>; its queries select only rows with a vector, so the NULL case (where
  the code would throw) never arises: \<open>None\<close> stands for the exception.
\<close>

definition row_to_embedded :: "chunk_row \<Rightarrow> embedded_chunk option" where
  "row_to_embedded r =
     map_option (\<lambda>b. embed_with (blobToVector b)
                       (case embedded_at r of None \<Rightarrow> 0 | Some t \<Rightarrow> of_int t) (row_to_chunk r))
       (dense_vector r)"

definition rowsToEmbeddedChunks :: "(chunk_row \<Rightarrow> bool) \<Rightarrow> virage_db \<Rightarrow> embedded_chunk list" where
  "rowsToEmbeddedChunks sql_where db =
     map (the \<circ> row_to_embedded)
       (filter (\<lambda>r. sql_where r \<and> dense_vector r \<noteq> None) (t_chunks db))"

definition getPendingUploadChunks :: "virage_db \<Rightarrow> embedded_chunk list" where
  "getPendingUploadChunks db = rowsToEmbeddedChunks (\<lambda>r. uploaded r = 0) db"

definition getAllChunks :: "virage_db \<Rightarrow> chunk list" where
  "getAllChunks db = map row_to_chunk (t_chunks db)"

definition getFileRevisions :: "virage_db \<Rightarrow> (string \<times> string) list" where
  "getFileRevisions db = map_set_all (t_file_revisions db) []"

text \<open>
  \<open>SELECT source_file, file_revision ... GROUP BY source_file\<close>: the bare column comes from an
  arbitrary row of the group, which is the parameter \<open>pick\<close>.
\<close>

definition getFileStates :: "(string list \<Rightarrow> string) \<Rightarrow> virage_db \<Rightarrow> (string \<times> string) list" where
  "getFileStates pick db =
     (let fromChunks =
            map (\<lambda>f. (f, pick (map file_revision (filter (\<lambda>r. source_file r = f) (t_chunks db)))))
              (dedup (map source_file (t_chunks db)))
      in map_set_all (t_file_revisions db) (map_set_all fromChunks []))"

subsection \<open>Batch methods\<close>

definition embedded_to_row :: "embedded_chunk \<Rightarrow> chunk_row" where
  "embedded_to_row e =
     (chunk_to_row (sourceFile e) (chunk.truncate e))
       \<lparr>dense_vector := Some (vectorToBlob (denseVector e)), embedded_at := Some \<lfloor>embeddedAt e\<rfloor>\<rparr>"

definition insert_embedded :: "embedded_chunk list \<Rightarrow> virage_db \<Rightarrow> virage_db" where
  "insert_embedded es db =
     db\<lparr>t_chunks := fold (\<lambda>e. insert_or_ignore dense_text_hash (embedded_to_row e)) es (t_chunks db)\<rparr>"

definition has_chunk :: "string \<Rightarrow> virage_db \<Rightarrow> bool" where
  "has_chunk h db = (get_row dense_text_hash h (t_chunks db) \<noteq> None)"

definition getAll :: "virage_db \<Rightarrow> embedded_chunk list" where
  "getAll db = rowsToEmbeddedChunks (\<lambda>r. True) db"

definition getPending :: "virage_db \<Rightarrow> embedded_chunk list" where
  "getPending db = getPendingUploadChunks db"

definition markUploaded :: "string list \<Rightarrow> virage_db \<Rightarrow> virage_db" where
  "markUploaded hs db =
     (if length hs = 0 then db
      else db\<lparr>t_chunks := update_where (\<lambda>r. dense_text_hash r \<in> set hs)
                            (\<lambda>r. r\<lparr>uploaded := 1\<rparr>) (t_chunks db)\<rparr>)"

definition deleteChunks :: "string list \<Rightarrow> virage_db \<Rightarrow> virage_db" where
  "deleteChunks hs db =
     (if length hs = 0 then db
      else db\<lparr>t_chunks := delete_where (\<lambda>r. dense_text_hash r \<in> set hs) (t_chunks db)\<rparr>)"

definition pendingCount :: "virage_db \<Rightarrow> nat" where
  "pendingCount db = length (filter (\<lambda>r. uploaded r = 0 \<and> dense_vector r \<noteq> None) (t_chunks db))"

definition clearAll :: "virage_db \<Rightarrow> virage_db" where
  "clearAll db = db\<lparr>t_chunks := [], t_file_revisions := [], t_meta := []\<rparr>"

definition pruneUploaded :: "virage_db \<Rightarrow> virage_db" where
  "pruneUploaded db = db\<lparr>t_chunks := delete_where (\<lambda>r. uploaded r = 1) (t_chunks db)\<rparr>"

subsection \<open>The invariant of the tables\<close>

text \<open>
  Primary keys are unique, a chunk has an embedding time exactly when it has a vector, stored
  vectors hold binary32 values, and \<open>uploaded\<close> is a flag.
\<close>

definition row_ok :: "chunk_row \<Rightarrow> bool" where
  "row_ok r \<longleftrightarrow>
     (dense_vector r = None \<longleftrightarrow> embedded_at r = None)
     \<and> (\<forall>b. dense_vector r = Some b \<longrightarrow> vectorToBlob b = b)
     \<and> uploaded r \<in> {0, 1}"

definition db_ok :: "virage_db \<Rightarrow> bool" where
  "db_ok db \<longleftrightarrow>
     keyed dense_text_hash (t_chunks db) \<and> keyed fst (t_meta db) \<and> keyed fst (t_file_revisions db)
     \<and> (\<forall>r\<in>set (t_chunks db). row_ok r)"

lemma db_okI:
  "keyed dense_text_hash (t_chunks db) \<Longrightarrow> keyed fst (t_meta db) \<Longrightarrow> keyed fst (t_file_revisions db)
   \<Longrightarrow> (\<And>r. r \<in> set (t_chunks db) \<Longrightarrow> row_ok r) \<Longrightarrow> db_ok db"
  by (simp add: db_ok_def)

lemma db_okD:
  "db_ok db \<Longrightarrow> keyed dense_text_hash (t_chunks db)"
  "db_ok db \<Longrightarrow> keyed fst (t_meta db)"
  "db_ok db \<Longrightarrow> keyed fst (t_file_revisions db)"
  "db_ok db \<Longrightarrow> r \<in> set (t_chunks db) \<Longrightarrow> row_ok r"
  by (simp_all add: db_ok_def)

lemma hash_chunk_to_row [simp]: "dense_text_hash (chunk_to_row f c) = denseTextHash c"
  by (simp add: chunk_to_row_def)

lemma hash_overwrite_text [simp]: "dense_text_hash (overwrite_text e r) = dense_text_hash r"
  by (simp add: overwrite_text_def)

lemma denseTextHash_truncate [simp]: "denseTextHash (chunk.truncate e) = denseTextHash e"
  by (simp add: chunk.defs)

lemma hash_embedded_to_row [simp]: "dense_text_hash (embedded_to_row e) = denseTextHash e"
  by (simp add: embedded_to_row_def)

lemma row_ok_chunk_to_row [simp]: "row_ok (chunk_to_row f c)"
  by (simp add: row_ok_def chunk_to_row_def)

lemma vectorToBlob_idem [simp]: "vectorToBlob (vectorToBlob v) = vectorToBlob v"
  by (simp add: vectorToBlob_def)

lemma row_ok_embedded_to_row [simp]: "row_ok (embedded_to_row e)"
  by (simp add: row_ok_def embedded_to_row_def chunk_to_row_def)

lemma row_ok_overwrite_text [simp]: "row_ok (overwrite_text e r) = row_ok r"
  by (simp add: row_ok_def overwrite_text_def)

lemma fold_rows_inv:
  assumes "\<And>x t. keyed key t \<Longrightarrow> \<forall>r\<in>set t. Q r \<Longrightarrow> keyed key (g x t) \<and> (\<forall>r\<in>set (g x t). Q r)"
  shows "keyed key t \<Longrightarrow> \<forall>r\<in>set t. Q r \<Longrightarrow> keyed key (fold g xs t) \<and> (\<forall>r\<in>set (fold g xs t). Q r)"
proof (induction xs arbitrary: t)
  case (Cons x xs)
  show ?case using Cons.IH [of "g x t"] assms [OF Cons.prems] by simp
qed simp

lemma insert_or_ignore_inv:
  "Q r \<Longrightarrow> keyed key t \<Longrightarrow> \<forall>x\<in>set t. Q x \<Longrightarrow>
   keyed key (insert_or_ignore key r t) \<and> (\<forall>x\<in>set (insert_or_ignore key r t). Q x)"
  by (simp add: keyed_insert_or_ignore set_insert_or_ignore)

lemma upsert_chunk_inv:
  assumes "keyed dense_text_hash t" and "\<forall>x\<in>set t. row_ok x"
  shows "keyed dense_text_hash (upsert_chunk f c t) \<and> (\<forall>x\<in>set (upsert_chunk f c t). row_ok x)"
proof
  show "keyed dense_text_hash (upsert_chunk f c t)"
    unfolding upsert_chunk_def using assms(1) by (intro keyed_upsert) simp_all
  show "\<forall>x\<in>set (upsert_chunk f c t). row_ok x"
    using assms(2) by (auto simp: upsert_chunk_def upsert_row_def)
qed

lemma replace_rows_inv:
  assumes "keyed dense_text_hash t" and "\<forall>x\<in>set t. row_ok x"
  shows "keyed dense_text_hash (replace_rows f cs t) \<and> (\<forall>x\<in>set (replace_rows f cs t). row_ok x)"
proof -
  define t' where "t' = (if length (map denseTextHash cs) > 0
      then delete_where (\<lambda>r. source_file r = f \<and> dense_text_hash r \<notin> set (map denseTextHash cs)) t
      else delete_where (\<lambda>r. source_file r = f) t)"
  have "keyed dense_text_hash t'" and "\<forall>x\<in>set t'. row_ok x"
    using assms by (simp_all add: t'_def keyed_delete)
  then show ?thesis
    using fold_rows_inv [of dense_text_hash row_ok "upsert_chunk f" t' cs] upsert_chunk_inv
    unfolding replace_rows_def Let_def t'_def by blast
qed

lemma db_ok_replaceChunks: "db_ok db \<Longrightarrow> db_ok (replaceChunks f cs fr db)"
  using replace_rows_inv [of "t_chunks db" f cs]
  by (auto simp: db_ok_def replaceChunks_def Let_def intro!: keyed_upsert split: option.splits)

text \<open>The write operations, and their effect.\<close>

datatype db_op =
  SetMeta embeddings_meta
  | SetMetaValue string "embeddings_meta json_col"
  | InsertChunk chunk
  | InsertChunks "chunk list"
  | UpdateDenseVector string "jsnum list" rat
  | ClearDenseVector string
  | DeleteBySourceFile string
  | ReplaceChunks string "chunk list" "string option"
  | InsertEmbedded "embedded_chunk list"
  | MarkUploaded "string list"
  | DeleteChunks "string list"
  | ClearAll
  | PruneUploaded

fun db_exec :: "db_op \<Rightarrow> virage_db \<Rightarrow> virage_db" where
  "db_exec (SetMeta m) db = setMeta m db"
| "db_exec (SetMetaValue k v) db = setMetaValue k v db"
| "db_exec (InsertChunk c) db = insertChunk c db"
| "db_exec (InsertChunks cs) db = insertChunks cs db"
| "db_exec (UpdateDenseVector h v t) db = updateDenseVector h v t db"
| "db_exec (ClearDenseVector h) db = clearDenseVector h db"
| "db_exec (DeleteBySourceFile f) db = deleteBySourceFile f db"
| "db_exec (ReplaceChunks f cs r) db = replaceChunks f cs r db"
| "db_exec (InsertEmbedded es) db = insert_embedded es db"
| "db_exec (MarkUploaded hs) db = markUploaded hs db"
| "db_exec (DeleteChunks hs) db = deleteChunks hs db"
| "db_exec ClearAll db = clearAll db"
| "db_exec PruneUploaded db = pruneUploaded db"

lemma db_ok_setMeta: "db_ok db \<Longrightarrow> db_ok (setMeta m db)"
  by (auto simp: db_ok_def setMeta_def intro: keyed_insert_or_replace)

text \<open>An \<open>UPDATE\<close> that leaves the key alone and keeps each row well formed.\<close>

lemma db_ok_update_where:
  assumes "db_ok db" and "\<And>r. dense_text_hash (f r) = dense_text_hash r"
    and "\<And>r. row_ok r \<Longrightarrow> row_ok (f r)"
  shows "db_ok (db\<lparr>t_chunks := update_where P f (t_chunks db)\<rparr>)"
proof (rule db_okI)
  show "keyed dense_text_hash (t_chunks (db\<lparr>t_chunks := update_where P f (t_chunks db)\<rparr>))"
    using db_okD(1) [OF assms(1)] assms(2) by (simp add: keyed_update_where)
  show "row_ok r" if "r \<in> set (t_chunks (db\<lparr>t_chunks := update_where P f (t_chunks db)\<rparr>))" for r
    using that assms(3) db_okD(4) [OF assms(1)] by (auto simp: update_where_def)
qed (use db_okD(2,3) [OF assms(1)] in simp_all)

lemma db_ok_updateDenseVector: "db_ok db \<Longrightarrow> db_ok (updateDenseVector h v t db)"
  unfolding updateDenseVector_def by (rule db_ok_update_where) (simp_all add: row_ok_def)

lemma db_ok_deleteBySourceFile: "db_ok db \<Longrightarrow> db_ok (deleteBySourceFile f db)"
  by (auto simp: db_ok_def deleteBySourceFile_def intro: keyed_delete)

lemma db_ok_deleteChunks: "db_ok db \<Longrightarrow> db_ok (deleteChunks hs db)"
  by (auto simp: db_ok_def deleteChunks_def intro: keyed_delete)

lemma db_ok_insert_rows:
  assumes "db_ok db" and "\<And>x. row_ok (mk x)"
  shows "db_ok (db\<lparr>t_chunks := fold (\<lambda>x. insert_or_ignore dense_text_hash (mk x)) xs (t_chunks db)\<rparr>)"
proof -
  have "keyed dense_text_hash (fold (\<lambda>x. insert_or_ignore dense_text_hash (mk x)) xs (t_chunks db))
      \<and> (\<forall>r\<in>set (fold (\<lambda>x. insert_or_ignore dense_text_hash (mk x)) xs (t_chunks db)). row_ok r)"
    by (rule fold_rows_inv, rule insert_or_ignore_inv) (use assms in \<open>simp_all add: db_ok_def\<close>)
  then show ?thesis using assms(1) by (simp add: db_ok_def)
qed

lemma db_ok_clearAll: "db_ok (clearAll db)"
  by (simp add: db_ok_def clearAll_def)

lemma db_exec_ok: "db_ok db \<Longrightarrow> db_ok (db_exec op db)"
proof (cases op)
  case (InsertChunks cs)
  assume "db_ok db"
  then show ?thesis unfolding InsertChunks db_exec.simps insertChunks_def
    by (rule db_ok_insert_rows) simp
next
  case (InsertEmbedded es)
  assume "db_ok db"
  then show ?thesis unfolding InsertEmbedded db_exec.simps insert_embedded_def
    by (rule db_ok_insert_rows) simp
next
  case (SetMetaValue k v)
  assume "db_ok db"
  then show ?thesis
    using SetMetaValue by (auto simp: db_ok_def setMetaValue_def intro: keyed_insert_or_replace)
next
  case (InsertChunk c)
  assume "db_ok db"
  then show ?thesis
    using db_ok_insert_rows [of db "\<lambda>c. chunk_to_row (sourceFile c) c" "[c]"] InsertChunk
    by (simp add: insertChunk_def)
next
  case (ClearDenseVector h)
  assume "db_ok db"
  then show ?thesis unfolding ClearDenseVector db_exec.simps clearDenseVector_def
    by (rule db_ok_update_where) (simp_all add: row_ok_def)
next
  case (MarkUploaded hs)
  assume "db_ok db"
  then show ?thesis unfolding MarkUploaded db_exec.simps markUploaded_def
    by (auto simp: row_ok_def intro!: db_ok_update_where)
next
  case PruneUploaded
  assume "db_ok db"
  then show ?thesis using PruneUploaded by (auto simp: db_ok_def pruneUploaded_def intro: keyed_delete)
qed (simp_all add: db_ok_setMeta db_ok_updateDenseVector db_ok_deleteBySourceFile db_ok_deleteChunks
    db_ok_clearAll db_ok_replaceChunks)


lemma db_exec_all_ok: "db_ok db \<Longrightarrow> db_ok (fold db_exec ops db)"
  by (induction ops arbitrary: db) (auto simp: db_exec_ok)

lemma db_ok_empty [simp]: "db_ok empty_db"
  by (simp add: db_ok_def empty_db_def)

lemmas db_ok_intros = db_exec_ok db_ok_setMeta db_ok_updateDenseVector db_ok_deleteBySourceFile
  db_ok_deleteChunks db_ok_clearAll db_ok_replaceChunks db_ok_update_where

subsection \<open>What the queries list\<close>

lemma hash_row_to_chunk [simp]: "denseTextHash (row_to_chunk r) = dense_text_hash r"
  by (simp add: row_to_chunk_def)

lemma row_to_embedded_hash:
  "dense_vector r \<noteq> None \<Longrightarrow> denseTextHash (the (row_to_embedded r)) = dense_text_hash r"
  by (auto simp: row_to_embedded_def)

lemma pending_embed_hashes:
  "map denseTextHash (getPendingEmbedChunks db)
     = map dense_text_hash (filter (\<lambda>r. dense_vector r = None \<and> uploaded r = 0) (t_chunks db))"
  by (simp add: getPendingEmbedChunks_def)

lemma pending_upload_hashes:
  "map denseTextHash (getPendingUploadChunks db)
     = map dense_text_hash (filter (\<lambda>r. uploaded r = 0 \<and> dense_vector r \<noteq> None) (t_chunks db))"
  by (auto simp: getPendingUploadChunks_def rowsToEmbeddedChunks_def row_to_embedded_hash)

lemma pendingCount_eq: "pendingCount db = length (getPendingUploadChunks db)"
  by (simp add: pendingCount_def getPendingUploadChunks_def rowsToEmbeddedChunks_def)

lemma pending_disjoint:
  assumes "keyed dense_text_hash (t_chunks db)"
  shows "denseTextHash ` set (getPendingEmbedChunks db)
    \<inter> denseTextHash ` set (getPendingUploadChunks db) = {}"
proof -
  have "denseTextHash ` set (getPendingEmbedChunks db)
      = dense_text_hash ` {r \<in> set (t_chunks db). dense_vector r = None \<and> uploaded r = 0}"
    using arg_cong [OF pending_embed_hashes, of set db] by simp
  moreover have "denseTextHash ` set (getPendingUploadChunks db)
      = dense_text_hash ` {r \<in> set (t_chunks db). uploaded r = 0 \<and> dense_vector r \<noteq> None}"
    using arg_cong [OF pending_upload_hashes, of set db] by simp
  ultimately show ?thesis using keyed_inj [OF assms] by (auto, metis option.distinct(1))
qed

text \<open>Looking a hash up after the upserts of \<open>replaceChunks\<close>: the last chunk with the hash wins,
  and the vector columns are those of the row that was there.\<close>

lemma get_upsert_chunks:
  "get_row dense_text_hash h (fold (upsert_chunk f) cs t) =
     (case find (\<lambda>c. denseTextHash c = h) (rev cs) of
        None \<Rightarrow> get_row dense_text_hash h t
      | Some c \<Rightarrow> Some (case get_row dense_text_hash h t of
                         None \<Rightarrow> chunk_to_row f c
                       | Some r \<Rightarrow> overwrite_text (chunk_to_row f c) r))"
proof (induction cs rule: rev_induct)
  case Nil
  then show ?case by simp
next
  case (snoc c cs)
  have over: "overwrite_text e (overwrite_text e' r) = overwrite_text e r" for e e' r
    by (simp add: overwrite_text_def)
  have fresh: "overwrite_text (chunk_to_row f c) (chunk_to_row f d) = chunk_to_row f c"
    if "denseTextHash d = denseTextHash c" for d
    using that by (simp add: overwrite_text_def chunk_to_row_def)
  have fd: "denseTextHash d = h" if "find (\<lambda>c. denseTextHash c = h) (rev cs) = Some d" for d
    using that by (auto simp: find_Some_iff)
  have step: "get_row dense_text_hash h (fold (upsert_chunk f) (cs @ [c]) t) =
      (if h = denseTextHash c
       then Some (case get_row dense_text_hash h (fold (upsert_chunk f) cs t) of
                    None \<Rightarrow> chunk_to_row f c | Some x \<Rightarrow> overwrite_text (chunk_to_row f c) x)
       else get_row dense_text_hash h (fold (upsert_chunk f) cs t))"
    by (simp add: upsert_chunk_def [of f c] get_upsert)
  show ?case
  proof (cases "h = denseTextHash c")
    case True
    show ?thesis
    proof (cases "find (\<lambda>c. denseTextHash c = h) (rev cs)")
      case None
      then show ?thesis unfolding step snoc.IH using True by simp
    next
      case (Some d)
      have "overwrite_text (chunk_to_row f c) (chunk_to_row f d) = chunk_to_row f c"
        using fd [OF Some] True by (intro fresh) simp
      then show ?thesis unfolding step snoc.IH Some using True
        by (cases "get_row dense_text_hash h t") (simp_all add: over)
    qed
  next
    case False
    then show ?thesis unfolding step snoc.IH by auto
  qed
qed

lemma find_hash_None: "find (\<lambda>c. denseTextHash c = h) (rev cs) = None \<longleftrightarrow> h \<notin> denseTextHash ` set cs"
  by (auto simp: find_None_iff)

lemma get_replace_rows:
  assumes "keyed dense_text_hash t"
  shows "get_row dense_text_hash h (replace_rows f cs t) =
     (case find (\<lambda>c. denseTextHash c = h) (rev cs) of
        Some c \<Rightarrow> Some (case get_row dense_text_hash h t of
                         None \<Rightarrow> chunk_to_row f c
                       | Some r \<Rightarrow> overwrite_text (chunk_to_row f c) r)
      | None \<Rightarrow> (case get_row dense_text_hash h t of
                 None \<Rightarrow> None
               | Some r \<Rightarrow> if source_file r = f then None else Some r))"
proof (cases cs)
  case Nil
  then show ?thesis by (simp add: replace_rows_def get_delete_where assms)
next
  case (Cons c0 cs0)
  have del: "get_row dense_text_hash h
       (delete_where (\<lambda>r. source_file r = f \<and> dense_text_hash r \<notin> set (map denseTextHash cs)) t)
     = (case get_row dense_text_hash h t of None \<Rightarrow> None
        | Some r \<Rightarrow> if source_file r = f \<and> h \<notin> denseTextHash ` set cs then None else Some r)"
    by (auto simp: get_delete_where assms dest: get_row_key split: option.splits)
  have found: "h \<in> denseTextHash ` set cs" if "find (\<lambda>c. denseTextHash c = h) (rev cs) = Some c" for c
    using that find_hash_None [of h cs] by force
  have "replace_rows f cs t = fold (upsert_chunk f) cs
      (delete_where (\<lambda>r. source_file r = f \<and> dense_text_hash r \<notin> set (map denseTextHash cs)) t)"
    using Cons by (simp add: replace_rows_def Let_def)
  then show ?thesis
    unfolding \<open>replace_rows f cs t = _\<close> get_upsert_chunks del
    using find_hash_None [of h cs] found by (auto split: option.splits)
qed

lemma t_chunks_replaceChunks [simp]:
  "t_chunks (replaceChunks f cs fr db) = replace_rows f cs (t_chunks db)"
  by (simp add: replaceChunks_def Let_def split: option.splits)

lemma source_rows_replace:
  assumes "keyed dense_text_hash t"
  shows "dense_text_hash ` {r \<in> set (replace_rows f cs t). source_file r = f} = denseTextHash ` set cs"
proof (rule set_eqI)
  fix h
  have k: "keyed dense_text_hash (fold (upsert_chunk f) cs u)"
    if "keyed dense_text_hash u" for u
    using that
    by (induction cs arbitrary: u) (simp_all add: upsert_chunk_def keyed_upsert)
  have key: "keyed dense_text_hash (replace_rows f cs t)"
    unfolding replace_rows_def Let_def by (rule k) (simp add: assms keyed_delete)
  have "h \<in> dense_text_hash ` {r \<in> set (replace_rows f cs t). source_file r = f}
      \<longleftrightarrow> (\<exists>r. get_row dense_text_hash h (replace_rows f cs t) = Some r \<and> source_file r = f)"
    using get_row_Some_iff [OF key] by (auto intro: rev_image_eqI)
  also have "\<dots> \<longleftrightarrow> h \<in> denseTextHash ` set cs"
  proof (cases "find (\<lambda>c. denseTextHash c = h) (rev cs)")
    case None
    then have "h \<notin> denseTextHash ` set cs" by (simp add: find_hash_None)
    moreover have "source_file r \<noteq> f"
      if "get_row dense_text_hash h (replace_rows f cs t) = Some r" for r
      using that None by (auto simp: get_replace_rows [OF assms] split: option.splits if_splits)
    ultimately show ?thesis by blast
  next
    case (Some c)
    then have "h \<in> denseTextHash ` set cs" using find_hash_None [of h cs] by force
    moreover have "\<exists>r. get_row dense_text_hash h (replace_rows f cs t) = Some r \<and> source_file r = f"
      using Some by (cases "get_row dense_text_hash h t")
        (simp_all add: get_replace_rows [OF assms] chunk_to_row_def overwrite_text_def)
    ultimately show ?thesis by blast
  qed
  finally show "h \<in> dense_text_hash ` {r \<in> set (replace_rows f cs t). source_file r = f}
      \<longleftrightarrow> h \<in> denseTextHash ` set cs" .
qed

lemma db_op_invariants:
  assumes "db_ok db"
  shows "distinct (map denseTextHash (getPendingEmbedChunks db) @ map denseTextHash (getPendingUploadChunks db))"
    and "pendingCount db = length (getPendingUploadChunks db)"
proof -
  have "distinct (map denseTextHash (getPendingEmbedChunks db))"
    "distinct (map denseTextHash (getPendingUploadChunks db))"
    unfolding pending_embed_hashes pending_upload_hashes
    using db_okD(1) [OF assms] by (simp_all add: distinct_map_filter)
  then show "distinct (map denseTextHash (getPendingEmbedChunks db) @ map denseTextHash (getPendingUploadChunks db))"
    using pending_disjoint [OF db_okD(1) [OF assms]] by simp
qed (rule pendingCount_eq)

subsection \<open>Properties\<close>

text \<open>C2. Whatever sequence of writes the pipeline issues on a fresh database: the primary keys
  stay unique, a chunk has an embedding time exactly when it has a vector, every stored vector is
  already rounded to binary32 (so reading and writing it again changes nothing), and no chunk is
  at the same time waiting to be embedded and waiting to be uploaded, or waiting twice.\<close>

theorem staging_tables_invariant:
  "let db = fold db_exec ops empty_db in
     distinct (map dense_text_hash (t_chunks db))
     \<and> list_all row_ok (t_chunks db)
     \<and> distinct (map fst (t_meta db)) \<and> distinct (map fst (t_file_revisions db))
     \<and> distinct (map denseTextHash (getPendingEmbedChunks db)
                  @ map denseTextHash (getPendingUploadChunks db))
     \<and> pendingCount db = length (getPendingUploadChunks db)"
  using db_exec_all_ok [OF db_ok_empty, of ops]
    db_op_invariants [OF db_exec_all_ok [OF db_ok_empty, of ops]]
  by (simp add: db_ok_def Let_def list_all_iff)

text \<open>C1. \<open>replaceChunks\<close> makes the rows of the file exactly the new chunks (the last one given for
  a repeated hash), keeps the vector, embedding time and upload flag of every hash the database
  already had, leaves the rows of other files alone, and records the revision of the file, also
  when it has no chunk.\<close>

theorem replaceChunks_effect:
  assumes "distinct (map dense_text_hash (t_chunks db))"
  shows "dense_text_hash ` {r \<in> set (t_chunks (replaceChunks f cs fr db)). source_file r = f}
           = denseTextHash ` set cs
    \<and> (\<forall>h. get_row dense_text_hash h (t_chunks (replaceChunks f cs fr db)) =
         (case find (\<lambda>c. denseTextHash c = h) (rev cs) of
            Some c \<Rightarrow> Some (case get_row dense_text_hash h (t_chunks db) of
                None \<Rightarrow> chunk_to_row f c
              | Some r \<Rightarrow> (chunk_to_row f c)
                  \<lparr>dense_vector := dense_vector r, embedded_at := embedded_at r, uploaded := uploaded r\<rparr>)
          | None \<Rightarrow> (case get_row dense_text_hash h (t_chunks db) of
                None \<Rightarrow> None
              | Some r \<Rightarrow> if source_file r = f then None else Some r)))
    \<and> (\<forall>g. get_row fst g (t_file_revisions (replaceChunks f cs fr db)) =
         (case (if fr = None \<and> cs \<noteq> [] then Some (commitHash (hd cs)) else fr) of
            None \<Rightarrow> get_row fst g (t_file_revisions db)
          | Some r \<Rightarrow> if g = f \<and> r \<noteq> [] then Some (f, r) else get_row fst g (t_file_revisions db)))"
proof (intro conjI allI)
  show "dense_text_hash ` {r \<in> set (t_chunks (replaceChunks f cs fr db)). source_file r = f}
           = denseTextHash ` set cs"
    using source_rows_replace [OF assms] by simp
  show "get_row dense_text_hash h (t_chunks (replaceChunks f cs fr db)) =
         (case find (\<lambda>c. denseTextHash c = h) (rev cs) of
            Some c \<Rightarrow> Some (case get_row dense_text_hash h (t_chunks db) of
                None \<Rightarrow> chunk_to_row f c
              | Some r \<Rightarrow> (chunk_to_row f c)
                  \<lparr>dense_vector := dense_vector r, embedded_at := embedded_at r, uploaded := uploaded r\<rparr>)
          | None \<Rightarrow> (case get_row dense_text_hash h (t_chunks db) of
                None \<Rightarrow> None
              | Some r \<Rightarrow> if source_file r = f then None else Some r))" for h
  proof (cases "find (\<lambda>c. denseTextHash c = h) (rev cs)")
    case None
    then show ?thesis by (simp add: get_replace_rows [OF assms])
  next
    case (Some c)
    then have "denseTextHash c = h" by (auto simp: find_Some_iff)
    then show ?thesis using Some
      by (cases "get_row dense_text_hash h (t_chunks db)")
        (auto simp: get_replace_rows [OF assms] overwrite_text_def chunk_to_row_def dest: get_row_key)
  qed
  have up: "get_row fst g (upsert_row fst (f, r) (\<lambda>p. (fst p, r)) t) =
      (if g = f then Some (f, r) else get_row fst g t)" for g r and t :: "(string \<times> string) list"
    by (auto simp: get_upsert dest: get_row_key split: option.splits)
  show "get_row fst g (t_file_revisions (replaceChunks f cs fr db)) =
         (case (if fr = None \<and> cs \<noteq> [] then Some (commitHash (hd cs)) else fr) of
            None \<Rightarrow> get_row fst g (t_file_revisions db)
          | Some r \<Rightarrow> if g = f \<and> r \<noteq> [] then Some (f, r) else get_row fst g (t_file_revisions db))" for g
    by (cases fr; cases cs) (simp_all add: replaceChunks_def Let_def up)
qed

definition sample_chunk :: "string \<Rightarrow> string \<Rightarrow> chunk" where
  "sample_chunk h f =
     \<lparr>denseText = js h, sparseText = js h, denseTextHash = h, sparseTextGeneratorId = ''s'',
      metadataGeneratorId = ''m'', metadata = [], sourceFile = f, commitHash = ''rev1''\<rparr>"

definition sample_db :: virage_db where
  "sample_db = updateDenseVector ''h1'' [Fin 0] 7
     (insertChunks [sample_chunk ''h1'' ''a'', sample_chunk ''h2'' ''a'', sample_chunk ''h3'' ''b''] empty_db)"

lemma sample_db_keyed: "distinct (map dense_text_hash (t_chunks sample_db))"
  by code_simp

lemma replaceChunks_effect_witness:
  "dense_text_hash ` {r \<in> set (t_chunks
       (replaceChunks ''a'' [sample_chunk ''h1'' ''a'', sample_chunk ''h4'' ''a''] (Some ''r2'') sample_db)).
         source_file r = ''a''} = {''h1'', ''h4''}
   \<and> get_row fst ''a'' (t_file_revisions
       (replaceChunks ''a'' [sample_chunk ''h1'' ''a'', sample_chunk ''h4'' ''a''] (Some ''r2'') sample_db))
      = Some (''a'', ''r2'')"
  using replaceChunks_effect [OF sample_db_keyed, of "''a''"
      "[sample_chunk ''h1'' ''a'', sample_chunk ''h4'' ''a'']" "Some ''r2''"]
  by (simp add: sample_chunk_def)

text \<open>Storing the vector of a chunk that waits to be embedded takes exactly that chunk off
  the embed queue and puts it, with the vector rounded to binary32 and the time rounded down, on
  the upload queue; every other waiting chunk stays where it is.\<close>

theorem updateDenseVector_moves_chunk:
  assumes "distinct (map dense_text_hash (t_chunks db))" and "c \<in> set (getPendingEmbedChunks db)"
  shows "getPendingEmbedChunks (updateDenseVector (denseTextHash c) v t db)
           = filter (\<lambda>d. denseTextHash d \<noteq> denseTextHash c) (getPendingEmbedChunks db)
    \<and> set (getPendingUploadChunks (updateDenseVector (denseTextHash c) v t db))
           = insert (embed_with (blobToVector (vectorToBlob v)) (of_int \<lfloor>t\<rfloor>) c)
               (set (getPendingUploadChunks db))
    \<and> pendingCount (updateDenseVector (denseTextHash c) v t db) = Suc (pendingCount db)"
proof -
  obtain r0 where r0: "r0 \<in> set (t_chunks db)" "dense_vector r0 = None" "uploaded r0 = 0"
      "c = row_to_chunk r0"
    using assms(2) by (auto simp: getPendingEmbedChunks_def)
  obtain xs ys where split: "t_chunks db = xs @ r0 # ys"
    using split_list [OF r0(1)] by blast
  have out: "dense_text_hash r0 \<notin> dense_text_hash ` set xs" "dense_text_hash r0 \<notin> dense_text_hash ` set ys"
    using assms(1) by (auto simp: split)
  define r1 where "r1 = r0\<lparr>dense_vector := Some (vectorToBlob v), embedded_at := Some \<lfloor>t\<rfloor>\<rparr>"
  have rest: "map (\<lambda>r. if dense_text_hash r = dense_text_hash r0 then g r else r) zs = zs"
    if "dense_text_hash r0 \<notin> dense_text_hash ` set zs" for g :: "chunk_row \<Rightarrow> chunk_row" and zs
    using that by (induction zs) auto
  have t': "t_chunks (updateDenseVector (denseTextHash c) v t db) = xs @ r1 # ys"
    by (simp add: updateDenseVector_def update_where_def split rest out r0(4) r1_def)
  have r1: "dense_vector r1 = Some (vectorToBlob v)" "uploaded r1 = 0"
      "the (row_to_embedded r1) = embed_with (blobToVector (vectorToBlob v)) (of_int \<lfloor>t\<rfloor>) c"
    by (simp_all add: r1_def r0 row_to_embedded_def row_to_chunk_def)
  have keep: "filter (\<lambda>d. denseTextHash d \<noteq> dense_text_hash r0) (map row_to_chunk (filter P zs))
      = map row_to_chunk (filter P zs)"
    if "dense_text_hash r0 \<notin> dense_text_hash ` set zs" for P zs
    using that by (induction zs) auto
  show ?thesis
    unfolding getPendingEmbedChunks_def getPendingUploadChunks_def rowsToEmbeddedChunks_def pendingCount_def t' split
    by (auto simp: r0(2,3) r1 keep out r0(4))
qed

lemma updateDenseVector_moves_chunk_witness:
  "getPendingEmbedChunks (updateDenseVector ''h2'' [Fin 1] 9 sample_db) = [sample_chunk ''h3'' ''b'']
   \<and> pendingCount (updateDenseVector ''h2'' [Fin 1] 9 sample_db) = 2"
proof -
  have q: "getPendingEmbedChunks sample_db = [sample_chunk ''h2'' ''a'', sample_chunk ''h3'' ''b'']"
    by code_simp
  have n: "pendingCount sample_db = 1" by code_simp
  show ?thesis
    using updateDenseVector_moves_chunk [OF sample_db_keyed, of "sample_chunk ''h2'' ''a''" "[Fin 1]" 9]
    by (simp add: q n) (simp add: sample_chunk_def)
qed

text \<open>\<open>getFileStates\<close>: a file is reported iff it has a recorded revision or a chunk row; a
  recorded revision takes precedence over the revisions of the chunk rows.\<close>

theorem getFileStates_precedence:
  "map_of (getFileStates pick db) f =
     (case map_of (rev (t_file_revisions db)) f of
        Some r \<Rightarrow> Some r
      | None \<Rightarrow>
          (if f \<in> source_file ` set (t_chunks db)
           then Some (pick (map file_revision (filter (\<lambda>r. source_file r = f) (t_chunks db))))
           else None))
   \<and> distinct (map fst (getFileStates pick db))"
proof
  have pairs: "map_of (map (\<lambda>f. (f, g f)) fs) f = (if f \<in> set fs then Some (g f) else None)"
    for g :: "string \<Rightarrow> string" and fs by (induction fs) auto
  have rv: "map_of (rev (map (\<lambda>f. (f, g f)) fs)) f = (if f \<in> set fs then Some (g f) else None)"
    for g :: "string \<Rightarrow> string" and fs
    using pairs [of g "rev fs"] by (simp add: rev_map)
  show "map_of (getFileStates pick db) f =
     (case map_of (rev (t_file_revisions db)) f of
        Some r \<Rightarrow> Some r
      | None \<Rightarrow>
          (if f \<in> source_file ` set (t_chunks db)
           then Some (pick (map file_revision (filter (\<lambda>r. source_file r = f) (t_chunks db))))
           else None))"
    unfolding getFileStates_def Let_def map_of_map_set_all map_add_def rv
    by (auto split: option.splits)
  show "distinct (map fst (getFileStates pick db))"
    by (simp add: getFileStates_def Let_def distinct_map_set_all)
qed

end
