(* ===== verification/RunsDb.thy ===== *)
theory RunsDb
  imports Interfaces SqlTable
begin

section \<open>Experiment runs, evaluation datasets, pipeline runs and migrations\<close>

text \<open>
  The tables \<open>experiment_runs\<close>, \<open>eval_datasets\<close>, \<open>pipeline_runs\<close> and \<open>schema_migrations\<close> of
  \<open>src/packages/virage-core/src/core/virage-db.ts\<close>. A JSON column written by \<open>JSON.stringify\<close> is
  the JSON value; \<open>null\<close> and \<open>undefined\<close> optional fields are both stored as NULL and read back as
  \<open>undefined\<close>. The order SQL leaves open between equal sort keys is the rowid order.
\<close>

record experiment_run =
  run_id :: string
  run_name :: string
  run_timestamp :: string
  run_config :: json_obj
  run_evalResult :: json
  run_ragasResult :: "json option"
  run_perQueryRrScores :: "json option"

record experiment_row =
  er_id :: string
  er_name :: string
  er_timestamp :: string
  er_config_json :: json_obj
  er_eval_result_json :: json
  er_ragas_result_json :: "json option"
  er_per_query_rr_scores_json :: "json option"

record eval_dataset =
  ds_version :: "string option"
  ds_queries :: "json list"

record dataset_row =
  slot :: string
  dr_version :: "string option"
  dr_queries_json :: "json list"
  saved_at :: string

record pipeline_run =
  runAt :: string
  durationMs :: int
  stages :: json

record runs_db =
  t_experiment_runs :: "experiment_row list"
  t_eval_datasets :: "dataset_row list"
  t_pipeline_runs :: "(nat \<times> pipeline_run) list"
  pipeline_seq :: nat

subsection \<open>Experiment runs\<close>

text \<open>\<open>v != null ? JSON.stringify(v) : null\<close>\<close>

definition non_null :: "json option \<Rightarrow> json option" where
  "non_null v = (if v = Some JNull then None else v)"

definition run_to_row :: "experiment_run \<Rightarrow> experiment_row" where
  "run_to_row r =
     \<lparr>er_id = run_id r, er_name = run_name r, er_timestamp = run_timestamp r,
      er_config_json = run_config r, er_eval_result_json = run_evalResult r,
      er_ragas_result_json = non_null (run_ragasResult r),
      er_per_query_rr_scores_json = non_null (run_perQueryRrScores r)\<rparr>"

definition rowToExperimentRun :: "experiment_row \<Rightarrow> experiment_run" where
  "rowToExperimentRun r =
     \<lparr>run_id = er_id r, run_name = er_name r, run_timestamp = er_timestamp r,
      run_config = er_config_json r, run_evalResult = er_eval_result_json r,
      run_ragasResult = er_ragas_result_json r,
      run_perQueryRrScores = er_per_query_rr_scores_json r\<rparr>"

definition saveExperimentRun :: "experiment_run \<Rightarrow> runs_db \<Rightarrow> runs_db" where
  "saveExperimentRun r db =
     db\<lparr>t_experiment_runs := insert_or_replace er_id (run_to_row r) (t_experiment_runs db)\<rparr>"

definition first_row :: "'r list \<Rightarrow> 'r option" where
  "first_row rs = (case rs of [] \<Rightarrow> None | r # _ \<Rightarrow> Some r)"

definition loadExperimentRun :: "string \<Rightarrow> runs_db \<Rightarrow> experiment_run option" where
  "loadExperimentRun nameOrId db =
     (let byId = get_row er_id nameOrId (t_experiment_runs db);
          row = (case byId of
                   Some r \<Rightarrow> Some r
                 | None \<Rightarrow> first_row (order_by_desc er_timestamp
                             (filter (\<lambda>r. er_name r = nameOrId) (t_experiment_runs db))))
      in map_option rowToExperimentRun row)"

definition listExperimentRuns :: "runs_db \<Rightarrow> experiment_run list" where
  "listExperimentRuns db =
     map rowToExperimentRun (order_by_asc er_timestamp (t_experiment_runs db))"

definition deleteExperimentRun :: "string \<Rightarrow> runs_db \<Rightarrow> unit result \<times> runs_db" where
  "deleteExperimentRun i db =
     (let gone = filter (\<lambda>r. er_id r = i) (t_experiment_runs db);
          db' = db\<lparr>t_experiment_runs := delete_where (\<lambda>r. er_id r = i) (t_experiment_runs db)\<rparr>
      in if length gone = 0
         then (Inl (Err EError (''Experiment run \"'' @ i @ ''\" not found.'')), db')
         else (Inr (), db'))"

text \<open>
  \<open>dir\<close> is what the file system answers: \<open>None\<close> when the directory does not exist, an error when
  it cannot be listed, else its files with their contents; a content that cannot be read, parsed
  or stored is \<open>Malformed\<close>.
\<close>

definition ends_with :: "'a list \<Rightarrow> 'a list \<Rightarrow> bool" where
  "ends_with p s = starts_with (rev p) (rev s)"

definition migrateExperimentsFromDir ::
  "(string \<times> experiment_run json_col) list result option \<Rightarrow> runs_db \<Rightarrow> runs_db" where
  "migrateExperimentsFromDir dir db =
     (case dir of
        None \<Rightarrow> db
      | Some listing \<Rightarrow>
          if length (t_experiment_runs db) > 0 then db
          else (case listing of
                  Inl _ \<Rightarrow> db
                | Inr files \<Rightarrow>
                    fold (\<lambda>(name, content) db'. case content of
                            Json r \<Rightarrow> saveExperimentRun r db'
                          | Malformed _ \<Rightarrow> db')
                      (filter (\<lambda>(name, _). ends_with ''.json'' name) files) db))"

subsection \<open>Evaluation datasets\<close>

definition saveEvalDataset :: "string \<Rightarrow> eval_dataset \<Rightarrow> string option \<Rightarrow> runs_db \<Rightarrow> runs_db" where
  "saveEvalDataset now ds slot_arg db =
     db\<lparr>t_eval_datasets := insert_or_replace slot
         \<lparr>slot = (case slot_arg of None \<Rightarrow> ''default'' | Some s \<Rightarrow> s), dr_version = ds_version ds,
          dr_queries_json = ds_queries ds, saved_at = now\<rparr> (t_eval_datasets db)\<rparr>"

definition loadEvalDataset :: "string option \<Rightarrow> runs_db \<Rightarrow> eval_dataset option" where
  "loadEvalDataset slot_arg db =
     map_option (\<lambda>r. \<lparr>ds_version = dr_version r, ds_queries = dr_queries_json r\<rparr>)
       (get_row slot (case slot_arg of None \<Rightarrow> ''default'' | Some s \<Rightarrow> s) (t_eval_datasets db))"

subsection \<open>Pipeline runs\<close>

text \<open>\<open>AUTOINCREMENT\<close>: the next id is one more than any id ever used.\<close>

definition savePipelineRun :: "pipeline_run \<Rightarrow> runs_db \<Rightarrow> runs_db" where
  "savePipelineRun d db =
     db\<lparr>t_pipeline_runs := t_pipeline_runs db @ [(Suc (pipeline_seq db), d)],
        pipeline_seq := Suc (pipeline_seq db)\<rparr>"

definition listPipelineRuns :: "nat option \<Rightarrow> runs_db \<Rightarrow> pipeline_run list" where
  "listPipelineRuns limit db =
     take (case limit of None \<Rightarrow> 100 | Some n \<Rightarrow> n)
       (order_by_asc runAt (map snd (t_pipeline_runs db)))"

subsection \<open>Schema migrations\<close>

text \<open>
  \<open>up\<close> is the effect of a migration on the state of the database; the applied versions are the
  rows of \<open>schema_migrations\<close>.
\<close>

definition runMigrations ::
  "(nat \<times> ('s \<Rightarrow> 's)) list \<Rightarrow> string \<Rightarrow> (nat \<times> string) list \<times> 's \<Rightarrow> (nat \<times> string) list \<times> 's" where
  "runMigrations migrations now st =
     (let appliedVersions = map fst (fst st)
      in fold (\<lambda>(version, up) (applied, s).
                if version \<notin> set appliedVersions then (applied @ [(version, now)], up s)
                else (applied, s))
           migrations st)"

subsection \<open>Lemmas\<close>

lemma get_row_replace: "get_row key (key r) (insert_or_replace key r t) = Some r"
  by (simp add: get_insert_or_replace)

lemma rowToExperimentRun_run_to_row:
  "rowToExperimentRun (run_to_row r)
     = r\<lparr>run_ragasResult := non_null (run_ragasResult r),
         run_perQueryRrScores := non_null (run_perQueryRrScores r)\<rparr>"
  by (simp add: rowToExperimentRun_def run_to_row_def)

lemma fold_skip:
  "\<forall>x\<in>set xs. g x = (\<lambda>s. s) \<Longrightarrow> fold g xs s = s"
  by (induction xs arbitrary: s) auto

lemma runMigrations_all_applied:
  assumes "fst ` set ms \<subseteq> fst ` set applied"
  shows "runMigrations ms now (applied, s) = (applied, s)"
proof -
  have "fold (\<lambda>(version, up) (a, s). if version \<notin> set (map fst applied)
            then (a @ [(version, now)], up s) else (a, s)) ms (applied, s) = (applied, s)"
    by (rule fold_skip) (use assms in \<open>force simp: fun_eq_iff\<close>)
  then show ?thesis by (simp add: runMigrations_def)
qed

lemma runMigrations_applied:
  "fst ` set (fst (runMigrations ms now (applied, s))) = fst ` set applied \<union> fst ` set ms"
proof -
  have "fst ` set (fst (fold (\<lambda>(version, up) (a, s). if version \<notin> V
            then (a @ [(version, now)], up s) else (a, s)) ms (a0, s0)))
      = fst ` set a0 \<union> (fst ` set ms - V)" for V a0 and s0 :: 'a
  proof (induction ms arbitrary: a0 s0)
    case (Cons m ms)
    then show ?case by (cases m) auto
  qed simp
  from this [of "fst ` set applied" applied s] show ?thesis
    by (auto simp: runMigrations_def)
qed

lemma order_by_desc_hd:
  assumes "r \<in> set t"
  obtains m where "first_row (order_by_desc k t) = Some m" "m \<in> set t" "k r \<le> k m"
proof -
  have s: "sorted (rev (map k (order_by_desc k t)))" by (rule order_by_desc_sorted)
  have r: "r \<in> set (order_by_desc k t)" using assms by simp
  then obtain m ms where eq: "order_by_desc k t = m # ms"
    by (cases "order_by_desc k t") auto
  have "k r \<le> k m" using s r eq by (auto simp: sorted_append)
  moreover have "m \<in> set t" using eq set_order_by(2) [of k t] by auto
  ultimately show thesis using that eq by (simp add: first_row_def)
qed

subsection \<open>Properties\<close>

text \<open>An experiment run that was saved is found again by its id, whatever else is stored, with
  a \<open>null\<close> optional result read back as absent; asked for a name that is no id, the store answers
  with a run of that name and no run of the name has a later timestamp; deleting an id reports an
  error exactly when there is no such run.\<close>

theorem experiment_store_lookup:
  "loadExperimentRun (run_id r) (saveExperimentRun r db)
     = Some (r\<lparr>run_ragasResult := non_null (run_ragasResult r),
               run_perQueryRrScores := non_null (run_perQueryRrScores r)\<rparr>)
   \<and> (nm \<notin> er_id ` set (t_experiment_runs db) \<and> nm \<in> er_name ` set (t_experiment_runs db) \<longrightarrow>
        (\<exists>m. loadExperimentRun nm db = Some m \<and> run_name m = nm
           \<and> (\<forall>x\<in>set (t_experiment_runs db). er_name x = nm \<longrightarrow> er_timestamp x \<le> run_timestamp m)))
   \<and> (isl (fst (deleteExperimentRun i db)) \<longleftrightarrow> i \<notin> er_id ` set (t_experiment_runs db))
   \<and> i \<notin> er_id ` set (t_experiment_runs (snd (deleteExperimentRun i db)))"
proof (intro conjI impI)
  show "loadExperimentRun (run_id r) (saveExperimentRun r db)
     = Some (r\<lparr>run_ragasResult := non_null (run_ragasResult r),
               run_perQueryRrScores := non_null (run_perQueryRrScores r)\<rparr>)"
    using get_row_replace [of er_id "run_to_row r" "t_experiment_runs db"]
    by (simp add: loadExperimentRun_def saveExperimentRun_def rowToExperimentRun_run_to_row)
      (simp add: run_to_row_def rowToExperimentRun_def)
next
  assume a: "nm \<notin> er_id ` set (t_experiment_runs db) \<and> nm \<in> er_name ` set (t_experiment_runs db)"
  let ?t = "filter (\<lambda>r. er_name r = nm) (t_experiment_runs db)"
  have no_id: "get_row er_id nm (t_experiment_runs db) = None"
    using a get_row_None_iff by metis
  obtain r0 where r0: "r0 \<in> set ?t" using a by auto
  obtain m where m: "first_row (order_by_desc er_timestamp ?t) = Some m" "m \<in> set ?t"
    by (rule order_by_desc_hd [OF r0])
  have "er_timestamp x \<le> er_timestamp m" if "x \<in> set ?t" for x
    using order_by_desc_hd [OF that, of er_timestamp] m(1) by (metis option.inject)
  moreover have "loadExperimentRun nm db = Some (rowToExperimentRun m)"
    using m(1) no_id by (simp add: loadExperimentRun_def)
  ultimately show "\<exists>m. loadExperimentRun nm db = Some m \<and> run_name m = nm
      \<and> (\<forall>x\<in>set (t_experiment_runs db). er_name x = nm \<longrightarrow> er_timestamp x \<le> run_timestamp m)"
    using m(2) by (auto simp: rowToExperimentRun_def)
qed (auto simp: deleteExperimentRun_def Let_def filter_empty_conv)

definition sample_run :: "string \<Rightarrow> string \<Rightarrow> string \<Rightarrow> experiment_run" where
  "sample_run i n t =
     \<lparr>run_id = i, run_name = n, run_timestamp = t, run_config = [], run_evalResult = JNull,
      run_ragasResult = Some JNull, run_perQueryRrScores = None\<rparr>"

definition sample_runs :: runs_db where
  "sample_runs = fold saveExperimentRun [sample_run ''i1'' ''base'' ''2024'', sample_run ''i2'' ''base'' ''2025'']
     \<lparr>t_experiment_runs = [], t_eval_datasets = [], t_pipeline_runs = [], pipeline_seq = 0\<rparr>"

lemma experiment_store_lookup_witness:
  "\<exists>m. loadExperimentRun ''base'' sample_runs = Some m \<and> run_name m = ''base''
     \<and> ''2025'' \<le> run_timestamp m"
proof -
  have i: "er_id ` set (t_experiment_runs sample_runs) = {''i1'', ''i2''}"
    and x: "map (\<lambda>x. (er_name x, er_timestamp x)) (t_experiment_runs sample_runs)
              = [(''base'', ''2024''), (''base'', ''2025'')]"
    by code_simp+
  have "(''base'', ''2025'') \<in> set (map (\<lambda>x. (er_name x, er_timestamp x)) (t_experiment_runs sample_runs))"
    unfolding x by simp
  then obtain x where x': "x \<in> set (t_experiment_runs sample_runs)"
      "er_name x = ''base''" "er_timestamp x = ''2025''"
    unfolding set_map by (elim imageE) (simp only: prod.inject)
  then have n: "''base'' \<in> er_name ` set (t_experiment_runs sample_runs)"
    by (metis image_eqI)
  have no_id: "''base'' \<notin> er_id ` set (t_experiment_runs sample_runs)" unfolding i by simp
  obtain m where "loadExperimentRun ''base'' sample_runs = Some m" "run_name m = ''base''"
      "\<forall>x\<in>set (t_experiment_runs sample_runs). er_name x = ''base'' \<longrightarrow> er_timestamp x \<le> run_timestamp m"
    using experiment_store_lookup [of "sample_run ''i1'' ''base'' ''2024''" sample_runs "''base''" "''i1''"] n no_id
    by blast
  then show ?thesis using x' by metis
qed

end
