(* ===== verification/SearchDb.thy ===== *)
theory SearchDb
  imports Interfaces SqlTable
begin

section \<open>Query analytics\<close>

text \<open>
  The table \<open>search_queries\<close> of \<open>src/packages/virage-core/src/core/virage-db.ts\<close> and its
  statistics. The clock is the argument \<open>now\<close> in milliseconds and \<open>to_iso\<close> its
  \<open>toISOString\<close>; \<open>hour_of\<close> stands for SQLite's \<open>strftime('%Y-%m-%dT%H:00:00Z', _)\<close>. The text SQL
  reports for a group of queries with one hash is that of an arbitrary row, chosen by \<open>pick\<close>;
  groups are formed in the order of their keys. Similarities are exact fractions.
\<close>

record search_query_row =
  sq_id :: string
  occurred_at :: string
  query_text :: string
  sq_hash :: string
  sq_result_count :: nat
  top_similarity :: "rat option"
  was_empty :: nat
  hybrid_used :: nat
  reranked :: nat

record search_stats =
  queriesLastHour :: nat
  queriesLast24h :: nat
  avgTopSimilarity :: rat
  zeroResultRate :: rat

definition insertSearchQuery :: "search_query_row \<Rightarrow> search_query_row list \<Rightarrow> search_query_row list" where
  "insertSearchQuery r t = insert_or_replace sq_id r t"

definition getRecentSearchQueries :: "nat option \<Rightarrow> search_query_row list \<Rightarrow> search_query_row list" where
  "getRecentSearchQueries limit t =
     take (case limit of None \<Rightarrow> 50 | Some n \<Rightarrow> n) (order_by_desc occurred_at t)"

text \<open>\<open>GROUP BY\<close>: the groups in the order of their keys.\<close>

definition group_by :: "('r \<Rightarrow> 'k::linorder) \<Rightarrow> 'r list \<Rightarrow> ('k \<times> 'r list) list" where
  "group_by k t = map (\<lambda>g. (g, filter (\<lambda>r. k r = g) t)) (sort (dedup (map k t)))"

definition getTopSearchTerms ::
  "(string list \<Rightarrow> string) \<Rightarrow> nat option \<Rightarrow> search_query_row list \<Rightarrow> (string \<times> nat) list" where
  "getTopSearchTerms pick limit t =
     take (case limit of None \<Rightarrow> 20 | Some n \<Rightarrow> n)
       (order_by_desc snd
         (map (\<lambda>(_, rs). (pick (map query_text rs), length rs)) (group_by sq_hash t)))"

definition zero_result :: "rat \<Rightarrow> search_query_row \<Rightarrow> bool" where
  "zero_result threshold r \<longleftrightarrow>
     was_empty r = 1 \<or> (case top_similarity r of None \<Rightarrow> False | Some s \<Rightarrow> s < threshold)"

definition getZeroResultQueries ::
  "rat option \<Rightarrow> nat option \<Rightarrow> search_query_row list \<Rightarrow> search_query_row list" where
  "getZeroResultQueries threshold limit t =
     take (case limit of None \<Rightarrow> 50 | Some n \<Rightarrow> n)
       (order_by_desc occurred_at
         (filter (zero_result (case threshold of None \<Rightarrow> 1 / 2 | Some x \<Rightarrow> x)) t))"

definition sql_avg :: "rat list \<Rightarrow> rat option" where
  "sql_avg xs = (if xs = [] then None else Some (sum_list xs / of_nat (length xs)))"

definition similarities :: "search_query_row list \<Rightarrow> rat list" where
  "similarities t = map the (filter (\<lambda>s. s \<noteq> None) (map top_similarity t))"

definition getSearchStats :: "(int \<Rightarrow> string) \<Rightarrow> int \<Rightarrow> search_query_row list \<Rightarrow> search_stats" where
  "getSearchStats to_iso now t =
     (let hourAgo = to_iso (now - 3600000);
          dayAgo = to_iso (now - 86400000);
          lastHour = length (filter (\<lambda>r. occurred_at r \<ge> hourAgo) t);
          last24h = length (filter (\<lambda>r. occurred_at r \<ge> dayAgo) t);
          avgRow = sql_avg (similarities t);
          total = length t;
          empties = length (filter (\<lambda>r. was_empty r = 1) t)
      in \<lparr>queriesLastHour = lastHour, queriesLast24h = last24h,
          avgTopSimilarity = (case avgRow of None \<Rightarrow> 0 | Some a \<Rightarrow> a),
          zeroResultRate = (if total > 0 then of_nat empties / of_nat total else 0)\<rparr>)"

definition getQueriesPerHour ::
  "(int \<Rightarrow> string) \<Rightarrow> (string \<Rightarrow> string) \<Rightarrow> int \<Rightarrow> int option \<Rightarrow> search_query_row list
   \<Rightarrow> (string \<times> nat) list" where
  "getQueriesPerHour to_iso hour_of now hours t =
     (let since = to_iso (now - (case hours of None \<Rightarrow> 24 | Some h \<Rightarrow> h) * 3600000)
      in map (\<lambda>(h, rs). (h, length rs))
           (group_by (hour_of \<circ> occurred_at) (filter (\<lambda>r. occurred_at r \<ge> since) t)))"

subsection \<open>Grouping\<close>

lemma group_by_keys: "map fst (group_by k t) = sort (dedup (map k t))"
  by (simp add: group_by_def comp_def)

lemma sum_list_count_groups:
  assumes "distinct gs"
  shows "sum_list (map (\<lambda>g. length (filter (\<lambda>r. k r = g) t)) gs)
    = length (filter (\<lambda>r. k r \<in> set gs) t)"
proof (induction t)
  case (Cons r t)
  have "sum_list (map (\<lambda>g. if k r = g then (1::nat) else 0) gs) = (if k r \<in> set gs then 1 else 0)"
    using assms by (induction gs) auto
  moreover have "sum_list (map (\<lambda>g. length (filter (\<lambda>r. k r = g) (r # t))) gs)
      = sum_list (map (\<lambda>g. if k r = g then (1::nat) else 0) gs)
        + sum_list (map (\<lambda>g. length (filter (\<lambda>r. k r = g) t)) gs)"
    by (induction gs) auto
  ultimately show ?case using Cons.IH by simp
qed (induction gs, simp_all)

lemma group_by_total: "sum_list (map (\<lambda>(g, rs). length rs) (group_by k t)) = length t"
proof -
  have "sum_list (map (\<lambda>(g, rs). length rs) (group_by k t))
      = sum_list (map (\<lambda>g. length (filter (\<lambda>r. k r = g) t)) (sort (dedup (map k t))))"
    by (simp add: group_by_def comp_def)
  also have "\<dots> = length (filter (\<lambda>r. k r \<in> set (sort (dedup (map k t)))) t)"
    by (rule sum_list_count_groups) simp
  finally show ?thesis by (simp add: filter_True)
qed

lemma sum_list_bounds:
  fixes xs :: "rat list"
  assumes "\<And>x. x \<in> set xs \<Longrightarrow> l \<le> x \<and> x \<le> u"
  shows "of_nat (length xs) * l \<le> sum_list xs \<and> sum_list xs \<le> of_nat (length xs) * u"
  using assms by (induction xs) (auto simp: algebra_simps add_mono)

lemma sum_list_order_by: "sum_list (map f (order_by_desc k t)) = sum_list (map f t)"
  for f :: "'r \<Rightarrow> nat"
proof -
  have "sum_mset (mset (map f (order_by_desc k t))) = sum_mset (mset (map f t))"
    unfolding mset_map mset_order_by ..
  then show ?thesis by (simp only: sum_mset_sum_list)
qed

subsection \<open>Properties\<close>

text \<open>The statistics are consistent: no more queries in the last hour than in the last day nor
  in the last day than in all (the clock's text is ordered as time is), the zero-result rate lies
  in the unit interval, the average similarity between the bounds of the similarities; the counts
  of the search terms, like those per hour, add up to the queries they cover and terms are listed
  by decreasing count.\<close>

theorem search_statistics_consistent:
  assumes "to_iso (now - 86400000) \<le> to_iso (now - 3600000)"
    and "\<forall>s\<in>set (similarities t). l \<le> s \<and> s \<le> u" and "l \<le> 0" and "0 \<le> u"
  shows "queriesLastHour (getSearchStats to_iso now t) \<le> queriesLast24h (getSearchStats to_iso now t)
    \<and> queriesLast24h (getSearchStats to_iso now t) \<le> length t
    \<and> 0 \<le> zeroResultRate (getSearchStats to_iso now t) \<and> zeroResultRate (getSearchStats to_iso now t) \<le> 1
    \<and> l \<le> avgTopSimilarity (getSearchStats to_iso now t) \<and> avgTopSimilarity (getSearchStats to_iso now t) \<le> u
    \<and> sum_list (map snd (getTopSearchTerms pick (Some (length t)) t)) = length t
    \<and> sorted (rev (map snd (getTopSearchTerms pick limit t)))
    \<and> sum_list (map snd (getQueriesPerHour to_iso hour_of now (Some 24) t))
        = queriesLast24h (getSearchStats to_iso now t)"
proof (intro conjI)
  have "length (filter (\<lambda>r. to_iso (now - 3600000) \<le> occurred_at r) t)
      \<le> length (filter (\<lambda>r. to_iso (now - 86400000) \<le> occurred_at r) t)"
    using assms(1) by (induction t) (auto intro: le_SucI)
  then show "queriesLastHour (getSearchStats to_iso now t) \<le> queriesLast24h (getSearchStats to_iso now t)"
    by (simp add: getSearchStats_def Let_def)
  show "queriesLast24h (getSearchStats to_iso now t) \<le> length t"
    by (simp add: getSearchStats_def Let_def)
  show "0 \<le> zeroResultRate (getSearchStats to_iso now t)"
    by (simp add: getSearchStats_def Let_def)
  show "zeroResultRate (getSearchStats to_iso now t) \<le> 1"
    by (simp add: getSearchStats_def Let_def divide_le_eq_1)
  let ?a = "avgTopSimilarity (getSearchStats to_iso now t)"
  have a: "?a = (if similarities t = [] then 0
      else sum_list (similarities t) / of_nat (length (similarities t)))"
    by (simp add: getSearchStats_def Let_def sql_avg_def)
  have b: "of_nat (length (similarities t)) * l \<le> sum_list (similarities t)"
      "sum_list (similarities t) \<le> of_nat (length (similarities t)) * u"
    using sum_list_bounds [of "similarities t" l u, OF bspec [OF assms(2)]] by blast+
  have pos: "0 < (of_nat (length (similarities t)) :: rat)" if "similarities t \<noteq> []"
    using that by simp
  show "l \<le> ?a"
  proof (cases "similarities t = []")
    case False
    show ?thesis
      unfolding a if_not_P [OF False] pos_le_divide_eq [OF pos [OF False]]
      using b(1) by (simp only: mult.commute)
  qed (simp add: a assms(3))
  show "?a \<le> u"
  proof (cases "similarities t = []")
    case False
    show ?thesis
      unfolding a if_not_P [OF False] pos_divide_le_eq [OF pos [OF False]]
      using b(2) by (simp only: mult.commute)
  qed (simp add: a assms(4))
  let ?g = "map (\<lambda>(_, rs). (pick (map query_text rs), length rs)) (group_by sq_hash t)"
  have "length (group_by sq_hash t) \<le> length (map sq_hash t)"
    unfolding group_by_def length_map length_sort dedup_def
    by (rule order_trans [OF length_filter_unseen]) simp
  then have "getTopSearchTerms pick (Some (length t)) t = order_by_desc snd ?g"
    by (simp add: getTopSearchTerms_def)
  moreover have "sum_list (map snd (order_by_desc snd ?g)) = sum_list (map snd ?g)"
    by (rule sum_list_order_by)
  moreover have "map snd ?g = map (\<lambda>(g, rs). length rs) (group_by sq_hash t)"
    by (simp add: case_prod_unfold)
  ultimately show "sum_list (map snd (getTopSearchTerms pick (Some (length t)) t)) = length t"
    using group_by_total [of sq_hash t] by (simp only:)
  have "sorted (rev (map snd (order_by_desc snd ?g)))" by (rule order_by_desc_sorted)
  then have "sorted (rev (take n (map snd (order_by_desc snd ?g))))" for n
    by (simp add: rev_take sorted_wrt_drop)
  then show "sorted (rev (map snd (getTopSearchTerms pick limit t)))"
    by (simp add: getTopSearchTerms_def take_map)
  have count: "snd \<circ> (\<lambda>(h, rs). (h, length rs)) = (\<lambda>(h, rs :: search_query_row list). length rs)"
    by (simp add: fun_eq_iff)
  show "sum_list (map snd (getQueriesPerHour to_iso hour_of now (Some 24) t))
        = queriesLast24h (getSearchStats to_iso now t)"
    by (simp add: getQueriesPerHour_def Let_def count group_by_total getSearchStats_def)
qed

lemma search_statistics_consistent_witness:
  "let q = \<lparr>sq_id = ''1'', occurred_at = ''b'', query_text = ''auth'', sq_hash = ''h'',
            sq_result_count = 1, top_similarity = Some (1 / 2), was_empty = 0, hybrid_used = 0,
            reranked = 0\<rparr>
   in avgTopSimilarity (getSearchStats (\<lambda>t. if t < 0 then ''a'' else ''b'') 4000000 [q]) \<le> 1
      \<and> sum_list (map snd (getTopSearchTerms hd (Some 1) [q])) = 1"
  unfolding Let_def
  using search_statistics_consistent [of "\<lambda>t. if t < 0 then ''a'' else ''b''" 4000000
      "[\<lparr>sq_id = ''1'', occurred_at = ''b'', query_text = ''auth'', sq_hash = ''h'',
            sq_result_count = 1, top_similarity = Some (1 / 2), was_empty = 0, hybrid_used = 0,
            reranked = 0\<rparr>]" 0 1 hd "Some 1" "\<lambda>t. t"]
  by (simp add: similarities_def)

end
