(* ===== verification/TelemetryDb.thy ===== *)
theory TelemetryDb
  imports Interfaces SqlTable
begin

section \<open>The telemetry buffer\<close>

text \<open>
  The six telemetry tables of \<open>src/packages/virage-core/src/core/virage-db.ts\<close> and the methods
  that read, write, mark and prune them. Rows carry their \<open>rowid\<close>, since the size of the buffer is
  computed from it: a table with a text key numbers a new row one above its largest \<open>rowid\<close>, an
  \<open>AUTOINCREMENT\<close> table one above any it ever used. The rows are the interfaces of
  \<open>src/packages/virage-core/src/telemetry/types.ts\<close>.
\<close>

record session_row =
  sess_id :: string
  started_at :: string
  ended_at :: "string option"
  embedding_model :: "string option"
  chunking_strategy :: "string option"
  store_type :: "string option"
  node_version :: string
  os :: string
  total_searches :: nat
  total_tool_calls :: nat
  tools_used_json :: "string list"
  sess_flushed :: nat

record search_row =
  search_id :: string
  search_session :: string
  search_at :: string
  result_count :: nat
  result_count_bucket :: string
  empty_flag :: nat
  query_hash :: "string option"
  redundancy_detected :: nat
  search_flushed :: nat

record latency_row =
  latency_session :: string
  latency_at :: string
  phase :: string
  duration_ms :: int
  latency_flushed :: nat

record error_row =
  error_session :: string
  error_at :: string
  error_type :: string
  retry_count :: nat
  recovered :: nat
  error_flushed :: nat

record feedback_row =
  feedback_session :: string
  feedback_search :: string
  feedback_at :: string
  was_useful :: nat
  context_relevance :: "rat option"
  context_completeness :: "rat option"
  noise_ratio :: "rat option"
  missing_category :: "string option"
  feedback_flushed :: nat

record cache_row =
  cache_session :: string
  recorded_at :: string
  file_hit_rate :: "rat option"
  semantic_hit_rate :: "rat option"
  cache_flushed :: nat

type_synonym 'r rtable = "(nat \<times> 'r) list"

record 'r auto_table =
  auto_seq :: nat
  auto_rows :: "'r rtable"

record telemetry_db =
  t_sessions :: "session_row rtable"
  t_searches :: "search_row rtable"
  t_latency :: "latency_row auto_table"
  t_errors :: "error_row auto_table"
  t_feedback :: "feedback_row auto_table"
  t_cache_stats :: "cache_row auto_table"

definition empty_auto :: "'r auto_table" where
  "empty_auto = \<lparr>auto_seq = 0, auto_rows = []\<rparr>"

definition empty_telemetry :: telemetry_db where
  "empty_telemetry = \<lparr>t_sessions = [], t_searches = [], t_latency = empty_auto,
     t_errors = empty_auto, t_feedback = empty_auto, t_cache_stats = empty_auto\<rparr>"

definition next_rowid :: "'r rtable \<Rightarrow> nat" where
  "next_rowid t = Suc (fold max (map fst t) 0)"

definition replace_by_key :: "('r \<Rightarrow> 'k) \<Rightarrow> 'r \<Rightarrow> 'r rtable \<Rightarrow> 'r rtable" where
  "replace_by_key key r t = insert_or_replace (key \<circ> snd) (next_rowid t, r) t"

definition auto_insert :: "'r \<Rightarrow> 'r auto_table \<Rightarrow> 'r auto_table" where
  "auto_insert r t =
     \<lparr>auto_seq = Suc (auto_seq t), auto_rows = auto_rows t @ [(Suc (auto_seq t), r)]\<rparr>"

definition auto_update :: "('r \<Rightarrow> bool) \<Rightarrow> ('r \<Rightarrow> 'r) \<Rightarrow> 'r auto_table \<Rightarrow> 'r auto_table" where
  "auto_update P f t = t\<lparr>auto_rows := update_where (P \<circ> snd) (apsnd f) (auto_rows t)\<rparr>"

subsection \<open>Sessions\<close>

definition insertTelemetrySession :: "session_row \<Rightarrow> telemetry_db \<Rightarrow> telemetry_db" where
  "insertTelemetrySession r db = db\<lparr>t_sessions := replace_by_key sess_id r (t_sessions db)\<rparr>"

text \<open>The entries of the \<open>updates\<close> object, one constructor per column.\<close>

datatype session_update =
  StartedAt string | EndedAt "string option" | EmbeddingModel "string option"
  | ChunkingStrategy "string option" | StoreType "string option" | NodeVersion string | Os string
  | TotalSearches nat | TotalToolCalls nat | ToolsUsed "string list" | Flushed nat

fun set_field :: "session_update \<Rightarrow> session_row \<Rightarrow> session_row" where
  "set_field (StartedAt v) r = r\<lparr>started_at := v\<rparr>"
| "set_field (EndedAt v) r = r\<lparr>ended_at := v\<rparr>"
| "set_field (EmbeddingModel v) r = r\<lparr>embedding_model := v\<rparr>"
| "set_field (ChunkingStrategy v) r = r\<lparr>chunking_strategy := v\<rparr>"
| "set_field (StoreType v) r = r\<lparr>store_type := v\<rparr>"
| "set_field (NodeVersion v) r = r\<lparr>node_version := v\<rparr>"
| "set_field (Os v) r = r\<lparr>os := v\<rparr>"
| "set_field (TotalSearches v) r = r\<lparr>total_searches := v\<rparr>"
| "set_field (TotalToolCalls v) r = r\<lparr>total_tool_calls := v\<rparr>"
| "set_field (ToolsUsed v) r = r\<lparr>tools_used_json := v\<rparr>"
| "set_field (Flushed v) r = r\<lparr>sess_flushed := v\<rparr>"

definition updateTelemetrySession ::
  "string \<Rightarrow> session_update list \<Rightarrow> telemetry_db \<Rightarrow> telemetry_db" where
  "updateTelemetrySession i updates db =
     (if updates = [] then db
      else db\<lparr>t_sessions := update_where (\<lambda>(_, r). sess_id r = i) (apsnd (fold set_field updates))
                (t_sessions db)\<rparr>)"

definition getTelemetrySession :: "string \<Rightarrow> telemetry_db \<Rightarrow> session_row option" where
  "getTelemetrySession i db = map_option snd (get_row (sess_id \<circ> snd) i (t_sessions db))"

definition getUnflushedSessions :: "telemetry_db \<Rightarrow> session_row list" where
  "getUnflushedSessions db = filter (\<lambda>r. sess_flushed r = 0) (map snd (t_sessions db))"

definition markTelemetryFlushed :: "string \<Rightarrow> telemetry_db \<Rightarrow> telemetry_db" where
  "markTelemetryFlushed sid db =
     \<lparr>t_sessions = update_where (\<lambda>(_, r). sess_id r = sid) (apsnd (\<lambda>r. r\<lparr>sess_flushed := 1\<rparr>))
        (t_sessions db),
      t_searches = update_where (\<lambda>(_, r). search_session r = sid)
        (apsnd (\<lambda>r. r\<lparr>search_flushed := 1\<rparr>)) (t_searches db),
      t_latency = auto_update (\<lambda>r. latency_session r = sid) (\<lambda>r. r\<lparr>latency_flushed := 1\<rparr>)
        (t_latency db),
      t_errors = auto_update (\<lambda>r. error_session r = sid) (\<lambda>r. r\<lparr>error_flushed := 1\<rparr>) (t_errors db),
      t_feedback = auto_update (\<lambda>r. feedback_session r = sid) (\<lambda>r. r\<lparr>feedback_flushed := 1\<rparr>)
        (t_feedback db),
      t_cache_stats = auto_update (\<lambda>r. cache_session r = sid) (\<lambda>r. r\<lparr>cache_flushed := 1\<rparr>)
        (t_cache_stats db)\<rparr>"

subsection \<open>Searches, latency, errors, feedback and cache statistics\<close>

definition insertTelemetrySearch :: "search_row \<Rightarrow> telemetry_db \<Rightarrow> telemetry_db" where
  "insertTelemetrySearch r db = db\<lparr>t_searches := replace_by_key search_id r (t_searches db)\<rparr>"

definition getSearchesForSession :: "string \<Rightarrow> telemetry_db \<Rightarrow> search_row list" where
  "getSearchesForSession sid db =
     order_by_asc search_at (filter (\<lambda>r. search_session r = sid) (map snd (t_searches db)))"

definition insertTelemetryLatency :: "latency_row \<Rightarrow> telemetry_db \<Rightarrow> telemetry_db" where
  "insertTelemetryLatency r db = db\<lparr>t_latency := auto_insert r (t_latency db)\<rparr>"

definition getLatencyForSession :: "string \<Rightarrow> telemetry_db \<Rightarrow> latency_row list" where
  "getLatencyForSession sid db =
     order_by_asc latency_at
       (filter (\<lambda>r. latency_session r = sid) (map snd (auto_rows (t_latency db))))"

definition insertTelemetryError :: "error_row \<Rightarrow> telemetry_db \<Rightarrow> telemetry_db" where
  "insertTelemetryError r db = db\<lparr>t_errors := auto_insert r (t_errors db)\<rparr>"

definition getErrorsForSession :: "string \<Rightarrow> telemetry_db \<Rightarrow> error_row list" where
  "getErrorsForSession sid db =
     order_by_asc error_at (filter (\<lambda>r. error_session r = sid) (map snd (auto_rows (t_errors db))))"

definition insertTelemetryFeedback :: "feedback_row \<Rightarrow> telemetry_db \<Rightarrow> telemetry_db" where
  "insertTelemetryFeedback r db = db\<lparr>t_feedback := auto_insert r (t_feedback db)\<rparr>"

definition getFeedbackForSession :: "string \<Rightarrow> telemetry_db \<Rightarrow> feedback_row list" where
  "getFeedbackForSession sid db =
     order_by_asc feedback_at
       (filter (\<lambda>r. feedback_session r = sid) (map snd (auto_rows (t_feedback db))))"

definition insertTelemetryCacheStats :: "cache_row \<Rightarrow> telemetry_db \<Rightarrow> telemetry_db" where
  "insertTelemetryCacheStats r db = db\<lparr>t_cache_stats := auto_insert r (t_cache_stats db)\<rparr>"

definition getCacheStatsForSession :: "string \<Rightarrow> telemetry_db \<Rightarrow> cache_row list" where
  "getCacheStatsForSession sid db =
     order_by_asc recorded_at
       (filter (\<lambda>r. cache_session r = sid) (map snd (auto_rows (t_cache_stats db))))"

subsection \<open>Buffer management\<close>

text \<open>\<open>LENGTH(CAST(rowid AS TEXT))\<close>\<close>

fun decimal_digits :: "nat \<Rightarrow> nat" where
  "decimal_digits n = (if n < 10 then 1 else Suc (decimal_digits (n div 10)))"

declare decimal_digits.simps [simp del]

definition table_bytes :: "'r rtable \<Rightarrow> nat" where
  "table_bytes t = sum_list (map (\<lambda>(i, _). decimal_digits i + 50) t)"

definition getTelemetryBufferSizeBytes :: "telemetry_db \<Rightarrow> nat" where
  "getTelemetryBufferSizeBytes db =
     table_bytes (t_sessions db) + table_bytes (t_searches db) + table_bytes (auto_rows (t_latency db))
     + table_bytes (auto_rows (t_errors db)) + table_bytes (auto_rows (t_feedback db))
     + table_bytes (auto_rows (t_cache_stats db))"

definition delete_oldest :: "nat \<Rightarrow> ('r \<Rightarrow> string) \<Rightarrow> 'r auto_table \<Rightarrow> 'r auto_table" where
  "delete_oldest n age t =
     t\<lparr>auto_rows := delete_where
         (\<lambda>(i, _). i \<in> set (map fst (take n (order_by_asc (age \<circ> snd) (auto_rows t)))))
         (auto_rows t)\<rparr>"

definition pruneOldTelemetry :: "nat \<Rightarrow> telemetry_db \<Rightarrow> telemetry_db" where
  "pruneOldTelemetry maxBytes db =
     (if getTelemetryBufferSizeBytes db \<le> maxBytes then db
      else let db' = db\<lparr>t_latency := delete_oldest 1000 latency_at (t_latency db)\<rparr>
           in if getTelemetryBufferSizeBytes db' > maxBytes
              then db'\<lparr>t_cache_stats := delete_oldest 1000 recorded_at (t_cache_stats db')\<rparr>
              else db')"

definition hasTelemetrySessions :: "telemetry_db \<Rightarrow> bool" where
  "hasTelemetrySessions db = (length (t_sessions db) > 0)"

definition clearTelemetryData :: "telemetry_db \<Rightarrow> telemetry_db" where
  "clearTelemetryData db =
     db\<lparr>t_cache_stats := (t_cache_stats db)\<lparr>auto_rows := []\<rparr>,
        t_feedback := (t_feedback db)\<lparr>auto_rows := []\<rparr>,
        t_errors := (t_errors db)\<lparr>auto_rows := []\<rparr>,
        t_latency := (t_latency db)\<lparr>auto_rows := []\<rparr>, t_searches := [], t_sessions := []\<rparr>"

subsection \<open>Row numbers\<close>

definition auto_ok :: "'r auto_table \<Rightarrow> bool" where
  "auto_ok t \<longleftrightarrow> distinct (map fst (auto_rows t)) \<and> (\<forall>i\<in>fst ` set (auto_rows t). i \<le> auto_seq t)"

lemma auto_ok_empty [simp]: "auto_ok empty_auto"
  by (simp add: auto_ok_def empty_auto_def)

lemma auto_ok_insert [simp]: "auto_ok t \<Longrightarrow> auto_ok (auto_insert r t)"
  by (fastforce simp: auto_ok_def auto_insert_def)

lemma auto_ok_update [simp]: "auto_ok t \<Longrightarrow> auto_ok (auto_update P f t)"
proof -
  have "map fst (update_where (P \<circ> snd) (apsnd f) (auto_rows t)) = map fst (auto_rows t)"
    by (simp add: map_key_update_where)
  then show "auto_ok t \<Longrightarrow> auto_ok (auto_update P f t)"
    unfolding auto_ok_def auto_update_def by (metis auto_table.select_convs(1,2)
        auto_table.surjective auto_table.update_convs(2) list.set_map)
qed

lemma auto_ok_delete_oldest [simp]: "auto_ok t \<Longrightarrow> auto_ok (delete_oldest n age t)"
  by (auto simp: auto_ok_def delete_oldest_def delete_where_def distinct_map_filter)

lemma filter_drop_keys:
  assumes "distinct (map fst s)"
  shows "filter (\<lambda>(i, _). i \<notin> set (map fst (take n s))) s = drop n s"
  using assms
proof (induction s arbitrary: n)
  case (Cons x s)
  show ?case
  proof (cases n)
    case (Suc m)
    have "filter (\<lambda>(i, _). i \<notin> set (map fst (take n (x # s)))) (x # s)
        = filter (\<lambda>(i, _). i \<notin> set (map fst (take m s))) s"
      using Cons.prems by (auto simp: Suc case_prod_unfold image_iff intro!: filter_cong)
    then show ?thesis using Cons Suc by simp
  qed (simp add: case_prod_unfold)
qed simp

text \<open>Deleting the \<open>n\<close> oldest rows leaves the suffix of the rows sorted by age.\<close>

lemma delete_oldest_sorted:
  assumes "auto_ok t"
  shows "set (auto_rows (delete_oldest n age t)) = set (drop n (order_by_asc (age \<circ> snd) (auto_rows t)))"
    and "length (auto_rows (delete_oldest n age t)) = length (auto_rows t) - n"
proof -
  define s where "s = order_by_asc (age \<circ> snd) (auto_rows t)"
  have ms: "mset s = mset (auto_rows t)" by (simp add: s_def)
  then have ds: "distinct (map fst s)"
    using assms by (metis auto_ok_def mset_eq_imp_distinct_iff mset_map)
  have keep: "filter (\<lambda>(i, _). i \<notin> set (map fst (take n s))) s = drop n s"
    by (rule filter_drop_keys [OF ds])
  have rows: "auto_rows (delete_oldest n age t)
      = filter (\<lambda>(i, _). i \<notin> set (map fst (take n s))) (auto_rows t)"
    by (simp add: delete_oldest_def delete_where_def s_def case_prod_unfold)
  have "mset (auto_rows (delete_oldest n age t)) = mset (drop n s)"
    unfolding rows by (metis keep ms mset_filter)
  then show "set (auto_rows (delete_oldest n age t)) = set (drop n (order_by_asc (age \<circ> snd) (auto_rows t)))"
    and "length (auto_rows (delete_oldest n age t)) = length (auto_rows t) - n"
    using ms by (metis mset_eq_setD s_def, metis length_drop mset_eq_length)
qed

lemma deleted_are_older:
  assumes "auto_ok t" and "x \<in> set (auto_rows t) - set (auto_rows (delete_oldest n age t))"
    and "y \<in> set (auto_rows (delete_oldest n age t))"
  shows "age (snd x) \<le> age (snd y)"
proof -
  let ?s = "order_by_asc (age \<circ> snd) (auto_rows t)"
  have "sorted (map (age \<circ> snd) (take n ?s @ drop n ?s))"
    by (simp add: order_by_asc_def)
  then have le: "(age \<circ> snd) a \<le> (age \<circ> snd) b" if "a \<in> set (take n ?s)" "b \<in> set (drop n ?s)" for a b
    using that unfolding map_append sorted_append by auto
  have "x \<in> set (take n ?s @ drop n ?s)" unfolding append_take_drop_id using assms(2) by simp
  then have "x \<in> set (take n ?s)"
    using assms(2) delete_oldest_sorted(1) [OF assms(1), of n age]
    unfolding set_append by blast
  then show ?thesis
    using le assms(3) delete_oldest_sorted(1) [OF assms(1), of n age] by simp
qed

lemma delete_oldest_subset:
  "auto_ok t \<Longrightarrow> set (auto_rows (delete_oldest n age t)) \<subseteq> set (auto_rows t)"
  by (auto simp: delete_oldest_def)

subsection \<open>Properties\<close>

text \<open>Pruning does nothing while the buffer fits; otherwise it drops the 1000 oldest latency
  rows, and the 1000 oldest cache rows only if the buffer is still too large: every row dropped is
  at most as recent as every row of its table that stays, and sessions, searches, errors and
  feedback are never touched.\<close>

theorem prune_drops_oldest:
  assumes "auto_ok (t_latency db)" and "auto_ok (t_cache_stats db)"
  shows "t_sessions (pruneOldTelemetry mx db) = t_sessions db
    \<and> t_searches (pruneOldTelemetry mx db) = t_searches db
    \<and> t_errors (pruneOldTelemetry mx db) = t_errors db
    \<and> t_feedback (pruneOldTelemetry mx db) = t_feedback db
    \<and> (if getTelemetryBufferSizeBytes db \<le> mx then pruneOldTelemetry mx db = db
       else length (auto_rows (t_latency (pruneOldTelemetry mx db)))
              = length (auto_rows (t_latency db)) - 1000
          \<and> length (auto_rows (t_cache_stats (pruneOldTelemetry mx db)))
              = length (auto_rows (t_cache_stats db))
                - (if getTelemetryBufferSizeBytes
                        (db\<lparr>t_latency := t_latency (pruneOldTelemetry mx db)\<rparr>) > mx then 1000 else 0))
    \<and> (\<forall>x\<in>set (auto_rows (t_latency db)) - set (auto_rows (t_latency (pruneOldTelemetry mx db))).
         \<forall>y\<in>set (auto_rows (t_latency (pruneOldTelemetry mx db))). latency_at (snd x) \<le> latency_at (snd y))
    \<and> (\<forall>x\<in>set (auto_rows (t_cache_stats db)) - set (auto_rows (t_cache_stats (pruneOldTelemetry mx db))).
         \<forall>y\<in>set (auto_rows (t_cache_stats (pruneOldTelemetry mx db))). recorded_at (snd x) \<le> recorded_at (snd y))"
  using delete_oldest_sorted(2) [OF assms(1), of 1000 latency_at]
    delete_oldest_sorted(2) [OF assms(2), of 1000 recorded_at]
    deleted_are_older [OF assms(1), of _ 1000 latency_at]
    deleted_are_older [OF assms(2), of _ 1000 recorded_at]
  by (cases "getTelemetryBufferSizeBytes db \<le> mx";
      cases "getTelemetryBufferSizeBytes (db\<lparr>t_latency := delete_oldest 1000 latency_at (t_latency db)\<rparr>) \<le> mx")
    (simp_all add: pruneOldTelemetry_def Let_def)

definition sample_latency :: "string \<Rightarrow> latency_row" where
  "sample_latency t = \<lparr>latency_session = ''s'', latency_at = t, phase = ''embed'', duration_ms = 1,
     latency_flushed = 0\<rparr>"

lemma prune_drops_oldest_witness:
  "t_sessions (pruneOldTelemetry 0 (insertTelemetryLatency (sample_latency ''t'') empty_telemetry)) = []
   \<and> auto_rows (t_latency (pruneOldTelemetry 0
        (insertTelemetryLatency (sample_latency ''t'') empty_telemetry))) = []"
proof -
  let ?db = "insertTelemetryLatency (sample_latency ''t'') empty_telemetry"
  have ok: "auto_ok (t_latency ?db)" "auto_ok (t_cache_stats ?db)"
    by (simp_all add: insertTelemetryLatency_def empty_telemetry_def)
  have "\<not> getTelemetryBufferSizeBytes ?db \<le> 0" "length (auto_rows (t_latency ?db)) = 1"
    "t_sessions ?db = []"
    by (simp_all add: getTelemetryBufferSizeBytes_def insertTelemetryLatency_def empty_telemetry_def
        empty_auto_def auto_insert_def table_bytes_def)
  then show ?thesis using prune_drops_oldest [OF ok, of 0] by simp
qed

end
