(* ===== verification/Telemetry.thy ===== *)
theory Telemetry
  imports TelemetryDb
begin

section \<open>Telemetry sessions and their upload\<close>

text \<open>
  \<open>src/packages/virage-core/src/telemetry/{types,session,flusher,manager}.ts\<close>. A session object is
  a record next to the buffer; every method takes the clock: \<open>now\<close> in milliseconds and \<open>to_iso\<close>
  for \<open>toISOString\<close>. \<open>hash_vec\<close> is the truncated sha256 of a vector's float32 bytes, \<open>roll\<close> the
  value of \<open>Math.random()\<close>. The network call of \<open>flush\<close> is a parameter: whether the endpoint
  answered with success, and what other writes reached the buffer while the answer was awaited.
  Objects used as counters by name are association lists; names that collide with members of
  \<open>Object.prototype\<close> are not considered.
\<close>

record telemetry_config =
  tc_enabled :: bool
  tc_endpoint :: "string option"
  tc_api_key :: "string option"
  tier_implicit :: bool
  feedback_enabled :: bool
  sampling_rate :: real
  always_on_anomaly :: bool
  max_token_budget_percent :: nat
  query_hashing :: bool
  file_path_anonymization :: bool
  aggregation_window_minutes :: nat
  max_local_buffer_mb :: nat
  max_retry_hours :: nat

definition COMMUNITY_TELEMETRY_ENDPOINT :: string where
  "COMMUNITY_TELEMETRY_ENDPOINT = ''https://telemetry.virage.vivantel.dev/ingest''"

definition DEFAULT_TELEMETRY_CONFIG :: telemetry_config where
  "DEFAULT_TELEMETRY_CONFIG =
     \<lparr>tc_enabled = True, tc_endpoint = Some COMMUNITY_TELEMETRY_ENDPOINT, tc_api_key = None,
      tier_implicit = True, feedback_enabled = False, sampling_rate = 1 / 5,
      always_on_anomaly = True, max_token_budget_percent = 3, query_hashing = True,
      file_path_anonymization = True, aggregation_window_minutes = 60, max_local_buffer_mb = 10,
      max_retry_hours = 48\<rparr>"

record session_metadata =
  embeddingModel :: "string option"
  chunkingStrategy :: "string option"
  storeType :: "string option"
  nodeVersion :: string
  md_os :: string

subsection \<open>Buckets and categories\<close>

definition resultCountBucket :: "nat \<Rightarrow> string" where
  "resultCountBucket n =
     (if n = 0 then ''0'' else if n \<le> 3 then ''1-3'' else if n \<le> 10 then ''4-10''
      else if n \<le> 20 then ''11-20'' else ''20+'')"

definition MISSING_CATEGORY_VALUES :: "string list" where
  "MISSING_CATEGORY_VALUES =
     [''missing_error_handling'', ''missing_config_example'', ''missing_api_reference'',
      ''missing_type_signature'', ''missing_test_coverage'', ''other'']"

definition normalizeMissingCategory :: "string option \<Rightarrow> string option" where
  "normalizeMissingCategory v =
     (case v of None \<Rightarrow> None
      | Some s \<Rightarrow> if s = [] then None
                 else if s \<in> set MISSING_CATEGORY_VALUES then Some s else Some ''other'')"

subsection \<open>Cosine similarity\<close>

fun cosine_sums :: "real list \<Rightarrow> real list \<Rightarrow> real \<times> real \<times> real" where
  "cosine_sums (x # xs) (y # ys) =
     (let (d, na, nb) = cosine_sums xs ys in (d + x * y, na + x * x, nb + y * y))"
| "cosine_sums _ _ = (0, 0, 0)"

definition cosineSimilarity :: "real list \<Rightarrow> real list \<Rightarrow> real" where
  "cosineSimilarity a b =
     (let (d, normA, normB) = cosine_sums a b;
          denom = sqrt normA * sqrt normB
      in if denom = 0 then 0 else d / denom)"

lemma cosine_sums_bounds:
  "case cosine_sums a b of (d, na, nb) \<Rightarrow> 0 \<le> na \<and> 0 \<le> nb \<and> d * d \<le> na * nb"
proof (induction a b rule: cosine_sums.induct)
  case (1 x xs y ys)
  obtain d na nb where s: "cosine_sums xs ys = (d, na, nb)" by (cases "cosine_sums xs ys") auto
  have b: "0 \<le> na" "0 \<le> nb" "d * d \<le> na * nb" using 1 s by auto
  have "2 * d * (x * y) \<le> na * (y * y) + nb * (x * x)"
  proof -
    have "\<bar>d\<bar> \<le> sqrt na * sqrt nb"
      using b by (simp add: real_le_rsqrt power2_eq_square flip: real_sqrt_mult)
    then have "\<bar>d\<bar> * (\<bar>x\<bar> * \<bar>y\<bar>) \<le> (sqrt na * \<bar>y\<bar>) * (sqrt nb * \<bar>x\<bar>)"
      using mult_right_mono [of "\<bar>d\<bar>" "sqrt na * sqrt nb" "\<bar>x\<bar> * \<bar>y\<bar>"] by (simp add: mult_ac)
    moreover have "(sqrt na * \<bar>y\<bar> - sqrt nb * \<bar>x\<bar>)\<^sup>2
        = na * (y * y) + nb * (x * x) - 2 * ((sqrt na * \<bar>y\<bar>) * (sqrt nb * \<bar>x\<bar>))"
      using b by (simp add: power2_diff power_mult_distrib) (simp add: power2_eq_square)
    then have "2 * ((sqrt na * \<bar>y\<bar>) * (sqrt nb * \<bar>x\<bar>)) \<le> na * (y * y) + nb * (x * x)"
      using zero_le_power2 [of "sqrt na * \<bar>y\<bar> - sqrt nb * \<bar>x\<bar>"] by linarith
    moreover have "d * (x * y) \<le> \<bar>d\<bar> * (\<bar>x\<bar> * \<bar>y\<bar>)" by (metis abs_ge_self abs_mult)
    ultimately show ?thesis by linarith
  qed
  then have "(d + x * y) * (d + x * y) \<le> (na + x * x) * (nb + y * y)"
    using b by (simp add: algebra_simps)
  then show ?case using b s by simp
qed auto

lemma cosineSimilarity_bounds: "\<bar>cosineSimilarity a b\<bar> \<le> 1"
proof -
  obtain d na nb where s: "cosine_sums a b = (d, na, nb)" by (cases "cosine_sums a b") auto
  have b: "0 \<le> na" "0 \<le> nb" "d * d \<le> na * nb" using cosine_sums_bounds [of a b] s by auto
  have "\<bar>d\<bar> \<le> sqrt na * sqrt nb"
    using b by (simp add: real_le_rsqrt power2_eq_square flip: real_sqrt_mult)
  then have "\<bar>d / (sqrt na * sqrt nb)\<bar> \<le> 1" if "sqrt na * sqrt nb \<noteq> 0"
    using that b by (simp add: abs_divide abs_mult divide_le_eq_1)
  then show ?thesis by (auto simp: cosineSimilarity_def s Let_def)
qed

subsection \<open>The session object\<close>

record telemetry_session =
  ts_id :: string
  searchCount :: nat
  feedbackCallCount :: nat
  recentEmbeddings :: "(real list \<times> int) list"

definition REDUNDANCY_WINDOW_MS :: int where
  "REDUNDANCY_WINDOW_MS = 5 * 60 * 1000"

definition REDUNDANCY_THRESHOLD :: real where
  "REDUNDANCY_THRESHOLD = 8 / 10"

definition MAX_FEEDBACK_CALLS :: nat where
  "MAX_FEEDBACK_CALLS = 20"

definition new_session ::
  "telemetry_config \<Rightarrow> (int \<Rightarrow> string) \<Rightarrow> int \<Rightarrow> string \<Rightarrow> session_metadata \<Rightarrow> telemetry_db
   \<Rightarrow> telemetry_session \<times> telemetry_db" where
  "new_session cfg to_iso now sessionId md db =
     (\<lparr>ts_id = sessionId, searchCount = 0, feedbackCallCount = 0, recentEmbeddings = []\<rparr>,
      if tc_enabled cfg then
        insertTelemetrySession
          \<lparr>sess_id = sessionId, started_at = to_iso now, ended_at = None,
           embedding_model = embeddingModel md, chunking_strategy = chunkingStrategy md,
           store_type = storeType md, node_version = nodeVersion md, os = md_os md,
           total_searches = 0, total_tool_calls = 0, tools_used_json = [], sess_flushed = 0\<rparr> db
      else db)"

definition isRedundant :: "telemetry_session \<Rightarrow> real list \<Rightarrow> int \<Rightarrow> bool" where
  "isRedundant s embedding now =
     list_ex (\<lambda>(e, _). cosineSimilarity e embedding > REDUNDANCY_THRESHOLD)
       (filter (\<lambda>(_, timestamp). timestamp \<ge> now - REDUNDANCY_WINDOW_MS) (recentEmbeddings s))"

definition recordSearch ::
  "telemetry_config \<Rightarrow> (int \<Rightarrow> string) \<Rightarrow> (real list \<Rightarrow> string) \<Rightarrow> int \<Rightarrow> string \<Rightarrow> nat \<Rightarrow> real list
   \<Rightarrow> telemetry_session \<times> telemetry_db \<Rightarrow> telemetry_session \<times> telemetry_db" where
  "recordSearch cfg to_iso hash_vec now searchId resultCount queryEmbedding = (\<lambda>(s, db).
     if \<not> tc_enabled cfg \<or> \<not> tier_implicit cfg then (s, db)
     else
       let redundant = isRedundant s queryEmbedding now;
           cutoff = now - REDUNDANCY_WINDOW_MS;
           recent = filter (\<lambda>(_, timestamp). timestamp \<ge> cutoff)
                      (recentEmbeddings s @ [(queryEmbedding, now)]);
           queryHash = (if resultCount = 0 then Some (hash_vec queryEmbedding) else None);
           db1 = insertTelemetrySearch
             \<lparr>search_id = searchId, search_session = ts_id s, search_at = to_iso now,
              result_count = resultCount, result_count_bucket = resultCountBucket resultCount,
              empty_flag = (if resultCount = 0 then 1 else 0), query_hash = queryHash,
              redundancy_detected = (if redundant then 1 else 0), search_flushed = 0\<rparr> db;
           n = Suc (searchCount s)
       in (s\<lparr>recentEmbeddings := recent, searchCount := n\<rparr>,
           updateTelemetrySession (ts_id s) [TotalSearches n] db1))"

definition recordLatency ::
  "telemetry_config \<Rightarrow> (int \<Rightarrow> string) \<Rightarrow> int \<Rightarrow> string \<Rightarrow> int
   \<Rightarrow> telemetry_session \<times> telemetry_db \<Rightarrow> telemetry_session \<times> telemetry_db" where
  "recordLatency cfg to_iso now phase_name durationMs = (\<lambda>(s, db).
     if \<not> tc_enabled cfg \<or> \<not> tier_implicit cfg then (s, db)
     else (s, insertTelemetryLatency
            \<lparr>latency_session = ts_id s, latency_at = to_iso now, phase = phase_name,
             duration_ms = durationMs, latency_flushed = 0\<rparr> db))"

definition recordError ::
  "telemetry_config \<Rightarrow> (int \<Rightarrow> string) \<Rightarrow> int \<Rightarrow> string \<Rightarrow> nat \<Rightarrow> bool
   \<Rightarrow> telemetry_session \<times> telemetry_db \<Rightarrow> telemetry_session \<times> telemetry_db" where
  "recordError cfg to_iso now errorType retryCount recoveredArg = (\<lambda>(s, db).
     if \<not> tc_enabled cfg \<or> \<not> tier_implicit cfg then (s, db)
     else (s, insertTelemetryError
            \<lparr>error_session = ts_id s, error_at = to_iso now, error_type = errorType,
             retry_count = retryCount, recovered = (if recoveredArg then 1 else 0),
             error_flushed = 0\<rparr> db))"

record feedback_payload =
  wasUseful :: bool
  contextRelevance :: "rat option"
  contextCompleteness :: "rat option"
  noiseRatio :: "rat option"
  missingCategory :: "string option"

definition recordFeedback ::
  "telemetry_config \<Rightarrow> (int \<Rightarrow> string) \<Rightarrow> int \<Rightarrow> string \<Rightarrow> feedback_payload
   \<Rightarrow> telemetry_session \<times> telemetry_db \<Rightarrow> telemetry_session \<times> telemetry_db" where
  "recordFeedback cfg to_iso now searchId payload = (\<lambda>(s, db).
     if \<not> tc_enabled cfg then (s, db)
     else if \<not> feedback_enabled cfg then (s, db)
     else if feedbackCallCount s \<ge> MAX_FEEDBACK_CALLS then (s, db)
     else (s\<lparr>feedbackCallCount := Suc (feedbackCallCount s)\<rparr>,
           insertTelemetryFeedback
             \<lparr>feedback_session = ts_id s, feedback_search = searchId, feedback_at = to_iso now,
              was_useful = (if wasUseful payload then 1 else 0),
              context_relevance = contextRelevance payload,
              context_completeness = contextCompleteness payload,
              noise_ratio = noiseRatio payload,
              missing_category = normalizeMissingCategory (missingCategory payload),
              feedback_flushed = 0\<rparr> db))"

definition recordCliCommand ::
  "telemetry_config \<Rightarrow> (int \<Rightarrow> string) \<Rightarrow> int \<Rightarrow> string \<Rightarrow> real \<Rightarrow> bool
   \<Rightarrow> telemetry_session \<times> telemetry_db \<Rightarrow> telemetry_session \<times> telemetry_db" where
  "recordCliCommand cfg to_iso now command durationMs success = (\<lambda>(s, db).
     if \<not> tc_enabled cfg \<or> \<not> tier_implicit cfg then (s, db)
     else
       let db1 = insertTelemetryLatency
             \<lparr>latency_session = ts_id s, latency_at = to_iso now, phase = ''cli.'' @ command,
              duration_ms = \<lfloor>durationMs + 1 / 2\<rfloor>, latency_flushed = 0\<rparr> db
       in (s, if \<not> success then
                insertTelemetryError
                  \<lparr>error_session = ts_id s, error_at = to_iso now, error_type = ''cli.'' @ command,
                   retry_count = 0, recovered = 0, error_flushed = 0\<rparr> db1
              else db1))"

definition recordCacheStats ::
  "telemetry_config \<Rightarrow> (int \<Rightarrow> string) \<Rightarrow> int \<Rightarrow> rat \<Rightarrow> rat
   \<Rightarrow> telemetry_session \<times> telemetry_db \<Rightarrow> telemetry_session \<times> telemetry_db" where
  "recordCacheStats cfg to_iso now fileHitRate semanticHitRate = (\<lambda>(s, db).
     if \<not> tc_enabled cfg \<or> \<not> tier_implicit cfg then (s, db)
     else (s, insertTelemetryCacheStats
            \<lparr>cache_session = ts_id s, recorded_at = to_iso now, file_hit_rate = Some fileHitRate,
             semantic_hit_rate = Some semanticHitRate, cache_flushed = 0\<rparr> db))"

definition shouldSampleFeedback :: "telemetry_config \<Rightarrow> real \<Rightarrow> nat \<Rightarrow> telemetry_session \<Rightarrow> bool" where
  "shouldSampleFeedback cfg roll resultCount s =
     (if \<not> tc_enabled cfg then False
      else if \<not> feedback_enabled cfg then False
      else if feedbackCallCount s \<ge> MAX_FEEDBACK_CALLS then False
      else if always_on_anomaly cfg \<and> (resultCount = 0 \<or> resultCount > 10) then True
      else roll < sampling_rate cfg)"

definition end_session ::
  "telemetry_config \<Rightarrow> (int \<Rightarrow> string) \<Rightarrow> int
   \<Rightarrow> telemetry_session \<times> telemetry_db \<Rightarrow> telemetry_session \<times> telemetry_db" where
  "end_session cfg to_iso now = (\<lambda>(s, db).
     if \<not> tc_enabled cfg then (s, db)
     else (s, updateTelemetrySession (ts_id s) [EndedAt (Some (to_iso now))] db))"

text \<open>Whether \<open>printFirstRunDisclosure\<close> prints the notice of tier 1, and that of tier 2.\<close>

definition first_run_disclosure :: "telemetry_config \<Rightarrow> telemetry_db \<Rightarrow> bool \<times> bool" where
  "first_run_disclosure cfg db =
     (if \<not> tc_enabled cfg then (False, False)
      else if hasTelemetrySessions db then (False, False)
      else (True, feedback_enabled cfg))"

subsection \<open>The summary of a session\<close>

definition percentile :: "int list \<Rightarrow> real \<Rightarrow> int" where
  "percentile xs p =
     (if length xs = 0 then 0
      else xs ! nat (min \<lfloor>p * real (length xs)\<rfloor> (int (length xs) - 1)))"

definition avg :: "rat list \<Rightarrow> rat" where
  "avg xs = (if length xs = 0 then 0 else sum_list xs / of_nat (length xs))"

text \<open>\<open>m[k] = (m[k] ?? 0) + 1\<close>\<close>

definition bump :: "string \<Rightarrow> (string \<times> nat) list \<Rightarrow> (string \<times> nat) list" where
  "bump k m = AList.update k (case map_of m k of None \<Rightarrow> 1 | Some n \<Rightarrow> Suc n) m"

definition count_keys :: "string list \<Rightarrow> (string \<times> nat) list" where
  "count_keys ks = fold bump ks []"

definition push_key :: "string \<times> int \<Rightarrow> (string \<times> int list) list \<Rightarrow> (string \<times> int list) list" where
  "push_key e m = (case e of (k, v) \<Rightarrow>
     AList.update k (case map_of m k of None \<Rightarrow> [v] | Some vs \<Rightarrow> vs @ [v]) m)"

record phase_summary =
  p50 :: int
  p95 :: int
  p99 :: int
  phase_count :: nat

definition summarize_phase :: "int list \<Rightarrow> phase_summary" where
  "summarize_phase durations =
     (let s = sort durations
      in \<lparr>p50 = percentile s (1 / 2), p95 = percentile s (95 / 100), p99 = percentile s (99 / 100),
          phase_count = length s\<rparr>)"

definition bump_error :: "error_row \<Rightarrow> (string \<times> nat \<times> nat) list \<Rightarrow> (string \<times> nat \<times> nat) list" where
  "bump_error e m =
     (let (c, rc) = (case map_of m (error_type e) of None \<Rightarrow> (0, 0) | Some x \<Rightarrow> x)
      in AList.update (error_type e) (Suc c, if recovered e = 1 then Suc rc else rc) m)"

definition non_nulls :: "'a option list \<Rightarrow> 'a list" where
  "non_nulls vs = map the (filter (\<lambda>v. v \<noteq> None) vs)"

definition avg_or_null :: "rat option list \<Rightarrow> rat option" where
  "avg_or_null vs = (if length (non_nulls vs) > 0 then Some (avg (non_nulls vs)) else None)"

record session_summary =
  sum_session :: session_row
  search_total :: nat
  empty_count :: nat
  redundancy_count :: nat
  result_count_histogram :: "(string \<times> nat) list"
  latency_by_phase :: "(string \<times> phase_summary) list"
  errors_by_type :: "(string \<times> nat \<times> nat) list"
  feedback_count :: nat
  avg_context_relevance :: "rat option"
  avg_context_completeness :: "rat option"
  avg_noise_ratio :: "rat option"
  missing_category_distribution :: "(string \<times> nat) list"
  avg_file_hit_rate :: "rat option"
  avg_semantic_hit_rate :: "rat option"

text \<open>The payload sends every column of the session row but \<open>flushed\<close>; it is kept as the row.\<close>

definition buildSessionSummaryPayload :: "string \<Rightarrow> telemetry_db \<Rightarrow> session_summary option" where
  "buildSessionSummaryPayload sid db =
     (case getTelemetrySession sid db of
        None \<Rightarrow> None
      | Some session \<Rightarrow>
          let searches = getSearchesForSession sid db;
              latencies = getLatencyForSession sid db;
              errors = getErrorsForSession sid db;
              feedbacks = getFeedbackForSession sid db;
              cacheStats = getCacheStatsForSession sid db;
              byPhase = fold push_key (map (\<lambda>l. (phase l, duration_ms l)) latencies) []
          in Some
            \<lparr>sum_session = session,
             search_total = length searches,
             empty_count = length (filter (\<lambda>s. empty_flag s = 1) searches),
             redundancy_count = length (filter (\<lambda>s. redundancy_detected s = 1) searches),
             result_count_histogram = count_keys (map result_count_bucket searches),
             latency_by_phase = map (apsnd summarize_phase) byPhase,
             errors_by_type = fold bump_error errors [],
             feedback_count = length feedbacks,
             avg_context_relevance = avg_or_null (map context_relevance feedbacks),
             avg_context_completeness = avg_or_null (map context_completeness feedbacks),
             avg_noise_ratio = avg_or_null (map noise_ratio feedbacks),
             missing_category_distribution =
               count_keys (filter (\<lambda>c. c \<noteq> []) (non_nulls (map missing_category feedbacks))),
             avg_file_hit_rate = avg_or_null (map file_hit_rate cacheStats),
             avg_semantic_hit_rate = avg_or_null (map semantic_hit_rate cacheStats)\<rparr>)"

subsection \<open>Sending summaries\<close>

record http_request =
  req_url :: string
  req_authorization :: "string option"
  req_body :: session_summary

definition truthy :: "string option \<Rightarrow> bool" where
  "truthy v = (case v of None \<Rightarrow> False | Some s \<Rightarrow> s \<noteq> [])"

text \<open>
  \<open>post\<close> sends a request in world \<open>w\<close> while the buffer is \<open>db\<close>; it answers whether the response
  was ok (an exception or a timeout is not), and the world and the buffer at that moment, which
  other handlers may have written to meanwhile.
\<close>

definition flush ::
  "telemetry_config \<Rightarrow> (http_request \<Rightarrow> 'w \<times> telemetry_db \<Rightarrow> bool \<times> 'w \<times> telemetry_db) \<Rightarrow> string
   \<Rightarrow> 'w \<times> telemetry_db \<Rightarrow> bool \<times> 'w \<times> telemetry_db" where
  "flush cfg post sid = (\<lambda>(w, db).
     if \<not> tc_enabled cfg \<or> \<not> truthy (tc_endpoint cfg) then (False, w, db)
     else (case buildSessionSummaryPayload sid db of
             None \<Rightarrow> (False, w, db)
           | Some payload \<Rightarrow>
               (case post \<lparr>req_url = the (tc_endpoint cfg),
                          req_authorization = (if truthy (tc_api_key cfg)
                            then Some (''Bearer '' @ the (tc_api_key cfg)) else None),
                          req_body = payload\<rparr> (w, db)
                of (ok, w', db') \<Rightarrow>
                  if ok then (True, w', markTelemetryFlushed sid db') else (False, w', db'))))"

definition retryPending ::
  "telemetry_config \<Rightarrow> (http_request \<Rightarrow> 'w \<times> telemetry_db \<Rightarrow> bool \<times> 'w \<times> telemetry_db)
   \<Rightarrow> (int \<Rightarrow> string) \<Rightarrow> int \<Rightarrow> 'w \<times> telemetry_db \<Rightarrow> 'w \<times> telemetry_db" where
  "retryPending cfg post to_iso now = (\<lambda>(w, db).
     if \<not> tc_enabled cfg \<or> \<not> truthy (tc_endpoint cfg) then (w, db)
     else
       let cutoff = to_iso (now - int (max_retry_hours cfg) * 60 * 60 * 1000);
           unflushed = filter (\<lambda>s. started_at s \<ge> cutoff) (getUnflushedSessions db)
       in fold (\<lambda>s st. snd (flush cfg post (sess_id s) st)) unflushed (w, db))"

subsection \<open>Invariants of a session\<close>

text \<open>The calls the program makes on a session.\<close>

datatype session_op =
  OpSearch string nat "real list"
  | OpLatency string int
  | OpError string nat bool
  | OpFeedback string feedback_payload
  | OpCli string real bool
  | OpCache rat rat
  | OpEnd

fun session_exec ::
  "telemetry_config \<Rightarrow> (int \<Rightarrow> string) \<Rightarrow> (real list \<Rightarrow> string) \<Rightarrow> int \<times> session_op
   \<Rightarrow> telemetry_session \<times> telemetry_db \<Rightarrow> telemetry_session \<times> telemetry_db" where
  "session_exec cfg to_iso hash_vec (now, OpSearch i n e) st = recordSearch cfg to_iso hash_vec now i n e st"
| "session_exec cfg to_iso hash_vec (now, OpLatency ph d) st = recordLatency cfg to_iso now ph d st"
| "session_exec cfg to_iso hash_vec (now, OpError t n b) st = recordError cfg to_iso now t n b st"
| "session_exec cfg to_iso hash_vec (now, OpFeedback i p) st = recordFeedback cfg to_iso now i p st"
| "session_exec cfg to_iso hash_vec (now, OpCli c d b) st = recordCliCommand cfg to_iso now c d b st"
| "session_exec cfg to_iso hash_vec (now, OpCache f h) st = recordCacheStats cfg to_iso now f h st"
| "session_exec cfg to_iso hash_vec (now, OpEnd) st = end_session cfg to_iso now st"

lemmas session_op_defs = recordSearch_def recordLatency_def recordError_def recordFeedback_def
  recordCliCommand_def recordCacheStats_def end_session_def

lemmas telemetry_insert_defs = insertTelemetrySession_def insertTelemetrySearch_def
  insertTelemetryLatency_def insertTelemetryError_def insertTelemetryFeedback_def
  insertTelemetryCacheStats_def updateTelemetrySession_def auto_insert_def

definition count_searches :: "(int \<times> session_op) list \<Rightarrow> nat" where
  "count_searches ops = length (filter (\<lambda>(_, op). \<exists>i n e. op = OpSearch i n e) ops)"

definition session_inv ::
  "telemetry_config \<Rightarrow> string \<Rightarrow> telemetry_db \<Rightarrow> telemetry_session \<times> telemetry_db \<Rightarrow> bool" where
  "session_inv cfg sid db0 = (\<lambda>(s, db).
     ts_id s = sid \<and> feedbackCallCount s \<le> MAX_FEEDBACK_CALLS
     \<and> length (auto_rows (t_feedback db)) = length (auto_rows (t_feedback db0)) + feedbackCallCount s
     \<and> (\<not> feedback_enabled cfg \<longrightarrow> t_feedback db = t_feedback db0)
     \<and> (\<not> tc_enabled cfg \<longrightarrow> db = db0)
     \<and> (\<not> tier_implicit cfg \<longrightarrow> t_searches db = t_searches db0 \<and> t_latency db = t_latency db0
          \<and> t_errors db = t_errors db0 \<and> t_cache_stats db = t_cache_stats db0)
     \<and> (tc_enabled cfg \<longrightarrow> map_option total_searches (getTelemetrySession sid db) = Some (searchCount s)))"

lemma get_update_session:
  "getTelemetrySession i (updateTelemetrySession i us db)
     = map_option (fold set_field us) (getTelemetrySession i db)"
proof (cases "us = []")
  case False
  have keep: "sess_id (fold set_field us r) = sess_id r" for r
  proof (induction us arbitrary: r)
    case (Cons u us)
    then show ?case by (cases u) auto
  qed simp
  have "get_row (sess_id \<circ> snd) i
       (update_where (\<lambda>(_, r). sess_id r = i) (apsnd (fold set_field us)) (t_sessions db))
     = map_option (\<lambda>r. if case r of (_, r) \<Rightarrow> sess_id r = i then apsnd (fold set_field us) r else r)
         (get_row (sess_id \<circ> snd) i (t_sessions db))"
    by (rule get_update_where) (auto simp: keep)
  moreover have "sess_id r = i" if "get_row (sess_id \<circ> snd) i (t_sessions db) = Some (n, r)" for n r
    using get_row_key [OF that] by simp
  ultimately show ?thesis
    using False
    by (auto simp: getTelemetrySession_def updateTelemetrySession_def map_option_case split: option.splits)
qed (simp add: updateTelemetrySession_def option.map_id0)

lemma get_session_frame:
  "getTelemetrySession i (insertTelemetrySearch r1 db) = getTelemetrySession i db"
  "getTelemetrySession i (insertTelemetryLatency r2 db) = getTelemetrySession i db"
  "getTelemetrySession i (insertTelemetryError r3 db) = getTelemetrySession i db"
  "getTelemetrySession i (insertTelemetryFeedback r4 db) = getTelemetrySession i db"
  "getTelemetrySession i (insertTelemetryCacheStats r5 db) = getTelemetrySession i db"
  by (simp_all add: getTelemetrySession_def telemetry_insert_defs)

lemma t_updateSession [simp]:
  "t_searches (updateTelemetrySession i us db) = t_searches db"
  "t_latency (updateTelemetrySession i us db) = t_latency db"
  "t_errors (updateTelemetrySession i us db) = t_errors db"
  "t_feedback (updateTelemetrySession i us db) = t_feedback db"
  "t_cache_stats (updateTelemetrySession i us db) = t_cache_stats db"
  by (simp_all add: updateTelemetrySession_def)

lemma telemetry_frame [simp]:
  "t_latency (insertTelemetrySearch r0 db) = t_latency db"
  "t_errors (insertTelemetrySearch r0 db) = t_errors db"
  "t_feedback (insertTelemetrySearch r0 db) = t_feedback db"
  "t_cache_stats (insertTelemetrySearch r0 db) = t_cache_stats db"
  "t_searches (insertTelemetryLatency r1 db) = t_searches db"
  "t_errors (insertTelemetryLatency r1 db) = t_errors db"
  "t_feedback (insertTelemetryLatency r1 db) = t_feedback db"
  "t_cache_stats (insertTelemetryLatency r1 db) = t_cache_stats db"
  "t_searches (insertTelemetryError r2 db) = t_searches db"
  "t_latency (insertTelemetryError r2 db) = t_latency db"
  "t_feedback (insertTelemetryError r2 db) = t_feedback db"
  "t_cache_stats (insertTelemetryError r2 db) = t_cache_stats db"
  "t_searches (insertTelemetryFeedback r3 db) = t_searches db"
  "t_latency (insertTelemetryFeedback r3 db) = t_latency db"
  "t_errors (insertTelemetryFeedback r3 db) = t_errors db"
  "t_cache_stats (insertTelemetryFeedback r3 db) = t_cache_stats db"
  "t_searches (insertTelemetryCacheStats r4 db) = t_searches db"
  "t_latency (insertTelemetryCacheStats r4 db) = t_latency db"
  "t_errors (insertTelemetryCacheStats r4 db) = t_errors db"
  "t_feedback (insertTelemetryCacheStats r4 db) = t_feedback db"
  by (simp_all add: telemetry_insert_defs)

lemma t_insertFeedback [simp]:
  "length (auto_rows (t_feedback (insertTelemetryFeedback r db))) = Suc (length (auto_rows (t_feedback db)))"
  by (simp add: telemetry_insert_defs)

lemma total_searches_update:
  "map_option total_searches (map_option (set_field (EndedAt e)) x) = map_option total_searches x"
  "map_option total_searches (map_option (set_field (TotalSearches n)) x) = map_option (\<lambda>_. n) x"
  by (cases x; simp)+

lemma session_exec_inv:
  "session_inv cfg sid db0 st \<Longrightarrow> session_inv cfg sid db0 (session_exec cfg to_iso hash_vec op st)"
proof -
  assume inv: "session_inv cfg sid db0 st"
  obtain s db where st: "st = (s, db)" by (cases st)
  obtain now o' where op: "op = (now, o')" by (cases op)
  have some: "map_option (\<lambda>_. k) (getTelemetrySession sid db) = Some k" if "tc_enabled cfg" for k :: nat
    using inv that by (cases "getTelemetrySession sid db") (simp_all add: session_inv_def st)
  show ?thesis
    using inv some
    by (cases o'; cases "tc_enabled cfg"; cases "tier_implicit cfg"; cases "feedback_enabled cfg")
      (simp_all add: st op session_inv_def session_op_defs Let_def get_session_frame
        get_update_session total_searches_update del: map_option_eq_Some)
qed

lemma session_exec_all_inv:
  "session_inv cfg sid db0 st \<Longrightarrow> session_inv cfg sid db0 (fold (session_exec cfg to_iso hash_vec) ops st)"
  by (induction ops arbitrary: st) (simp_all add: session_exec_inv)

lemma new_session_inv:
  "session_inv cfg sid (snd (new_session cfg to_iso now sid md db0)) (new_session cfg to_iso now sid md db0)"
  by (simp add: new_session_def session_inv_def getTelemetrySession_def insertTelemetrySession_def
      replace_by_key_def get_insert_or_replace)

lemma searchCount_exec:
  "searchCount (fst (session_exec cfg to_iso hash_vec op st)) =
     (if tc_enabled cfg \<and> tier_implicit cfg \<and> (\<exists>i n e. snd op = OpSearch i n e)
      then Suc (searchCount (fst st)) else searchCount (fst st))"
  by (cases op; cases "snd op"; cases st) (auto simp: session_op_defs Let_def)

lemma searchCount_exec_all:
  "tc_enabled cfg \<Longrightarrow> tier_implicit cfg \<Longrightarrow>
   searchCount (fst (fold (session_exec cfg to_iso hash_vec) ops st)) = searchCount (fst st) + count_searches ops"
  by (induction ops arbitrary: st) (auto simp: searchCount_exec count_searches_def case_prod_unfold)

text \<open>C8. Whatever the program records in a session: with telemetry disabled the buffer never
  changes; without the implicit tier no search, latency, error or cache row is written, and
  without explicit feedback no feedback row; a session writes at most 20 feedback rows; and the
  session's row always counts exactly the searches recorded so far.\<close>

theorem session_respects_consent:
  assumes "(s0, db0) = new_session cfg to_iso t0 sid md db"
    and "(s, db') = fold (session_exec cfg to_iso hash_vec) ops (s0, db0)"
  shows "(\<not> tc_enabled cfg \<longrightarrow> db' = db)
    \<and> (\<not> tier_implicit cfg \<longrightarrow> t_searches db' = t_searches db \<and> t_latency db' = t_latency db
         \<and> t_errors db' = t_errors db \<and> t_cache_stats db' = t_cache_stats db)
    \<and> (\<not> feedback_enabled cfg \<longrightarrow> t_feedback db' = t_feedback db)
    \<and> length (auto_rows (t_feedback db')) \<le> length (auto_rows (t_feedback db)) + 20
    \<and> (tc_enabled cfg \<and> tier_implicit cfg \<longrightarrow>
         map_option total_searches (getTelemetrySession sid db') = Some (count_searches ops))"
proof -
  have inv: "session_inv cfg sid db0 (s, db')"
    using session_exec_all_inv [OF new_session_inv [of cfg sid to_iso t0 md db]] assms
    by (metis snd_conv)
  have db0: "db0 = (if tc_enabled cfg then db0 else db)"
      "t_searches db0 = t_searches db" "t_latency db0 = t_latency db" "t_errors db0 = t_errors db"
      "t_cache_stats db0 = t_cache_stats db" "t_feedback db0 = t_feedback db"
    and s0: "searchCount s0 = 0"
    using assms(1) by (auto simp: new_session_def insertTelemetrySession_def)
  have "searchCount s = count_searches ops" if "tc_enabled cfg" "tier_implicit cfg"
    using searchCount_exec_all [OF that, of to_iso hash_vec ops "(s0, db0)"] assms(2) s0
    by (metis add_0 fst_conv)
  then show ?thesis
    using inv db0 by (auto simp: session_inv_def MAX_FEEDBACK_CALLS_def split: if_splits)
qed

definition sample_md :: session_metadata where
  "sample_md = \<lparr>embeddingModel = None, chunkingStrategy = None, storeType = None,
     nodeVersion = ''v22'', md_os = ''linux''\<rparr>"

lemma session_respects_consent_witness:
  "map_option total_searches (getTelemetrySession ''s''
     (snd (fold (session_exec DEFAULT_TELEMETRY_CONFIG (\<lambda>_. ''t'') (\<lambda>_. ''h''))
            [(1, OpSearch ''q1'' 0 [1]), (2, OpLatency ''embed'' 4), (3, OpSearch ''q2'' 5 [1])]
            (new_session DEFAULT_TELEMETRY_CONFIG (\<lambda>_. ''t'') 0 ''s'' sample_md empty_telemetry))))
   = Some 2"
proof -
  let ?c = DEFAULT_TELEMETRY_CONFIG
  let ?n = "new_session ?c (\<lambda>_. ''t'') 0 ''s'' sample_md empty_telemetry"
  let ?ops = "[(1, OpSearch ''q1'' 0 [1]), (2, OpLatency ''embed'' 4), (3, OpSearch ''q2'' 5 [1])]"
  let ?r = "fold (session_exec ?c (\<lambda>_. ''t'') (\<lambda>_. ''h'')) ?ops ?n"
  have e: "tc_enabled ?c" "tier_implicit ?c" by (simp_all add: DEFAULT_TELEMETRY_CONFIG_def)
  have n: "(fst ?n, snd ?n) = ?n" by (rule prod.collapse)
  have r: "(fst ?r, snd ?r) = fold (session_exec ?c (\<lambda>_. ''t'') (\<lambda>_. ''h'')) ?ops (fst ?n, snd ?n)"
    unfolding n by (rule prod.collapse)
  have "count_searches ?ops = 2" by (simp add: count_searches_def)
  then show ?thesis
    using session_respects_consent [OF n r] e by (simp only: simp_thms)
qed

subsection \<open>Counters by name\<close>

lemma sum_bump: "distinct (map fst m) \<Longrightarrow> sum_list (map snd (bump k m)) = Suc (sum_list (map snd m))"
proof -
  assume d: "distinct (map fst m)"
  have none: "sum_list (map snd (AList.update k v m)) = v + sum_list (map snd m)"
    if "k \<notin> fst ` set m" for v using that by (induction m) auto
  have some: "sum_list (map snd (AList.update k (Suc n) m)) = Suc (sum_list (map snd m))"
    if "map_of m k = Some n" "distinct (map fst m)" for n using that by (induction m) auto
  show ?thesis
  proof (cases "map_of m k")
    case None
    then have "k \<notin> fst ` set m" by (simp add: map_of_eq_None_iff)
    then show ?thesis using None by (simp add: bump_def none)
  qed (simp add: bump_def some d)
qed

lemma distinct_bump: "distinct (map fst m) \<Longrightarrow> distinct (map fst (bump k m))"
  by (simp add: bump_def distinct_update)

lemma fold_bump:
  "distinct (map fst m) \<Longrightarrow>
   sum_list (map snd (fold bump ks m)) = length ks + sum_list (map snd m)"
  by (induction ks arbitrary: m) (simp_all add: sum_bump distinct_bump)

lemma sum_count_keys: "sum_list (map snd (count_keys ks)) = length ks"
  by (simp add: count_keys_def fold_bump)

lemma map_of_bump: "map_of (bump k m) j =
    (if j = k then Some (case map_of m k of None \<Rightarrow> 1 | Some n \<Rightarrow> Suc n) else map_of m j)"
  by (simp add: bump_def update_conv')

lemma map_of_fold_bump:
  "map_of (fold bump ks m) j =
     (if count_list ks j = 0 then map_of m j
      else Some (count_list ks j + (case map_of m j of None \<Rightarrow> 0 | Some n \<Rightarrow> n)))"
  by (induction ks arbitrary: m) (auto simp: map_of_bump split: option.splits)

lemma map_of_count_keys:
  "map_of (count_keys ks) j = (if count_list ks j = 0 then None else Some (count_list ks j))"
  by (simp add: count_keys_def map_of_fold_bump)

lemma push_key_fold:
  "map_of (fold push_key es m) j =
     (case map_of m j of
        None \<Rightarrow> if map snd (filter (\<lambda>e. fst e = j) es) = [] then None
                else Some (map snd (filter (\<lambda>e. fst e = j) es))
      | Some vs \<Rightarrow> Some (vs @ map snd (filter (\<lambda>e. fst e = j) es)))"
proof (induction es arbitrary: m)
  case (Cons e es)
  then show ?case
    by (cases e) (auto simp: push_key_def update_conv' split: option.splits)
qed (simp split: option.splits)

lemma percentile_mono:
  assumes "sorted xs" and "0 \<le> p" and "p \<le> q"
  shows "percentile xs p \<le> percentile xs q"
proof (cases "length xs = 0")
  case False
  have le: "\<lfloor>p * real (length xs)\<rfloor> \<le> \<lfloor>q * real (length xs)\<rfloor>"
    using assms by (intro floor_mono mult_right_mono) simp_all
  have "0 \<le> \<lfloor>p * real (length xs)\<rfloor>" using assms by simp
  then have "nat (min \<lfloor>p * real (length xs)\<rfloor> (int (length xs) - 1))
      \<le> nat (min \<lfloor>q * real (length xs)\<rfloor> (int (length xs) - 1))"
    using le by linarith
  moreover have "nat (min \<lfloor>q * real (length xs)\<rfloor> (int (length xs) - 1)) < length xs"
    using False by linarith
  ultimately show ?thesis
    using sorted_nth_mono [OF assms(1)] False by (simp add: percentile_def)
qed (simp add: percentile_def)

lemma percentile_mem:
  assumes "xs \<noteq> []" and "0 \<le> p"
  shows "percentile xs p \<in> set xs"
proof -
  have "0 \<le> \<lfloor>p * real (length xs)\<rfloor>" using assms by simp
  then have "nat (min \<lfloor>p * real (length xs)\<rfloor> (int (length xs) - 1)) < length xs"
    using assms(1) by (cases xs) auto
  then show ?thesis using assms(1) by (simp add: percentile_def)
qed

subsection \<open>Properties of the summary and of its upload\<close>

lemma map_of_apsnd: "map_of (map (apsnd f) xs) k = map_option f (map_of xs k)"
  by (induction xs) auto

text \<open>The summary of a session accounts for every row of it: the histogram of result counts
  adds up to the searches, the empty and redundant ones are among them, each phase reports as
  many durations as the session has rows of it and its percentiles are recorded durations in
  increasing order, and the categories of missing content never count more than the feedback.\<close>

theorem summary_accounts_for_rows:
  assumes "buildSessionSummaryPayload sid db = Some p"
  shows "sum_list (map snd (result_count_histogram p)) = search_total p
    \<and> search_total p = length (filter (\<lambda>(_, r). search_session r = sid) (t_searches db))
    \<and> empty_count p \<le> search_total p \<and> redundancy_count p \<le> search_total p
    \<and> (\<forall>ph s. map_of (latency_by_phase p) ph = Some s \<longrightarrow>
         phase_count s = length (filter (\<lambda>(_, r). latency_session r = sid \<and> phase r = ph)
                           (auto_rows (t_latency db)))
         \<and> p50 s \<le> p95 s \<and> p95 s \<le> p99 s
         \<and> p99 s \<in> duration_ms ` {r \<in> snd ` set (auto_rows (t_latency db)). latency_session r = sid \<and> phase r = ph})
    \<and> sum_list (map snd (missing_category_distribution p)) \<le> feedback_count p"
proof -
  have mset_len: "length (filter P (order_by_asc k xs)) = length (filter P xs)" for P xs
    and k :: "latency_row \<Rightarrow> string"
    by (metis mset_filter mset_order_by(1) size_mset)
  have p: "search_total p = length (getSearchesForSession sid db)"
      "result_count_histogram p = count_keys (map result_count_bucket (getSearchesForSession sid db))"
      "empty_count p \<le> length (getSearchesForSession sid db)"
      "redundancy_count p \<le> length (getSearchesForSession sid db)"
      "latency_by_phase p = map (apsnd summarize_phase)
         (fold push_key (map (\<lambda>l. (phase l, duration_ms l)) (getLatencyForSession sid db)) [])"
      "missing_category_distribution p = count_keys (filter (\<lambda>c. c \<noteq> [])
         (non_nulls (map missing_category (getFeedbackForSession sid db))))"
      "feedback_count p = length (getFeedbackForSession sid db)"
    using assms by (auto simp: buildSessionSummaryPayload_def Let_def split: option.splits)
  have searches: "length (getSearchesForSession sid db)
      = length (filter (\<lambda>(_, r). search_session r = sid) (t_searches db))"
    by (simp add: getSearchesForSession_def filter_map comp_def case_prod_unfold)
  have feedback: "length (filter (\<lambda>c. c \<noteq> []) (non_nulls vs)) \<le> length vs" for vs :: "string option list"
    unfolding non_nulls_def
    by (rule order_trans [OF length_filter_le]) (simp add: length_filter_le)
  have phases: "phase_count s = length (filter (\<lambda>(_, r). latency_session r = sid \<and> phase r = ph)
        (auto_rows (t_latency db)))
      \<and> p50 s \<le> p95 s \<and> p95 s \<le> p99 s
      \<and> p99 s \<in> duration_ms ` {r \<in> snd ` set (auto_rows (t_latency db)). latency_session r = sid \<and> phase r = ph}"
    if look: "map_of (latency_by_phase p) ph = Some s" for ph s
  proof -
    let ?ls = "filter (\<lambda>r. phase r = ph) (getLatencyForSession sid db)"
    obtain ds where ds: "map_of (fold push_key
          (map (\<lambda>l. (phase l, duration_ms l)) (getLatencyForSession sid db)) []) ph = Some ds"
        and s: "s = summarize_phase ds"
      using look unfolding p(5) map_of_apsnd by auto
    have ds': "ds = map duration_ms ?ls" "ds \<noteq> []"
      using ds by (auto simp: push_key_fold filter_map comp_def split: if_splits)
    have so: "sorted (sort ds)" by simp
    have "sort ds \<noteq> []" using ds'(2) by (metis set_empty set_sort)
    then have "p99 s \<in> set (sort ds)"
      using percentile_mem [of "sort ds" "99 / 100"] by (simp add: s summarize_phase_def Let_def)
    then have "p99 s \<in> duration_ms ` {r \<in> snd ` set (auto_rows (t_latency db)). latency_session r = sid \<and> phase r = ph}"
      using ds'(1) by (force simp: getLatencyForSession_def)
    moreover have "p50 s \<le> p95 s" "p95 s \<le> p99 s"
      using percentile_mono [OF so] by (simp_all add: s summarize_phase_def Let_def)
    moreover have "length ?ls = length (filter (\<lambda>(_, r). latency_session r = sid \<and> phase r = ph)
        (auto_rows (t_latency db)))"
      unfolding getLatencyForSession_def mset_len
      by (simp add: filter_map comp_def case_prod_unfold conj_commute)
    ultimately show ?thesis using ds'(1) by (simp add: s summarize_phase_def Let_def)
  qed
  show ?thesis
    using p searches feedback [of "map missing_category (getFeedbackForSession sid db)"] phases
    by (simp add: sum_count_keys)
qed


text \<open>Witnesses on a small buffer.\<close>

definition sample_buffer :: telemetry_db where
  "sample_buffer =
     snd (fold (session_exec DEFAULT_TELEMETRY_CONFIG (\<lambda>_. ''t'') (\<lambda>_. ''h''))
            [(1, OpSearch ''q1'' 0 []), (2, OpLatency ''embed'' 4), (3, OpLatency ''embed'' 2)]
            (new_session DEFAULT_TELEMETRY_CONFIG (\<lambda>_. ''t'') 0 ''s'' sample_md empty_telemetry))"

lemmas sample_buffer_eval = sample_buffer_def session_op_defs new_session_def sample_md_def
  empty_telemetry_def empty_auto_def telemetry_insert_defs replace_by_key_def next_rowid_def
  insert_or_replace_def DEFAULT_TELEMETRY_CONFIG_def COMMUNITY_TELEMETRY_ENDPOINT_def
  isRedundant_def update_where_def resultCountBucket_def Let_def REDUNDANCY_WINDOW_MS_def

lemma sample_summary:
  "\<exists>p. buildSessionSummaryPayload ''s'' sample_buffer = Some p \<and> search_total p = 1"
  by (simp add: buildSessionSummaryPayload_def Let_def getTelemetrySession_def get_row_def
      getSearchesForSession_def sample_buffer_eval)

lemma summary_accounts_for_rows_witness:
  "\<exists>p. buildSessionSummaryPayload ''s'' sample_buffer = Some p \<and> search_total p = 1
     \<and> empty_count p \<le> 1 \<and> sum_list (map snd (result_count_histogram p)) = 1"
proof -
  have one: "length (filter (\<lambda>(_, r). search_session r = ''s'') (t_searches sample_buffer)) = 1"
    and "getTelemetrySession ''s'' sample_buffer \<noteq> None"
    by (simp_all add: sample_buffer_eval getTelemetrySession_def get_row_def)
  then obtain p where p: "buildSessionSummaryPayload ''s'' sample_buffer = Some p"
    by (auto simp: buildSessionSummaryPayload_def Let_def)
  show ?thesis using summary_accounts_for_rows [OF p] one p by auto
qed


text \<open>
  A row written while the answer is awaited is marked as sent, although the summary was built
  before it existed: the search is missing from the summary, and from every later retry.
\<close>

definition late_search :: "telemetry_db \<Rightarrow> telemetry_db" where
  "late_search db = insertTelemetrySearch
     \<lparr>search_id = ''late'', search_session = ''s'', search_at = ''t2'', result_count = 1,
      result_count_bucket = ''1-3'', empty_flag = 0, query_hash = None, redundancy_detected = 0,
      search_flushed = 0\<rparr> db"

lemma flush_marks_unsent_rows:
  "case flush DEFAULT_TELEMETRY_CONFIG (\<lambda>r (w, db). (True, req_body r, late_search db)) ''s''
          (undefined, sample_buffer) of
     (ok, sent, db') \<Rightarrow> ok \<and> search_total sent = 1
       \<and> length (filter (\<lambda>(_, r). search_session r = ''s'' \<and> search_flushed r = 1) (t_searches db')) = 2
       \<and> getUnflushedSessions db' = []"
proof -
  obtain p where p: "buildSessionSummaryPayload ''s'' sample_buffer = Some p" "search_total p = 1"
    using sample_summary by blast
  have rows: "map (sess_id \<circ> snd) (t_sessions sample_buffer) = [''s'']"
      "map (search_id \<circ> snd) (t_searches sample_buffer) = [''q1'']"
      "map (search_session \<circ> snd) (t_searches sample_buffer) = [''s'']"
    by (simp_all add: sample_buffer_eval)
  have "flush DEFAULT_TELEMETRY_CONFIG (\<lambda>r (w, db). (True, req_body r, late_search db)) ''s''
          (undefined, sample_buffer) = (True, p, markTelemetryFlushed ''s'' (late_search sample_buffer))"
    by (simp add: flush_def p truthy_def DEFAULT_TELEMETRY_CONFIG_def COMMUNITY_TELEMETRY_ENDPOINT_def)
  then show ?thesis
    using p(2) rows
    by (auto simp: late_search_def markTelemetryFlushed_def insertTelemetrySearch_def
        replace_by_key_def insert_or_replace_def update_where_def getUnflushedSessions_def
        map_eq_Cons_conv)
qed

end
