(* ===== verification/Paths.thy ===== *)
theory Paths
  imports Prelude
begin

section \<open>Texts, paths and globs\<close>

text \<open>
  The string and path functions of JavaScript and of Node's \<open>path\<close> (POSIX) that the source
  components use: \<open>trim\<close>, splitting at white space, \<open>indexOf\<close>, \<open>dirname\<close>, \<open>extname\<close> and
  \<open>join\<close>. The glob matcher \<open>minimatch\<close> is a third-party package: wherever the code matches a
  path, the matcher is an argument \<open>mm\<close> applied to the options \<open>matchBase\<close> and \<open>dot\<close>, the path
  and the pattern.
\<close>

type_synonym matcher = "bool \<Rightarrow> bool \<Rightarrow> string \<Rightarrow> string \<Rightarrow> bool"

subsection \<open>White space\<close>

definition is_space :: "char \<Rightarrow> bool" where
  "is_space c \<longleftrightarrow> (of_char c :: nat) \<in> {9, 10, 11, 12, 13, 32, 160}"

definition trim_start :: "string \<Rightarrow> string" where
  "trim_start s = dropWhile is_space s"

definition trim :: "string \<Rightarrow> string" where
  "trim s = rev (dropWhile is_space (rev (trim_start s)))"

text \<open>\<open>line.split(/\s+/)\<close> of a text that neither starts nor ends with white space.\<close>

fun words_acc :: "string \<Rightarrow> string \<Rightarrow> string list" where
  "words_acc w [] = (if w = [] then [] else [rev w])"
| "words_acc w (c # cs) =
     (if is_space c then (if w = [] then words_acc [] cs else rev w # words_acc [] cs)
      else words_acc (c # w) cs)"

definition split_words :: "string \<Rightarrow> string list" where
  "split_words s = words_acc [] s"

text \<open>\<open>s.slice(0, i)\<close> and \<open>s.slice(i + 1)\<close> around the first occurrence \<open>i\<close> of a character.\<close>

definition cut_at :: "char \<Rightarrow> string \<Rightarrow> (string \<times> string) option" where
  "cut_at d s = (case dropWhile (\<lambda>c. c \<noteq> d) s of
     [] \<Rightarrow> None | _ # t \<Rightarrow> Some (takeWhile (\<lambda>c. c \<noteq> d) s, t))"

definition newline :: char where
  "newline = char_of (10::nat)"

definition tab :: char where
  "tab = char_of (9::nat)"

definition slash :: char where
  "slash = CHR ''/''"

lemma cut_at_append: "d \<notin> set a \<Longrightarrow> cut_at d (a @ d # b) = Some (a, b)"
proof -
  assume "d \<notin> set a"
  then have "takeWhile (\<lambda>c. c \<noteq> d) (a @ d # b) = a" "dropWhile (\<lambda>c. c \<noteq> d) (a @ d # b) = d # b"
    by (simp_all add: takeWhile_append dropWhile_append takeWhile_eq_all_conv)
  then show ?thesis by (simp add: cut_at_def)
qed

lemma cut_at_join: "cut_at d s = Some (a, b) \<Longrightarrow> s = a @ d # b \<and> d \<notin> set a"
proof -
  assume "cut_at d s = Some (a, b)"
  then obtain c t where t: "dropWhile (\<lambda>c. c \<noteq> d) s = c # t"
    and ab: "a = takeWhile (\<lambda>c. c \<noteq> d) s" "b = t"
    by (auto simp: cut_at_def split: list.splits)
  have "c = d" using hd_dropWhile [of "\<lambda>c. c \<noteq> d" s] t by simp
  moreover have "s = a @ c # t" unfolding ab(1) using t by (metis takeWhile_dropWhile_id)
  moreover have "d \<notin> set a" unfolding ab(1) by (auto dest: set_takeWhileD)
  ultimately show ?thesis using ab(2) by simp
qed

lemma trim_id:
  assumes "s = [] \<or> \<not> is_space (hd s) \<and> \<not> is_space (last s)"
  shows "trim s = s"
proof (cases s)
  case (Cons c t)
  have "dropWhile is_space s = s" using assms Cons by simp
  moreover have "dropWhile is_space (rev s) = rev s"
  proof -
    obtain ys y where "s = ys @ [y]" using Cons by (metis rev_exhaust list.distinct(1))
    then show ?thesis using assms by simp
  qed
  ultimately show ?thesis by (simp add: trim_def trim_start_def)
qed (simp add: trim_def trim_start_def)

subsection \<open>Paths\<close>

definition dirname :: "string \<Rightarrow> string" where
  "dirname p =
     (if p = [] then ''.''
      else let hasRoot = (hd p = slash);
               r = dropWhile (\<lambda>c. c = slash) (rev (tl p));
               cut = dropWhile (\<lambda>c. c \<noteq> slash) r
           in if cut = [] then (if hasRoot then ''/'' else ''.'')
              else if hasRoot \<and> length cut = 1 then ''//''
              else take (length cut) p)"

definition basename :: "string \<Rightarrow> string" where
  "basename p = last (split_on slash p)"

text \<open>\<open>extname\<close> of a path that does not end in a slash.\<close>

definition extname :: "string \<Rightarrow> string" where
  "extname p =
     (let b = basename p;
          after = rev (takeWhile (\<lambda>c. c \<noteq> CHR ''.'') (rev b));
          i = length b - length after
      in if CHR ''.'' \<notin> set b \<or> i \<le> 1 \<or> b = ''..'' then '''' else CHR ''.'' # after)"

fun normalize_segments :: "bool \<Rightarrow> string list \<Rightarrow> string list \<Rightarrow> string list" where
  "normalize_segments allowAbove stack [] = rev stack"
| "normalize_segments allowAbove stack (seg # segs) =
     (if seg = [] \<or> seg = ''.'' then normalize_segments allowAbove stack segs
      else if seg = ''..'' then
        (case stack of
           t # rest \<Rightarrow> if t \<noteq> ''..'' then normalize_segments allowAbove rest segs
                         else normalize_segments allowAbove (seg # stack) segs
         | [] \<Rightarrow> if allowAbove then normalize_segments allowAbove [seg] segs
                else normalize_segments allowAbove [] segs)
      else normalize_segments allowAbove (seg # stack) segs)"

definition normalize_path :: "string \<Rightarrow> string" where
  "normalize_path p =
     (if p = [] then ''.''
      else let isAbs = (hd p = slash);
               trailing = (last p = slash);
               body = join_with ''/'' (normalize_segments (\<not> isAbs) [] (split_on slash p))
           in if body = [] then (if isAbs then ''/'' else if trailing then ''./'' else ''.'')
              else (if isAbs then ''/'' else '''') @ body @ (if trailing then ''/'' else ''''))"

definition path_join :: "string list \<Rightarrow> string" where
  "path_join ps = normalize_path (join_with ''/'' (filter (\<lambda>p. p \<noteq> []) ps))"

lemma dirname_cases:
  "dirname p = ''.'' \<or> dirname p = ''/'' \<or> length (dirname p) < length p"
proof (cases "p = []")
  case False
  let ?r = "dropWhile (\<lambda>c. c = slash) (rev (tl p))"
  let ?cut = "dropWhile (\<lambda>c. c \<noteq> slash) ?r"
  have "length ?cut \<le> length (tl p)"
    using length_dropWhile_le [of "\<lambda>c. c \<noteq> slash" ?r] length_dropWhile_le [of "\<lambda>c. c = slash" "rev (tl p)"]
    by simp
  then have len: "length ?cut < length p" using False by (cases p) auto
  have three: "length p > 2" if "?cut \<noteq> []"
  proof -
    have r: "?r \<noteq> []" using that by (metis dropWhile.simps(1))
    then have h: "hd ?r \<noteq> slash" by (rule hd_dropWhile)
    have "slash \<in> set ?r" using that by (subst (asm) dropWhile_eq_Nil_conv) blast
    then have "length ?r \<ge> 2" using r h by (cases ?r; cases "tl ?r") auto
    then have "length (tl p) \<ge> 2"
      using length_dropWhile_le [of "\<lambda>c. c = slash" "rev (tl p)"] by simp
    then show ?thesis by simp
  qed
  define cut where "cut = ?cut"
  have d: "dirname p = (if cut = [] then (if hd p = slash then ''/'' else ''.'')
      else if hd p = slash \<and> length cut = 1 then ''//'' else take (length cut) p)"
    unfolding dirname_def Let_def if_not_P [OF False] cut_def ..
  have "length cut < length p" using len unfolding cut_def .
  moreover have "2 < length p" if "cut \<noteq> []" using three that unfolding cut_def by blast
  ultimately show ?thesis
    unfolding d by (cases "cut = []"; cases "hd p = slash"; simp)
qed (simp add: dirname_def)

end
