(* ===== verification/Tracking.thy ===== *)
theory Tracking
  imports Interfaces Paths "HOL-Library.Char_ord" "HOL-Library.List_Lexorder" "HOL-Library.Multiset"
begin

section \<open>Tracking the files of a repository\<close>

text \<open>
  \<open>src/packages/virage-core/src/core/git-tracker.ts\<close> and \<open>cli-git-source-repository.ts\<close>, with
  the chunker entries of \<open>interfaces/chunker.ts\<close>. The glob library, \<open>minimatch\<close> and the git
  commands are parameters: \<open>glob\<close> answers a list of paths, a git command answers its output or
  fails. \<open>sep\<close> is the path separator of the platform.
\<close>

record tag_rule =
  match :: string
  add_tags :: "string list"

record file_chunker =
  chunkerName :: string
  chunkerVersion :: "string option"
  patterns :: "string list"

record chunker_entry =
  chunker :: file_chunker
  include_globs :: "string list option"
  ignore_globs :: "string list option"
  fileSetTags :: "string list"
  tagRules :: "tag_rule list"
  chunkerKey :: string
  has_templates :: bool
  fileSetName :: string

record file_state =
  fs_commitHash :: string
  fs_entries :: "chunker_entry list"

subsection \<open>The tracker\<close>

definition posix_of :: "char \<Rightarrow> string \<Rightarrow> string" where
  "posix_of sep p = map (\<lambda>c. if c = sep then slash else c) p"

definition matchesPattern :: "char \<Rightarrow> matcher \<Rightarrow> string \<Rightarrow> string \<Rightarrow> bool" where
  "matchesPattern sep mm filePath pattern = mm False False (posix_of sep filePath) (posix_of sep pattern)"

definition entry_matches :: "char \<Rightarrow> matcher \<Rightarrow> string \<Rightarrow> chunker_entry \<Rightarrow> bool" where
  "entry_matches sep mm filePath e \<longleftrightarrow>
     \<not> (case include_globs e of None \<Rightarrow> False
         | Some ps \<Rightarrow> \<not> list_ex (matchesPattern sep mm filePath) ps)
     \<and> \<not> (case ignore_globs e of None \<Rightarrow> False | Some ps \<Rightarrow> list_ex (matchesPattern sep mm filePath) ps)
     \<and> list_ex (matchesPattern sep mm filePath) (patterns (chunker e))"

definition getEntriesForFile ::
  "char \<Rightarrow> matcher \<Rightarrow> chunker_entry list \<Rightarrow> string \<Rightarrow> chunker_entry list" where
  "getEntriesForFile sep mm entries filePath = filter (entry_matches sep mm filePath) entries"

definition IGNORED_DIRS :: "string list" where
  "IGNORED_DIRS = [''node_modules'', ''.git'', ''dist'', ''build'', ''coverage'', ''.cache'', ''.next'',
     ''out'', ''.turbo'']"

definition getAllTrackedFiles ::
  "char \<Rightarrow> matcher \<Rightarrow> (string list \<Rightarrow> string list \<Rightarrow> string list) \<Rightarrow> chunker_entry list \<Rightarrow> string list
   \<Rightarrow> string list" where
  "getAllTrackedFiles sep mm glob entries globalIgnore =
     (let ignore = map (\<lambda>d. d @ ''/**'') IGNORED_DIRS @ globalIgnore;
          normalizedPatterns = map (posix_of sep) (concat (map (patterns \<circ> chunker) entries));
          normalizedIgnore = map (posix_of sep) ignore;
          files = glob normalizedPatterns normalizedIgnore
      in sort (filter (\<lambda>f. length globalIgnore = 0
                 \<or> \<not> list_ex (mm False False (posix_of sep f)) globalIgnore)
               (dedup (map to_posix files))))"

definition getCurrentState ::
  "char \<Rightarrow> matcher \<Rightarrow> (string list \<Rightarrow> string list \<Rightarrow> string list) \<Rightarrow> chunker_entry list \<Rightarrow> string list
   \<Rightarrow> (string list \<Rightarrow> (string \<times> string) list) \<Rightarrow> string \<Rightarrow> (string \<times> file_state) list" where
  "getCurrentState sep mm glob entries globalIgnore git_getFileRevisions currentRevision =
     (let allFiles = getAllTrackedFiles sep mm glob entries globalIgnore;
          revisionMap = git_getFileRevisions allFiles
      in fold (\<lambda>file state.
           let revision = (case map_of revisionMap file of Some r \<Rightarrow> r | None \<Rightarrow> currentRevision);
               fileEntries = getEntriesForFile sep mm entries file
           in if length fileEntries > 0
              then AList.update file \<lparr>fs_commitHash = revision, fs_entries = fileEntries\<rparr> state
              else state)
         allFiles [])"

record changed_files =
  toProcess :: "string list"
  toDelete :: "string list"
  unchanged :: "string list"

definition is_new_or_changed :: "(string \<times> string) list \<Rightarrow> string \<times> file_state \<Rightarrow> bool" where
  "is_new_or_changed previousState = (\<lambda>(filePath, info).
     case map_of previousState filePath of
       None \<Rightarrow> True
     | Some prevHash \<Rightarrow> prevHash = [] \<or> prevHash \<noteq> fs_commitHash info)"

definition getChangedFiles ::
  "(string \<times> string) list \<Rightarrow> (string \<times> file_state) list \<Rightarrow> changed_files" where
  "getChangedFiles previousState current =
     \<lparr>toProcess = map fst (filter (is_new_or_changed previousState) current),
      toDelete = map fst (filter (\<lambda>(f, _). f \<notin> fst ` set current) previousState),
      unchanged = map fst (filter (\<lambda>x. \<not> is_new_or_changed previousState x) current)\<rparr>"

definition getCurrentBranch :: "string option \<Rightarrow> string" where
  "getCurrentBranch context_label = (case context_label of None \<Rightarrow> ''HEAD'' | Some c \<Rightarrow> c)"

subsection \<open>The git repository\<close>

definition isExcluded :: "char \<Rightarrow> matcher \<Rightarrow> string list \<Rightarrow> string \<Rightarrow> bool" where
  "isExcluded sep mm excludePatterns filePath =
     (if length excludePatterns = 0 then False
      else list_ex (mm False False (posix_of sep filePath)) excludePatterns)"

text \<open>The lines of \<open>git ls-tree -r HEAD --format=%(objectname) %(path)\<close>: blob and path.\<close>

definition parse_tree_line :: "string \<Rightarrow> (string \<times> string) list" where
  "parse_tree_line line =
     (if line = [] then []
      else (case cut_at (CHR '' '') line of None \<Rightarrow> [] | Some (blobSha, filePath) \<Rightarrow> [(filePath, blobSha)]))"

definition parse_tree :: "string \<Rightarrow> (string \<times> string) list" where
  "parse_tree out = concat (map parse_tree_line (split_on newline (trim out)))"

record source_item =
  item_id :: string
  item_path :: string
  providerName :: string
  item_labels :: "string list"

record source_filter =
  filter_include :: "string list option"
  filter_ignore :: "string list option"

definition listAll ::
  "char \<Rightarrow> matcher \<Rightarrow> string list \<Rightarrow> (string \<Rightarrow> string list) option \<Rightarrow> string option \<Rightarrow> source_filter option
   \<Rightarrow> source_item list" where
  "listAll sep mm excludePatterns codeowners treeOutput flt =
     (case treeOutput of
        None \<Rightarrow> []
      | Some out \<Rightarrow>
          concat (map (\<lambda>(filePath, blobSha).
            let normalized = posix_of sep filePath;
                ignored = (case flt of None \<Rightarrow> False | Some fl \<Rightarrow>
                  (case filter_ignore fl of None \<Rightarrow> False
                   | Some ps \<Rightarrow> list_ex (mm False True normalized) ps));
                excluded = (case flt of None \<Rightarrow> False | Some fl \<Rightarrow>
                  (case filter_include fl of None \<Rightarrow> False
                   | Some ps \<Rightarrow> \<not> list_ex (mm False True normalized) ps))
            in if isExcluded sep mm excludePatterns filePath \<or> ignored \<or> excluded then []
               else [\<lparr>item_id = blobSha, item_path = normalized, providerName = ''git'',
                      item_labels = (case codeowners of None \<Rightarrow> [] | Some labels \<Rightarrow> labels normalized)\<rparr>])
            (parse_tree out)))"

text \<open>
  The result and the number of progress reports. \<open>hash_object\<close> is the output of
  \<open>git hash-object\<close>, \<open>None\<close> when it fails; the maps filled by the parallel calls are functions of
  the file, so their order does not matter.
\<close>

definition hash_map :: "(string \<Rightarrow> string option) \<Rightarrow> string list \<Rightarrow> (string \<times> string) list" where
  "hash_map hash_object files =
     fold (\<lambda>file m. case hash_object file of
             None \<Rightarrow> m
           | Some out \<Rightarrow> if trim out \<noteq> [] then AList.update file (trim out) m else m) files []"

definition git_getFileRevisions ::
  "char \<Rightarrow> string option \<Rightarrow> string list option \<Rightarrow> (string \<Rightarrow> string option) \<Rightarrow> string list
   \<Rightarrow> (string \<times> string) list \<times> nat" where
  "git_getFileRevisions sep treeOutput status hash_object files =
     (if length files = 0 then ([], 0)
      else
        let treeMap = map_set_all
              (parse_tree (case treeOutput of None \<Rightarrow> '''' | Some out \<Rightarrow> out)) [];
            dirtySet = set (map (posix_of sep) (case status of None \<Rightarrow> [] | Some fs \<Rightarrow> fs));
            dirtyFiles = filter (\<lambda>f. posix_of sep f \<in> dirtySet) files;
            dirtyHashes = hash_map hash_object dirtyFiles;
            untrackedFiles = filter (\<lambda>f. posix_of sep f \<notin> dirtySet
                \<and> map_of treeMap (posix_of sep f) = None) files;
            untrackedHashes = hash_map hash_object untrackedFiles;
            step = (\<lambda>file (res, ticks).
              let normalized = posix_of sep file;
                  sha = (if normalized \<in> dirtySet
                         then (case map_of dirtyHashes file of Some h \<Rightarrow> Some h
                               | None \<Rightarrow> map_of treeMap normalized)
                         else (case map_of treeMap normalized of Some h \<Rightarrow> Some h
                               | None \<Rightarrow> map_of untrackedHashes file));
                  res' = (case sha of None \<Rightarrow> res
                          | Some h \<Rightarrow> if h \<noteq> [] then AList.update file h res else res)
              in (res', if file \<notin> set dirtyFiles \<and> file \<notin> set untrackedFiles
                        then Suc ticks else ticks))
        in fold step files ([], length dirtyFiles + length untrackedFiles))"

record changed_since =
  added :: "string list"
  modified :: "string list"
  deleted :: "string list"

definition parse_status_line :: "string \<Rightarrow> (string \<times> string) list" where
  "parse_status_line line =
     (if line = [] then []
      else (case split_on tab line of
              status # filePath # _ \<Rightarrow> if filePath = [] then [] else [(status, filePath)]
            | _ \<Rightarrow> []))"

definition with_status :: "string \<Rightarrow> (string \<times> string) list \<Rightarrow> string list" where
  "with_status s xs = map snd (filter (\<lambda>(st, _). st = s) xs)"

definition getChangedFilesSince ::
  "char \<Rightarrow> matcher \<Rightarrow> string list \<Rightarrow> string option \<Rightarrow> changed_since option" where
  "getChangedFilesSince sep mm excludePatterns output =
     (case output of
        None \<Rightarrow> None
      | Some out \<Rightarrow>
          let xs = concat (map parse_status_line (split_on newline (trim out)));
              keep = filter (\<lambda>f. \<not> isExcluded sep mm excludePatterns f)
          in Some \<lparr>added = keep (with_status ''A'' xs), modified = keep (with_status ''M'' xs),
                   deleted = keep (with_status ''D'' xs)\<rparr>)"

definition getContext :: "string option \<Rightarrow> string" where
  "getContext branch =
     (case branch of None \<Rightarrow> ''HEAD'' | Some b \<Rightarrow> if trim b = [] then ''HEAD'' else trim b)"

definition getPendingChanges :: "char \<Rightarrow> matcher \<Rightarrow> string list \<Rightarrow> string list option \<Rightarrow> string list" where
  "getPendingChanges sep mm excludePatterns status =
     (case status of None \<Rightarrow> []
      | Some fs \<Rightarrow> dedup (filter (\<lambda>p. \<not> isExcluded sep mm excludePatterns p) fs))"

subsection \<open>Building maps file by file\<close>

lemma fold_update_distinct:
  assumes "distinct xs" and "set xs \<inter> fst ` set m = {}"
  shows "fold (\<lambda>x m. if P x then AList.update x (g x) m else m) xs m
    = m @ map (\<lambda>x. (x, g x)) (filter P xs)"
  using assms
proof (induction xs arbitrary: m)
  case (Cons x xs)
  have "x \<notin> fst ` set m" using Cons.prems(2) by simp
  then show ?case
    using Cons.IH [of "AList.update x (g x) m"] Cons.IH [of m] Cons.prems
    by (auto simp: update_new)
qed simp

lemma map_of_fold_update:
  "map_of (fold (\<lambda>x m. case g x of None \<Rightarrow> m | Some v \<Rightarrow> AList.update x v m) xs m) k =
     (if k \<in> set xs then (case g k of None \<Rightarrow> map_of m k | Some v \<Rightarrow> Some v) else map_of m k)"
  by (induction xs arbitrary: m) (auto simp: update_conv' split: option.splits)

lemma getAllTrackedFiles_sorted:
  "sorted (getAllTrackedFiles sep mm glob entries globalIgnore)
   \<and> distinct (getAllTrackedFiles sep mm glob entries globalIgnore)"
  by (simp add: getAllTrackedFiles_def Let_def)

lemma partition_mset:
  "mset (map f (filter P xs)) + mset (map f (filter (\<lambda>x. \<not> P x) xs)) = mset (map f xs)"
  by (induction xs) auto

subsection \<open>Properties of the tracker\<close>

text \<open>C10. The current state lists, in sorted order and once each, exactly the tracked files some
  chunker entry accepts, each with its revision (that of the whole source when the file has none of
  its own) and with all its entries in configuration order.\<close>

theorem getCurrentState_lists_matched_files:
  "let files = getAllTrackedFiles sep mm glob entries globalIgnore;
       state = getCurrentState sep mm glob entries globalIgnore revisions cur
   in state = map (\<lambda>f. (f, \<lparr>fs_commitHash = (case map_of (revisions files) f of Some r \<Rightarrow> r | None \<Rightarrow> cur),
                            fs_entries = filter (entry_matches sep mm f) entries\<rparr>))
                  (filter (\<lambda>f. list_ex (entry_matches sep mm f) entries) files)
      \<and> sorted (map fst state) \<and> distinct (map fst state)"
proof -
  let ?files = "getAllTrackedFiles sep mm glob entries globalIgnore"
  let ?g = "\<lambda>f. \<lparr>fs_commitHash = (case map_of (revisions ?files) f of Some r \<Rightarrow> r | None \<Rightarrow> cur),
      fs_entries = filter (entry_matches sep mm f) entries\<rparr>"
  let ?P = "\<lambda>f. list_ex (entry_matches sep mm f) entries"
  have ex: "(0 < length (filter P xs)) = list_ex P xs" for P and xs :: "chunker_entry list"
    by (induction xs) auto
  have srt: "sorted ?files" "distinct ?files" using getAllTrackedFiles_sorted by blast+
  have st: "getCurrentState sep mm glob entries globalIgnore revisions cur
      = map (\<lambda>f. (f, ?g f)) (filter ?P ?files)"
    using fold_update_distinct [OF srt(2), of "[]" ?P ?g]
    by (simp add: getCurrentState_def Let_def getEntriesForFile_def ex del: length_greater_0_conv)
  show ?thesis
    unfolding Let_def st using srt sorted_filter [of "\<lambda>x. x" ?files ?P] by (simp add: comp_def)
qed

text \<open>C11. Every current file is either to be processed or unchanged, in its place in the listing;
  it is unchanged exactly when its recorded revision is non-empty and equal to the current one; a
  file is to be deleted exactly when it is recorded and not current; and once all current
  revisions are recorded, a second look finds nothing to do.\<close>

theorem changed_files_partition:
  assumes "distinct (map fst current)" and "\<forall>x\<in>set current. fs_commitHash (snd x) \<noteq> []"
  shows "mset (toProcess (getChangedFiles previous current))
           + mset (unchanged (getChangedFiles previous current)) = mset (map fst current)
    \<and> set (unchanged (getChangedFiles previous current))
           = {f. \<exists>i. map_of current f = Some i \<and> map_of previous f = Some (fs_commitHash i)}
    \<and> set (toDelete (getChangedFiles previous current)) = fst ` set previous - fst ` set current
    \<and> getChangedFiles (map (\<lambda>(f, i). (f, fs_commitHash i)) current) current
        = \<lparr>toProcess = [], toDelete = [], unchanged = map fst current\<rparr>"
proof (intro conjI)
  show "mset (toProcess (getChangedFiles previous current))
      + mset (unchanged (getChangedFiles previous current)) = mset (map fst current)"
    by (simp only: getChangedFiles_def changed_files.simps partition_mset)
  have mo: "map_of current f = Some i \<longleftrightarrow> (f, i) \<in> set current" for f i
    using assms(1) by (rule map_of_eq_Some_iff)
  have "x \<in> set current \<and> \<not> is_new_or_changed previous x \<longleftrightarrow>
      map_of current (fst x) = Some (snd x) \<and> map_of previous (fst x) = Some (fs_commitHash (snd x))" for x
    using assms(2) mo by (cases x) (force simp: is_new_or_changed_def split: option.splits)
  then show "set (unchanged (getChangedFiles previous current))
      = {f. \<exists>i. map_of current f = Some i \<and> map_of previous f = Some (fs_commitHash i)}"
    by (force simp: getChangedFiles_def)
  show "set (toDelete (getChangedFiles previous current)) = fst ` set previous - fst ` set current"
    by (force simp: getChangedFiles_def)
  have look: "map_of (map (\<lambda>(f, i). (f, fs_commitHash i)) current) f = Some (fs_commitHash i)"
    if "(f, i) \<in> set current" for f i
    using that assms(1) by (subst map_of_eq_Some_iff) (force simp: comp_def case_prod_unfold)+
  then have none: "filter (is_new_or_changed (map (\<lambda>(f, i). (f, fs_commitHash i)) current)) current = []"
    using assms(2) by (auto simp: filter_empty_conv is_new_or_changed_def)
  then have all: "filter (\<lambda>x. \<not> is_new_or_changed (map (\<lambda>(f, i). (f, fs_commitHash i)) current) x) current
      = current"
    by (auto simp: filter_empty_conv filter_id_conv)
  show "getChangedFiles (map (\<lambda>(f, i). (f, fs_commitHash i)) current) current
      = \<lparr>toProcess = [], toDelete = [], unchanged = map fst current\<rparr>"
    unfolding getChangedFiles_def none all by (force simp: filter_empty_conv)
qed

definition sample_state :: "(string \<times> file_state) list" where
  "sample_state = [(''a.md'', \<lparr>fs_commitHash = ''r1'', fs_entries = []\<rparr>),
     (''b.md'', \<lparr>fs_commitHash = ''r2'', fs_entries = []\<rparr>)]"

lemma changed_files_partition_witness:
  "set (unchanged (getChangedFiles [(''a.md'', ''r1''), (''c.md'', ''r0'')] sample_state)) = {''a.md''}
   \<and> set (toDelete (getChangedFiles [(''a.md'', ''r1''), (''c.md'', ''r0'')] sample_state)) = {''c.md''}"
  using changed_files_partition [of sample_state "[(''a.md'', ''r1''), (''c.md'', ''r0'')]"]
  by (auto simp: sample_state_def split: if_splits)

subsection \<open>Properties of the git repository\<close>

lemma map_of_hash_map:
  "map_of (hash_map hash_object files) f =
     (if f \<in> set files
      then (case hash_object f of None \<Rightarrow> None
            | Some out \<Rightarrow> if trim out = [] then None else Some (trim out))
      else None)"
proof -
  let ?g = "\<lambda>f. case hash_object f of None \<Rightarrow> None
      | Some out \<Rightarrow> if trim out = [] then None else Some (trim out)"
  have "hash_map hash_object files
      = fold (\<lambda>x m. case ?g x of None \<Rightarrow> m | Some v \<Rightarrow> AList.update x v m) files []"
    unfolding hash_map_def
    by (rule arg_cong [where f = "\<lambda>s. fold s files []"]) (auto simp: fun_eq_iff split: option.splits)
  then show ?thesis by (simp add: map_of_fold_update [of ?g] split: option.splits)
qed

lemma fold_pair:
  "fold (\<lambda>x (a, b). (f x a, g x b)) xs (a0, b0) = (fold f xs a0, fold g xs b0)"
  by (induction xs arbitrary: a0 b0) simp_all

lemma fold_count: "fold (\<lambda>x n. if P x then Suc n else n) xs n = n + length (filter P xs)"
  by (induction xs arbitrary: n) simp_all

text \<open>The revision of a file: with local changes, the hash of its working copy (the committed
  blob only if hashing fails); committed and clean, its blob; otherwise the hash of its working
  copy; and a file without any of them has none. Each file reports progress exactly once.\<close>

theorem getFileRevisions_spec:
  "let tree = map_of (rev (parse_tree (case treeOutput of None \<Rightarrow> '''' | Some out \<Rightarrow> out)));
       dirty = (\<lambda>f. posix_of sep f \<in> posix_of sep ` set (case status of None \<Rightarrow> [] | Some fs \<Rightarrow> fs));
       working = (\<lambda>f. case hash_object f of None \<Rightarrow> None
                      | Some out \<Rightarrow> if trim out = [] then None else Some (trim out));
       sha = (\<lambda>f. if dirty f then (case working f of None \<Rightarrow> tree (posix_of sep f) | Some h \<Rightarrow> Some h)
                  else (case tree (posix_of sep f) of None \<Rightarrow> working f | Some h \<Rightarrow> Some h))
   in map_of (fst (git_getFileRevisions sep treeOutput status hash_object files)) f
        = (if f \<in> set files \<and> sha f \<noteq> Some [] then sha f else None)
      \<and> snd (git_getFileRevisions sep treeOutput status hash_object files) = length files"
proof (cases "files = []")
  case True
  then show ?thesis by (simp add: git_getFileRevisions_def)
next
  case False
  define tm where "tm = map_set_all (parse_tree (case treeOutput of None \<Rightarrow> '''' | Some out \<Rightarrow> out)) []"
  define ds where "ds = set (map (posix_of sep) (case status of None \<Rightarrow> [] | Some fs \<Rightarrow> fs))"
  define dF where "dF = filter (\<lambda>f. posix_of sep f \<in> ds) files"
  define uF where "uF = filter (\<lambda>f. posix_of sep f \<notin> ds \<and> map_of tm (posix_of sep f) = None) files"
  define sh where "sh fl = (let normalized = posix_of sep fl in
      if normalized \<in> ds
      then (case map_of (hash_map hash_object dF) fl of Some h \<Rightarrow> Some h | None \<Rightarrow> map_of tm normalized)
      else (case map_of tm normalized of Some h \<Rightarrow> Some h
            | None \<Rightarrow> map_of (hash_map hash_object uF) fl))" for fl
  let ?h = "\<lambda>file. case sh file of None \<Rightarrow> None | Some h \<Rightarrow> if h = [] then None else Some h"
  have "git_getFileRevisions sep treeOutput status hash_object files
      = fold (\<lambda>file (res, ticks).
          ((case ?h file of None \<Rightarrow> res | Some v \<Rightarrow> AList.update file v res),
           if file \<notin> set dF \<and> file \<notin> set uF then Suc ticks else ticks))
          files ([], length dF + length uF)"
    using False
    unfolding git_getFileRevisions_def Let_def length_0_conv if_not_P [OF False] tm_def [symmetric]
      ds_def [symmetric] dF_def [symmetric] uF_def [symmetric]
    by (intro arg_cong [where f = "\<lambda>s. fold s files ([], length dF + length uF)"])
      (auto simp: fun_eq_iff sh_def Let_def split: option.splits)
  also have "\<dots> = (fold (\<lambda>x m. case ?h x of None \<Rightarrow> m | Some v \<Rightarrow> AList.update x v m) files [],
      fold (\<lambda>x n. if x \<notin> set dF \<and> x \<notin> set uF then Suc n else n) files (length dF + length uF))"
    by (rule fold_pair)
  finally have run: "git_getFileRevisions sep treeOutput status hash_object files = \<dots>" .
  have ticks: "length dF + length uF + length (filter (\<lambda>x. x \<notin> set dF \<and> x \<notin> set uF) files) = length files"
  proof -
    have eq: "filter (\<lambda>x. x \<notin> set dF \<and> x \<notin> set uF) files
        = filter (\<lambda>x. \<not> posix_of sep x \<in> ds \<and> \<not> map_of tm (posix_of sep x) = None) files"
      by (rule filter_cong) (auto simp: dF_def uF_def)
    have three: "length (filter P xs) + length (filter (\<lambda>x. \<not> P x \<and> Q x) xs)
        + length (filter (\<lambda>x. \<not> P x \<and> \<not> Q x) xs) = length xs" for P Q and xs :: "string list"
      by (induction xs) auto
    show ?thesis unfolding eq unfolding dF_def uF_def by (rule three)
  qed
  have tm: "map_of tm = map_of (rev (parse_tree (case treeOutput of None \<Rightarrow> '''' | Some out \<Rightarrow> out)))"
    by (simp add: tm_def map_of_map_set_all)
  have ds: "ds = posix_of sep ` set (case status of None \<Rightarrow> [] | Some fs \<Rightarrow> fs)"
    by (simp add: ds_def)
  have sh: "sh f = (if posix_of sep f \<in> ds
        then (case (case hash_object f of None \<Rightarrow> None
               | Some out \<Rightarrow> if trim out = [] then None else Some (trim out))
              of None \<Rightarrow> map_of tm (posix_of sep f) | Some h \<Rightarrow> Some h)
        else (case map_of tm (posix_of sep f) of
                None \<Rightarrow> (case hash_object f of None \<Rightarrow> None
                  | Some out \<Rightarrow> if trim out = [] then None else Some (trim out))
              | Some h \<Rightarrow> Some h))"
    if "f \<in> set files"
    using that by (auto simp: sh_def Let_def map_of_hash_map dF_def uF_def split: option.splits)
  show ?thesis
    unfolding Let_def run fst_conv snd_conv map_of_fold_update fold_count ticks tm [symmetric] ds [symmetric]
    using sh by (auto split: option.splits)
qed

end
