(* ===== verification/Labels.thy ===== *)
theory Labels
  imports Tracking
begin

section \<open>Tags and labels of a file\<close>

text \<open>
  \<open>src/packages/virage-core/src/core/tag-pipeline.ts\<close> and \<open>label-pipeline.ts\<close>. The file system is
  a parameter: \<open>fs p\<close> is \<open>None\<close> when \<open>p\<close> does not exist, else its contents, or \<open>Malformed\<close> when
  they cannot be read; for a label file the contents are the JSON value they parse to.
\<close>

subsection \<open>Tag rules\<close>

definition applyTagRules :: "matcher \<Rightarrow> string \<Rightarrow> tag_rule list \<Rightarrow> string list" where
  "applyTagRules mm filePath rules =
     concat (map (\<lambda>r. if mm False True filePath (match r) then add_tags r else []) rules)"

definition resolveFileTags :: "matcher \<Rightarrow> string \<Rightarrow> string list \<Rightarrow> tag_rule list \<Rightarrow> string list" where
  "resolveFileTags mm filePath setTags rules =
     filter_unseen (\<lambda>t. t) [] (setTags @ applyTagRules mm filePath rules)"

subsection \<open>Extension labels\<close>

definition EXTENSION_LABELS :: "(string \<times> string) list" where
  "EXTENSION_LABELS =
     [(''.ts'', ''language:typescript''), (''.tsx'', ''language:typescript''),
      (''.js'', ''language:javascript''), (''.jsx'', ''language:javascript''),
      (''.mjs'', ''language:javascript''), (''.cjs'', ''language:javascript''),
      (''.py'', ''language:python''), (''.java'', ''language:java''), (''.go'', ''language:go''),
      (''.rs'', ''language:rust''), (''.c'', ''language:c''), (''.cpp'', ''language:cpp''),
      (''.cc'', ''language:cpp''), (''.cxx'', ''language:cpp''), (''.cs'', ''language:csharp''),
      (''.rb'', ''language:ruby''), (''.kt'', ''language:kotlin''), (''.swift'', ''language:swift''),
      (''.php'', ''language:php''), (''.scala'', ''language:scala''), (''.sh'', ''language:shell''),
      (''.bash'', ''language:shell''), (''.zsh'', ''language:shell''), (''.fish'', ''language:shell''),
      (''.md'', ''format:markdown''), (''.mdx'', ''format:markdown''), (''.rst'', ''format:rst''),
      (''.tex'', ''format:latex''), (''.pdf'', ''format:pdf''), (''.docx'', ''format:docx''),
      (''.xlsx'', ''format:xlsx''), (''.pptx'', ''format:pptx''), (''.html'', ''format:html''),
      (''.htm'', ''format:html''), (''.epub'', ''format:epub''), (''.json'', ''format:json''),
      (''.yaml'', ''format:yaml''), (''.yml'', ''format:yaml''), (''.toml'', ''format:toml''),
      (''.ipynb'', ''format:notebook'')]"

definition extensionLabels :: "string \<Rightarrow> string list" where
  "extensionLabels filePath =
     (case map_of EXTENSION_LABELS (lower_case (extname filePath)) of None \<Rightarrow> [] | Some l \<Rightarrow> [l])"

definition applyLabelRules :: "matcher \<Rightarrow> string \<Rightarrow> tag_rule list \<Rightarrow> string list" where
  "applyLabelRules mm filePath rules =
     concat (map (\<lambda>r. if mm False True filePath (match r) then add_tags r else []) rules)"

subsection \<open>Label files in the directory tree\<close>

text \<open>The directories from the file's own up to the root (or to a fixed point of \<open>dirname\<close>).\<close>

definition dir_measure :: "string \<Rightarrow> nat" where
  "dir_measure p = (if p = ''.'' \<or> p = ''/'' then 0 else Suc (length p))"

function dirs_up :: "string \<Rightarrow> string \<Rightarrow> string list" where
  "dirs_up absRoot cur =
     (if cur = absRoot \<or> cur = dirname cur then [cur] else cur # dirs_up absRoot (dirname cur))"
  by auto

lemma dirname_fixed: "dirname ''.'' = ''.''" "dirname ''/'' = ''/''"
  by (simp_all add: dirname_def Let_def slash_def)

termination dirs_up
proof (relation "measure (\<lambda>(_, cur). dir_measure cur)")
  fix absRoot cur :: string
  assume stop: "\<not> (cur = absRoot \<or> cur = dirname cur)"
  then have "cur \<noteq> ''.''" "cur \<noteq> ''/''" using dirname_fixed by metis+
  then show "((absRoot, dirname cur), absRoot, cur) \<in> measure (\<lambda>(_, cur). dir_measure cur)"
    using dirname_cases [of cur] by (auto simp: dir_measure_def)
qed simp

declare dirs_up.simps [simp del]

type_synonym label_fs = "string \<Rightarrow> json json_col option"

definition json_strings :: "json list \<Rightarrow> string list" where
  "json_strings xs = concat (map (\<lambda>j. case j of JStr s \<Rightarrow> [s] | _ \<Rightarrow> []) xs)"

text \<open>The \<open>add\<close> array and the \<open>inherit\<close> flag of a parsed label file; reading a property of
  \<open>null\<close> throws.\<close>

definition label_file_add :: "json \<Rightarrow> string list" where
  "label_file_add j =
     (case j of JObj m \<Rightarrow> (case get_prop ''add'' m of Some (JArr xs) \<Rightarrow> json_strings xs | _ \<Rightarrow> [])
      | _ \<Rightarrow> [])"

definition stops_inheritance :: "json \<Rightarrow> bool" where
  "stops_inheritance j =
     (case j of JObj m \<Rightarrow> get_prop ''inherit'' m = Some (JBool False) | _ \<Rightarrow> False)"

fun label_walk :: "label_fs \<Rightarrow> string list \<Rightarrow> string list \<Rightarrow> string list result" where
  "label_walk fs [] accumulated = Inr accumulated"
| "label_walk fs (dir # dirs) accumulated =
     (case fs (path_join [dir, ''.virage-labels.json'']) of
        None \<Rightarrow> label_walk fs dirs accumulated
      | Some (Malformed _) \<Rightarrow> label_walk fs dirs accumulated
      | Some (Json parsed) \<Rightarrow>
          if parsed = JNull then Inl (Err EError ''Cannot read properties of null'')
          else if stops_inheritance parsed then Inr (accumulated @ label_file_add parsed)
          else label_walk fs dirs (accumulated @ label_file_add parsed))"

definition virageLabelsForFile :: "label_fs \<Rightarrow> string \<Rightarrow> string \<Rightarrow> string list result" where
  "virageLabelsForFile fs filePath rootDir =
     (let absPath = (if starts_with ''/'' filePath then filePath else path_join [rootDir, filePath])
      in label_walk fs (rev (dirs_up rootDir (dirname absPath))) [])"

subsection \<open>CODEOWNERS\<close>

record codeowners_entry =
  co_pattern :: string
  owners :: "string list"

definition parse_codeowners_line :: "string \<Rightarrow> codeowners_entry list" where
  "parse_codeowners_line rawLine =
     (let line = trim rawLine
      in if line = [] \<or> starts_with ''#'' line then []
         else (case split_words line of
                 p # o1 # os \<Rightarrow> [\<lparr>co_pattern = p, owners = o1 # os\<rparr>]
               | _ \<Rightarrow> []))"

definition parseCodeownersFile :: "string \<Rightarrow> codeowners_entry list" where
  "parseCodeownersFile content = concat (map parse_codeowners_line (split_on newline content))"

definition ownerToLabel :: "string \<Rightarrow> string" where
  "ownerToLabel owner =
     (let stripped = (if starts_with ''@'' owner then tl owner else owner)
      in case cut_at slash stripped of
           Some (_, team) \<Rightarrow> ''team:'' @ team
         | None \<Rightarrow> ''owner:'' @ stripped)"

definition fromDir :: "(string \<Rightarrow> string json_col option) \<Rightarrow> string \<Rightarrow> codeowners_entry list option" where
  "fromDir fs dir =
     (case filter (\<lambda>p. fs p \<noteq> None)
             [path_join [dir, ''.github'', ''CODEOWNERS''], path_join [dir, ''CODEOWNERS''],
              path_join [dir, ''docs'', ''CODEOWNERS'']] of
        [] \<Rightarrow> None
      | p # _ \<Rightarrow> (case fs p of Some (Json content) \<Rightarrow> Some (parseCodeownersFile content) | _ \<Rightarrow> None))"

definition codeowners_match :: "matcher \<Rightarrow> string \<Rightarrow> codeowners_entry \<Rightarrow> bool" where
  "codeowners_match mm normalized e =
     (let matchBase = (slash \<notin> set (co_pattern e));
          pattern = (if starts_with ''/'' (co_pattern e) then tl (co_pattern e) else co_pattern e)
      in mm matchBase True normalized pattern \<or> mm False True normalized (pattern @ ''/**''))"

definition labelsForFile :: "matcher \<Rightarrow> codeowners_entry list \<Rightarrow> string \<Rightarrow> string list" where
  "labelsForFile mm entries filePath =
     (let normalized = (if starts_with ''/'' filePath then tl filePath else filePath);
          lastMatch = fold (\<lambda>e lm. if codeowners_match mm normalized e then Some e else lm) entries None
      in case lastMatch of None \<Rightarrow> [] | Some e \<Rightarrow> map ownerToLabel (owners e))"

subsection \<open>The full label set\<close>

record label_options =
  rootDir :: string
  globalRules :: "tag_rule list option"
  chunkerRules :: "tag_rule list option"
  codeowners :: "codeowners_entry list option"
  providerLabels :: "string list option"
  namespace :: "string option"

definition opt_list :: "('a \<Rightarrow> string list) \<Rightarrow> 'a option \<Rightarrow> string list" where
  "opt_list f v = (case v of None \<Rightarrow> [] | Some x \<Rightarrow> f x)"

definition label_sources :: "matcher \<Rightarrow> label_fs \<Rightarrow> string \<Rightarrow> label_options \<Rightarrow> string list list" where
  "label_sources mm fs filePath opts =
     [opt_list (\<lambda>n. if n = [] then [] else [n]) (namespace opts),
      extensionLabels filePath,
      opt_list (\<lambda>ls. ls) (providerLabels opts),
      opt_list (\<lambda>es. labelsForFile mm es filePath) (codeowners opts),
      (case virageLabelsForFile fs filePath (rootDir opts) of Inl _ \<Rightarrow> [] | Inr ls \<Rightarrow> ls),
      opt_list (applyLabelRules mm filePath) (globalRules opts),
      opt_list (applyLabelRules mm filePath) (chunkerRules opts)]"

definition resolveLabels :: "matcher \<Rightarrow> label_fs \<Rightarrow> string \<Rightarrow> label_options \<Rightarrow> string list" where
  "resolveLabels mm fs filePath opts =
     filter_unseen (\<lambda>l. l) [] (concat (label_sources mm fs filePath opts))"

subsection \<open>Lemmas\<close>

lemma fold_last_match: "fold (\<lambda>e lm. if P e then Some e else lm) es lm =
    (case find P (rev es) of None \<Rightarrow> lm | Some e \<Rightarrow> Some e)"
proof (induction es arbitrary: lm)
  case (Cons e es)
  have "find P (xs @ ys) = (case find P xs of None \<Rightarrow> find P ys | Some x \<Rightarrow> Some x)" for xs ys :: "'a list"
    by (induction xs) auto
  then show ?case using Cons.IH by (auto split: option.splits)
qed simp

text \<open>The parsed label file of a directory, if it has one that can be read.\<close>

definition labels_at :: "label_fs \<Rightarrow> string \<Rightarrow> json option" where
  "labels_at fs dir = (case fs (path_join [dir, ''.virage-labels.json'']) of
     Some (Json j) \<Rightarrow> Some j | _ \<Rightarrow> None)"

definition dir_labels :: "label_fs \<Rightarrow> string \<Rightarrow> string list" where
  "dir_labels fs dir = (case labels_at fs dir of None \<Rightarrow> [] | Some j \<Rightarrow> label_file_add j)"

definition dir_stops :: "label_fs \<Rightarrow> string \<Rightarrow> bool" where
  "dir_stops fs dir = (case labels_at fs dir of None \<Rightarrow> False | Some j \<Rightarrow> stops_inheritance j)"

lemma label_walk_takeWhile:
  assumes "\<forall>d\<in>set dirs. labels_at fs d \<noteq> Some JNull"
  shows "label_walk fs dirs acc = Inr (acc @ concat (map (dir_labels fs) (takeWhile (\<lambda>d. \<not> dir_stops fs d) dirs))
    @ (case dropWhile (\<lambda>d. \<not> dir_stops fs d) dirs of [] \<Rightarrow> [] | d # _ \<Rightarrow> dir_labels fs d))"
  using assms
proof (induction dirs arbitrary: acc)
  case (Cons d dirs)
  then have IH: "label_walk fs dirs acc = Inr (acc
      @ concat (map (dir_labels fs) (takeWhile (\<lambda>d. \<not> dir_stops fs d) dirs))
      @ (case dropWhile (\<lambda>d. \<not> dir_stops fs d) dirs of [] \<Rightarrow> [] | d # _ \<Rightarrow> dir_labels fs d))" for acc
    by simp
  have "labels_at fs d \<noteq> Some JNull" using Cons.prems by simp
  then have step: "label_walk fs (d # dirs) acc = (case labels_at fs d of
        None \<Rightarrow> label_walk fs dirs acc
      | Some j \<Rightarrow> if stops_inheritance j then Inr (acc @ label_file_add j)
                  else label_walk fs dirs (acc @ label_file_add j))"
    by (auto simp: labels_at_def split: option.splits json_col.splits)
  have "dir_labels fs d = (case labels_at fs d of None \<Rightarrow> [] | Some j \<Rightarrow> label_file_add j)"
    and "dir_stops fs d = (case labels_at fs d of None \<Rightarrow> False | Some j \<Rightarrow> stops_inheritance j)"
    by (simp_all add: dir_labels_def dir_stops_def)
  then show ?case unfolding step by (cases "labels_at fs d") (simp_all add: IH)
qed simp



subsection \<open>Properties\<close>

text \<open>The labels of the directory tree are those of the directories from the root down to the
  first one whose label file says \<open>"inherit": false\<close>, that one included, the root's first; label
  files below it are not read. Unreadable files count for nothing.\<close>

theorem directory_labels_stop_at_inherit_false:
  assumes "\<forall>d\<in>set dirs. labels_at fs d \<noteq> Some JNull"
    and "dirs = rev (dirs_up top_dir (dirname f))" and "starts_with ''/'' f"
  shows "virageLabelsForFile fs f top_dir = Inr (concat (map (dir_labels fs)
      (takeWhile (\<lambda>d. \<not> dir_stops fs d) dirs
       @ take 1 (dropWhile (\<lambda>d. \<not> dir_stops fs d) dirs))))"
proof -
  have "(case xs of [] \<Rightarrow> [] | d # _ \<Rightarrow> dir_labels fs d) = concat (map (dir_labels fs) (take 1 xs))" for xs
    by (cases xs) auto
  then show ?thesis
    using label_walk_takeWhile [OF assms(1), of "[]"] assms(2,3)
    by (simp add: virageLabelsForFile_def)
qed

definition sample_label_fs :: label_fs where
  "sample_label_fs p =
     (if p = ''/r/.virage-labels.json'' then Some (Json (JObj [(''add'', JArr [JStr ''root''])]))
      else if p = ''/r/a/.virage-labels.json''
        then Some (Json (JObj [(''add'', JArr [JStr ''team:a'']), (''inherit'', JBool False)]))
      else if p = ''/r/a/b/.virage-labels.json'' then Some (Json (JObj [(''add'', JArr [JStr ''leaf''])]))
      else None)"

lemma sample_dirs: "rev (dirs_up ''/r'' (dirname ''/r/a/b/f.md'')) = [''/r'', ''/r/a'', ''/r/a/b'']"
  by (simp add: dirname_def Let_def slash_def dirs_up.simps)

text \<open>
  The comment above the function says that \<open>"inherit": false\<close> stops traversal above the file that
  says it, so that the labels of ancestors are dropped; the code drops those of descendants.
\<close>

lemma directory_labels_stop_at_inherit_false_witness:
  "virageLabelsForFile sample_label_fs ''/r/a/b/f.md'' ''/r'' = Inr [''root'', ''team:a'']"
proof -
  have at: "labels_at sample_label_fs ''/r'' = Some (JObj [(''add'', JArr [JStr ''root''])])"
    "labels_at sample_label_fs ''/r/a''
       = Some (JObj [(''add'', JArr [JStr ''team:a'']), (''inherit'', JBool False)])"
    "labels_at sample_label_fs ''/r/a/b'' = Some (JObj [(''add'', JArr [JStr ''leaf''])])"
    by (simp_all add: labels_at_def sample_label_fs_def path_join_def normalize_path_def Let_def slash_def)
  show ?thesis
    using directory_labels_stop_at_inherit_false
      [OF _ sample_dirs [symmetric], of sample_label_fs]
    by (simp add: at dir_stops_def dir_labels_def stops_inheritance_def label_file_add_def
        get_prop_def json_strings_def)
qed


end
