(* ===== verification/ChunkProcessor.thy ===== *)
theory ChunkProcessor
  imports Labels Utils
begin

section \<open>Chunking the files\<close>

text \<open>
  \<open>src/packages/virage-core/src/core/chunk-processor.ts\<close> and \<open>chunk-utils.ts\<close>. A chunker is a
  plug-in: \<open>run e path commit\<close> is what the chunker of entry \<open>e\<close> answers, chunks or an error. A
  chunk that a plug-in returns may lack fields (an absent or empty text is the empty text here, as
  the code treats them alike) and may carry the legacy field \<open>content\<close>. \<open>sha\<close> is sha256 in hex.
\<close>

record raw_chunk = chunk +
  content :: "jstext option"

type_synonym chunk_runner = "chunker_entry \<Rightarrow> string \<Rightarrow> string \<Rightarrow> raw_chunk list result"

text \<open>\<open>breadcrumb.join(" \<guillemotright> ") + ". "\<close> with the separator \<open>U+203A\<close>.\<close>

definition makeDenseText :: "jstext list \<Rightarrow> jstext \<Rightarrow> jstext" where
  "makeDenseText breadcrumb body =
     (if length breadcrumb > 0
      then join_with [0x20, 0x203A, 0x20] breadcrumb @ js ''. '' else []) @ body"

definition makeSparseText :: "jstext \<Rightarrow> jstext" where
  "makeSparseText body = body"

definition computeDenseTextHash :: "(jstext \<Rightarrow> string) \<Rightarrow> jstext \<Rightarrow> string" where
  "computeDenseTextHash sha t = take 16 (sha t)"

definition makeGeneratorId :: "(jstext \<Rightarrow> string) \<Rightarrow> string \<Rightarrow> string \<Rightarrow> string \<Rightarrow> string" where
  "makeGeneratorId sha name version role =
     take 16 (sha (js (name @ ''@'' @ version @ '':'' @ role @ '':{}'')))"

definition existing_tags :: "json_obj \<Rightarrow> json list option" where
  "existing_tags m = (case get_prop ''tags'' m of Some (JArr xs) \<Rightarrow> Some xs | _ \<Rightarrow> None)"

definition inject_tags :: "string list \<Rightarrow> json_obj \<Rightarrow> json_obj" where
  "inject_tags fileTags m =
     (if length fileTags > 0
      then set_prop ''tags''
             (case existing_tags m of
                Some xs \<Rightarrow> JArr (dedup (xs @ map JStr fileTags))
              | None \<Rightarrow> JArr (map JStr fileTags)) m
      else m)"

definition finish_chunk ::
  "(jstext \<Rightarrow> string) \<Rightarrow> chunker_entry \<Rightarrow> string \<Rightarrow> string \<Rightarrow> string list \<Rightarrow> raw_chunk \<Rightarrow> raw_chunk" where
  "finish_chunk sha e normalizedPath commit fileTags c =
     (let version = nullish (chunkerVersion (chunker e)) ''0.0.0'';
          c1 = c\<lparr>sourceFile := normalizedPath, commitHash := commit\<rparr>;
          c2 = (if denseText c1 = [] \<and> content c1 \<noteq> None
                then c1\<lparr>denseText := the (content c1)\<rparr> else c1);
          c3 = (if sparseText c2 = [] \<and> content c2 \<noteq> None
                then c2\<lparr>sparseText := the (content c2)\<rparr> else c2);
          c4 = (if denseTextHash c3 = [] \<and> denseText c3 \<noteq> []
                then c3\<lparr>denseTextHash := computeDenseTextHash sha (denseText c3)\<rparr> else c3);
          c5 = (if sparseTextGeneratorId c4 = []
                then c4\<lparr>sparseTextGeneratorId :=
                          makeGeneratorId sha (chunkerName (chunker e)) version ''sparse''\<rparr> else c4);
          c6 = (if metadataGeneratorId c5 = []
                then c5\<lparr>metadataGeneratorId :=
                          makeGeneratorId sha (chunkerName (chunker e)) version ''meta''\<rparr> else c5)
      in c6\<lparr>metadata := set_prop ''chunkerKey'' (JStr (chunkerKey e))
              (inject_tags fileTags (metadata c6))\<rparr>)"

text \<open>The chunks of the file and the keys of the chunkers that failed on it.\<close>

fun process_entries ::
  "(jstext \<Rightarrow> string) \<Rightarrow> matcher \<Rightarrow> chunk_runner \<Rightarrow> string \<Rightarrow> string \<Rightarrow> chunker_entry list
   \<Rightarrow> raw_chunk list \<times> string list" where
  "process_entries sha mm run path commit [] = ([], [])"
| "process_entries sha mm run path commit (e # es) =
     (case process_entries sha mm run path commit es of (rest, failed) \<Rightarrow>
        (case run e path commit of
           Inl _ \<Rightarrow> (rest, chunkerKey e # failed)
         | Inr chunks \<Rightarrow>
             (map (finish_chunk sha e path commit
                     (resolveFileTags mm path (fileSetTags e) (tagRules e))) chunks @ rest,
              failed)))"

definition processEntries ::
  "(jstext \<Rightarrow> string) \<Rightarrow> matcher \<Rightarrow> chunk_runner \<Rightarrow> string \<Rightarrow> string \<Rightarrow> chunker_entry list \<Rightarrow> raw_chunk list" where
  "processEntries sha mm run filePath commit entries =
     fst (process_entries sha mm run (to_posix filePath) commit entries)"

text \<open>The chunks of all files, the files without entries (reported) and the number of progress
  reports. \<open>processEntries\<close> catches the errors of chunkers itself, so the outer handler, which
  counts failed files, is never entered.\<close>

fun processFiles ::
  "(jstext \<Rightarrow> string) \<Rightarrow> matcher \<Rightarrow> chunk_runner \<Rightarrow> string list \<Rightarrow> (string \<times> file_state) list
   \<Rightarrow> raw_chunk list \<times> string list \<times> nat" where
  "processFiles sha mm run [] fileState = ([], [], 0)"
| "processFiles sha mm run (f # fs) fileState =
     (case processFiles sha mm run fs fileState of (rest, skipped, ticks) \<Rightarrow>
        (case map_of fileState f of
           None \<Rightarrow> (rest, f # skipped, ticks)
         | Some info \<Rightarrow>
             (processEntries sha mm run f (fs_commitHash info) (fs_entries info) @ rest,
              skipped, Suc ticks)))"

subsection \<open>Lemmas\<close>

lemma get_prop_inject_other: "k \<noteq> ''tags'' \<Longrightarrow> get_prop k (inject_tags ts m) = get_prop k m"
  by (simp add: inject_tags_def)

lemma inject_tags_spec:
  "set (map JStr ts) \<subseteq> (case existing_tags (inject_tags ts m) of None \<Rightarrow> {} | Some xs \<Rightarrow> set xs)
   \<and> (case existing_tags m of None \<Rightarrow> {} | Some xs \<Rightarrow> set xs)
       \<subseteq> (case existing_tags (inject_tags ts m) of None \<Rightarrow> {} | Some xs \<Rightarrow> set xs)"
  by (auto simp: inject_tags_def existing_tags_def split: option.splits)

lemma existing_tags_chunkerKey [simp]:
  "existing_tags (set_prop ''chunkerKey'' v m) = existing_tags m"
  by (simp add: existing_tags_def)

lemma finish_chunk_fields:
  "sourceFile (finish_chunk sha e p k ts c) = p"
  "commitHash (finish_chunk sha e p k ts c) = k"
  "get_prop ''chunkerKey'' (metadata (finish_chunk sha e p k ts c)) = Some (JStr (chunkerKey e))"
  "existing_tags (metadata (finish_chunk sha e p k ts c)) = existing_tags (inject_tags ts (metadata c))"
  "denseText (finish_chunk sha e p k ts c) = (if denseText c = [] then nullish (content c) [] else denseText c)"
  "denseTextHash (finish_chunk sha e p k ts c) =
     (if denseTextHash c \<noteq> [] then denseTextHash c
      else if denseText (finish_chunk sha e p k ts c) = [] then []
      else computeDenseTextHash sha (denseText (finish_chunk sha e p k ts c)))"
  by (auto simp: finish_chunk_def Let_def nullish_def split: option.splits)

lemma process_entries_concat:
  "fst (process_entries sha mm run path commit es) =
     concat (map (\<lambda>e. case run e path commit of
         Inl _ \<Rightarrow> []
       | Inr cs \<Rightarrow> map (finish_chunk sha e path commit
                          (resolveFileTags mm path (fileSetTags e) (tagRules e))) cs) es)"
  by (induction es) (auto split: prod.splits sum.splits)

lemma processFiles_concat:
  "fst (processFiles sha mm run fs st) =
     concat (map (\<lambda>f. case map_of st f of None \<Rightarrow> []
       | Some i \<Rightarrow> processEntries sha mm run f (fs_commitHash i) (fs_entries i)) fs)
   \<and> snd (snd (processFiles sha mm run fs st)) = length (filter (\<lambda>f. map_of st f \<noteq> None) fs)"
  by (induction fs) (auto split: prod.splits option.splits)

lemma resolveFileTags_set: "set ts \<subseteq> set (resolveFileTags mm p ts rules)"
  using filter_unseen_keys [of "\<lambda>t. t" "[]" "ts @ applyTagRules mm p rules"]
  by (auto simp: resolveFileTags_def)

lemma process_entries_filter:
  "fst (process_entries sha mm run path k es)
     = fst (process_entries sha mm run path k (filter (\<lambda>e. \<not> isl (run e path k)) es))"
  by (induction es) (auto split: prod.splits sum.splits)

subsection \<open>Property\<close>

text \<open>C13. A chunker that fails on a file removes only its own chunks. Each chunk of the file comes
  from an entry that succeeds, carries the normalised path, the revision it was made from, the key
  of its chunker and all tags of its file set on top of its own; a missing text is taken from the
  legacy field, and a missing hash is the truncated sha256 of the text.\<close>

theorem processEntries_contract:
  assumes "c \<in> set (processEntries sha mm run f k es)"
  shows "processEntries sha mm run f k es
      = processEntries sha mm run f k (filter (\<lambda>e. \<not> isl (run e (to_posix f) k)) es)
    \<and> (\<exists>e raws r. e \<in> set es \<and> run e (to_posix f) k = Inr raws \<and> r \<in> set raws
      \<and> sourceFile c = to_posix f \<and> commitHash c = k
      \<and> get_prop ''chunkerKey'' (metadata c) = Some (JStr (chunkerKey e))
      \<and> set (map JStr (fileSetTags e)) \<subseteq> (case existing_tags (metadata c) of None \<Rightarrow> {} | Some xs \<Rightarrow> set xs)
      \<and> (case existing_tags (metadata r) of None \<Rightarrow> {} | Some xs \<Rightarrow> set xs)
          \<subseteq> (case existing_tags (metadata c) of None \<Rightarrow> {} | Some xs \<Rightarrow> set xs)
      \<and> denseText c = (if denseText r = [] then nullish (content r) [] else denseText r)
      \<and> denseTextHash c = (if denseTextHash r = [] \<and> denseText c \<noteq> []
           then take 16 (sha (denseText c)) else denseTextHash r))"
proof
  show "processEntries sha mm run f k es
      = processEntries sha mm run f k (filter (\<lambda>e. \<not> isl (run e (to_posix f) k)) es)"
    unfolding processEntries_def by (rule process_entries_filter)
  have "\<exists>e. e \<in> set es \<and> c \<in> set (case run e (to_posix f) k of
         Inl _ \<Rightarrow> []
       | Inr cs \<Rightarrow> map (finish_chunk sha e (to_posix f) k
                    (resolveFileTags mm (to_posix f) (fileSetTags e) (tagRules e))) cs)"
    using assms unfolding processEntries_def process_entries_concat by auto
  then obtain e where e: "e \<in> set es" and ce: "c \<in> set (case run e (to_posix f) k of
         Inl _ \<Rightarrow> []
       | Inr cs \<Rightarrow> map (finish_chunk sha e (to_posix f) k
                    (resolveFileTags mm (to_posix f) (fileSetTags e) (tagRules e))) cs)" by blast
  obtain raws where run: "run e (to_posix f) k = Inr raws" using ce by (cases "run e (to_posix f) k") auto
  obtain r where r: "r \<in> set raws" and c: "c = finish_chunk sha e (to_posix f) k
      (resolveFileTags mm (to_posix f) (fileSetTags e) (tagRules e)) r"
    using ce run by auto
  let ?ts = "resolveFileTags mm (to_posix f) (fileSetTags e) (tagRules e)"
  have "set (map JStr (fileSetTags e)) \<subseteq> set (map JStr ?ts)"
    using resolveFileTags_set [of "fileSetTags e" mm "to_posix f" "tagRules e"] by auto
  then have tags: "set (map JStr (fileSetTags e)) \<subseteq> (case existing_tags (metadata c) of None \<Rightarrow> {} | Some xs \<Rightarrow> set xs)"
      "(case existing_tags (metadata r) of None \<Rightarrow> {} | Some xs \<Rightarrow> set xs)
          \<subseteq> (case existing_tags (metadata c) of None \<Rightarrow> {} | Some xs \<Rightarrow> set xs)"
    using inject_tags_spec [of ?ts "metadata r"] unfolding c finish_chunk_fields by (blast, blast)
  have "denseTextHash c = (if denseTextHash r = [] \<and> denseText c \<noteq> []
      then take 16 (sha (denseText c)) else denseTextHash r)"
    unfolding c using finish_chunk_fields(6) [of sha e "to_posix f" k ?ts r]
    by (auto simp: computeDenseTextHash_def)
  moreover have "sourceFile c = to_posix f" "commitHash c = k"
      "get_prop ''chunkerKey'' (metadata c) = Some (JStr (chunkerKey e))"
      "denseText c = (if denseText r = [] then nullish (content r) [] else denseText r)"
    unfolding c by (simp_all add: finish_chunk_fields(1-3,5))
  ultimately show "\<exists>e raws r. e \<in> set es \<and> run e (to_posix f) k = Inr raws \<and> r \<in> set raws
      \<and> sourceFile c = to_posix f \<and> commitHash c = k
      \<and> get_prop ''chunkerKey'' (metadata c) = Some (JStr (chunkerKey e))
      \<and> set (map JStr (fileSetTags e)) \<subseteq> (case existing_tags (metadata c) of None \<Rightarrow> {} | Some xs \<Rightarrow> set xs)
      \<and> (case existing_tags (metadata r) of None \<Rightarrow> {} | Some xs \<Rightarrow> set xs)
          \<subseteq> (case existing_tags (metadata c) of None \<Rightarrow> {} | Some xs \<Rightarrow> set xs)
      \<and> denseText c = (if denseText r = [] then nullish (content r) [] else denseText r)
      \<and> denseTextHash c = (if denseTextHash r = [] \<and> denseText c \<noteq> []
           then take 16 (sha (denseText c)) else denseTextHash r)"
    using e run r tags by blast
qed

definition sample_entry :: "string \<Rightarrow> chunker_entry" where
  "sample_entry k =
     \<lparr>chunker = \<lparr>chunkerName = k, chunkerVersion = None, patterns = [''**/*.md'']\<rparr>, include_globs = None,
      ignore_globs = None, fileSetTags = [''docs''], tagRules = [], chunkerKey = k,
      has_templates = False, fileSetName = ''fs''\<rparr>"

definition sample_raw :: raw_chunk where
  "sample_raw = \<lparr>denseText = [], sparseText = [], denseTextHash = [], sparseTextGeneratorId = [],
     metadataGeneratorId = [], metadata = [], sourceFile = [], commitHash = [],
     content = Some (js ''hi'')\<rparr>"

lemma processEntries_contract_witness:
  "\<exists>c. c \<in> set (processEntries (\<lambda>t. ''digest'') (\<lambda>_ _ _ _. False)
          (\<lambda>e _ _. if chunkerKey e = ''bad'' then Inl (Err ChunkError ''x'') else Inr [sample_raw])
          ''a.md'' ''r1'' [sample_entry ''bad'', sample_entry ''ok''])
     \<and> sourceFile c = ''a.md'' \<and> commitHash c = ''r1''"
proof -
  let ?run = "\<lambda>e _ _. if chunkerKey e = ''bad'' then Inl (Err ChunkError ''x'') else Inr [sample_raw]"
  let ?cs = "processEntries (\<lambda>t. ''digest'') (\<lambda>_ _ _ _. False) ?run ''a.md'' ''r1''
      [sample_entry ''bad'', sample_entry ''ok'']"
  have "length ?cs = 1" by (simp add: processEntries_def sample_entry_def)
  then obtain c where c: "c \<in> set ?cs" by (cases ?cs) auto
  have "to_posix ''a.md'' = ''a.md''" by (simp add: to_posix_def)
  moreover obtain e raws r where "sourceFile c = to_posix ''a.md''" "commitHash c = ''r1''"
    using processEntries_contract [OF c] by blast
  ultimately show ?thesis using c by metis
qed

end
