(* ===== verification/VectorStore.thy ===== *)
theory VectorStore
  imports Interfaces SqlTable Utils
begin

section \<open>Vector stores\<close>

text \<open>
  The interface \<open>VectorStore\<close> of \<open>src/packages/virage-core/src/interfaces/vector-store.ts\<close> as a
  record of operations on a store state, its laws as a locale, and the file-backed store of
  \<open>src/packages/virage-store-test/src/store.ts\<close>, which is the locale's interpretation. An operation
  may fail; a failed write may have reached any part of its documents, each of them entirely or
  not at all. Optional methods are \<open>None\<close> when a store lacks them.
\<close>

record store_meta =
  vm_providerName :: string
  vm_model :: "string option"
  vm_dimensions :: nat
  vm_distanceMetric :: "string option"
  vm_createdAt :: int

record 's vector_store =
  storeName :: string
  st_initialize :: "'s \<Rightarrow> unit result \<times> 's"
  st_upsert :: "vector_document list \<Rightarrow> 's \<Rightarrow> unit result \<times> 's"
  st_deleteBySourceFile :: "string list \<Rightarrow> 's \<Rightarrow> unit result \<times> 's"
  st_getCurrentState :: "'s \<Rightarrow> (string \<times> string) list result \<times> 's"
  st_existingHashes :: "(string list \<Rightarrow> 's \<Rightarrow> string list result \<times> 's) option"
  st_deleteOrphanedChunks :: "(string \<Rightarrow> string list \<Rightarrow> 's \<Rightarrow> unit result \<times> 's) option"
  st_writeMeta :: "(store_meta \<Rightarrow> 's \<Rightarrow> unit result \<times> 's) option"

text \<open>What a store remembers of a document, by its id.\<close>

record doc_view =
  v_denseText :: jstext
  v_sourceFile :: string
  v_commitHash :: string

definition view_of :: "vector_document \<Rightarrow> doc_view" where
  "view_of d = \<lparr>v_denseText = docDenseText d, v_sourceFile = docSourceFile d, v_commitHash = docCommitHash d\<rparr>"

definition written :: "vector_document list \<Rightarrow> (string \<rightharpoonup> doc_view) \<Rightarrow> (string \<rightharpoonup> doc_view)" where
  "written ds m = m ++ map_of (rev (map (\<lambda>d. (docId d, view_of d)) ds))"

definition without_files :: "string list \<Rightarrow> (string \<rightharpoonup> doc_view) \<Rightarrow> (string \<rightharpoonup> doc_view)" where
  "without_files fs m = (\<lambda>k. case m k of None \<Rightarrow> None
     | Some d \<Rightarrow> if v_sourceFile d \<in> set fs then None else Some d)"

definition without_orphans ::
  "string \<Rightarrow> string list \<Rightarrow> (string \<rightharpoonup> doc_view) \<Rightarrow> (string \<rightharpoonup> doc_view)" where
  "without_orphans f keep m = (\<lambda>k. case m k of None \<Rightarrow> None
     | Some d \<Rightarrow> if v_sourceFile d = f \<and> k \<notin> set keep then None else Some d)"

text \<open>A write towards \<open>new\<close>: complete if it succeeds, otherwise document by document.\<close>

definition writes_to :: "(string \<rightharpoonup> doc_view) \<Rightarrow> (string \<rightharpoonup> doc_view) \<Rightarrow> unit result \<Rightarrow> (string \<rightharpoonup> doc_view) \<Rightarrow> bool" where
  "writes_to old new r m \<longleftrightarrow> (r = Inr () \<longrightarrow> m = new) \<and> (\<forall>k. m k = old k \<or> m k = new k)"

locale vector_store_laws =
  fixes st :: "'s vector_store"
    and docs :: "'s \<Rightarrow> string \<rightharpoonup> doc_view"
    and inv :: "'s \<Rightarrow> bool"
  assumes inv_initialize: "inv s \<Longrightarrow> inv (snd (st_initialize st s))"
    and upsert_law: "inv s \<Longrightarrow> distinct (map docId ds) \<Longrightarrow> st_upsert st ds s = (r, s') \<Longrightarrow>
      inv s' \<and> writes_to (docs s) (written ds (docs s)) r (docs s')"
    and delete_law: "inv s \<Longrightarrow> st_deleteBySourceFile st fs s = (r, s') \<Longrightarrow>
      inv s' \<and> writes_to (docs s) (without_files fs (docs s)) r (docs s')"
    and state_law: "inv s \<Longrightarrow> st_getCurrentState st s = (sr, s') \<Longrightarrow>
      inv s' \<and> docs s' = docs s
      \<and> (case sr of Inl _ \<Rightarrow> True | Inr m \<Rightarrow> \<forall>f c. map_of m f = Some c \<longrightarrow>
           c \<noteq> [] \<and> (\<exists>k d. docs s k = Some d \<and> v_sourceFile d = f \<and> v_commitHash d = c))"
    and existing_law: "inv s \<Longrightarrow> st_existingHashes st = Some ex \<Longrightarrow> ex hs s = (hr, s') \<Longrightarrow>
      inv s' \<and> docs s' = docs s
      \<and> (case hr of Inl _ \<Rightarrow> True | Inr xs \<Rightarrow> set xs = {h \<in> set hs. docs s h \<noteq> None})"
    and orphan_law: "inv s \<Longrightarrow> st_deleteOrphanedChunks st = Some dl \<Longrightarrow> dl f keep s = (r, s') \<Longrightarrow>
      inv s' \<and> writes_to (docs s) (without_orphans f keep (docs s)) r (docs s')"

text \<open>A store that a run may open twice, with only a reading of its state in between, and whose
  metadata is kept apart from the documents.\<close>

locale reopenable_store = vector_store_laws +
  assumes reopen_law: "inv s \<Longrightarrow> st_initialize st s = (Inr (), s0) \<Longrightarrow> st_getCurrentState st s0 = (sr, s1) \<Longrightarrow>
      docs (snd (st_initialize st s1)) = docs s1"
    and meta_law: "inv s \<Longrightarrow> st_writeMeta st = Some wm \<Longrightarrow> wm m s = (r, s') \<Longrightarrow> inv s' \<and> docs s' = docs s"

subsection \<open>Writes and retries\<close>

lemma written_idem:
  assumes "\<forall>k. m k = old k \<or> m k = written ds old k"
  shows "written ds m = written ds old"
proof
  fix k
  show "written ds m k = written ds old k"
    using spec [OF assms, of k] by (auto simp: written_def map_add_def split: option.splits)
qed

lemma without_files_idem:
  assumes "\<forall>k. m k = old k \<or> m k = without_files fs old k"
  shows "without_files fs m = without_files fs old"
proof
  fix k
  show "without_files fs m k = without_files fs old k"
    using spec [OF assms, of k] by (auto simp: without_files_def split: option.splits)
qed

lemma written_Nil [simp]: "written [] m = m"
  by (simp add: written_def)

lemma written_dom: "dom (written ds m) = dom m \<union> docId ` set ds"
  by (auto simp: written_def dom_map_of_conv_image_fst image_image)

lemma written_other: "h \<notin> docId ` set ds \<Longrightarrow> written ds m h = m h"
  by (auto simp: written_def map_add_def split: option.splits dest!: map_of_SomeD)

lemma written_append: "written (ds @ es) m = written es (written ds m)"
  by (simp add: written_def map_add_assoc)

lemma writes_to_dom:
  assumes "writes_to old new r m" and "dom old \<subseteq> dom new"
  shows "dom old \<subseteq> dom m"
proof
  fix k
  assume "k \<in> dom old"
  moreover have "m k = old k \<or> m k = new k" using assms(1) by (simp add: writes_to_def)
  ultimately show "k \<in> dom m" using assms(2) by (auto simp: dom_def)
qed

context vector_store_laws
begin

text \<open>A store that honours the laws gets to the goal under retries, whatever the failed attempts
  did: this is what every caller of the store relies on.\<close>

lemma retried_upsert:
  assumes "inv s" and dist: "distinct (map docId ds)" and "withRetry opts (st_upsert st ds) s = (r, s', ws)"
  shows "inv s' \<and> writes_to (docs s) (written ds (docs s)) r (docs s')"
proof (rule withRetry_invariant [where P = "\<lambda>w. inv w \<and> (\<forall>k. docs w k = docs s k \<or> docs w k = written ds (docs s) k)"
      and Q = "\<lambda>r w. inv w \<and> writes_to (docs s) (written ds (docs s)) r (docs w)", OF _ _ _ assms(3)])
  fix w r w'
  assume w: "inv w \<and> (\<forall>k. docs w k = docs s k \<or> docs w k = written ds (docs s) k)"
    and run: "st_upsert st ds w = (r, w')"
  have "written ds (docs w) = written ds (docs s)" using w by (intro written_idem) blast
  then show "inv w' \<and> writes_to (docs s) (written ds (docs s)) r (docs w')"
    using upsert_law [OF conjunct1 [OF w] dist run] w unfolding writes_to_def by metis
qed (use assms(1) in \<open>auto simp: writes_to_def\<close>)

lemma retried_delete:
  assumes "inv s" and "withRetry opts (st_deleteBySourceFile st fs) s = (r, s', ws)"
  shows "inv s' \<and> writes_to (docs s) (without_files fs (docs s)) r (docs s')"
proof (rule withRetry_invariant [where P = "\<lambda>w. inv w \<and> (\<forall>k. docs w k = docs s k \<or> docs w k = without_files fs (docs s) k)"
      and Q = "\<lambda>r w. inv w \<and> writes_to (docs s) (without_files fs (docs s)) r (docs w)", OF _ _ _ assms(2)])
  fix w r w'
  assume w: "inv w \<and> (\<forall>k. docs w k = docs s k \<or> docs w k = without_files fs (docs s) k)"
    and run: "st_deleteBySourceFile st fs w = (r, w')"
  have "without_files fs (docs w) = without_files fs (docs s)" using w by (intro without_files_idem) blast
  then show "inv w' \<and> writes_to (docs s) (without_files fs (docs s)) r (docs w')"
    using delete_law [OF conjunct1 [OF w] run] w unfolding writes_to_def by metis
qed (use assms(1) in \<open>auto simp: writes_to_def\<close>)

end

subsection \<open>The file-backed store\<close>

record stored_doc =
  sd_id :: string
  sd_denseText :: jstext
  sd_sourceFile :: string
  sd_commitHash :: string

text \<open>\<open>disk\<close> is the contents of the file, \<open>None\<close> when it does not exist; \<open>writable\<close> says whether
  writing it succeeds. Ids are always given by the uploader, so none is made up here.\<close>

record file_store =
  fs_data :: "stored_doc list"
  disk :: "stored_doc list json_col option"
  writable :: bool

definition persist :: "file_store \<Rightarrow> unit result \<times> file_store" where
  "persist s = (if writable s then (Inr (), s\<lparr>disk := Some (Json (fs_data s))\<rparr>)
     else (Inl (Err EError ''EACCES: permission denied''), s))"

definition file_initialize :: "file_store \<Rightarrow> unit result \<times> file_store" where
  "file_initialize s =
     (case disk s of
        None \<Rightarrow> (Inr (), s)
      | Some (Json rows) \<Rightarrow> (Inr (), s\<lparr>fs_data := rows\<rparr>)
      | Some (Malformed m) \<Rightarrow> (Inl (Err EError ''Unexpected token''), s))"

definition to_stored :: "vector_document \<Rightarrow> stored_doc" where
  "to_stored d = \<lparr>sd_id = docId d, sd_denseText = docDenseText d, sd_sourceFile = docSourceFile d,
     sd_commitHash = docCommitHash d\<rparr>"

fun set_at_id :: "stored_doc \<Rightarrow> stored_doc list \<Rightarrow> stored_doc list" where
  "set_at_id row [] = [row]"
| "set_at_id row (d # ds) = (if sd_id d = sd_id row then row # ds else d # set_at_id row ds)"

definition file_upsert :: "vector_document list \<Rightarrow> file_store \<Rightarrow> unit result \<times> file_store" where
  "file_upsert documents s =
     persist (s\<lparr>fs_data := fold (\<lambda>d. set_at_id (to_stored d)) documents (fs_data s)\<rparr>)"

definition file_deleteBySourceFile :: "string list \<Rightarrow> file_store \<Rightarrow> unit result \<times> file_store" where
  "file_deleteBySourceFile sourceFiles s =
     persist (s\<lparr>fs_data := filter (\<lambda>d. sd_sourceFile d \<notin> set sourceFiles) (fs_data s)\<rparr>)"

definition file_getCurrentState :: "file_store \<Rightarrow> (string \<times> string) list result \<times> file_store" where
  "file_getCurrentState s =
     (Inr (map_set_all (map (\<lambda>r. (sd_sourceFile r, sd_commitHash r))
            (filter (\<lambda>r. sd_sourceFile r \<noteq> [] \<and> sd_commitHash r \<noteq> []) (fs_data s))) []), s)"

definition file_existingHashes :: "string list \<Rightarrow> file_store \<Rightarrow> string list result \<times> file_store" where
  "file_existingHashes hs s = (Inr (filter (\<lambda>h. h \<in> sd_id ` set (fs_data s)) hs), s)"

definition file_deleteOrphanedChunks ::
  "string \<Rightarrow> string list \<Rightarrow> file_store \<Rightarrow> unit result \<times> file_store" where
  "file_deleteOrphanedChunks f keep s =
     persist (s\<lparr>fs_data := filter (\<lambda>d. sd_sourceFile d \<noteq> f \<or> sd_id d \<in> set keep) (fs_data s)\<rparr>)"

definition file_search :: "nat \<Rightarrow> file_store \<Rightarrow> (string \<times> jstext \<times> rat) list" where
  "file_search topK s = map (\<lambda>d. (sd_id d, sd_denseText d, 1)) (take topK (fs_data s))"

definition FileVectorStore :: "file_store vector_store" where
  "FileVectorStore =
     \<lparr>storeName = ''file-test-store'', st_initialize = file_initialize, st_upsert = file_upsert,
      st_deleteBySourceFile = file_deleteBySourceFile, st_getCurrentState = file_getCurrentState,
      st_existingHashes = Some file_existingHashes,
      st_deleteOrphanedChunks = Some file_deleteOrphanedChunks, st_writeMeta = None\<rparr>"

definition file_docs :: "file_store \<Rightarrow> string \<rightharpoonup> doc_view" where
  "file_docs s k = map_option (\<lambda>d. \<lparr>v_denseText = sd_denseText d, v_sourceFile = sd_sourceFile d,
     v_commitHash = sd_commitHash d\<rparr>) (get_row sd_id k (fs_data s))"

definition file_inv :: "file_store \<Rightarrow> bool" where
  "file_inv s \<longleftrightarrow> distinct (map sd_id (fs_data s))
     \<and> (case disk s of Some (Json rows) \<Rightarrow> distinct (map sd_id rows) | _ \<Rightarrow> True)"

subsection \<open>The file-backed store honours the laws\<close>

lemma get_set_at_id: "get_row sd_id k (set_at_id row ds) = (if k = sd_id row then Some row else get_row sd_id k ds)"
  by (induction ds) (auto simp: get_row_Cons)

lemma ids_set_at_id: "set (map sd_id (set_at_id row ds)) = insert (sd_id row) (set (map sd_id ds))"
  by (induction ds) auto

lemma distinct_set_at_id: "distinct (map sd_id ds) \<Longrightarrow> distinct (map sd_id (set_at_id row ds))"
  using ids_set_at_id by (induction ds) auto

lemma persist_docs [simp]: "file_docs (snd (persist s)) = file_docs s"
  by (simp add: persist_def file_docs_def fun_eq_iff)

lemma persist_inv: "distinct (map sd_id (fs_data s)) \<Longrightarrow> file_inv s' \<Longrightarrow> disk s' = disk s \<Longrightarrow> file_inv (snd (persist s))"
  by (auto simp: persist_def file_inv_def)

lemma distinct_fold_set_at_id:
  "distinct (map sd_id ds) \<Longrightarrow> distinct (map sd_id (fold (\<lambda>d. set_at_id (to_stored d)) documents ds))"
  by (induction documents arbitrary: ds) (simp_all add: distinct_set_at_id)

lemma file_docs_upsert:
  "file_docs (s\<lparr>fs_data := fold (\<lambda>d. set_at_id (to_stored d)) documents (fs_data s)\<rparr>) = written documents (file_docs s)"
proof (induction documents arbitrary: s)
  case (Cons d ds)
  have "file_docs (s\<lparr>fs_data := set_at_id (to_stored d) (fs_data s)\<rparr>) = written [d] (file_docs s)"
    by (auto simp: fun_eq_iff file_docs_def get_set_at_id written_def view_of_def to_stored_def)
  then show ?case
    using Cons.IH [of "s\<lparr>fs_data := set_at_id (to_stored d) (fs_data s)\<rparr>"] written_append [of "[d]" ds]
    by simp
qed simp

lemma get_row_filter:
  "distinct (map sd_id ds) \<Longrightarrow> get_row sd_id k (filter P ds) =
     (case get_row sd_id k ds of None \<Rightarrow> None | Some d \<Rightarrow> if P d then Some d else None)"
  using get_delete_where [of sd_id ds k "\<lambda>d. \<not> P d"]
  by (simp add: delete_where_def split: option.splits)

lemma writes_to_result: "m = new \<Longrightarrow> writes_to old new r m"
  by (simp add: writes_to_def)

lemma file_docs_Some: "(file_docs s h \<noteq> None) = (h \<in> sd_id ` set (fs_data s))"
  unfolding file_docs_def option.map_disc_iff get_row_None_iff by (rule not_not)

lemma file_state_law:
  assumes inv: "file_inv s" and run: "st_getCurrentState FileVectorStore s = (sr, s')"
  shows "file_inv s' \<and> file_docs s' = file_docs s \<and> (case sr of Inl _ \<Rightarrow> True | Inr m \<Rightarrow>
      \<forall>f c. map_of m f = Some c \<longrightarrow>
        c \<noteq> [] \<and> (\<exists>k d. file_docs s k = Some d \<and> v_sourceFile d = f \<and> v_commitHash d = c))"
proof -
  let ?L = "map (\<lambda>r. (sd_sourceFile r, sd_commitHash r))
      (filter (\<lambda>r. sd_sourceFile r \<noteq> [] \<and> sd_commitHash r \<noteq> []) (fs_data s))"
  have out: "sr = Inr (map_set_all ?L [])" "s' = s"
    using run by (auto simp: FileVectorStore_def file_getCurrentState_def)
  have d: "distinct (map sd_id (fs_data s))" using inv by (simp add: file_inv_def)
  have all: "c \<noteq> [] \<and> (\<exists>k d. file_docs s k = Some d \<and> v_sourceFile d = f \<and> v_commitHash d = c)"
    if look: "map_of (map_set_all ?L []) f = Some c" for f c
  proof -
    have "map_of (rev ?L) f = Some c" using look by (simp only: map_of_map_set_all map_of.simps empty_map_add)
    then obtain r where r: "r \<in> set (fs_data s)" "sd_sourceFile r = f" "sd_commitHash r = c" "c \<noteq> []"
      using map_of_SomeD by fastforce
    then have "get_row sd_id (sd_id r) (fs_data s) = Some r" using get_row_Some_iff [OF d] by blast
    then have "file_docs s (sd_id r) = Some \<lparr>v_denseText = sd_denseText r, v_sourceFile = f, v_commitHash = c\<rparr>"
      using r by (simp add: file_docs_def)
    then show ?thesis using r(4) by force
  qed
  show ?thesis unfolding out sum.case using inv all by blast
qed

interpretation file_store: vector_store_laws FileVectorStore file_docs file_inv
proof
  fix s
  show "file_inv s \<Longrightarrow> file_inv (snd (st_initialize FileVectorStore s))"
    by (auto simp: FileVectorStore_def file_initialize_def file_inv_def split: option.splits json_col.splits)
next
  fix s ds r s'
  assume inv: "file_inv s" and run: "st_upsert FileVectorStore ds s = (r, s')"
  let ?s = "s\<lparr>fs_data := fold (\<lambda>d. set_at_id (to_stored d)) ds (fs_data s)\<rparr>"
  have s': "s' = snd (persist ?s)" using run by (simp add: FileVectorStore_def file_upsert_def prod_eq_iff)
  have "distinct (map sd_id (fs_data ?s))"
    using inv by (simp add: file_inv_def distinct_fold_set_at_id)
  then show "file_inv s' \<and> writes_to (file_docs s) (written ds (file_docs s)) r (file_docs s')"
    unfolding s' using persist_inv [of ?s s] inv by (simp add: writes_to_result file_docs_upsert)
next
  fix s fs r s'
  assume inv: "file_inv s" and run: "st_deleteBySourceFile FileVectorStore fs s = (r, s')"
  let ?s = "s\<lparr>fs_data := filter (\<lambda>d. sd_sourceFile d \<notin> set fs) (fs_data s)\<rparr>"
  have s': "s' = snd (persist ?s)"
    using run by (simp add: FileVectorStore_def file_deleteBySourceFile_def prod_eq_iff)
  have d: "distinct (map sd_id (fs_data s))" using inv by (simp add: file_inv_def)
  have "file_docs ?s = without_files fs (file_docs s)"
    by (auto simp: fun_eq_iff file_docs_def get_row_filter [OF d] without_files_def split: option.splits)
  then show "file_inv s' \<and> writes_to (file_docs s) (without_files fs (file_docs s)) r (file_docs s')"
    unfolding s' using persist_inv [of ?s s] inv d by (simp add: writes_to_result distinct_map_filter)
next
  fix s sr s'
  assume inv: "file_inv s" and run: "st_getCurrentState FileVectorStore s = (sr, s')"
  show "file_inv s' \<and> file_docs s' = file_docs s \<and> (case sr of Inl _ \<Rightarrow> True | Inr m \<Rightarrow>
      \<forall>f c. map_of m f = Some c \<longrightarrow>
        c \<noteq> [] \<and> (\<exists>k d. file_docs s k = Some d \<and> v_sourceFile d = f \<and> v_commitHash d = c))"
    by (rule file_state_law [OF inv run])
next
  fix s ex hs hr s'
  assume "file_inv s" and "st_existingHashes FileVectorStore = Some ex" and "ex hs s = (hr, s')"
  then have "file_inv s" "s' = s" "hr = Inr (filter (\<lambda>h. h \<in> sd_id ` set (fs_data s)) hs)"
    by (auto simp: FileVectorStore_def file_existingHashes_def)
  then show "file_inv s' \<and> file_docs s' = file_docs s
      \<and> (case hr of Inl _ \<Rightarrow> True | Inr xs \<Rightarrow> set xs = {h \<in> set hs. file_docs s h \<noteq> None})"
    by (simp only: sum.case file_docs_Some simp_thms set_filter)
next
  fix s dl f keep r s'
  assume inv: "file_inv s" and dl: "st_deleteOrphanedChunks FileVectorStore = Some dl"
    and run: "dl f keep s = (r, s')"
  let ?s = "s\<lparr>fs_data := filter (\<lambda>d. sd_sourceFile d \<noteq> f \<or> sd_id d \<in> set keep) (fs_data s)\<rparr>"
  have s': "s' = snd (persist ?s)"
    using dl run by (simp add: FileVectorStore_def file_deleteOrphanedChunks_def prod_eq_iff)
  have d: "distinct (map sd_id (fs_data s))" using inv by (simp add: file_inv_def)
  have "file_docs ?s = without_orphans f keep (file_docs s)"
    by (auto simp: fun_eq_iff file_docs_def get_row_filter [OF d] without_orphans_def
        dest: get_row_key split: option.splits)
  then show "file_inv s' \<and> writes_to (file_docs s) (without_orphans f keep (file_docs s)) r (file_docs s')"
    unfolding s' using persist_inv [of ?s s] inv d by (simp add: writes_to_result distinct_map_filter)
qed

lemmas file_store_laws = file_store.vector_store_laws_axioms

interpretation file_store: reopenable_store FileVectorStore file_docs file_inv
  by unfold_locales
    (auto simp: FileVectorStore_def file_initialize_def file_getCurrentState_def file_docs_def fun_eq_iff
      split: option.splits json_col.splits)

lemmas file_store_reopenable = file_store.reopenable_store_axioms

end
