(* ===== verification/Uploader.thy ===== *)
theory Uploader
  imports VectorStore VirageDb
begin

section \<open>Uploading embedded chunks\<close>

text \<open>
  \<open>src/packages/virage-core/src/core/uploader.ts\<close>. The staging database and the store are threaded
  through; the waits between retries and the progress callbacks have no effect on either. \<open>pick\<close>
  is the choice of \<open>getFileStates\<close>. Slices of 50 chunks are those of \<open>batchArray\<close>, whose loop
  the upload loops share.
\<close>

definition isFatalVectorStoreError :: "js_error \<Rightarrow> bool" where
  "isFatalVectorStoreError e =
     (let m = lower_case (message e)
      in contains ''schema error'' m \<or> contains ''schema mismatch'' m \<or> contains ''unauthorized'' m
         \<or> contains ''authentication failed'' m)"

definition upload_retry :: "retry_options \<Rightarrow> retry_options" where
  "upload_retry opts = opts\<lparr>isRetryable := Some (\<lambda>e. \<not> isFatalVectorStoreError e)\<rparr>"

definition chunkToDocument :: "embedded_chunk \<Rightarrow> string option \<Rightarrow> vector_document" where
  "chunkToDocument c coll =
     \<lparr>docId = denseTextHash c, docDenseText = denseText c, docSparseText = sparseText c,
      docDenseTextHash = denseTextHash c, docSparseTextGeneratorId = sparseTextGeneratorId c,
      docMetadataGeneratorId = metadataGeneratorId c, docMetadata = metadata c,
      docTags = (case get_prop ''tags'' (metadata c) of Some (JArr ts) \<Rightarrow> Some ts | _ \<Rightarrow> None),
      docDenseVector = denseVector c, docSourceFile = sourceFile c, docCommitHash = commitHash c,
      docCollection = coll\<rparr>"

definition deduplicateByHash :: "embedded_chunk list \<Rightarrow> embedded_chunk list" where
  "deduplicateByHash cs = filter_unseen denseTextHash [] cs"

definition documents_of :: "embedded_chunk list \<Rightarrow> vector_document list" where
  "documents_of cs = map (\<lambda>e. chunkToDocument e None) (deduplicateByHash cs)"

definition store_changed :: "'s vector_store \<Rightarrow> virage_db \<Rightarrow> bool" where
  "store_changed st db =
     (case getMeta db of None \<Rightarrow> False
      | Some m \<Rightarrow> (case vectorStoreName m of None \<Rightarrow> False | Some n \<Rightarrow> n \<noteq> [] \<and> n \<noteq> storeName st))"

text \<open>One embedding against the store's revision of its file: upload it, delete the file first?\<close>

fun partition_items ::
  "(string \<times> string) list \<Rightarrow> embedded_chunk list \<Rightarrow> embedded_chunk list \<times> string list" where
  "partition_items existingState [] = ([], [])"
| "partition_items existingState (emb # embs) =
     (case partition_items existingState embs of (up, del) \<Rightarrow>
        (case map_of existingState (sourceFile emb) of
           None \<Rightarrow> (emb # up, del)
         | Some existingHash \<Rightarrow>
             if existingHash = [] then (emb # up, del)
             else if existingHash \<noteq> commitHash emb then (emb # up, sourceFile emb # del)
             else (up, del)))"

definition getItemsToUpload ::
  "'s vector_store \<Rightarrow> virage_db \<Rightarrow> bool \<Rightarrow> 's \<Rightarrow> (embedded_chunk list \<times> string list) result \<times> 's" where
  "getItemsToUpload st db force s =
     (let embeddings = getAll db
      in if force \<or> store_changed st db
         then (Inr (embeddings, dedup (map sourceFile embeddings)), s)
         else (case st_getCurrentState st s of
                 (Inl e, s') \<Rightarrow> (Inl e, s')
               | (Inr existingState, s') \<Rightarrow>
                   (let (up, del) = partition_items existingState embeddings
                    in (Inr (up, dedup del), s'))))"

definition prepareUpdate ::
  "'s vector_store \<Rightarrow> retry_options \<Rightarrow> (string list \<Rightarrow> string) \<Rightarrow> virage_db \<Rightarrow> string list \<Rightarrow> string list
   \<Rightarrow> bool \<Rightarrow> 's \<Rightarrow> unit result \<times> 's" where
  "prepareUpdate st opts pick db toDelete toProcess force s =
     (case st_initialize st s of
        (Inl e, s') \<Rightarrow> (Inl e, s')
      | (Inr _, s') \<Rightarrow>
          (let filesToDelete = (if force \<or> (\<not> force \<and> store_changed st db)
                                then map fst (getFileStates pick db)
                                else dedup (toDelete @ toProcess))
           in if length filesToDelete > 0
              then (case withRetry (upload_retry opts) (st_deleteBySourceFile st filesToDelete) s' of
                      (r, s'', _) \<Rightarrow> (r, s''))
              else (Inr (), s')))"

text \<open>Upsert the distinct chunks of a batch, then drop the rows of all of them.\<close>

definition upload_batch ::
  "'s vector_store \<Rightarrow> retry_options \<Rightarrow> embedded_chunk list \<Rightarrow> virage_db \<times> 's
   \<Rightarrow> unit result \<times> virage_db \<times> 's" where
  "upload_batch st opts chunks = (\<lambda>(db, s).
     case withRetry (upload_retry opts) (st_upsert st (documents_of chunks)) s of
       (Inl e, s', _) \<Rightarrow> (Inl e, db, s')
     | (Inr _, s', _) \<Rightarrow> (Inr (), deleteChunks (map denseTextHash chunks) db, s'))"

definition upsertBatch ::
  "'s vector_store \<Rightarrow> retry_options \<Rightarrow> embedded_chunk list \<Rightarrow> virage_db \<times> 's
   \<Rightarrow> unit result \<times> virage_db \<times> 's" where
  "upsertBatch st opts chunks st0 =
     (if length chunks = 0 then (Inr (), fst st0, snd st0) else upload_batch st opts chunks st0)"

fun upload_slices ::
  "'s vector_store \<Rightarrow> retry_options \<Rightarrow> embedded_chunk list list \<Rightarrow> virage_db \<times> 's
   \<Rightarrow> unit result \<times> virage_db \<times> 's" where
  "upload_slices st opts [] st0 = (Inr (), fst st0, snd st0)"
| "upload_slices st opts (batch # batches) st0 =
     (case upload_batch st opts batch st0 of
        (Inl e, st1) \<Rightarrow> (Inl e, st1)
      | (Inr _, st1) \<Rightarrow> upload_slices st opts batches st1)"

definition slices50 :: "'a list \<Rightarrow> 'a list list" where
  "slices50 xs = the (batchArray xs 50)"

definition uploadPending ::
  "'s vector_store \<Rightarrow> retry_options \<Rightarrow> virage_db \<times> 's \<Rightarrow> (nat \<times> nat) result \<times> virage_db \<times> 's" where
  "uploadPending st opts = (\<lambda>(db, s).
     let pending = getPending db
     in if length pending = 0 then (Inr (0, 0), db, s)
        else (case upload_slices st opts (slices50 pending) (db, s) of
                (Inl e, st1) \<Rightarrow> (Inl e, st1)
              | (Inr _, st1) \<Rightarrow> (Inr (length pending, 0), st1)))"

definition sync ::
  "'s vector_store \<Rightarrow> retry_options \<Rightarrow> bool \<Rightarrow> virage_db \<times> 's \<Rightarrow> (nat \<times> nat) result \<times> virage_db \<times> 's" where
  "sync st opts force = (\<lambda>(db, s).
     case st_initialize st s of
       (Inl e, s1) \<Rightarrow> (Inl e, db, s1)
     | (Inr _, s1) \<Rightarrow>
         (case getItemsToUpload st db force s1 of
            (Inl e, s2) \<Rightarrow> (Inl e, db, s2)
          | (Inr (toUpload, toDelete), s2) \<Rightarrow>
              if length toUpload = 0 \<and> length toDelete = 0 then (Inr (0, 0), db, s2)
              else (case (if length toDelete > 0
                          then withRetry (upload_retry opts) (st_deleteBySourceFile st toDelete) s2
                          else (Inr (), s2, [])) of
                      (Inl e, s3, _) \<Rightarrow> (Inl e, db, s3)
                    | (Inr _, s3, _) \<Rightarrow>
                        (case (if length toUpload > 0
                               then upload_slices st opts (slices50 toUpload) (db, s3)
                               else (Inr (), db, s3)) of
                           (Inl e, st4) \<Rightarrow> (Inl e, st4)
                         | (Inr _, st4) \<Rightarrow> (Inr (length toUpload, length toDelete), st4)))))"

subsection \<open>Lemmas\<close>

lemma slices50_concat: "concat (slices50 xs) = xs"
proof -
  obtain bs where "batch_from xs 50 0 = Some bs" "concat bs = drop 0 xs"
    using batch_from_pos [of 50 xs 0] by auto
  then show ?thesis by (simp add: slices50_def batchArray_def)
qed

lemma deleteChunks_Nil [simp]: "deleteChunks [] db = db"
  by (simp add: deleteChunks_def)

lemma t_chunks_deleteChunks:
  "t_chunks (deleteChunks hs db) = filter (\<lambda>r. dense_text_hash r \<notin> set hs) (t_chunks db)"
  by (simp add: deleteChunks_def delete_where_def)

lemma deleteChunks_append: "deleteChunks hs (deleteChunks gs db) = deleteChunks (gs @ hs) db"
  by (auto simp: deleteChunks_def delete_where_def intro: filter_cong)

lemma docId_documents_of: "docId ` set (documents_of cs) = denseTextHash ` set cs"
  using filter_unseen_keys [of denseTextHash "[]" cs]
  by (simp add: documents_of_def deduplicateByHash_def image_image chunkToDocument_def)

lemma documents_of_distinct:
  "distinct (map denseTextHash cs) \<Longrightarrow> documents_of cs = map (\<lambda>e. chunkToDocument e None) cs"
  by (simp add: documents_of_def deduplicateByHash_def filter_unseen_id)

lemma distinct_documents_of: "distinct (map docId (documents_of cs))"
  using filter_unseen_distinct [of denseTextHash "[]" cs]
  by (simp add: documents_of_def deduplicateByHash_def chunkToDocument_def comp_def)

lemma dom_without_files: "dom (without_files fs m) \<subseteq> dom m"
  by (auto simp: without_files_def split: option.splits)

context vector_store_laws
begin

lemma upload_batch_spec:
  assumes "inv s" and "upload_batch st opts b (db, s) = (r, db', s')"
  shows "inv s' \<and> writes_to (docs s) (written (documents_of b) (docs s)) r (docs s')
    \<and> db' = (if r = Inr () then deleteChunks (map denseTextHash b) db else db)"
proof -
  obtain r1 s1 ws where w: "withRetry (upload_retry opts) (st_upsert st (documents_of b)) s = (r1, s1, ws)"
    by (cases "withRetry (upload_retry opts) (st_upsert st (documents_of b)) s") auto
  have "r = r1 \<and> s' = s1 \<and> db' = (if r = Inr () then deleteChunks (map denseTextHash b) db else db)"
    using assms(2) w by (cases r1) (auto simp: upload_batch_def)
  then show ?thesis using retried_upsert [OF assms(1) distinct_documents_of w] by simp
qed

lemma upload_slices_spec:
  "inv s \<Longrightarrow> upload_slices st opts bs (db, s) = (r, db', s') \<Longrightarrow>
   inv s' \<and> dom (docs s) \<subseteq> dom (docs s')
   \<and> (\<exists>k. db' = deleteChunks (map denseTextHash (concat (take k bs))) db
        \<and> denseTextHash ` set (concat (take k bs)) \<subseteq> dom (docs s') \<and> (r = Inr () \<longrightarrow> length bs \<le> k))
   \<and> (r = Inr () \<longrightarrow> docs s' = written (concat (map documents_of bs)) (docs s))
   \<and> (\<forall>h. h \<notin> denseTextHash ` set (concat bs) \<longrightarrow> docs s' h = docs s h)"
proof (induction bs arbitrary: db s)
  case Nil
  then show ?case by simp
next
  case (Cons b bs)
  obtain r1 db1 s1 where one: "upload_batch st opts b (db, s) = (r1, db1, s1)"
    by (cases "upload_batch st opts b (db, s)") auto
  have spec: "inv s1" "writes_to (docs s) (written (documents_of b) (docs s)) r1 (docs s1)"
      "db1 = (if r1 = Inr () then deleteChunks (map denseTextHash b) db else db)"
    using upload_batch_spec [OF Cons.prems(1) one] by auto
  have grow: "dom (docs s) \<subseteq> dom (docs s1)"
    by (rule writes_to_dom [OF spec(2)]) (simp add: written_dom)
  have other: "docs s1 h = docs s h" if "h \<notin> denseTextHash ` set b" for h
  proof -
    have "written (documents_of b) (docs s) h = docs s h"
      using that by (intro written_other) (simp only: docId_documents_of not_False_eq_True)
    then show ?thesis using spec(2) by (auto simp: writes_to_def)
  qed
  show ?case
  proof (cases r1)
    case (Inl e)
    then have "r = Inl e" "db' = db" "s' = s1" using Cons.prems(2) one spec(3) by auto
    moreover have "\<forall>h. h \<notin> denseTextHash ` set (concat (b # bs)) \<longrightarrow> docs s1 h = docs s h"
      using other by (auto simp: image_Un)
    ultimately show ?thesis using spec(1) grow by (auto intro!: exI [of _ 0])
  next
    case (Inr u)
    then have r1: "r1 = Inr ()" by simp
    have rest: "upload_slices st opts bs (db1, s1) = (r, db', s')"
      using Cons.prems(2) one r1 by simp
    have IH: "inv s'" "dom (docs s1) \<subseteq> dom (docs s')"
        "r = Inr () \<longrightarrow> docs s' = written (concat (map documents_of bs)) (docs s1)"
        "\<forall>h. h \<notin> denseTextHash ` set (concat bs) \<longrightarrow> docs s' h = docs s1 h"
      using Cons.IH [OF spec(1) rest] by blast+
    obtain k where k: "db' = deleteChunks (map denseTextHash (concat (take k bs))) db1"
        "denseTextHash ` set (concat (take k bs)) \<subseteq> dom (docs s')" "r = Inr () \<longrightarrow> length bs \<le> k"
      using Cons.IH [OF spec(1) rest] by blast
    have s1: "docs s1 = written (documents_of b) (docs s)" using spec(2) r1 by (simp add: writes_to_def)
    have "denseTextHash ` set b \<subseteq> dom (docs s1)"
      unfolding s1 written_dom docId_documents_of by simp
    then have "denseTextHash ` set (concat (take (Suc k) (b # bs))) \<subseteq> dom (docs s')"
      using k(2) IH(2) by (simp add: image_Un)
    moreover have "db' = deleteChunks (map denseTextHash (concat (take (Suc k) (b # bs)))) db"
      using k(1) spec(3) r1 by (simp add: deleteChunks_append)
    ultimately have "\<exists>k. db' = deleteChunks (map denseTextHash (concat (take k (b # bs)))) db
        \<and> denseTextHash ` set (concat (take k (b # bs))) \<subseteq> dom (docs s')
        \<and> (r = Inr () \<longrightarrow> length (b # bs) \<le> k)"
      using k(3) by (intro exI [of _ "Suc k"]) simp
    moreover have "docs s' = written (concat (map documents_of (b # bs))) (docs s)" if "r = Inr ()"
      using IH(3) that s1 by (simp add: written_append)
    moreover have "\<forall>h. h \<notin> denseTextHash ` set (concat (b # bs)) \<longrightarrow> docs s' h = docs s h"
      using IH(4) other by (simp add: image_Un)
    moreover have "dom (docs s) \<subseteq> dom (docs s')" using grow IH(2) by blast
    ultimately show ?thesis using IH(1) by blast
  qed
qed

lemma uploadPending_spec:
  assumes "inv s" and "db_ok db" and "uploadPending st opts (db, s) = (r, db', s')"
  shows "inv s' \<and> dom (docs s) \<subseteq> dom (docs s')
    \<and> (\<exists>hs. db' = deleteChunks hs db \<and> set hs \<subseteq> denseTextHash ` set (getPending db) \<and> set hs \<subseteq> dom (docs s')
         \<and> (\<not> isl r \<longrightarrow> set hs = denseTextHash ` set (getPending db)))
    \<and> (\<not> isl r \<longrightarrow> r = Inr (length (getPending db), 0)
         \<and> docs s' = written (map (\<lambda>e. chunkToDocument e None) (getPending db)) (docs s))"
proof (cases "getPending db = []")
  case True
  then have "r = Inr (0, 0)" "db' = db" "s' = s" using assms(3) by (auto simp: uploadPending_def)
  then show ?thesis using True assms(1) by (auto intro!: exI [of _ "[]"])
next
  case False
  define bs where "bs = slices50 (getPending db)"
  obtain u where run: "upload_slices st opts bs (db, s) = (u, db', s')"
    and r: "r = (case u of Inl e \<Rightarrow> Inl e | Inr _ \<Rightarrow> Inr (length (getPending db), 0))"
    using assms(3) False by (cases "upload_slices st opts (slices50 (getPending db)) (db, s)")
      (auto simp: uploadPending_def Let_def bs_def split: sum.splits)
  have cc: "concat bs = getPending db" unfolding bs_def by (rule slices50_concat)
  have dis: "distinct (map denseTextHash (concat bs))"
    using db_op_invariants(1) [OF assms(2)] unfolding cc distinct_append by (simp add: getPending_def)
  have docs: "concat (map documents_of bs) = map (\<lambda>e. chunkToDocument e None) (concat bs)"
    if "distinct (map denseTextHash (concat bs))" for bs
    using that by (induction bs) (simp_all add: documents_of_distinct)
  note spec = upload_slices_spec [OF assms(1) run]
  obtain k where k: "db' = deleteChunks (map denseTextHash (concat (take k bs))) db"
      "denseTextHash ` set (concat (take k bs)) \<subseteq> dom (docs s')" "u = Inr () \<longrightarrow> length bs \<le> k"
    using spec by blast
  have "set (concat (take k bs)) \<subseteq> set (concat bs)" by (auto dest: in_set_takeD)
  then have sub: "set (concat (take k bs)) \<subseteq> set (getPending db)" unfolding cc .
  have ok: "u = Inr () \<and> r = Inr (length (getPending db), 0)" if "\<not> isl r"
    using that r by (cases u) simp_all
  have all: "set (concat (take k bs)) = set (getPending db)" if nl: "\<not> isl r"
    using k(3) ok [OF nl] by (simp only: simp_thms take_all cc)
  have grown: "docs s' = written (map (\<lambda>e. chunkToDocument e None) (getPending db)) (docs s)"
    if nl: "\<not> isl r"
  proof -
    have "docs s' = written (concat (map documents_of bs)) (docs s)" using spec ok [OF nl] by blast
    then show ?thesis unfolding docs [OF dis] cc .
  qed
  let ?hs = "map denseTextHash (concat (take k bs))"
  have "set ?hs \<subseteq> denseTextHash ` set (getPending db)" unfolding set_map by (rule image_mono [OF sub])
  moreover have "set ?hs \<subseteq> dom (docs s')" unfolding set_map by (rule k(2))
  moreover have "set ?hs = denseTextHash ` set (getPending db)" if nl: "\<not> isl r"
    unfolding set_map all [OF nl] ..
  ultimately show ?thesis using spec k(1) ok grown by blast
qed

lemma prepareUpdate_spec:
  assumes "inv s" and "prepareUpdate st opts pick db toDelete toProcess force s = (r, s')"
    and "st_initialize st s = (Inr (), s0)"
  shows "inv s' \<and> writes_to (docs s0)
    (without_files (if force \<or> store_changed st db then map fst (getFileStates pick db)
                    else toDelete @ toProcess) (docs s0)) r (docs s')"
proof -
  have i0: "inv s0" using inv_initialize [OF assms(1)] assms(3) by simp
  let ?fs = "if force \<or> store_changed st db then map fst (getFileStates pick db)
      else dedup (toDelete @ toProcess)"
  have same: "without_files ?fs m = without_files (if force \<or> store_changed st db
      then map fst (getFileStates pick db) else toDelete @ toProcess) m" for m
    by (auto simp: without_files_def fun_eq_iff split: option.splits)
  have cond: "(force \<or> \<not> force \<and> store_changed st db) = (force \<or> store_changed st db)" by blast
  show ?thesis
  proof (cases "length ?fs > 0")
    case True
    obtain r1 s1 ws where w: "withRetry (upload_retry opts) (st_deleteBySourceFile st ?fs) s0 = (r1, s1, ws)"
      by (cases "withRetry (upload_retry opts) (st_deleteBySourceFile st ?fs) s0") auto
    have "r = r1 \<and> s' = s1"
      using assms(2,3) True w unfolding prepareUpdate_def Let_def cond by simp
    then show ?thesis using retried_delete [OF i0 w] by (simp add: same)
  next
    case False
    have "r = Inr () \<and> s' = s0"
      using assms(2,3) False unfolding prepareUpdate_def Let_def cond by simp
    moreover have "?fs = []" using False by simp
    then have "without_files ?fs (docs s0) = docs s0"
      by (auto simp: without_files_def fun_eq_iff split: option.splits)
    ultimately show ?thesis using i0 by (simp add: writes_to_def flip: same)
  qed
qed

end

subsection \<open>Properties\<close>

text \<open>C14. Uploading the queue loses nothing, whether it succeeds or fails half way: a chunk leaves
  the staging database only once the store holds a document under its hash, no document leaves the
  store, chunks that were not waiting keep their rows, and on success the queue is empty and the
  store holds exactly what was waiting on top of what it had.\<close>

theorem uploadPending_loses_nothing:
  assumes "vector_store_laws st docs ok" and "ok s" and "db_ok db"
    and "uploadPending st opts (db, s) = (r, db', s')"
  shows "denseTextHash ` set (getPending db) \<subseteq> denseTextHash ` set (getPending db') \<union> dom (docs s')
    \<and> dom (docs s) \<subseteq> dom (docs s')
    \<and> getPendingEmbedChunks db' = getPendingEmbedChunks db
    \<and> t_file_revisions db' = t_file_revisions db
    \<and> (\<not> isl r \<longrightarrow> r = Inr (length (getPending db), 0) \<and> getPending db' = []
         \<and> docs s' = written (map (\<lambda>e. chunkToDocument e None) (getPending db)) (docs s))"
proof -
  note spec = vector_store_laws.uploadPending_spec [OF assms(1,2,3,4)]
  obtain hs where hs: "db' = deleteChunks hs db" "set hs \<subseteq> denseTextHash ` set (getPending db)"
      "set hs \<subseteq> dom (docs s')" "\<not> isl r \<longrightarrow> set hs = denseTextHash ` set (getPending db)"
    using spec by blast
  have pend: "denseTextHash ` set (getPending d)
      = dense_text_hash ` set (filter (\<lambda>r. uploaded r = 0 \<and> dense_vector r \<noteq> None) (t_chunks d))" for d
    using arg_cong [OF pending_upload_hashes, of set d] unfolding getPending_def set_map .
  have keep: "denseTextHash ` set (getPending db') = denseTextHash ` set (getPending db) - set hs"
    unfolding pend hs(1) t_chunks_deleteChunks by auto
  have "r' \<notin> set (t_chunks db)" if h: "dense_text_hash r' \<in> set hs" "dense_vector r' = None" for r'
  proof
    assume r': "r' \<in> set (t_chunks db)"
    obtain q where q: "q \<in> set (t_chunks db)" "dense_vector q \<noteq> None" "dense_text_hash q = dense_text_hash r'"
      using hs(2) h(1) unfolding pend by force
    have "q = r'" by (rule keyed_inj [OF db_okD(1) [OF assms(3)] q(1) r' q(3)])
    then show False using q(2) h(2) by simp
  qed
  then have null: "dense_text_hash r' \<notin> set hs"
    if "r' \<in> set (t_chunks db)" "dense_vector r' = None" for r' using that by blast
  have "filter (\<lambda>r. dense_vector r = None \<and> uploaded r = 0) (filter (\<lambda>r. dense_text_hash r \<notin> set hs) (t_chunks db))
      = filter (\<lambda>r. dense_vector r = None \<and> uploaded r = 0) (t_chunks db)"
    unfolding filter_filter
  proof (rule filter_cong [OF refl])
    fix r' assume "r' \<in> set (t_chunks db)"
    then show "(dense_text_hash r' \<notin> set hs \<and> dense_vector r' = None \<and> uploaded r' = 0)
        = (dense_vector r' = None \<and> uploaded r' = 0)"
      using null by blast
  qed
  then have emb: "getPendingEmbedChunks db' = getPendingEmbedChunks db"
    unfolding getPendingEmbedChunks_def hs(1) t_chunks_deleteChunks by simp
  have rev: "t_file_revisions db' = t_file_revisions db" by (simp add: hs(1) deleteChunks_def)
  have empty: "getPending db' = []" if "\<not> isl r"
    using keep hs(4) that by (metis Diff_cancel image_is_empty set_empty)
  show ?thesis using spec keep hs(3) emb rev empty by blast
qed

lemma uploadPending_loses_nothing_witness:
  "case uploadPending FileVectorStore no_retry_options
      (sample_db, \<lparr>fs_data = [], disk = None, writable = True\<rparr>) of
     (r, db', s') \<Rightarrow> {''h1''} \<subseteq> denseTextHash ` set (getPending db') \<union> dom (file_docs s')"
proof -
  let ?s = "\<lparr>fs_data = [], disk = None, writable = True\<rparr>"
  obtain r db' s' where run: "uploadPending FileVectorStore no_retry_options (sample_db, ?s) = (r, db', s')"
    by (cases "uploadPending FileVectorStore no_retry_options (sample_db, ?s)") auto
  have "file_inv ?s" by (simp add: file_inv_def)
  moreover have "db_ok sample_db"
    unfolding sample_db_def using db_exec_all_ok [OF db_ok_empty,
        of "[InsertChunks [sample_chunk ''h1'' ''a'', sample_chunk ''h2'' ''a'', sample_chunk ''h3'' ''b''],
             UpdateDenseVector ''h1'' [Fin 0] 7]"] by simp
  moreover have "map denseTextHash (getPending sample_db) = [''h1'']" by code_simp
  then have "denseTextHash ` set (getPending sample_db) = {''h1''}"
    by (metis list.set(1,2) set_map)
  ultimately show ?thesis
    using uploadPending_loses_nothing [OF file_store_laws _ _ run] run by (simp add: case_prod_unfold)
qed

text \<open>C15. When \<open>prepareUpdate\<close> succeeds, the store has lost exactly the documents of the files
  that will be processed or deleted, or, when it forces a full upload or the store has changed, of
  all files the staging database knows; when it fails, each document is either as it was or one
  of those.\<close>

theorem prepareUpdate_removes_stale_documents:
  assumes "vector_store_laws st docs ok" and "ok s"
    and "st_initialize st s = (Inr (), s0)"
    and "prepareUpdate st opts pick db toDelete toProcess force s = (r, s')"
  shows "(\<not> isl r \<longrightarrow> (\<forall>k. docs s' k = (case docs s0 k of None \<Rightarrow> None
       | Some d \<Rightarrow> if v_sourceFile d \<in> (if force \<or> store_changed st db then fst ` set (getFileStates pick db)
                                          else set toDelete \<union> set toProcess)
                  then None else Some d)))
    \<and> (\<forall>k. docs s' k = docs s0 k \<or> docs s' k = None)"
proof -
  have w: "writes_to (docs s0)
    (without_files (if force \<or> store_changed st db then map fst (getFileStates pick db)
                    else toDelete @ toProcess) (docs s0)) r (docs s')"
    using vector_store_laws.prepareUpdate_spec [OF assms(1,2,4,3)] by blast
  have n: "without_files fs m k = m k \<or> without_files fs m k = None" for fs m k
    by (auto simp: without_files_def split: option.splits)
  have "docs s' k = docs s0 k \<or> docs s' k = None" for k
    using w n unfolding writes_to_def by metis
  moreover have "docs s' = without_files (if force \<or> store_changed st db then map fst (getFileStates pick db)
                    else toDelete @ toProcess) (docs s0)" if "\<not> isl r"
    using w that by (cases r) (auto simp: writes_to_def)
  ultimately show ?thesis by (auto simp: without_files_def split: option.splits)
qed

definition sample_file_store :: file_store where
  "sample_file_store =
     \<lparr>fs_data = [\<lparr>sd_id = ''h1'', sd_denseText = [], sd_sourceFile = ''a'', sd_commitHash = ''r''\<rparr>,
                \<lparr>sd_id = ''h2'', sd_denseText = [], sd_sourceFile = ''b'', sd_commitHash = ''r''\<rparr>],
      disk = None, writable = True\<rparr>"

lemma prepareUpdate_removes_stale_documents_witness:
  "case prepareUpdate FileVectorStore no_retry_options hd empty_db [''a''] [] False sample_file_store of
     (r, s') \<Rightarrow> \<not> isl r \<longrightarrow> file_docs s' ''h1'' = None \<and> file_docs s' ''h2'' \<noteq> None"
proof -
  obtain r s' where run: "prepareUpdate FileVectorStore no_retry_options hd empty_db [''a''] [] False
      sample_file_store = (r, s')"
    by (cases "prepareUpdate FileVectorStore no_retry_options hd empty_db [''a''] [] False sample_file_store")
  have i: "file_inv sample_file_store" "st_initialize FileVectorStore sample_file_store = (Inr (), sample_file_store)"
    by (simp_all add: file_inv_def sample_file_store_def FileVectorStore_def file_initialize_def)
  have "\<not> store_changed FileVectorStore empty_db"
    by (simp add: store_changed_def getMeta_def empty_db_def)
  moreover have "file_docs sample_file_store ''h1'' = Some \<lparr>v_denseText = [], v_sourceFile = ''a'', v_commitHash = ''r''\<rparr>"
      "file_docs sample_file_store ''h2'' = Some \<lparr>v_denseText = [], v_sourceFile = ''b'', v_commitHash = ''r''\<rparr>"
    by (simp_all add: file_docs_def sample_file_store_def get_row_def)
  ultimately show ?thesis
    using prepareUpdate_removes_stale_documents [OF file_store_laws i run] by (auto simp: run)
qed

text \<open>
  After a change of model or dimensions the orchestrator empties the staging database before it
  forces a full upload; \<open>prepareUpdate\<close> then finds no file to delete, and the documents of files
  that no longer exist stay in the store.
\<close>

lemma prepareUpdate_after_clearAll:
  assumes "st_initialize st s = (Inr (), s0)"
  shows "prepareUpdate st opts pick (clearAll db) toDelete toProcess True s = (Inr (), s0)"
  using assms by (simp add: prepareUpdate_def getFileStates_def clearAll_def Let_def)

end
