(* ===== verification/Embedder.thy ===== *)
theory Embedder
  imports VirageDb Utils
begin

section \<open>Embedding chunks\<close>

text \<open>
  \<open>src/packages/virage-core/src/core/embedder.ts\<close>. The embedding provider is a parameter: a record
  of its functions over the state \<open>'w\<close> of the outside world. \<open>clock w i\<close> is the \<open>i\<close>-th reading of
  \<open>Date.now() / 1000\<close> in the world \<open>w\<close>. The one-by-one path is that of the default concurrency 1:
  chunks are embedded one after the other and the first failure ends it (\<open>withConcurrency\<close> for
  other limits is in theory \<open>Concurrency\<close>); waiting for the rate limit changes no state.
\<close>

record 'w embedding_provider =
  ep_name :: string
  ep_dimensions :: nat
  ep_model :: "string option"
  ep_embed :: "jstext \<Rightarrow> 'w \<Rightarrow> jsnum list result \<times> 'w"
  ep_preferredBatchSize :: "nat option"
  ep_embedBatch :: "(jstext list \<Rightarrow> 'w \<Rightarrow> jsnum list list result \<times> 'w) option"
  ep_preWarm :: "('w \<Rightarrow> unit result \<times> 'w) option"

text \<open>The options of the constructor, and the processor with its defaults; \<open>None\<close> for
  \<open>maxBatchChars\<close> and \<open>minIngestionBatchSize\<close> is \<open>Infinity\<close>.\<close>

record embedder_options =
  o_rateLimitMs :: "nat option"
  o_batchSize :: "nat option"
  o_maxBatchChars :: "nat option"
  o_retry :: "retry_options option"
  o_concurrency :: "nat option"
  o_vectorStoreName :: "string option"
  o_minIngestionBatchSize :: "nat option"

record 'w embedder =
  provider :: "'w embedding_provider"
  rateLimitMs :: nat
  batchSize :: nat
  maxBatchChars :: "nat option"
  retryOptions :: retry_options
  concurrency :: nat
  emVectorStoreName :: "string option"
  minIngestionBatchSize :: "nat option"

definition new_embedder :: "'w embedding_provider \<Rightarrow> embedder_options \<Rightarrow> 'w embedder" where
  "new_embedder p opts =
     \<lparr>provider = p,
      rateLimitMs = nullish (o_rateLimitMs opts) 500,
      batchSize = nullish (o_batchSize opts) (nullish (ep_preferredBatchSize p) 10),
      maxBatchChars = o_maxBatchChars opts,
      retryOptions = nullish (o_retry opts) no_retry_options,
      concurrency = nullish (o_concurrency opts) 1,
      emVectorStoreName = o_vectorStoreName opts,
      minIngestionBatchSize = o_minIngestionBatchSize opts\<rparr>"

definition embed_retry :: "retry_options \<Rightarrow> retry_options" where
  "embed_retry opts = opts\<lparr>isRetryable := Some defaultIsRetryable\<rparr>"

definition embedChunk ::
  "('w \<Rightarrow> nat \<Rightarrow> rat) \<Rightarrow> 'w embedder \<Rightarrow> chunk \<Rightarrow> 'w \<Rightarrow> embedded_chunk result \<times> 'w" where
  "embedChunk clock em c w =
     (case withRetry (embed_retry (retryOptions em)) (ep_embed (provider em) (denseText c)) w of
        (Inl e, w', _) \<Rightarrow> (Inl e, w')
      | (Inr v, w', _) \<Rightarrow> (Inr (embed_with v (clock w' 0) c), w'))"

fun embed_each ::
  "('w \<Rightarrow> nat \<Rightarrow> rat) \<Rightarrow> 'w embedder \<Rightarrow> chunk list \<Rightarrow> 'w \<Rightarrow> embedded_chunk list result \<times> 'w" where
  "embed_each clock em [] w = (Inr [], w)"
| "embed_each clock em (c # cs) w =
     (case embedChunk clock em c w of
        (Inl e, w') \<Rightarrow> (Inl e, w')
      | (Inr x, w') \<Rightarrow>
          (case embed_each clock em cs w' of
             (Inl e, w'') \<Rightarrow> (Inl e, w'')
           | (Inr xs, w'') \<Rightarrow> (Inr (x # xs), w'')))"

definition with_vectors :: "(nat \<Rightarrow> rat) \<Rightarrow> jsnum list list \<Rightarrow> chunk list \<Rightarrow> embedded_chunk list" where
  "with_vectors stamp vectors chunks =
     map (\<lambda>i. embed_with (vectors ! i) (stamp i) (chunks ! i)) [0..<length chunks]"

definition embedBatch ::
  "('w \<Rightarrow> nat \<Rightarrow> rat) \<Rightarrow> 'w embedder \<Rightarrow> chunk list \<Rightarrow> 'w \<Rightarrow> embedded_chunk list result \<times> 'w" where
  "embedBatch clock em chunks w =
     (case ep_embedBatch (provider em) of
        None \<Rightarrow> embed_each clock em chunks w
      | Some eb \<Rightarrow>
          if length chunks > 0
          then (case withRetry (embed_retry (retryOptions em)) (eb (map denseText chunks)) w of
                  (Inl e, w', _) \<Rightarrow> (Inl e, w')
                | (Inr vectors, w', _) \<Rightarrow>
                    if length vectors \<noteq> length chunks
                    then (Inl (Err EmbedError ''embedBatch returned a wrong number of embeddings''), w')
                    else (Inr (with_vectors (clock w') vectors chunks), w'))
          else embed_each clock em chunks w)"

fun embed_batches ::
  "('w \<Rightarrow> nat \<Rightarrow> rat) \<Rightarrow> 'w embedder \<Rightarrow> chunk list list \<Rightarrow> 'w \<Rightarrow> embedded_chunk list result \<times> 'w" where
  "embed_batches clock em [] w = (Inr [], w)"
| "embed_batches clock em (b # bs) w =
     (case embedBatch clock em b w of
        (Inl e, w') \<Rightarrow> (Inl e, w')
      | (Inr xs, w') \<Rightarrow>
          (case embed_batches clock em bs w' of
             (Inl e, w'') \<Rightarrow> (Inl e, w'')
           | (Inr ys, w'') \<Rightarrow> (Inr (xs @ ys), w'')))"

definition embed_batches_of :: "'w embedder \<Rightarrow> chunk list \<Rightarrow> chunk list list" where
  "embed_batches_of em chunks =
     batchBySize chunks (batchSize em) (\<lambda>c. length (denseText c)) (maxBatchChars em)"

definition embedChunks ::
  "('w \<Rightarrow> nat \<Rightarrow> rat) \<Rightarrow> 'w embedder \<Rightarrow> chunk list \<Rightarrow> 'w \<Rightarrow> embedded_chunk list result \<times> 'w" where
  "embedChunks clock em chunks w =
     (if length chunks = 0 then (Inr [], w)
      else embed_batches clock em (embed_batches_of em chunks) w)"

subsection \<open>Incremental embedding from a chunks file\<close>

definition version_key :: "string \<Rightarrow> string \<Rightarrow> string" where
  "version_key f k = f @ ''::'' @ k"

text \<open>\<open>get(key)\<close> and push, or \<open>set(key, [x])\<close>: a map of groups in order of first occurrence.\<close>

definition push_group :: "'k \<Rightarrow> 'a \<Rightarrow> ('k \<times> 'a list) list \<Rightarrow> ('k \<times> 'a list) list" where
  "push_group k x m =
     (case map_of m k of
        Some g \<Rightarrow> AList.update k (g @ [x]) m
      | None \<Rightarrow> AList.update k [x] m)"

definition group_by :: "('a \<Rightarrow> 'k) \<Rightarrow> ('a \<Rightarrow> 'b) \<Rightarrow> 'a list \<Rightarrow> ('k \<times> 'b list) list" where
  "group_by key val xs = fold (\<lambda>x. push_group (key x) (val x)) xs []"

definition meta_mismatch :: "'w embedder \<Rightarrow> embeddings_meta \<Rightarrow> bool" where
  "meta_mismatch em m \<longleftrightarrow>
     (metaModel m \<noteq> None \<and> ep_model (provider em) \<noteq> None \<and> metaModel m \<noteq> ep_model (provider em))
     \<or> providerDimensions m \<noteq> Some (ep_dimensions (provider em))"

definition select_chunks :: "virage_db \<Rightarrow> chunk list \<Rightarrow> chunk list" where
  "select_chunks db chunks =
     (let existing = getAll db;
          embeddedFileVersions =
            group_by (\<lambda>e. version_key (sourceFile e) (commitHash e)) denseTextHash existing;
          embeddedByHash = map denseTextHash existing;
          chunksByFileVersion = group_by (\<lambda>c. version_key (sourceFile c) (commitHash c)) (\<lambda>c. c) chunks
      in concat (map (\<lambda>(key, fileChunks).
           case map_of embeddedFileVersions key of
             Some hs \<Rightarrow>
               if card (set hs) = length fileChunks
                  \<and> list_all (\<lambda>c. denseTextHash c \<in> set hs) fileChunks
               then []
               else filter (\<lambda>c. denseTextHash c \<notin> set embeddedByHash) fileChunks
           | None \<Rightarrow> filter (\<lambda>c. denseTextHash c \<notin> set embeddedByHash) fileChunks)
         chunksByFileVersion))"

text \<open>The chunks to embed, the metadata to carry over, and whether the embedding space is new.\<close>

definition getChunksToEmbed ::
  "'w embedder \<Rightarrow> virage_db \<Rightarrow> chunk list \<Rightarrow> bool
   \<Rightarrow> (chunk list \<times> embeddings_meta option \<times> bool) \<times> virage_db" where
  "getChunksToEmbed em db chunks force =
     (if force then ((chunks, None, True), clearAll db)
      else (case getMeta db of
              Some m \<Rightarrow> if meta_mismatch em m then ((chunks, None, True), clearAll db)
                        else ((select_chunks db chunks, Some m, False), db)
            | None \<Rightarrow> ((select_chunks db chunks, None, False), db)))"

definition saveEmbeddings :: "embedded_chunk list \<Rightarrow> embeddings_meta \<Rightarrow> virage_db \<Rightarrow> virage_db" where
  "saveEmbeddings es m db = insert_embedded es (setMeta m db)"

definition run_meta :: "'w embedder \<Rightarrow> embeddings_meta option \<Rightarrow> int \<Rightarrow> embeddings_meta" where
  "run_meta em existing now =
     \<lparr>schemaVersion = 1, providerName = ep_name (provider em),
      providerDimensions = Some (ep_dimensions (provider em)), metaModel = ep_model (provider em),
      vectorStoreName = emVectorStoreName em,
      createdAt = (case existing of None \<Rightarrow> now | Some m \<Rightarrow> createdAt m), updatedAt = now\<rparr>"

text \<open>The loop over the batches; \<open>callback\<close> is \<open>onIntermediateBatch\<close>.\<close>

fun run_batches ::
  "('w \<Rightarrow> nat \<Rightarrow> rat) \<Rightarrow> 'w embedder \<Rightarrow> embeddings_meta
   \<Rightarrow> (virage_db \<times> 'w \<Rightarrow> unit result \<times> virage_db \<times> 'w) option
   \<Rightarrow> chunk list list \<Rightarrow> virage_db \<times> 'w \<Rightarrow> embedded_chunk list result \<times> virage_db \<times> 'w" where
  "run_batches clock em m callback [] st0 = (Inr [], st0)"
| "run_batches clock em m callback (b # bs) st0 =
     (case embedBatch clock em b (snd st0) of
        (Inl e, w1) \<Rightarrow> (Inl e, fst st0, w1)
      | (Inr xs, w1) \<Rightarrow>
          (let st1 = (saveEmbeddings xs m (fst st0), w1)
           in case (case callback of
                      Some cb \<Rightarrow>
                        if (case minIngestionBatchSize em of None \<Rightarrow> False
                            | Some n \<Rightarrow> pendingCount (fst st1) \<ge> n)
                        then cb st1 else (Inr (), st1)
                    | None \<Rightarrow> (Inr (), st1)) of
                (Inl e, st2) \<Rightarrow> (Inl e, st2)
              | (Inr _, st2) \<Rightarrow>
                  (case run_batches clock em m callback bs st2 of
                     (Inl e, st3) \<Rightarrow> (Inl e, st3)
                   | (Inr ys, st3) \<Rightarrow> (Inr (xs @ ys), st3))))"

text \<open>\<open>chunksFile\<close> is what reading and parsing the file gives: an array of chunks, or a failure.\<close>

definition run_embedder ::
  "('w \<Rightarrow> nat \<Rightarrow> rat) \<Rightarrow> 'w embedder \<Rightarrow> chunk list option \<Rightarrow> bool
   \<Rightarrow> (virage_db \<times> 'w \<Rightarrow> unit result \<times> virage_db \<times> 'w) option \<Rightarrow> int
   \<Rightarrow> virage_db \<times> 'w \<Rightarrow> embedded_chunk list result \<times> virage_db \<times> 'w" where
  "run_embedder clock em chunksFile force callback now = (\<lambda>(db, w).
     case chunksFile of
       None \<Rightarrow> (Inl (Err EmbedError ''Failed to load chunks''), db, w)
     | Some chunks \<Rightarrow>
         (case getChunksToEmbed em db chunks force of
            ((chunksToEmbed, existingMeta, _), db1) \<Rightarrow>
              if length chunksToEmbed = 0 then (Inr [], db1, w)
              else run_batches clock em (run_meta em existingMeta now) callback
                     (embed_batches_of em chunksToEmbed) (db1, w)))"

subsection \<open>Lemmas\<close>

lemma push_group_simps:
  "push_group k x [] = [(k, [x])]"
  "push_group k x ((k', g) # m) = (if k = k' then (k', g @ [x]) # m else (k', g) # push_group k x m)"
  by (auto simp: push_group_def split: option.splits)

lemma push_group_mset:
  "mset (concat (map snd (push_group k x m))) = add_mset x (mset (concat (map snd m)))"
proof (induction m)
  case (Cons p m)
  then show ?case by (cases p) (simp add: push_group_simps)
qed (simp add: push_group_simps)

lemma push_group_members:
  "p \<in> set (push_group k x m) \<Longrightarrow> y \<in> set (snd p) \<Longrightarrow> y = x \<or> (\<exists>q\<in>set m. fst q = fst p \<and> y \<in> set (snd q))"
proof (induction m)
  case (Cons q m)
  then show ?case by (cases q) (auto simp: push_group_simps split: if_splits)
qed (simp add: push_group_simps)

lemma group_by_snoc: "group_by key val (xs @ [x]) = push_group (key x) (val x) (group_by key val xs)"
  by (simp add: group_by_def)

lemma group_by_mset: "mset (concat (map snd (group_by key val xs))) = mset (map val xs)"
proof (induction xs rule: rev_induct)
  case (snoc x xs)
  then show ?case by (simp add: group_by_snoc push_group_mset)
qed (simp add: group_by_def)

lemma group_by_members: "p \<in> set (group_by key val xs) \<Longrightarrow> set (snd p) \<subseteq> val ` set xs"
proof (induction xs arbitrary: p rule: rev_induct)
  case (snoc x xs)
  show ?case
  proof
    fix y assume y: "y \<in> set (snd p)"
    have "y = val x \<or> (\<exists>q\<in>set (group_by key val xs). fst q = fst p \<and> y \<in> set (snd q))"
      using push_group_members [OF snoc.prems [unfolded group_by_snoc] y] .
    then show "y \<in> val ` set (xs @ [x])" using snoc.IH by auto
  qed
qed (simp add: group_by_def)

lemma mset_filter_concat: "mset (concat (map (filter P) xss)) = filter_mset P (mset (concat xss))"
  by (induction xss) simp_all

lemma select_chunks_mset:
  "mset (select_chunks db chunks)
     = mset (filter (\<lambda>c. denseTextHash c \<notin> denseTextHash ` set (getAll db)) chunks)"
proof -
  let ?P = "\<lambda>c. denseTextHash c \<notin> denseTextHash ` set (getAll db)"
  let ?versions = "group_by (\<lambda>e. version_key (sourceFile e) (commitHash e)) denseTextHash (getAll db)"
  let ?groups = "group_by (\<lambda>c. version_key (sourceFile c) (commitHash c)) (\<lambda>c. c) chunks"
  have known: "set hs \<subseteq> denseTextHash ` set (getAll db)" if "map_of ?versions k = Some hs" for k hs
    using group_by_members [OF map_of_SomeD [OF that]] by simp
  have one: "(case map_of ?versions k of
       Some hs \<Rightarrow> if card (set hs) = length g \<and> list_all (\<lambda>c. denseTextHash c \<in> set hs) g then []
                  else filter ?P g
     | None \<Rightarrow> filter ?P g) = filter ?P g" for k g
  proof (cases "map_of ?versions k")
    case (Some hs)
    have "filter ?P g = []" if "list_all (\<lambda>c. denseTextHash c \<in> set hs) g"
      using that known [OF Some] by (auto simp: filter_empty_conv list_all_iff)
    then show ?thesis unfolding Some by simp
  qed simp
  have eq: "select_chunks db chunks = concat (map (filter ?P) (map snd ?groups))"
    unfolding select_chunks_def Let_def set_map one by (simp add: split_def comp_def)
  show ?thesis unfolding eq mset_filter_concat group_by_mset by simp
qed

text \<open>An embedding gives back the chunks it was given, in order, each with a vector.\<close>

definition embeds :: "chunk list \<Rightarrow> embedded_chunk list \<Rightarrow> bool" where
  "embeds cs es \<longleftrightarrow> map chunk.truncate es = cs"

lemma embeds_simps [simp]:
  "embeds [] es \<longleftrightarrow> es = []"
  "embeds cs es \<Longrightarrow> embeds ds fs \<Longrightarrow> embeds (cs @ ds) (es @ fs)"
  "embeds [c] [embed_with v t c]"
  by (auto simp: embeds_def)

lemma truncate_fields [simp]:
  "denseTextHash (chunk.truncate e) = denseTextHash e"
  "sourceFile (chunk.truncate e) = sourceFile e"
  "denseText (chunk.truncate e) = denseText e"
  by (simp_all add: chunk.defs)

lemma embeds_map: assumes "embeds cs es"
  shows "map denseTextHash es = map denseTextHash cs" "map sourceFile es = map sourceFile cs"
    "length es = length cs"
  using assms by (auto simp: embeds_def)

text \<open>The provider answers with the vectors \<open>vec\<close>, one text at a time or many, whenever it
  answers.\<close>

definition provider_computes :: "(jstext \<Rightarrow> jsnum list) \<Rightarrow> 'w embedding_provider \<Rightarrow> bool" where
  "provider_computes vec p \<longleftrightarrow>
     (\<forall>t w. fst (ep_embed p t w) \<in> insert (Inr (vec t)) (range Inl))
     \<and> (case ep_embedBatch p of None \<Rightarrow> True
        | Some eb \<Rightarrow> \<forall>ts w. fst (eb ts w) \<in> insert (Inr (map vec ts)) (range Inl))"

definition embedded_by :: "(jstext \<Rightarrow> jsnum list) \<Rightarrow> chunk list \<Rightarrow> embedded_chunk list \<Rightarrow> bool" where
  "embedded_by vec cs es \<longleftrightarrow> embeds cs es \<and> map denseVector es = map (\<lambda>c. vec (denseText c)) cs"

lemma withRetry_outcome:
  assumes "withRetry opts fn w = (r, w', ws)"
  shows "\<exists>v. r = fst (fn v)"
  by (rule withRetry_invariant [where P = "\<lambda>_. True" and Q = "\<lambda>r _. \<exists>v. r = fst (fn v)", OF _ _ _ assms])
    (auto intro: sym [OF fst_conv] simp: prod_eq_iff)

lemma embedChunk_ok:
  assumes "embedChunk clock em c w = (Inr e, w')"
  shows "embeds [c] [e] \<and> (provider_computes vec (provider em) \<longrightarrow> embedded_by vec [c] [e])"
proof -
  obtain r w1 ws where run: "withRetry (embed_retry (retryOptions em)) (ep_embed (provider em) (denseText c)) w
      = (r, w1, ws)" by (cases "withRetry (embed_retry (retryOptions em)) (ep_embed (provider em) (denseText c)) w")
  then obtain v where r: "r = Inr v" and e: "e = embed_with v (clock w1 0) c"
    using assms by (cases r) (auto simp: embedChunk_def)
  obtain u where u: "fst (ep_embed (provider em) (denseText c) u) = Inr v"
    using withRetry_outcome [OF run] r by auto
  have "v = vec (denseText c)" if "provider_computes vec (provider em)"
  proof -
    have "fst (ep_embed (provider em) (denseText c) u) \<in> insert (Inr (vec (denseText c))) (range Inl)"
      using that unfolding provider_computes_def by blast
    then show ?thesis unfolding u by auto
  qed
  then show ?thesis by (auto simp: e embedded_by_def)
qed

lemma embedded_by_append:
  "embedded_by vec cs es \<Longrightarrow> embedded_by vec ds fs \<Longrightarrow> embedded_by vec (cs @ ds) (es @ fs)"
  by (simp add: embedded_by_def)

lemma embed_each_ok:
  "embed_each clock em cs w = (Inr es, w') \<Longrightarrow>
   embeds cs es \<and> (provider_computes vec (provider em) \<longrightarrow> embedded_by vec cs es)"
proof (induction cs arbitrary: w es)
  case Nil
  then show ?case by (simp add: embedded_by_def)
next
  case (Cons c cs)
  obtain e w1 es1 where one: "embedChunk clock em c w = (Inr e, w1)"
    and rest: "embed_each clock em cs w1 = (Inr es1, w')" and es: "es = e # es1"
    using Cons.prems by (auto split: prod.splits sum.splits)
  show ?case
    using embeds_simps(2) [of "[c]" "[e]" cs es1] embedded_by_append [of vec "[c]" "[e]" cs es1]
      embedChunk_ok [OF one, of vec] Cons.IH [OF rest] by (auto simp: es)
qed

lemma with_vectors_ok:
  assumes "length vs = length cs"
  shows "embeds cs (with_vectors stamp vs cs)" "map denseVector (with_vectors stamp vs cs) = vs"
  using assms by (auto simp: embeds_def with_vectors_def comp_def map_nth intro: nth_equalityI)

lemma embedBatch_ok:
  assumes "embedBatch clock em cs w = (Inr es, w')"
  shows "embeds cs es \<and> (provider_computes vec (provider em) \<longrightarrow> embedded_by vec cs es)"
proof (cases "ep_embedBatch (provider em) = None \<or> cs = []")
  case True
  then have "embed_each clock em cs w = (Inr es, w')"
    using assms by (auto simp: embedBatch_def split: option.splits)
  then show ?thesis by (rule embed_each_ok)
next
  case False
  then obtain eb where eb: "ep_embedBatch (provider em) = Some eb" "cs \<noteq> []" by auto
  obtain r w1 ws where run: "withRetry (embed_retry (retryOptions em)) (eb (map denseText cs)) w = (r, w1, ws)"
    by (cases "withRetry (embed_retry (retryOptions em)) (eb (map denseText cs)) w")
  then obtain vs where r: "r = Inr vs" and len: "length vs = length cs"
    and es: "es = with_vectors (clock w1) vs cs"
    using assms eb by (cases r) (auto simp: embedBatch_def split: if_splits)
  obtain u where u: "fst (eb (map denseText cs) u) = Inr vs"
    using withRetry_outcome [OF run] r by auto
  have "vs = map (\<lambda>c. vec (denseText c)) cs" if "provider_computes vec (provider em)"
  proof -
    have "fst (eb (map denseText cs) u) \<in> insert (Inr (map vec (map denseText cs))) (range Inl)"
      using that eb(1) unfolding provider_computes_def by (simp del: map_map insert_iff)
    then show ?thesis unfolding u by (auto simp: comp_def)
  qed
  then show ?thesis using with_vectors_ok [OF len] by (auto simp: es embedded_by_def)
qed

lemma embed_batches_ok:
  "embed_batches clock em bs w = (Inr es, w') \<Longrightarrow>
   embeds (concat bs) es \<and> (provider_computes vec (provider em) \<longrightarrow> embedded_by vec (concat bs) es)"
proof (induction bs arbitrary: w es)
  case Nil
  then show ?case by (simp add: embedded_by_def)
next
  case (Cons b bs)
  obtain xs w1 ys where one: "embedBatch clock em b w = (Inr xs, w1)"
    and rest: "embed_batches clock em bs w1 = (Inr ys, w')" and es: "es = xs @ ys"
    using Cons.prems by (auto split: prod.splits sum.splits)
  show ?case using embedBatch_ok [OF one, of vec] Cons.IH [OF rest] by (auto simp: es embedded_by_append)
qed

lemma embedChunks_ok:
  assumes "embedChunks clock em cs w = (Inr es, w')"
  shows "embeds cs es \<and> (provider_computes vec (provider em) \<longrightarrow> embedded_by vec cs es)"
proof (cases "cs = []")
  case True
  then show ?thesis using assms by (simp add: embedChunks_def embedded_by_def)
next
  case False
  then have "embed_batches clock em (embed_batches_of em cs) w = (Inr es, w')"
    using assms by (simp add: embedChunks_def)
  from embed_batches_ok [OF this, of vec] show ?thesis by (simp add: embed_batches_of_def batchBySize_concat)
qed

lemma hash_has_row: "h \<in> denseTextHash ` set (getAll db) \<longleftrightarrow>
    (\<exists>r\<in>set (t_chunks db). dense_text_hash r = h \<and> dense_vector r \<noteq> None)"
  by (force simp: getAll_def rowsToEmbeddedChunks_def row_to_embedded_hash)

lemma full_hashes:
  "list_all (\<lambda>r. dense_vector r \<noteq> None) (t_chunks db) \<Longrightarrow>
   denseTextHash ` set (getAll db) = dense_text_hash ` set (t_chunks db)"
  by (rule set_eqI) (unfold hash_has_row list_all_iff, blast)

lemma insert_embedded_rows:
  assumes "list_all (\<lambda>r. dense_vector r \<noteq> None) (t_chunks db)"
  shows "list_all (\<lambda>r. dense_vector r \<noteq> None) (t_chunks (insert_embedded es db))
    \<and> denseTextHash ` set (getAll (insert_embedded es db))
        = denseTextHash ` set (getAll db) \<union> denseTextHash ` set es"
proof -
  have "list_all (\<lambda>r. dense_vector r \<noteq> None) t \<Longrightarrow>
      list_all (\<lambda>r. dense_vector r \<noteq> None) (fold (\<lambda>e. insert_or_ignore dense_text_hash (embedded_to_row e)) es t)
      \<and> dense_text_hash ` set (fold (\<lambda>e. insert_or_ignore dense_text_hash (embedded_to_row e)) es t)
          = dense_text_hash ` set t \<union> denseTextHash ` set es" for t
  proof (induction es arbitrary: t)
    case (Cons e es)
    have "list_all (\<lambda>r. dense_vector r \<noteq> None) (insert_or_ignore dense_text_hash (embedded_to_row e) t)"
      using Cons.prems by (auto simp: insert_or_ignore_def embedded_to_row_def)
    moreover have "dense_text_hash ` set (insert_or_ignore dense_text_hash (embedded_to_row e) t)
        = dense_text_hash ` set t \<union> {denseTextHash e}"
      by (auto simp: insert_or_ignore_def)
    ultimately show ?case using Cons.IH [of "insert_or_ignore dense_text_hash (embedded_to_row e) t"] by auto
  qed simp
  from this [OF assms] show ?thesis
    using assms full_hashes [of db] full_hashes [of "insert_embedded es db"] by (simp add: insert_embedded_def)
qed

text \<open>A provider that never fails.\<close>

definition provider_total :: "'w embedding_provider \<Rightarrow> bool" where
  "provider_total p \<longleftrightarrow>
     (\<forall>t w. \<not> isl (fst (ep_embed p t w)))
     \<and> (case ep_embedBatch p of None \<Rightarrow> True | Some eb \<Rightarrow> \<forall>ts w. \<not> isl (fst (eb ts w)))"

lemma withRetry_total:
  assumes "\<And>v. \<not> isl (fst (fn v))"
  obtains x w' ws where "withRetry opts fn w = (Inr x, w', ws)"
proof -
  obtain r w1 ws where run: "withRetry opts fn w = (r, w1, ws)" by (cases "withRetry opts fn w")
  obtain v where "r = fst (fn v)" using withRetry_outcome [OF run] ..
  then have "\<not> isl r" using assms [of v] by simp
  then show ?thesis using run that by (cases r) auto
qed

lemma embed_each_total:
  assumes "provider_total (provider em)"
  shows "\<not> isl (fst (embed_each clock em cs w))"
proof (induction cs arbitrary: w)
  case (Cons c cs)
  have "\<And>v. \<not> isl (fst (ep_embed (provider em) (denseText c) v))"
    using assms by (simp add: provider_total_def)
  then obtain x w1 ws where "withRetry (embed_retry (retryOptions em)) (ep_embed (provider em) (denseText c)) w
      = (Inr x, w1, ws)" by (rule withRetry_total)
  moreover obtain xs w2 where "embed_each clock em cs w1 = (Inr xs, w2)"
    using returnedE [OF Cons.IH [of w1]] by blast
  ultimately show ?case by (simp add: embedChunk_def)
qed simp

lemma embedBatch_total:
  assumes "provider_total (provider em)" and "provider_computes vec (provider em)"
  shows "\<not> isl (fst (embedBatch clock em cs w))"
proof (cases "ep_embedBatch (provider em) = None \<or> cs = []")
  case True
  then have "embedBatch clock em cs w = embed_each clock em cs w"
    by (auto simp: embedBatch_def split: option.splits)
  then show ?thesis using embed_each_total [OF assms(1)] by simp
next
  case False
  then obtain eb where eb: "ep_embedBatch (provider em) = Some eb" "cs \<noteq> []" by auto
  have "\<And>v. \<not> isl (fst (eb (map denseText cs) v))" using assms(1) eb(1) by (simp add: provider_total_def)
  then obtain vs w1 ws where run: "withRetry (embed_retry (retryOptions em)) (eb (map denseText cs)) w = (Inr vs, w1, ws)"
    by (rule withRetry_total)
  obtain u where u: "fst (eb (map denseText cs) u) = Inr vs" using withRetry_outcome [OF run] by auto
  have "fst (eb (map denseText cs) u) \<in> insert (Inr (map vec (map denseText cs))) (range Inl)"
    using assms(2) eb(1) unfolding provider_computes_def by (simp del: map_map insert_iff)
  then have "length vs = length cs" unfolding u by auto
  then show ?thesis using eb run by (simp add: embedBatch_def)
qed

lemma embed_batches_total:
  assumes "provider_total (provider em)" and "provider_computes vec (provider em)"
  shows "\<not> isl (fst (embed_batches clock em bs w))"
proof (induction bs arbitrary: w)
  case (Cons b bs)
  obtain r w1 where run: "embedBatch clock em b w = (r, w1)" by (cases "embedBatch clock em b w")
  obtain xs where "r = Inr xs" using embedBatch_total [OF assms, of clock b w] run by (cases r) auto
  moreover obtain ys w2 where "embed_batches clock em bs w1 = (Inr ys, w2)"
    using returnedE [OF Cons.IH [of w1]] by blast
  ultimately show ?case using run by simp
qed simp

subsection \<open>Properties\<close>

text \<open>C16. Batching is invisible: the embedded chunks are the given ones in the given order, each with
  the vector of its own text, whatever the batch size, the limit on characters, the retries, and
  whether the provider embeds texts one by one or many at a time; and if the provider always
  answers, so does \<open>embedChunks\<close>.\<close>

theorem embedChunks_batching_invisible:
  assumes "provider_computes vec (provider em)"
  shows "(\<forall>es w'. embedChunks clock em cs w = (Inr es, w') \<longrightarrow>
            map chunk.truncate es = cs \<and> map denseVector es = map (vec \<circ> denseText) cs)
    \<and> (provider_total (provider em) \<longrightarrow> \<not> isl (fst (embedChunks clock em cs w)))"
proof (intro conjI impI allI)
  fix es w'
  assume run: "embedChunks clock em cs w = (Inr es, w')"
  show "map chunk.truncate es = cs" "map denseVector es = map (vec \<circ> denseText) cs"
    using embedChunks_ok [OF run, of vec] assms by (auto simp: embedded_by_def embeds_def)
next
  assume "provider_total (provider em)"
  then show "\<not> isl (fst (embedChunks clock em cs w))"
    using embed_batches_total [OF _ assms] by (simp add: embedChunks_def)
qed

definition sample_provider :: "unit embedding_provider" where
  "sample_provider =
     \<lparr>ep_name = ''test'', ep_dimensions = 1, ep_model = Some ''m'',
      ep_embed = (\<lambda>t w. (Inr [Fin (of_nat (length t))], w)), ep_preferredBatchSize = Some 2,
      ep_embedBatch = Some (\<lambda>ts w. (Inr (map (\<lambda>t. [Fin (of_nat (length t))]) ts), w)), ep_preWarm = None\<rparr>"

definition sample_embedder :: "unit embedder" where
  "sample_embedder = new_embedder sample_provider
     \<lparr>o_rateLimitMs = None, o_batchSize = None, o_maxBatchChars = None, o_retry = None,
      o_concurrency = None, o_vectorStoreName = None, o_minIngestionBatchSize = None\<rparr>"

lemma sample_embedder_provider:
  "provider_computes (\<lambda>t. [Fin (of_nat (length t))]) (provider sample_embedder)"
  "provider_total (provider sample_embedder)"
  by (simp_all add: sample_embedder_def new_embedder_def sample_provider_def provider_computes_def
      provider_total_def)

lemma embedChunks_batching_invisible_witness:
  "\<not> isl (fst (embedChunks (\<lambda>_ _. 0) sample_embedder
       [sample_chunk ''h1'' ''a'', sample_chunk ''h2'' ''a'', sample_chunk ''h3'' ''b''] ()))"
  using embedChunks_batching_invisible [OF sample_embedder_provider(1)] sample_embedder_provider(2) by blast

lemma getAll_clearAll [simp]: "getAll (clearAll db) = []"
  by (simp add: getAll_def rowsToEmbeddedChunks_def clearAll_def)

definition new_space :: "'w embedder \<Rightarrow> virage_db \<Rightarrow> bool \<Rightarrow> bool" where
  "new_space em db force \<longleftrightarrow>
     force \<or> (case getMeta db of None \<Rightarrow> False | Some m \<Rightarrow> meta_mismatch em m)"

lemma getChunksToEmbed_cases:
  "getChunksToEmbed em db chunks force =
     (if new_space em db force then ((chunks, None, True), clearAll db)
      else ((select_chunks db chunks, getMeta db, False), db))"
  by (simp add: getChunksToEmbed_def new_space_def split: option.splits)

text \<open>The two-level index over file versions and hashes selects exactly the chunks whose hash has
  no embedding yet, each as often as it occurs; a forced run, or a model or dimensions other than the
  recorded ones, empties the database first and selects everything.\<close>

theorem getChunksToEmbed_selects_missing:
  "case getChunksToEmbed em db chunks force of
     ((selected, m, fresh), db') \<Rightarrow>
       fresh = new_space em db force
       \<and> db' = (if fresh then clearAll db else db)
       \<and> m = (if fresh then None else getMeta db)
       \<and> mset selected = mset (filter (\<lambda>c. denseTextHash c \<notin> denseTextHash ` set (getAll db')) chunks)"
  by (auto simp: getChunksToEmbed_cases select_chunks_mset split: option.splits)

lemma getMeta_saveEmbeddings [simp]: "getMeta (saveEmbeddings es m db) = Some m"
  by (simp add: saveEmbeddings_def insert_embedded_def setMeta_def getMeta_def get_insert_or_replace)

lemma saveEmbeddings_rows:
  assumes "list_all (\<lambda>r. dense_vector r \<noteq> None) (t_chunks db)"
  shows "list_all (\<lambda>r. dense_vector r \<noteq> None) (t_chunks (saveEmbeddings es m db))
    \<and> denseTextHash ` set (getAll (saveEmbeddings es m db))
        = denseTextHash ` set (getAll db) \<union> denseTextHash ` set es"
proof -
  have "t_chunks (setMeta m db) = t_chunks db" "getAll (setMeta m db) = getAll db"
    by (simp_all add: setMeta_def getAll_def rowsToEmbeddedChunks_def)
  then show ?thesis using insert_embedded_rows [of "setMeta m db" es] assms by (simp add: saveEmbeddings_def)
qed

lemma run_batches_spec:
  assumes "list_all (\<lambda>r. dense_vector r \<noteq> None) (t_chunks db)"
    and "run_batches clock em m None bs (db, w) = (r, db', w')"
  shows "list_all (\<lambda>r. dense_vector r \<noteq> None) (t_chunks db')
    \<and> (\<exists>k. denseTextHash ` set (getAll db')
             = denseTextHash ` set (getAll db) \<union> denseTextHash ` set (concat (take k bs))
         \<and> getMeta db' = (if k = 0 then getMeta db else Some m)
         \<and> (\<forall>es. r = Inr es \<longrightarrow> k = length bs \<and> embeds (concat bs) es))"
  using assms
proof (induction bs arbitrary: db w r)
  case Nil
  then show ?case by (intro conjI exI [of _ 0]) auto
next
  case (Cons b bs)
  obtain r1 w1 where one: "embedBatch clock em b w = (r1, w1)" by (cases "embedBatch clock em b w")
  show ?case
  proof (cases r1)
    case (Inl e)
    then show ?thesis using Cons.prems one by (intro conjI exI [of _ 0]) auto
  next
    case (Inr xs)
    define db1 where "db1 = saveEmbeddings xs m db"
    obtain r2 where rest: "run_batches clock em m None bs (db1, w1) = (r2, db', w')"
      and r: "r = (case r2 of Inl e \<Rightarrow> Inl e | Inr ys \<Rightarrow> Inr (xs @ ys))"
      using Cons.prems(2) one Inr
      by (cases "run_batches clock em m None bs (db1, w1)") (auto simp: db1_def split: sum.splits)
    have xs: "embeds b xs" using embedBatch_ok [of clock em b w xs w1 undefined] one Inr by simp
    have rows: "list_all (\<lambda>r. dense_vector r \<noteq> None) (t_chunks db1)"
      and hs: "denseTextHash ` set (getAll db1) = denseTextHash ` set (getAll db) \<union> denseTextHash ` set b"
      using saveEmbeddings_rows [OF Cons.prems(1), of xs m] arg_cong [OF embeds_map(1) [OF xs], of set]
      by (simp_all add: db1_def)
    have IH1: "list_all (\<lambda>r. dense_vector r \<noteq> None) (t_chunks db')" using Cons.IH [OF rows rest] by blast
    obtain k where k: "denseTextHash ` set (getAll db')
          = denseTextHash ` set (getAll db1) \<union> denseTextHash ` set (concat (take k bs))"
        "getMeta db' = (if k = 0 then getMeta db1 else Some m)"
        "\<forall>es. r2 = Inr es \<longrightarrow> k = length bs \<and> embeds (concat bs) es"
      using Cons.IH [OF rows rest] by blast
    have "denseTextHash ` set (getAll db')
        = denseTextHash ` set (getAll db) \<union> denseTextHash ` set (concat (take (Suc k) (b # bs)))"
      unfolding k(1) hs by (simp add: image_Un Un_assoc)
    moreover have "getMeta db' = Some m" using k(2) by (simp add: db1_def)
    moreover have "Suc k = length (b # bs) \<and> embeds (concat (b # bs)) es" if "r = Inr es" for es
      using that r k(3) xs by (cases r2) auto
    ultimately show ?thesis using IH1 by (intro conjI exI [of _ "Suc k"]) auto
  qed
qed

lemma not_meta_mismatch_run_meta [simp]: "\<not> meta_mismatch em (run_meta em old now)"
  by (simp add: meta_mismatch_def run_meta_def)


lemma run_embedder_total:
  assumes "provider_total (provider em)" and "provider_computes vec (provider em)"
  shows "\<not> isl (fst (run_embedder clock em (Some chunks) force None now (db, w)))"
proof -
  have "\<not> isl (fst (run_batches clock em m None bs st0))" for m bs st0
  proof (induction bs arbitrary: st0)
    case (Cons b bs)
    obtain xs w1 where one: "embedBatch clock em b (snd st0) = (Inr xs, w1)"
      using returnedE [OF embedBatch_total [OF assms, of clock b "snd st0"]] by blast
    obtain ys st2 where "run_batches clock em m None bs (saveEmbeddings xs m (fst st0), w1) = (Inr ys, st2)"
      using returnedE [OF Cons.IH [of "(saveEmbeddings xs m (fst st0), w1)"]] by blast
    then show ?case using one by simp
  qed simp
  then show ?thesis by (simp add: run_embedder_def split: prod.split)
qed


end
