(* ===== verification/Orchestrator.thy ===== *)
theory Orchestrator
  imports Tracking ChunkProcessor Embedder Uploader
begin

section \<open>The pipeline\<close>

text \<open>
  \<open>Orchestrator.run\<close> of \<open>src/packages/virage-core/src/core/orchestrator.ts\<close>: detect changes
  against the vector store, chunk the changed files, embed what the store lacks, upload, and remove
  what is stale. The state is the staging database, the store (\<open>'s\<close>) and the outside world of
  the embedding provider (\<open>'w\<close>).

  Files are chunked concurrently, but what touches the state is the promise chain \<open>embedChain\<close>,
  whose links run one after another in the order in which the chunking tasks pass the semaphore;
  that order is the parameter \<open>schedule\<close> of the environment. After the first error the remaining
  links do nothing, and \<open>run\<close> throws it. \<open>None\<close> is a run that does not return, which
  batch sizes of 0 cause. Progress callbacks, logging, the web hook and the telemetry summary do
  not touch the state and are left out.
\<close>

record ('s, 'w) pipeline_env =
  env_provider :: "'w embedding_provider"
  env_store :: "'s vector_store"
  env_sha :: "jstext \<Rightarrow> string"
  env_matcher :: matcher
  env_runner :: chunk_runner
  env_clock :: "'w \<Rightarrow> nat \<Rightarrow> rat"
  env_cwd :: string
  env_pick :: "string list \<Rightarrow> string"
  schedule :: "string list \<Rightarrow> string list"

record pipeline_options =
  opt_force :: bool
  skipUpload :: bool
  dryRun :: bool
  opt_rateLimitMs :: "nat option"
  opt_batchSize :: "nat option"
  opt_maxBatchChars :: "nat option"
  opt_retry :: "retry_options option"
  opt_concurrency :: "nat option"
  minEmbeddingBatchSize :: "nat option"
  minUploadingBatchSize :: "nat option"
  opt_minIngestionBatchSize :: "nat option"

definition minEmbedBatch :: "pipeline_options \<Rightarrow> nat" where
  "minEmbedBatch opts = nullish (minEmbeddingBatchSize opts) 10"

definition minUploadBatch :: "pipeline_options \<Rightarrow> nat" where
  "minUploadBatch opts =
     nullish (minUploadingBatchSize opts) (nullish (opt_minIngestionBatchSize opts) 20)"

definition uploader_retry :: "pipeline_options \<Rightarrow> retry_options" where
  "uploader_retry opts = nullish (opt_retry opts) no_retry_options"

definition pipeline_embedder ::
  "('s, 'w) pipeline_env \<Rightarrow> pipeline_options \<Rightarrow> 'w embedder" where
  "pipeline_embedder env opts = new_embedder (env_provider env)
     \<lparr>o_rateLimitMs = opt_rateLimitMs opts, o_batchSize = opt_batchSize opts,
      o_maxBatchChars = opt_maxBatchChars opts, o_retry = opt_retry opts,
      o_concurrency = opt_concurrency opts, o_vectorStoreName = Some (storeName (env_store env)),
      o_minIngestionBatchSize = None\<rparr>"

subsection \<open>Planning\<close>

definition embedding_changed :: "'w embedding_provider \<Rightarrow> embeddings_meta \<Rightarrow> bool" where
  "embedding_changed p m \<longleftrightarrow>
     (metaModel m \<noteq> None \<and> ep_model p \<noteq> None \<and> metaModel m \<noteq> ep_model p)
     \<or> (providerDimensions m \<noteq> None \<and> providerDimensions m \<noteq> Some (ep_dimensions p))"

text \<open>The database and the force flag after the check of the recorded model.\<close>

definition check_model :: "'w embedding_provider \<Rightarrow> bool \<Rightarrow> virage_db \<Rightarrow> bool \<times> virage_db" where
  "check_model p force db =
     (case getMeta db of
        Some m \<Rightarrow> if \<not> force \<and> embedding_changed p m then (True, clearAll db) else (force, db)
      | None \<Rightarrow> (force, db))"

definition normalize_key :: "string \<Rightarrow> string \<Rightarrow> string" where
  "normalize_key cwd k =
     (let p = to_posix k in if starts_with (cwd @ ''/'') p then drop (length cwd + 1) p else p)"

definition normalize_keys :: "string \<Rightarrow> (string \<times> string) list \<Rightarrow> (string \<times> string) list" where
  "normalize_keys cwd m = map_set_all (map (\<lambda>(k, v). (normalize_key cwd k, v)) m) []"

definition previous_state ::
  "string \<Rightarrow> bool \<Rightarrow> virage_db \<Rightarrow> (string \<times> string) list \<Rightarrow> (string \<times> string) list" where
  "previous_state cwd effectiveForce db rawVectorStoreState =
     (if effectiveForce then []
      else map_set_all (normalize_keys cwd (getFileRevisions db)
                        @ normalize_keys cwd rawVectorStoreState) [])"

record run_plan =
  changes :: changed_files
  resumeEmbed :: "chunk list"
  resumeUpload :: "embedded_chunk list"

definition make_plan ::
  "string \<Rightarrow> bool \<Rightarrow> (string \<times> file_state) list \<Rightarrow> virage_db \<Rightarrow> (string \<times> string) list \<Rightarrow> run_plan" where
  "make_plan cwd effectiveForce currentState db raw =
     (let ch = getChangedFiles (previous_state cwd effectiveForce db raw) currentState;
          skipSet = set (toProcess ch @ toDelete ch)
      in \<lparr>changes = ch,
          resumeEmbed = filter (\<lambda>c. sourceFile c \<notin> skipSet) (getPendingEmbedChunks db),
          resumeUpload = filter (\<lambda>c. sourceFile c \<notin> skipSet) (getPendingUploadChunks db)\<rparr>)"

definition nothing_to_do :: "bool \<Rightarrow> run_plan \<Rightarrow> bool" where
  "nothing_to_do effectiveForce plan \<longleftrightarrow>
     length (toProcess (changes plan)) = 0 \<and> length (toDelete (changes plan)) = 0
     \<and> length (resumeEmbed plan) = 0 \<and> length (resumeUpload plan) = 0 \<and> \<not> effectiveForce"

text \<open>At least half of the current files, and at least ten, would be deleted.\<close>

definition refuses_deletion ::
  "pipeline_options \<Rightarrow> bool \<Rightarrow> (string \<times> file_state) list \<Rightarrow> run_plan \<Rightarrow> bool" where
  "refuses_deletion opts effectiveForce currentState plan \<longleftrightarrow>
     length (toDelete (changes plan)) \<ge> 10 \<and> \<not> effectiveForce \<and> \<not> dryRun opts
     \<and> (if length currentState > 0
        then 2 * length (toDelete (changes plan)) \<ge> length currentState else True)"

subsection \<open>The streaming loops\<close>

record ('s, 'w) pipe =
  p_db :: virage_db
  p_store :: 's
  p_world :: 'w
  pendingEmbed :: "chunk list"
  pendingUpload :: "embedded_chunk list"
  fileNewHashes :: "(string \<times> string list) list"
  uploadedCount :: nat
  chunksEmbedded :: nat
  chunksGenerated :: nat
  totalSkipped :: nat
  totalChunkBytes :: nat
  totalEmbedBytes :: nat

partial_function (option) flushUpload_loop ::
  "'s vector_store \<Rightarrow> retry_options \<Rightarrow> nat \<Rightarrow> nat \<Rightarrow> ('s, 'w) pipe \<Rightarrow> (unit result \<times> ('s, 'w) pipe) option" where
  "flushUpload_loop st retry threshold limit p =
     (if length (pendingUpload p) \<ge> threshold
      then (case upsertBatch st retry (take limit (pendingUpload p)) (p_db p, p_store p) of
              (r, db', s') \<Rightarrow>
                (if isl r
                 then Some (r, p\<lparr>pendingUpload := drop limit (pendingUpload p), p_db := db', p_store := s'\<rparr>)
                 else flushUpload_loop st retry threshold limit
                        (p\<lparr>pendingUpload := drop limit (pendingUpload p), p_db := db', p_store := s',
                           uploadedCount := uploadedCount p + length (take limit (pendingUpload p))\<rparr>)))
      else Some (Inr (), p))"

definition flushUpload ::
  "('s, 'w) pipeline_env \<Rightarrow> pipeline_options \<Rightarrow> bool \<Rightarrow> ('s, 'w) pipe \<Rightarrow> (unit result \<times> ('s, 'w) pipe) option" where
  "flushUpload env opts all p =
     (if skipUpload opts \<or> dryRun opts then Some (Inr (), p)
      else flushUpload_loop (env_store env) (uploader_retry opts)
             (if all then 1 else minUploadBatch opts)
             (if all then length (pendingUpload p) else minUploadBatch opts) p)"

text \<open>Store the vectors of a batch, then the metadata, then queue the batch for upload.\<close>

definition record_embedded ::
  "embeddings_meta \<Rightarrow> int \<Rightarrow> embedded_chunk list \<Rightarrow> virage_db \<Rightarrow> virage_db" where
  "record_embedded m now embedded db =
     setMeta m (fold (\<lambda>c. updateDenseVector (denseTextHash c) (denseVector c) (of_int now))
                  embedded db)"

partial_function (option) flushEmbed_loop ::
  "('s, 'w) pipeline_env \<Rightarrow> pipeline_options \<Rightarrow> embeddings_meta \<Rightarrow> nat \<Rightarrow> nat \<Rightarrow> ('s, 'w) pipe
   \<Rightarrow> (unit result \<times> ('s, 'w) pipe) option" where
  "flushEmbed_loop env opts m threshold limit p =
     (if length (pendingEmbed p) \<ge> threshold
      then (case embedChunks (env_clock env) (pipeline_embedder env opts)
                   (take limit (pendingEmbed p)) (p_world p) of
              (r, w') \<Rightarrow>
                (case r of
                   Inl e \<Rightarrow> Some (Inl e, p\<lparr>pendingEmbed := drop limit (pendingEmbed p), p_world := w'\<rparr>)
                 | Inr embedded \<Rightarrow>
                     Option.bind
                       (flushUpload env opts False
                          (p\<lparr>pendingEmbed := drop limit (pendingEmbed p), p_world := w',
                             p_db := record_embedded m \<lfloor>env_clock env w' 0\<rfloor> embedded (p_db p),
                             pendingUpload := pendingUpload p @ embedded,
                             chunksEmbedded := chunksEmbedded p
                               + length (take limit (pendingEmbed p))\<rparr>))
                       (\<lambda>(r', p'). if isl r' then Some (r', p')
                                   else flushEmbed_loop env opts m threshold limit p')))
      else Some (Inr (), p))"

definition flushEmbed ::
  "('s, 'w) pipeline_env \<Rightarrow> pipeline_options \<Rightarrow> embeddings_meta \<Rightarrow> bool \<Rightarrow> ('s, 'w) pipe
   \<Rightarrow> (unit result \<times> ('s, 'w) pipe) option" where
  "flushEmbed env opts m all p =
     flushEmbed_loop env opts m (if all then 1 else minEmbedBatch opts)
       (if all then length (pendingEmbed p) else minEmbedBatch opts) p"

subsection \<open>A link of the chain: one file\<close>

fun check_slices ::
  "(string list \<Rightarrow> 's \<Rightarrow> string list result \<times> 's) \<Rightarrow> string list list \<Rightarrow> 's \<Rightarrow> string list result \<times> 's" where
  "check_slices ex [] s = (Inr [], s)"
| "check_slices ex (b # bs) s =
     (case ex b s of
        (Inl e, s') \<Rightarrow> (Inl e, s')
      | (Inr found, s') \<Rightarrow>
          (case check_slices ex bs s' of
             (Inl e, s'') \<Rightarrow> (Inl e, s'')
           | (Inr rest, s'') \<Rightarrow> (Inr (found @ rest), s'')))"

text \<open>The hashes not to embed again: what the store has, or what the database has embedded.\<close>

definition existing_set ::
  "('s, 'w) pipeline_env \<Rightarrow> pipeline_options \<Rightarrow> bool \<Rightarrow> string \<Rightarrow> string list \<Rightarrow> virage_db \<Rightarrow> 's
   \<Rightarrow> (string list result \<times> 's) option" where
  "existing_set env opts effectiveForce f hashes db s =
     (if effectiveForce then Some (Inr [], s)
      else (case st_existingHashes (env_store env) of
              Some ex \<Rightarrow> map_option (\<lambda>slices. check_slices ex slices s)
                            (batchArray hashes (minEmbedBatch opts * 2))
            | None \<Rightarrow> Some (Inr (getEmbeddedDenseTextHashes f db), s)))"

definition text_bytes :: "chunk list \<Rightarrow> nat" where
  "text_bytes cs = sum_list (map (\<lambda>c. length (denseText c)) cs)"

definition stage_file ::
  "bool \<Rightarrow> string \<Rightarrow> string option \<Rightarrow> chunk list \<Rightarrow> ('s, 'w) pipe \<Rightarrow> ('s, 'w) pipe" where
  "stage_file hasOrphanCleanup f revision cs p =
     p\<lparr>totalChunkBytes := totalChunkBytes p + text_bytes cs,
       p_db := replaceChunks f cs revision (p_db p),
       fileNewHashes := (if hasOrphanCleanup then AList.update f (map denseTextHash cs) (fileNewHashes p)
                         else fileNewHashes p)\<rparr>"

definition queue_chunks :: "chunk list \<Rightarrow> chunk list \<Rightarrow> ('s, 'w) pipe \<Rightarrow> ('s, 'w) pipe" where
  "queue_chunks cs chunksToEmbed p =
     p\<lparr>totalSkipped := totalSkipped p + (length cs - length chunksToEmbed),
       totalEmbedBytes := totalEmbedBytes p + text_bytes chunksToEmbed,
       pendingEmbed := pendingEmbed p @ chunksToEmbed,
       chunksGenerated := chunksGenerated p + length chunksToEmbed\<rparr>"

definition chain_link ::
  "('s, 'w) pipeline_env \<Rightarrow> pipeline_options \<Rightarrow> bool \<Rightarrow> embeddings_meta \<Rightarrow> string \<Rightarrow> string option \<Rightarrow> chunk list
   \<Rightarrow> ('s, 'w) pipe \<Rightarrow> (unit result \<times> ('s, 'w) pipe) option" where
  "chain_link env opts effectiveForce m f revision cs p =
     (let p1 = stage_file (st_deleteOrphanedChunks (env_store env) \<noteq> None) f revision cs p
      in Option.bind (existing_set env opts effectiveForce f (map denseTextHash cs) (p_db p1) (p_store p1))
           (\<lambda>(r, s').
             case r of
               Inl e \<Rightarrow> Some (Inl e, p1\<lparr>p_store := s'\<rparr>)
             | Inr existing \<Rightarrow>
                 flushEmbed env opts m False
                   (queue_chunks cs (filter (\<lambda>c. denseTextHash c \<notin> set existing) cs) (p1\<lparr>p_store := s'\<rparr>))))"

text \<open>The chunks of a file, without the legacy field, and the revision they are made from.\<close>

definition chunks_of_file ::
  "('s, 'w) pipeline_env \<Rightarrow> (string \<times> file_state) list \<Rightarrow> string \<Rightarrow> chunk list" where
  "chunks_of_file env currentState f =
     (case map_of currentState f of
        None \<Rightarrow> []
      | Some info \<Rightarrow> map chunk.truncate
          (processEntries (env_sha env) (env_matcher env) (env_runner env) f (fs_commitHash info) (fs_entries info)))"

fun chain ::
  "('s, 'w) pipeline_env \<Rightarrow> pipeline_options \<Rightarrow> bool \<Rightarrow> embeddings_meta \<Rightarrow> (string \<times> file_state) list
   \<Rightarrow> string list \<Rightarrow> ('s, 'w) pipe \<Rightarrow> (unit result \<times> ('s, 'w) pipe) option" where
  "chain env opts effectiveForce m currentState [] p = Some (Inr (), p)"
| "chain env opts effectiveForce m currentState (f # fs) p =
     Option.bind
       (chain_link env opts effectiveForce m f (map_option fs_commitHash (map_of currentState f))
          (chunks_of_file env currentState f) p)
       (\<lambda>(r, p'). if isl r then Some (r, p') else chain env opts effectiveForce m currentState fs p')"

subsection \<open>The run\<close>

fun clean_orphans ::
  "(string \<Rightarrow> string list \<Rightarrow> 's \<Rightarrow> unit result \<times> 's) \<Rightarrow> (string \<times> string list) list \<Rightarrow> 's \<Rightarrow> unit result \<times> 's" where
  "clean_orphans dl [] s = (Inr (), s)"
| "clean_orphans dl ((f, hashes) # rest) s =
     (case dl f hashes s of
        (Inl e, s') \<Rightarrow> (Inl e, s')
      | (Inr _, s') \<Rightarrow> clean_orphans dl rest s')"

definition pipeline_meta ::
  "('s, 'w) pipeline_env \<Rightarrow> embeddings_meta option \<Rightarrow> int \<Rightarrow> embeddings_meta" where
  "pipeline_meta env existingMeta now =
     \<lparr>schemaVersion = 1, providerName = ep_name (env_provider env),
      providerDimensions = Some (ep_dimensions (env_provider env)), metaModel = ep_model (env_provider env),
      vectorStoreName = Some (storeName (env_store env)),
      createdAt = (case existingMeta of None \<Rightarrow> now | Some m \<Rightarrow> createdAt m), updatedAt = now\<rparr>"

text \<open>Delete what is stale before anything new is produced.\<close>

definition prepare ::
  "('s, 'w) pipeline_env \<Rightarrow> pipeline_options \<Rightarrow> bool \<Rightarrow> run_plan \<Rightarrow> virage_db \<Rightarrow> 's \<Rightarrow> unit result \<times> 's" where
  "prepare env opts effectiveForce plan db s =
     (if \<not> skipUpload opts \<and> \<not> dryRun opts
      then prepareUpdate (env_store env) (uploader_retry opts) (env_pick env) db (toDelete (changes plan))
             (if st_deleteOrphanedChunks (env_store env) \<noteq> None then [] else toProcess (changes plan))
             effectiveForce s
      else (Inr (), s))"

definition start_pipe :: "run_plan \<Rightarrow> virage_db \<Rightarrow> 's \<Rightarrow> 'w \<Rightarrow> ('s, 'w) pipe" where
  "start_pipe plan db s w =
     \<lparr>p_db = db, p_store = s, p_world = w, pendingEmbed = resumeEmbed plan,
      pendingUpload = resumeUpload plan, fileNewHashes = [], uploadedCount = 0, chunksEmbedded = 0,
      chunksGenerated = 0, totalSkipped = 0, totalChunkBytes = 0, totalEmbedBytes = 0\<rparr>"

text \<open>All files through the chain, then what is left in the queues.\<close>

definition stream ::
  "('s, 'w) pipeline_env \<Rightarrow> pipeline_options \<Rightarrow> bool \<Rightarrow> embeddings_meta \<Rightarrow> (string \<times> file_state) list
   \<Rightarrow> string list \<Rightarrow> ('s, 'w) pipe \<Rightarrow> (unit result \<times> ('s, 'w) pipe) option" where
  "stream env opts effectiveForce m currentState files p =
     Option.bind (chain env opts effectiveForce m currentState (schedule env files) p) (\<lambda>(r1, p1).
       if isl r1 then Some (r1, p1)
       else Option.bind (flushEmbed env opts m True p1) (\<lambda>(r2, p2).
         if isl r2 then Some (r2, p2) else flushUpload env opts True p2))"

text \<open>Orphans and the metadata of the store.\<close>

definition finish ::
  "('s, 'w) pipeline_env \<Rightarrow> pipeline_options \<Rightarrow> bool \<Rightarrow> ('s, 'w) pipe \<Rightarrow> unit result \<times> 's" where
  "finish env opts effectiveForce p =
     (if \<not> skipUpload opts \<and> \<not> dryRun opts
      then (case (case st_deleteOrphanedChunks (env_store env) of
                    Some dl \<Rightarrow> if \<not> effectiveForce then clean_orphans dl (fileNewHashes p) (p_store p)
                               else (Inr (), p_store p)
                  | None \<Rightarrow> (Inr (), p_store p)) of
              (Inl e, s1) \<Rightarrow> (Inl e, s1)
            | (Inr _, s1) \<Rightarrow>
                (case st_writeMeta (env_store env) of
                   None \<Rightarrow> (Inr (), s1)
                 | Some wm \<Rightarrow> wm \<lparr>vm_providerName = ep_name (env_provider env),
                       vm_model = ep_model (env_provider env),
                       vm_dimensions = ep_dimensions (env_provider env),
                       vm_distanceMetric = Some ''cosine'',
                       vm_createdAt = \<lfloor>env_clock env (p_world p) 0\<rfloor>\<rparr> s1))
      else (Inr (), p_store p))"

definition preWarm :: "'w embedding_provider \<Rightarrow> 'w \<Rightarrow> unit result \<times> 'w" where
  "preWarm p w = (case ep_preWarm p of None \<Rightarrow> (Inr (), w) | Some pw \<Rightarrow> pw w)"

definition conclude ::
  "('s, 'w) pipeline_env \<Rightarrow> pipeline_options \<Rightarrow> bool \<Rightarrow> run_plan \<Rightarrow> unit result \<times> ('s, 'w) pipe
   \<Rightarrow> (nat \<times> nat) result \<times> virage_db \<times> 's \<times> 'w" where
  "conclude env opts effectiveForce plan = (\<lambda>(r, p).
     case r of
       Inl e \<Rightarrow> (Inl e, p_db p, p_store p, p_world p)
     | Inr _ \<Rightarrow>
         (case finish env opts effectiveForce p of
            (Inl e, s2) \<Rightarrow> (Inl e, p_db p, s2, p_world p)
          | (Inr _, s2) \<Rightarrow>
              (Inr (length (toProcess (changes plan)), length (toDelete (changes plan))),
               p_db p, s2, p_world p)))"

definition execute_plan ::
  "('s, 'w) pipeline_env \<Rightarrow> pipeline_options \<Rightarrow> bool \<Rightarrow> (string \<times> file_state) list \<Rightarrow> embeddings_meta option
   \<Rightarrow> run_plan \<Rightarrow> virage_db \<Rightarrow> 's \<Rightarrow> 'w \<Rightarrow> ((nat \<times> nat) result \<times> virage_db \<times> 's \<times> 'w) option" where
  "execute_plan env opts effectiveForce currentState existingMeta plan db s w =
     (case prepare env opts effectiveForce plan db s of
        (Inl e, s1) \<Rightarrow> Some (Inl e, db, s1, w)
      | (Inr _, s1) \<Rightarrow>
          (let db1 = fold deleteBySourceFile (toDelete (changes plan)) db
           in case preWarm (env_provider env) w of
                (Inl e, w1) \<Rightarrow> Some (Inl e, db1, s1, w1)
              | (Inr _, w1) \<Rightarrow>
                  map_option (conclude env opts effectiveForce plan)
                    (stream env opts effectiveForce
                       (pipeline_meta env existingMeta \<lfloor>env_clock env w1 0\<rfloor>) currentState
                       (toProcess (changes plan)) (start_pipe plan db1 s1 w1))))"

definition run ::
  "('s, 'w) pipeline_env \<Rightarrow> pipeline_options \<Rightarrow> (string \<times> file_state) list \<Rightarrow> virage_db \<Rightarrow> 's \<Rightarrow> 'w
   \<Rightarrow> ((nat \<times> nat) result \<times> virage_db \<times> 's \<times> 'w) option" where
  "run env opts currentState db s w =
     (let (effectiveForce, db1) = check_model (env_provider env) (opt_force opts) db
      in case st_initialize (env_store env) s of
           (Inl e, s1) \<Rightarrow> Some (Inl e, db1, s1, w)
         | (Inr _, s1) \<Rightarrow>
             (case st_getCurrentState (env_store env) s1 of
                (Inl e, s2) \<Rightarrow> Some (Inl e, db1, s2, w)
              | (Inr raw, s2) \<Rightarrow>
                  (let plan = make_plan (env_cwd env) effectiveForce currentState db1 raw
                   in if nothing_to_do effectiveForce plan then Some (Inr (0, 0), db1, s2, w)
                      else if refuses_deletion opts effectiveForce currentState plan
                      then Some (Inl (Err RagError ''Refusing to delete indexed source files without --force''),
                                 db1, s2, w)
                      else execute_plan env opts effectiveForce currentState (getMeta db) plan db1 s2 w)))"

subsection \<open>Rules for the loops\<close>

text \<open>
  A predicate \<open>S b\<close> of the state, where \<open>b\<close> says that nothing has failed so far, is carried
  through a loop by its body; with batch sizes above 0 the loops return.
\<close>

lemma flushUpload_loop_rule:
  assumes pos: "0 < threshold" "0 < limit"
    and step: "\<And>q r db' s' n. S True q \<Longrightarrow>
      upsertBatch st retry (take limit (pendingUpload q)) (p_db q, p_store q) = (r, db', s') \<Longrightarrow>
      S (\<not> isl r) (q\<lparr>pendingUpload := drop limit (pendingUpload q), p_db := db', p_store := s',
                     uploadedCount := n\<rparr>)"
  shows "S True p \<Longrightarrow> \<exists>r p'. flushUpload_loop st retry threshold limit p = Some (r, p') \<and> S (\<not> isl r) p'
    \<and> (\<not> isl r \<longrightarrow> length (pendingUpload p') < threshold)"
proof (induction "length (pendingUpload p)" arbitrary: p rule: less_induct)
  case less
  show ?case
  proof (cases "threshold \<le> length (pendingUpload p)")
    case False
    then show ?thesis using less.prems by (simp add: flushUpload_loop.simps)
  next
    case True
    obtain r db' s' where run: "upsertBatch st retry (take limit (pendingUpload p)) (p_db p, p_store p) = (r, db', s')"
      by (cases "upsertBatch st retry (take limit (pendingUpload p)) (p_db p, p_store p)") auto
    show ?thesis
    proof (cases "isl r")
      case fail: True
      have "p\<lparr>pendingUpload := drop limit (pendingUpload p), p_db := db', p_store := s'\<rparr>
          = p\<lparr>pendingUpload := drop limit (pendingUpload p), p_db := db', p_store := s',
              uploadedCount := uploadedCount p\<rparr>" by (cases p) simp
      then show ?thesis using step [OF less.prems run, of "uploadedCount p"] fail run True
        by (subst flushUpload_loop.simps) simp
    next
      case ok: False
      let ?q = "p\<lparr>pendingUpload := drop limit (pendingUpload p), p_db := db', p_store := s',
          uploadedCount := uploadedCount p + length (take limit (pendingUpload p))\<rparr>"
      have "length (pendingUpload ?q) < length (pendingUpload p)" using True pos by simp
      moreover have "S True ?q" using step [OF less.prems run] ok by simp
      moreover have "flushUpload_loop st retry threshold limit p = flushUpload_loop st retry threshold limit ?q"
        using True run ok by (subst flushUpload_loop.simps) simp
      ultimately show ?thesis using less.hyps [of ?q] by simp
    qed
  qed
qed

lemma flushUpload_rule:
  assumes "0 < minUploadBatch opts" and "S True p"
    and step: "\<And>limit q r db' s' n. S True q \<Longrightarrow>
      upsertBatch (env_store env) (uploader_retry opts) (take limit (pendingUpload q)) (p_db q, p_store q)
        = (r, db', s') \<Longrightarrow>
      S (\<not> isl r) (q\<lparr>pendingUpload := drop limit (pendingUpload q), p_db := db', p_store := s',
                     uploadedCount := n\<rparr>)"
  obtains r p' where "flushUpload env opts all p = Some (r, p')" "S (\<not> isl r) p'"
    "\<not> isl r \<Longrightarrow> all \<Longrightarrow> \<not> skipUpload opts \<Longrightarrow> \<not> dryRun opts \<Longrightarrow> pendingUpload p' = []"
proof (cases "skipUpload opts \<or> dryRun opts")
  case True
  then show ?thesis using assms(2) that [of "Inr ()" p] by (auto simp: flushUpload_def)
next
  case act: False
  show ?thesis
  proof (cases "all \<and> pendingUpload p = []")
    case True
    then have "flushUpload env opts all p = Some (Inr (), p)"
      using act by (simp add: flushUpload_def flushUpload_loop.simps)
    then show ?thesis using assms(2) True that by simp
  next
    case False
    let ?t = "if all then 1 else minUploadBatch opts"
    let ?l = "if all then length (pendingUpload p) else minUploadBatch opts"
    have pos: "0 < ?t" "0 < ?l" using assms(1) False by auto
    obtain r p' where up: "flushUpload_loop (env_store env) (uploader_retry opts) ?t ?l p = Some (r, p')"
      "S (\<not> isl r) p'" "\<not> isl r \<longrightarrow> length (pendingUpload p') < ?t"
      using flushUpload_loop_rule [OF pos, where S = S, OF step assms(2)] by blast
    show ?thesis
    proof (rule that)
      show "flushUpload env opts all p = Some (r, p')" using up(1) act by (simp add: flushUpload_def)
      show "S (\<not> isl r) p'" by (rule up(2))
      show "pendingUpload p' = []" if "\<not> isl r" "all" using up(3) that by simp
    qed
  qed
qed

lemma flushEmbed_loop_rule:
  assumes pos: "0 < threshold" "0 < limit" "0 < minUploadBatch opts"
    and fail: "\<And>q e w'. S True q \<Longrightarrow>
      embedChunks (env_clock env) (pipeline_embedder env opts) (take limit (pendingEmbed q)) (p_world q)
        = (Inl e, w') \<Longrightarrow>
      S False (q\<lparr>pendingEmbed := drop limit (pendingEmbed q), p_world := w'\<rparr>)"
    and ok: "\<And>q es w' n. S True q \<Longrightarrow>
      embedChunks (env_clock env) (pipeline_embedder env opts) (take limit (pendingEmbed q)) (p_world q)
        = (Inr es, w') \<Longrightarrow>
      S True (q\<lparr>pendingEmbed := drop limit (pendingEmbed q), p_world := w',
               p_db := record_embedded m \<lfloor>env_clock env w' 0\<rfloor> es (p_db q),
               pendingUpload := pendingUpload q @ es, chunksEmbedded := n\<rparr>)"
    and step: "\<And>limit q r db' s' n. S True q \<Longrightarrow>
      upsertBatch (env_store env) (uploader_retry opts) (take limit (pendingUpload q)) (p_db q, p_store q)
        = (r, db', s') \<Longrightarrow>
      S (\<not> isl r) (q\<lparr>pendingUpload := drop limit (pendingUpload q), p_db := db', p_store := s',
                     uploadedCount := n\<rparr>)"
  shows "S True p \<Longrightarrow> \<exists>r p'. flushEmbed_loop env opts m threshold limit p = Some (r, p') \<and> S (\<not> isl r) p'
    \<and> (\<not> isl r \<longrightarrow> length (pendingEmbed p') < threshold)"
proof (induction "length (pendingEmbed p)" arbitrary: p rule: less_induct)
  case less
  show ?case
  proof (cases "threshold \<le> length (pendingEmbed p)")
    case False
    then show ?thesis using less.prems by (simp add: flushEmbed_loop.simps)
  next
    case True
    obtain r w' where run: "embedChunks (env_clock env) (pipeline_embedder env opts) (take limit (pendingEmbed p))
        (p_world p) = (r, w')"
      by (cases "embedChunks (env_clock env) (pipeline_embedder env opts) (take limit (pendingEmbed p)) (p_world p)")
    show ?thesis
    proof (cases r)
      case (Inl e)
      then show ?thesis using fail [OF less.prems] run True by (subst flushEmbed_loop.simps) simp
    next
      case (Inr es)
      let ?q = "p\<lparr>pendingEmbed := drop limit (pendingEmbed p), p_world := w',
          p_db := record_embedded m \<lfloor>env_clock env w' 0\<rfloor> es (p_db p),
          pendingUpload := pendingUpload p @ es,
          chunksEmbedded := chunksEmbedded p + length (take limit (pendingEmbed p))\<rparr>"
      have q: "S True ?q \<and> pendingEmbed ?q = pendingEmbed ?q" using ok [OF less.prems] run Inr by simp
      obtain r1 p1 where up: "flushUpload env opts False ?q = Some (r1, p1)"
        and s1: "S (\<not> isl r1) p1 \<and> pendingEmbed p1 = pendingEmbed ?q"
        by (rule flushUpload_rule [OF pos(3), where S = "\<lambda>b x. S b x \<and> pendingEmbed x = pendingEmbed ?q", OF q])
          (use step in auto)
      have eq: "flushEmbed_loop env opts m threshold limit p
          = (if isl r1 then Some (r1, p1) else flushEmbed_loop env opts m threshold limit p1)"
        using True run Inr up by (subst flushEmbed_loop.simps) simp
      show ?thesis
      proof (cases "isl r1")
        case True
        then show ?thesis using eq s1 by simp
      next
        case f: False
        have "length (pendingEmbed p1) < length (pendingEmbed p)"
          using s1 True pos(1,2) by simp
        then show ?thesis using less.hyps [of p1] s1 f eq by simp
      qed
    qed
  qed
qed

lemma flushEmbed_rule:
  assumes pos: "0 < minEmbedBatch opts" "0 < minUploadBatch opts" and S: "S True p"
    and fail: "\<And>limit q e w'. S True q \<Longrightarrow>
      embedChunks (env_clock env) (pipeline_embedder env opts) (take limit (pendingEmbed q)) (p_world q)
        = (Inl e, w') \<Longrightarrow>
      S False (q\<lparr>pendingEmbed := drop limit (pendingEmbed q), p_world := w'\<rparr>)"
    and ok: "\<And>limit q es w' n. S True q \<Longrightarrow>
      embedChunks (env_clock env) (pipeline_embedder env opts) (take limit (pendingEmbed q)) (p_world q)
        = (Inr es, w') \<Longrightarrow>
      S True (q\<lparr>pendingEmbed := drop limit (pendingEmbed q), p_world := w',
               p_db := record_embedded m \<lfloor>env_clock env w' 0\<rfloor> es (p_db q),
               pendingUpload := pendingUpload q @ es, chunksEmbedded := n\<rparr>)"
    and step: "\<And>limit q r db' s' n. S True q \<Longrightarrow>
      upsertBatch (env_store env) (uploader_retry opts) (take limit (pendingUpload q)) (p_db q, p_store q)
        = (r, db', s') \<Longrightarrow>
      S (\<not> isl r) (q\<lparr>pendingUpload := drop limit (pendingUpload q), p_db := db', p_store := s',
                     uploadedCount := n\<rparr>)"
  obtains r p' where "flushEmbed env opts m all p = Some (r, p')" "S (\<not> isl r) p'"
    "\<not> isl r \<Longrightarrow> all \<Longrightarrow> pendingEmbed p' = []"
proof (cases "all \<and> pendingEmbed p = []")
  case True
  then have "flushEmbed env opts m all p = Some (Inr (), p)"
    by (simp add: flushEmbed_def flushEmbed_loop.simps)
  then show ?thesis using S True that by simp
next
  case False
  let ?t = "if all then 1 else minEmbedBatch opts"
  let ?l = "if all then length (pendingEmbed p) else minEmbedBatch opts"
  have tl: "0 < ?t" "0 < ?l" using pos(1) False by auto
  have "\<exists>r p'. flushEmbed_loop env opts m ?t ?l p = Some (r, p') \<and> S (\<not> isl r) p'
      \<and> (\<not> isl r \<longrightarrow> length (pendingEmbed p') < ?t)"
    by (rule flushEmbed_loop_rule [where S = S, OF tl pos(2)]) (rule fail ok step S; assumption)+
  then obtain r p' where run: "flushEmbed_loop env opts m ?t ?l p = Some (r, p')"
    "S (\<not> isl r) p'" "\<not> isl r \<longrightarrow> length (pendingEmbed p') < ?t" by blast
  show ?thesis
  proof (rule that)
    show "flushEmbed env opts m all p = Some (r, p')" using run(1) by (simp add: flushEmbed_def)
    show "S (\<not> isl r) p'" by (rule run(2))
    show "pendingEmbed p' = []" if "\<not> isl r" "all" using run(3) that by simp
  qed
qed

lemma existing_set_returns:
  assumes "0 < minEmbedBatch opts"
  shows "\<exists>x. existing_set env opts eff f hashes db s = Some x"
proof -
  have "0 < minEmbedBatch opts * 2" using assms by simp
  then obtain bs where "batchArray hashes (minEmbedBatch opts * 2) = Some bs"
    using batch_from_pos [of "minEmbedBatch opts * 2" hashes 0] by (auto simp: batchArray_def)
  then show ?thesis by (simp add: existing_set_def split: option.split)
qed

text \<open>The chain: \<open>T F b\<close> speaks of the set \<open>F\<close> of files that have gone through.\<close>

lemma chain_rule:
  assumes link: "\<And>F f p. T F True p \<Longrightarrow> f \<in> set fs \<Longrightarrow> \<exists>r p'. chain_link env opts eff m f
      (map_option fs_commitHash (map_of cur f)) (chunks_of_file env cur f) p = Some (r, p')
      \<and> T (insert f F) (\<not> isl r) p' "
    and weaken: "\<And>F G p. T F False p \<Longrightarrow> T G False p"
  shows "T F True p \<Longrightarrow> \<exists>r p'. chain env opts eff m cur fs p = Some (r, p') \<and> T (F \<union> set fs) (\<not> isl r) p'"
  using link
proof (induction fs arbitrary: F p)
  case (Cons f fs)
  obtain r1 p1 where one: "chain_link env opts eff m f
      (map_option fs_commitHash (map_of cur f)) (chunks_of_file env cur f) p = Some (r1, p1)"
    and t1: "T (insert f F) (\<not> isl r1) p1"
    using Cons.prems(2) [OF Cons.prems(1), of f] by auto
  show ?case
  proof (cases "isl r1")
    case True
    then show ?thesis using one t1 weaken by auto
  next
    case False
    have "\<exists>r p'. chain env opts eff m cur fs p1 = Some (r, p') \<and> T (insert f F \<union> set fs) (\<not> isl r) p'"
      using Cons.IH [of "insert f F" p1] Cons.prems(2) t1 False by auto
    then show ?thesis using one False by auto
  qed
qed simp

text \<open>What the two flush loops do to the state.\<close>

definition flush_closed ::
  "('s, 'w) pipeline_env \<Rightarrow> pipeline_options \<Rightarrow> embeddings_meta \<Rightarrow> (bool \<Rightarrow> ('s, 'w) pipe \<Rightarrow> bool) \<Rightarrow> bool" where
  "flush_closed env opts m S \<longleftrightarrow>
     (\<forall>limit q e w'. S True q \<longrightarrow>
        embedChunks (env_clock env) (pipeline_embedder env opts) (take limit (pendingEmbed q)) (p_world q)
          = (Inl e, w') \<longrightarrow>
        S False (q\<lparr>pendingEmbed := drop limit (pendingEmbed q), p_world := w'\<rparr>))
     \<and> (\<forall>limit q es w' n. S True q \<longrightarrow>
        embedChunks (env_clock env) (pipeline_embedder env opts) (take limit (pendingEmbed q)) (p_world q)
          = (Inr es, w') \<longrightarrow>
        S True (q\<lparr>pendingEmbed := drop limit (pendingEmbed q), p_world := w',
                 p_db := record_embedded m \<lfloor>env_clock env w' 0\<rfloor> es (p_db q),
                 pendingUpload := pendingUpload q @ es, chunksEmbedded := n\<rparr>))
     \<and> (\<forall>limit q r db' s' n. S True q \<longrightarrow>
        upsertBatch (env_store env) (uploader_retry opts) (take limit (pendingUpload q)) (p_db q, p_store q)
          = (r, db', s') \<longrightarrow>
        S (\<not> isl r) (q\<lparr>pendingUpload := drop limit (pendingUpload q), p_db := db', p_store := s',
                       uploadedCount := n\<rparr>))"

lemma flush_closed_embed:
  assumes "flush_closed env opts m S" and "0 < minEmbedBatch opts" "0 < minUploadBatch opts" and "S True p"
  obtains r p' where "flushEmbed env opts m all p = Some (r, p')" "S (\<not> isl r) p'"
    "\<not> isl r \<Longrightarrow> all \<Longrightarrow> pendingEmbed p' = []"
  by (rule flushEmbed_rule [where S = S, OF assms(2,3,4)])
    (use assms(1) in \<open>unfold flush_closed_def, blast+\<close>)

lemma flush_closed_upload:
  assumes "flush_closed env opts m S" and "0 < minUploadBatch opts" and "S True p"
  obtains r p' where "flushUpload env opts all p = Some (r, p')" "S (\<not> isl r) p'"
    "\<not> isl r \<Longrightarrow> all \<Longrightarrow> \<not> skipUpload opts \<Longrightarrow> \<not> dryRun opts \<Longrightarrow> pendingUpload p' = []"
  by (rule flushUpload_rule [where S = S and env = env, OF assms(2,3)])
    (use assms(1) in \<open>unfold flush_closed_def, blast+\<close>)

text \<open>What staging a file does.\<close>

definition staged_file ::
  "('s, 'w) pipeline_env \<Rightarrow> (string \<times> file_state) list \<Rightarrow> string \<Rightarrow> ('s, 'w) pipe \<Rightarrow> ('s, 'w) pipe" where
  "staged_file env cur f p =
     stage_file (st_deleteOrphanedChunks (env_store env) \<noteq> None) f
       (map_option fs_commitHash (map_of cur f)) (chunks_of_file env cur f) p"

definition stage_closed ::
  "('s, 'w) pipeline_env \<Rightarrow> pipeline_options \<Rightarrow> bool \<Rightarrow> (string \<times> file_state) list \<Rightarrow> string set
   \<Rightarrow> (string set \<Rightarrow> bool \<Rightarrow> ('s, 'w) pipe \<Rightarrow> bool) \<Rightarrow> bool" where
  "stage_closed env opts eff cur files T \<longleftrightarrow>
     (\<forall>F f p r s'. T F True p \<longrightarrow> f \<in> files \<longrightarrow>
        existing_set env opts eff f (map denseTextHash (chunks_of_file env cur f))
          (p_db (staged_file env cur f p)) (p_store p) = Some (r, s') \<longrightarrow>
        (case r of
           Inl e \<Rightarrow> T (insert f F) False (staged_file env cur f p\<lparr>p_store := s'\<rparr>)
         | Inr existing \<Rightarrow> T (insert f F) True
             (queue_chunks (chunks_of_file env cur f)
                (filter (\<lambda>c. denseTextHash c \<notin> set existing) (chunks_of_file env cur f))
                (staged_file env cur f p\<lparr>p_store := s'\<rparr>))))"

lemma chain_link_staged:
  "chain_link env opts eff m f (map_option fs_commitHash (map_of cur f)) (chunks_of_file env cur f) p =
     Option.bind (existing_set env opts eff f (map denseTextHash (chunks_of_file env cur f))
                    (p_db (staged_file env cur f p)) (p_store (staged_file env cur f p)))
       (\<lambda>(r, s'). case r of
          Inl e \<Rightarrow> Some (Inl e, staged_file env cur f p\<lparr>p_store := s'\<rparr>)
        | Inr existing \<Rightarrow> flushEmbed env opts m False
            (queue_chunks (chunks_of_file env cur f)
               (filter (\<lambda>c. denseTextHash c \<notin> set existing) (chunks_of_file env cur f))
               (staged_file env cur f p\<lparr>p_store := s'\<rparr>)))"
  unfolding chain_link_def staged_file_def Let_def by (rule refl)

lemma chain_link_returns:
  assumes pos: "0 < minEmbedBatch opts" "0 < minUploadBatch opts"
    and flush: "\<And>F. flush_closed env opts m (T F)" and stage: "stage_closed env opts eff cur files T"
    and t: "T F True p" and f: "f \<in> files"
  shows "\<exists>r p'. chain_link env opts eff m f (map_option fs_commitHash (map_of cur f))
      (chunks_of_file env cur f) p = Some (r, p') \<and> T (insert f F) (\<not> isl r) p'"
proof -
  have st: "p_store (staged_file env cur f p) = p_store p" by (simp add: staged_file_def stage_file_def)
  obtain r s' where ex: "existing_set env opts eff f (map denseTextHash (chunks_of_file env cur f))
      (p_db (staged_file env cur f p)) (p_store p) = Some (r, s')"
    using existing_set_returns [OF pos(1)] by (metis surj_pair)
  have next_state: "case r of
       Inl e \<Rightarrow> T (insert f F) False (staged_file env cur f p\<lparr>p_store := s'\<rparr>)
     | Inr existing \<Rightarrow> T (insert f F) True
         (queue_chunks (chunks_of_file env cur f)
            (filter (\<lambda>c. denseTextHash c \<notin> set existing) (chunks_of_file env cur f))
            (staged_file env cur f p\<lparr>p_store := s'\<rparr>))"
    using stage t f ex unfolding stage_closed_def by blast
  show ?thesis
  proof (cases r)
    case (Inl e)
    then show ?thesis using next_state ex st by (simp add: chain_link_staged)
  next
    case (Inr existing)
    let ?q = "queue_chunks (chunks_of_file env cur f)
            (filter (\<lambda>c. denseTextHash c \<notin> set existing) (chunks_of_file env cur f))
            (staged_file env cur f p\<lparr>p_store := s'\<rparr>)"
    have "T (insert f F) True ?q" using next_state Inr by simp
    then obtain r' p' where "flushEmbed env opts m False ?q = Some (r', p')" "T (insert f F) (\<not> isl r') p'"
      by (rule flush_closed_embed [OF flush pos])
    then show ?thesis using Inr ex st by (simp add: chain_link_staged)
  qed
qed

text \<open>The whole stream: with positive batch sizes it returns; \<open>T\<close> holds of what it leaves, and if
  nothing failed the queues are empty.\<close>

lemma stream_rule:
  assumes pos: "0 < minEmbedBatch opts" "0 < minUploadBatch opts"
    and flush: "\<And>F. flush_closed env opts m (T F)"
    and stage: "stage_closed env opts eff cur (set (schedule env files)) T"
    and weaken: "\<And>F G p. T F False p \<Longrightarrow> T G False p"
    and t: "T {} True p"
  obtains r p' where "stream env opts eff m cur files p = Some (r, p')"
    "T (set (schedule env files)) (\<not> isl r) p'"
    "\<not> isl r \<Longrightarrow> \<not> skipUpload opts \<Longrightarrow> \<not> dryRun opts \<Longrightarrow> pendingUpload p' = [] \<and> pendingEmbed p' = []"
proof -
  let ?F = "set (schedule env files)"
  have "\<exists>r p'. chain env opts eff m cur (schedule env files) p = Some (r, p') \<and> T ({} \<union> ?F) (\<not> isl r) p'"
    by (rule chain_rule [where T = T, OF chain_link_returns [where T = T, OF pos flush stage] weaken t])
  then obtain r1 p1 where one: "chain env opts eff m cur (schedule env files) p = Some (r1, p1)"
    and t1: "T ?F (\<not> isl r1) p1" by auto
  show ?thesis
  proof (cases "isl r1")
    case True
    then show ?thesis using that [of r1 p1] one t1 by (simp add: stream_def)
  next
    case ok1: False
    then have "T ?F True p1" using t1 by simp
    then obtain r2 p2 where two: "flushEmbed env opts m True p1 = Some (r2, p2)" "T ?F (\<not> isl r2) p2"
      "\<not> isl r2 \<Longrightarrow> pendingEmbed p2 = []"
      by (rule flush_closed_embed [where S = "T ?F" and all = True, OF flush pos]) blast
    show ?thesis
    proof (cases "isl r2")
      case True
      then show ?thesis using that [of r2 p2] one ok1 two by (simp add: stream_def)
    next
      case ok2: False
      let ?S = "\<lambda>b q. T ?F b q \<and> pendingEmbed q = []"
      have "\<exists>r3 p3. flushUpload env opts True p2 = Some (r3, p3) \<and> ?S (\<not> isl r3) p3
        \<and> (\<not> isl r3 \<longrightarrow> \<not> skipUpload opts \<longrightarrow> \<not> dryRun opts \<longrightarrow> pendingUpload p3 = [])"
      proof (rule flushUpload_rule [where S = ?S and env = env and all = True, OF pos(2)])
        show "T ?F True p2 \<and> pendingEmbed p2 = []" using two ok2 by simp
      next
        fix limit and q :: "('a, 'b) pipe" and r db' s' n
        assume "T ?F True q \<and> pendingEmbed q = []"
          and "upsertBatch (env_store env) (uploader_retry opts) (take limit (pendingUpload q)) (p_db q, p_store q)
            = (r, db', s')"
        then show "T ?F (\<not> isl r) (q\<lparr>pendingUpload := drop limit (pendingUpload q), p_db := db', p_store := s',
              uploadedCount := n\<rparr>)
          \<and> pendingEmbed (q\<lparr>pendingUpload := drop limit (pendingUpload q), p_db := db', p_store := s',
              uploadedCount := n\<rparr>) = []"
          using flush [of ?F] unfolding flush_closed_def by simp
      qed blast
      then obtain r3 p3 where "flushUpload env opts True p2 = Some (r3, p3)" "T ?F (\<not> isl r3) p3"
        "pendingEmbed p3 = []"
        "\<not> isl r3 \<longrightarrow> \<not> skipUpload opts \<longrightarrow> \<not> dryRun opts \<longrightarrow> pendingUpload p3 = []" by blast
      then show ?thesis using that [of r3 p3] one ok1 two(1) ok2 by (simp add: stream_def)
    qed
  qed
qed

text \<open>How a run of a plan can go.\<close>

lemma execute_plan_cases:
  obtains
    (not_prepared) e s1 where "prepare env opts eff plan db s = (Inl e, s1)"
      "execute_plan env opts eff cur em plan db s w = Some (Inl e, db, s1, w)"
  | (not_warm) e s1 w1 where "prepare env opts eff plan db s = (Inr (), s1)"
      "preWarm (env_provider env) w = (Inl e, w1)"
      "execute_plan env opts eff cur em plan db s w
         = Some (Inl e, fold deleteBySourceFile (toDelete (changes plan)) db, s1, w1)"
  | (streamed) s1 w1 where "prepare env opts eff plan db s = (Inr (), s1)"
      "preWarm (env_provider env) w = (Inr (), w1)"
      "execute_plan env opts eff cur em plan db s w = map_option (conclude env opts eff plan)
         (stream env opts eff (pipeline_meta env em \<lfloor>env_clock env w1 0\<rfloor>) cur (toProcess (changes plan))
           (start_pipe plan (fold deleteBySourceFile (toDelete (changes plan)) db) s1 w1))"
proof -
  obtain r1 s1 where p: "prepare env opts eff plan db s = (r1, s1)" by (cases "prepare env opts eff plan db s")
  obtain r2 w1 where v: "preWarm (env_provider env) w = (r2, w1)" by (cases "preWarm (env_provider env) w")
  show ?thesis
  proof (cases r1)
    case (Inl e)
    then show ?thesis using p not_prepared by (simp add: execute_plan_def)
  next
    case prep: (Inr u)
    show ?thesis
    proof (cases r2)
      case (Inl e)
      then show ?thesis using p v prep not_warm by (simp add: execute_plan_def Let_def)
    next
      case (Inr u')
      then show ?thesis using p v prep streamed by (simp add: execute_plan_def Let_def)
    qed
  qed
qed

subsection \<open>Termination\<close>



end
