(* ===== verification/PipelineSync.thy ===== *)
theory PipelineSync
  imports Orchestrator
begin

section \<open>What a run does to the vector store\<close>

text \<open>
  The contract of an incremental run, over any store that honours \<open>reopenable_store\<close>: the documents
  of the processed files become exactly their chunks, those of deleted files go, and the others
  stay. The store keeps one document per chunk hash, so a chunk that two files share belongs to
  only one of them; the contract is for contents in which a hash tells its file (\<open>owner\<close>).
\<close>

definition doc_ids :: "(string \<rightharpoonup> doc_view) \<Rightarrow> string \<Rightarrow> string set" where
  "doc_ids m f = {k. \<exists>d. m k = Some d \<and> v_sourceFile d = f}"

definition attributed ::
  "(string \<Rightarrow> string) \<Rightarrow> ('s, 'w) pipeline_env \<Rightarrow> (string \<times> file_state) list \<Rightarrow> virage_db
   \<Rightarrow> (string \<rightharpoonup> doc_view) \<Rightarrow> bool" where
  "attributed owner env cur db m \<longleftrightarrow>
     (\<forall>k d. m k = Some d \<longrightarrow> v_sourceFile d = owner k)
     \<and> (\<forall>x\<in>set cur. \<forall>c\<in>set (chunks_of_file env cur (fst x)).
           owner (denseTextHash c) = fst x \<and> sourceFile c = fst x)
     \<and> (\<forall>r\<in>set (t_chunks db). owner (dense_text_hash r) = source_file r)"

text \<open>Hash and file of queued chunks.\<close>

definition pairs_of :: "'a chunk_scheme list \<Rightarrow> (string \<times> string) set" where
  "pairs_of cs = (\<lambda>c. (denseTextHash c, sourceFile c)) ` set cs"

definition queued :: "('s, 'w) pipe \<Rightarrow> (string \<times> string) set" where
  "queued p = pairs_of (pendingEmbed p) \<union> pairs_of (pendingUpload p)"

text \<open>What holds throughout, failures included: documents are their owners', none belongs to a
  deleted file, none of \<open>base\<close> has gone, and new ones are among \<open>fresh\<close>.\<close>

definition safe ::
  "('s \<Rightarrow> string \<rightharpoonup> doc_view) \<Rightarrow> ('s \<Rightarrow> bool) \<Rightarrow> (string \<Rightarrow> string) \<Rightarrow> string set \<Rightarrow> string set \<Rightarrow> string set
   \<Rightarrow> ('s, 'w) pipe \<Rightarrow> bool" where
  "safe docs ok owner dead base fresh p \<longleftrightarrow>
     ok (p_store p)
     \<and> (\<forall>k d. docs (p_store p) k = Some d \<longrightarrow> v_sourceFile d = owner k \<and> owner k \<notin> dead)
     \<and> base \<subseteq> dom (docs (p_store p)) \<and> dom (docs (p_store p)) \<subseteq> base \<union> fresh
     \<and> (\<forall>h f. (h, f) \<in> queued p \<longrightarrow> owner h = f \<and> f \<notin> dead \<and> h \<in> fresh)"

text \<open>What holds as long as nothing fails: the chunks of the files done are in the store or queued,
  and their hashes are noted for the cleaning.\<close>

definition live ::
  "('s \<Rightarrow> string \<rightharpoonup> doc_view) \<Rightarrow> (string \<Rightarrow> string list) \<Rightarrow> string set \<Rightarrow> ('s, 'w) pipe \<Rightarrow> bool" where
  "live docs hashes F p \<longleftrightarrow>
     (\<forall>f\<in>F. set (hashes f) \<subseteq> dom (docs (p_store p)) \<union> fst ` queued p)
     \<and> set (fileNewHashes p) = (\<lambda>f. (f, hashes f)) ` F"

lemma safe_storeI:
  assumes "safe docs ok owner dead base fresh q" and "ok s'"
    and new: "\<And>k. docs s' k = docs (p_store q) k \<or> (\<exists>d. docs s' k = Some d \<and> (k, v_sourceFile d) \<in> queued q)"
    and "p_store p = s'" and "queued p \<subseteq> queued q"
  shows "safe docs ok owner dead base fresh p"
proof -
  note q = assms(1) [unfolded safe_def]
  have "v_sourceFile d = owner k \<and> owner k \<notin> dead \<and> (k \<in> base \<or> k \<in> fresh)" if "docs s' k = Some d" for k d
  proof (cases "docs s' k = docs (p_store q) k")
    case True
    then show ?thesis using that q by (metis UnE domI subsetD)
  next
    case False
    then have "(k, v_sourceFile d) \<in> queued q" using new [of k] that by auto
    then have "owner k = v_sourceFile d \<and> v_sourceFile d \<notin> dead \<and> k \<in> fresh" using q by blast
    then show ?thesis by simp
  qed
  moreover have "base \<subseteq> dom (docs s')"
  proof
    fix k assume "k \<in> base"
    then obtain d where "docs (p_store q) k = Some d" using q by blast
    then show "k \<in> dom (docs s')" using new [of k] by (metis domI)
  qed
  moreover have "\<forall>h f. (h, f) \<in> queued p \<longrightarrow> owner h = f \<and> f \<notin> dead \<and> h \<in> fresh"
    using assms(5) q by blast
  ultimately show ?thesis unfolding safe_def assms(4) using assms(2) by blast
qed

lemma written_documents:
  "written (documents_of b) m k = m k
   \<or> (\<exists>d. written (documents_of b) m k = Some d \<and> (k, v_sourceFile d) \<in> pairs_of b)"
proof (cases "map_of (rev (map (\<lambda>d. (docId d, view_of d)) (documents_of b))) k")
  case None
  then show ?thesis by (simp add: written_def map_add_def)
next
  case (Some v)
  then obtain d where d: "d \<in> set (documents_of b)" "docId d = k" "v = view_of d"
    by (auto dest!: map_of_SomeD)
  then obtain c where "c \<in> set b" "d = chunkToDocument c None"
    using filter_unseen_subset [of denseTextHash "[]" b]
    by (auto simp: documents_of_def deduplicateByHash_def)
  then have "(k, v_sourceFile v) \<in> pairs_of b"
    using d by (force simp: pairs_of_def view_of_def chunkToDocument_def)
  then show ?thesis using Some by (simp add: written_def map_add_def)
qed

context vector_store_laws
begin

lemma upsertBatch_spec:
  assumes "inv s" and "upsertBatch st retry b (db, s) = (r, db', s')"
  shows "inv s' \<and> writes_to (docs s) (written (documents_of b) (docs s)) r (docs s')"
proof (cases "b = []")
  case True
  then show ?thesis using assms by (auto simp: upsertBatch_def writes_to_def documents_of_def deduplicateByHash_def)
next
  case False
  then have "upload_batch st retry b (db, s) = (r, db', s')" using assms(2) by (simp add: upsertBatch_def)
  then show ?thesis using upload_batch_spec [OF assms(1)] by blast
qed

lemma safe_upload:
  assumes "safe docs inv owner dead base fresh q"
    and "upsertBatch st retry (take n (pendingUpload q)) (p_db q, p_store q) = (r, db', s')"
  shows "safe docs inv owner dead base fresh
    (q\<lparr>pendingUpload := drop n (pendingUpload q), p_db := db', p_store := s', uploadedCount := u\<rparr>)"
proof (rule safe_storeI [OF assms(1)])
  have "inv (p_store q)" using assms(1) by (simp add: safe_def)
  note spec = upsertBatch_spec [OF this assms(2)]
  show "inv s'" using spec by blast
  show "docs s' k = docs (p_store q) k \<or> (\<exists>d. docs s' k = Some d \<and> (k, v_sourceFile d) \<in> queued q)" for k
  proof -
    have "docs s' k = docs (p_store q) k
        \<or> docs s' k = written (documents_of (take n (pendingUpload q))) (docs (p_store q)) k"
      using spec unfolding writes_to_def by blast
    moreover have "pairs_of (take n (pendingUpload q)) \<subseteq> queued q"
      by (auto simp: queued_def pairs_of_def dest: in_set_takeD)
    ultimately show ?thesis
      using written_documents [of "take n (pendingUpload q)" "docs (p_store q)" k] by (metis subsetD)
  qed
qed (auto simp: queued_def pairs_of_def dest: in_set_dropD)

lemma live_upload:
  assumes "live docs hashes F q" and "inv (p_store q)"
    and "upsertBatch st retry (take n (pendingUpload q)) (p_db q, p_store q) = (r, db', s')" and "\<not> isl r"
  shows "live docs hashes F
    (q\<lparr>pendingUpload := drop n (pendingUpload q), p_db := db', p_store := s', uploadedCount := u\<rparr>)"
proof -
  have "docs s' = written (documents_of (take n (pendingUpload q))) (docs (p_store q))"
    using upsertBatch_spec [OF assms(2,3)] assms(4) by (cases r) (simp_all add: writes_to_def)
  then have "dom (docs s') = dom (docs (p_store q)) \<union> denseTextHash ` set (take n (pendingUpload q))"
    by (simp add: written_dom docId_documents_of)
  moreover have "fst ` pairs_of (pendingUpload q)
      = denseTextHash ` set (take n (pendingUpload q)) \<union> fst ` pairs_of (drop n (pendingUpload q))"
  proof -
    have "set (pendingUpload q) = set (take n (pendingUpload q)) \<union> set (drop n (pendingUpload q))"
      by (metis append_take_drop_id set_append)
    then show ?thesis by (simp add: pairs_of_def image_image image_Un)
  qed
  ultimately show ?thesis using assms(1) by (auto simp: live_def queued_def image_Un)
qed

end

lemma pairs_of_embeds:
  assumes "embeds cs es" shows "pairs_of es = pairs_of cs"
proof -
  have cs: "cs = map chunk.truncate es" using assms by (simp add: embeds_def)
  show ?thesis unfolding cs pairs_of_def by (simp add: image_image)
qed

lemma pairs_of_append: "pairs_of (as @ bs) = pairs_of as \<union> pairs_of bs"
  by (simp add: pairs_of_def image_Un)

lemma queued_embed:
  assumes "embeds (take n (pendingEmbed q)) es"
  shows "queued (q\<lparr>pendingEmbed := drop n (pendingEmbed q), p_world := w', p_db := d,
      pendingUpload := pendingUpload q @ es, chunksEmbedded := m\<rparr>) = queued q"
proof -
  have "pairs_of (pendingEmbed q) = pairs_of (take n (pendingEmbed q)) \<union> pairs_of (drop n (pendingEmbed q))"
    using pairs_of_append [of "take n (pendingEmbed q)" "drop n (pendingEmbed q)"] by simp
  then show ?thesis by (simp add: queued_def pairs_of_append pairs_of_embeds [OF assms] Un_ac)
qed

lemma safe_queued:
  "safe docs ok owner dead base fresh q \<Longrightarrow> p_store p = p_store q \<Longrightarrow> queued p \<subseteq> queued q \<Longrightarrow>
   safe docs ok owner dead base fresh p"
  by (auto simp: safe_def)

lemma live_queued:
  "live docs hashes F q \<Longrightarrow> p_store p = p_store q \<Longrightarrow> fileNewHashes p = fileNewHashes q \<Longrightarrow>
   queued p = queued q \<Longrightarrow> live docs hashes F p"
  by (simp add: live_def)

lemma queued_drop_embed: "queued (q\<lparr>pendingEmbed := drop n (pendingEmbed q), p_world := w\<rparr>) \<subseteq> queued q"
  by (auto simp: queued_def pairs_of_def dest: in_set_dropD)

text \<open>The two loops keep both predicates.\<close>

lemma sync_flush_closed:
  assumes laws: "vector_store_laws (env_store env) docs ok"
  shows "flush_closed env opts m (\<lambda>b p. safe docs ok owner dead base fresh p \<and> (b \<longrightarrow> live docs hashes F p))"
  unfolding flush_closed_def
proof (intro conjI allI impI)
  fix limit and q :: "('a, 'b) pipe" and e w'
  assume "safe docs ok owner dead base fresh q \<and> (True \<longrightarrow> live docs hashes F q)"
  then show "safe docs ok owner dead base fresh (q\<lparr>pendingEmbed := drop limit (pendingEmbed q), p_world := w'\<rparr>)"
    by (intro safe_queued [OF conjunct1 _ queued_drop_embed]) simp_all
next
  fix limit and q :: "('a, 'b) pipe" and es w' n
  assume q: "safe docs ok owner dead base fresh q \<and> (True \<longrightarrow> live docs hashes F q)"
    and em: "embedChunks (env_clock env) (pipeline_embedder env opts) (take limit (pendingEmbed q)) (p_world q) = (Inr es, w')"
  note eq = queued_embed [OF conjunct1 [OF embedChunks_ok [OF em]]]
  let ?p = "q\<lparr>pendingEmbed := drop limit (pendingEmbed q), p_world := w',
      p_db := record_embedded m \<lfloor>env_clock env w' 0\<rfloor> es (p_db q),
      pendingUpload := pendingUpload q @ es, chunksEmbedded := n\<rparr>"
  show "safe docs ok owner dead base fresh ?p"
    by (rule safe_queued [OF conjunct1 [OF q]]) (simp_all add: eq)
  show "live docs hashes F ?p"
    by (rule live_queued [of docs hashes F q]) (use q in \<open>simp_all add: eq\<close>)
next
  fix limit and q :: "('a, 'b) pipe" and r db' s' n
  assume q: "safe docs ok owner dead base fresh q \<and> (True \<longrightarrow> live docs hashes F q)"
    and up: "upsertBatch (env_store env) (uploader_retry opts) (take limit (pendingUpload q)) (p_db q, p_store q)
      = (r, db', s')"
  let ?p = "q\<lparr>pendingUpload := drop limit (pendingUpload q), p_db := db', p_store := s', uploadedCount := n\<rparr>"
  show "safe docs ok owner dead base fresh ?p"
    by (rule vector_store_laws.safe_upload [OF laws conjunct1 [OF q] up])
  assume "\<not> isl r"
  then show "live docs hashes F ?p"
    using vector_store_laws.live_upload [OF laws _ _ up] q by (simp add: safe_def)
qed simp_all

lemma update_same:
  "(\<forall>v'. (k, v') \<in> set m \<longrightarrow> v' = v) \<Longrightarrow> set (AList.update k v m) = insert (k, v) (set m)"
  by (induction m) auto

context vector_store_laws
begin

lemma check_slices_spec:
  assumes "st_existingHashes st = Some ex" and "inv s" and "check_slices ex bs s = (r, s')"
  shows "inv s' \<and> docs s' = docs s
    \<and> (\<forall>xs. r = Inr xs \<longrightarrow> set xs = {h \<in> set (concat bs). docs s h \<noteq> None})"
  using assms(2,3)
proof (induction bs arbitrary: s r)
  case Nil
  then show ?case by auto
next
  case (Cons b bs)
  obtain r1 s1 where one: "ex b s = (r1, s1)" by (cases "ex b s")
  have law: "inv s1" "docs s1 = docs s" "\<forall>xs. r1 = Inr xs \<longrightarrow> set xs = {h \<in> set b. docs s h \<noteq> None}"
    using existing_law [OF Cons.prems(1) assms(1) one] by (auto split: sum.splits)
  show ?case
  proof (cases r1)
    case (Inl e)
    then show ?thesis using Cons.prems(2) one law by auto
  next
    case (Inr found)
    obtain r2 where rest: "check_slices ex bs s1 = (r2, s')"
      and r: "r = (case r2 of Inl e \<Rightarrow> Inl e | Inr xs \<Rightarrow> Inr (found @ xs))"
      using Cons.prems(2) one Inr by (cases "check_slices ex bs s1") (auto split: sum.splits)
    have IH: "inv s'" "docs s' = docs s1"
      "\<forall>xs. r2 = Inr xs \<longrightarrow> set xs = {h \<in> set (concat bs). docs s1 h \<noteq> None}"
      using Cons.IH [OF law(1) rest] by blast+
    have "set xs = {h \<in> set (concat (b # bs)). docs s h \<noteq> None}" if rx: "r = Inr xs" for xs
    proof -
      obtain ys where "r2 = Inr ys" "xs = found @ ys" using r rx by (cases r2) auto
      then show ?thesis using IH(3) law(2,3) Inr by auto
    qed
    then show ?thesis using IH(1,2) law(2) by simp
  qed
qed

lemma existing_set_spec:
  assumes "st = env_store env" and "st_existingHashes st \<noteq> None" and "inv s"
    and "existing_set env opts False f hashes db s = Some (r, s')"
  shows "inv s' \<and> docs s' = docs s
    \<and> (\<forall>xs. r = Inr xs \<longrightarrow> set xs = {h \<in> set hashes. docs s h \<noteq> None})"
proof -
  obtain ex where ex: "st_existingHashes st = Some ex" using assms(2) by blast
  obtain slices where sl: "batchArray hashes (minEmbedBatch opts * 2) = Some slices"
    and run: "check_slices ex slices s = (r, s')"
    using assms(1,4) ex by (auto simp: existing_set_def)
  have "minEmbedBatch opts * 2 \<noteq> 0 \<or> hashes = []"
    using sl batch_from_zero [of 0 hashes] by (cases "minEmbedBatch opts") (auto simp: batchArray_def)
  then have "concat slices = hashes"
    using sl batch_from_pos [of "minEmbedBatch opts * 2" hashes 0]
    by (auto simp: batchArray_def batch_from.simps)
  then show ?thesis using check_slices_spec [OF ex assms(3) run] by simp
qed

lemma clean_orphans_spec:
  assumes "st_deleteOrphanedChunks st = Some dl" and "inv s" and "clean_orphans dl xs s = (r, s')"
  shows "inv s' \<and> (\<forall>k. docs s' k = docs s k \<or> docs s' k = None)
    \<and> (\<forall>k d. docs s k = Some d \<longrightarrow> (\<forall>(f, hs)\<in>set xs. v_sourceFile d = f \<longrightarrow> k \<in> set hs) \<longrightarrow> docs s' k = Some d)
    \<and> (\<not> isl r \<longrightarrow> (\<forall>k d. docs s' k = Some d \<longrightarrow> (\<forall>(f, hs)\<in>set xs. v_sourceFile d = f \<longrightarrow> k \<in> set hs)))"
  using assms(2,3)
proof (induction xs arbitrary: s r)
  case Nil
  then show ?case by auto
next
  case (Cons x xs)
  obtain f hs where x: "x = (f, hs)" by force
  obtain r1 s1 where one: "dl f hs s = (r1, s1)" by (cases "dl f hs s")
  have law: "inv s1" "writes_to (docs s) (without_orphans f hs (docs s)) r1 (docs s1)"
    using orphan_law [OF Cons.prems(1) assms(1) one] by blast+
  have sub: "docs s1 k = docs s k \<or> docs s1 k = None" for k
  proof -
    have "docs s1 k = docs s k \<or> docs s1 k = without_orphans f hs (docs s) k"
      using law(2) unfolding writes_to_def by blast
    moreover have "without_orphans f hs (docs s) k = docs s k \<or> without_orphans f hs (docs s) k = None"
      by (simp add: without_orphans_def split: option.split)
    ultimately show ?thesis by argo
  qed
  have keep: "docs s1 k = Some d" if "docs s k = Some d" "v_sourceFile d = f \<longrightarrow> k \<in> set hs" for k d
    using law(2) that unfolding writes_to_def without_orphans_def by (auto split: option.splits if_splits)
  show ?case
  proof (cases r1)
    case (Inl e)
    then have "s' = s1" "isl r" using Cons.prems(2) one x by auto
    then show ?thesis using law(1) sub keep x by auto
  next
    case (Inr u)
    have rest: "clean_orphans dl xs s1 = (r, s')" using Cons.prems(2) one x Inr by simp
    note IH = Cons.IH [OF law(1) rest]
    have "docs s1 = without_orphans f hs (docs s)" using law(2) Inr by (simp add: writes_to_def)
    then have gone: "v_sourceFile d = f \<longrightarrow> k \<in> set hs" if "docs s1 k = Some d" for k d
      using that by (auto simp: without_orphans_def split: option.splits if_splits)
    have a: "docs s' k = docs s k \<or> docs s' k = None" for k using IH sub [of k] by metis
    have b: "docs s' k = Some d" if "docs s k = Some d"
        "\<forall>(g, hs)\<in>set (x # xs). v_sourceFile d = g \<longrightarrow> k \<in> set hs" for k d
      using IH keep [OF that(1)] that(2) x by auto
    have c: "\<forall>(g, hs)\<in>set (x # xs). v_sourceFile d = g \<longrightarrow> k \<in> set hs"
      if "\<not> isl r" "docs s' k = Some d" for k d
    proof -
      have "docs s1 k = Some d" using IH that(2) by (metis option.distinct(1))
      then show ?thesis using IH that gone x by auto
    qed
    show ?thesis
      by (intro conjI allI impI) (rule conjunct1 [OF IH] a b c; assumption)+
  qed
qed

end

lemma sync_stage_closed:
  assumes laws: "vector_store_laws (env_store env) docs ok"
    and ex: "st_existingHashes (env_store env) \<noteq> None"
    and orph: "st_deleteOrphanedChunks (env_store env) \<noteq> None"
    and own: "\<And>f c. f \<in> files \<Longrightarrow> c \<in> set (chunks_of_file env cur f) \<Longrightarrow>
      owner (denseTextHash c) = f \<and> sourceFile c = f \<and> f \<notin> dead \<and> denseTextHash c \<in> fresh"
  shows "stage_closed env opts False cur files (\<lambda>F b p. safe docs ok owner dead base fresh p
    \<and> (b \<longrightarrow> live docs (\<lambda>f. map denseTextHash (chunks_of_file env cur f)) F p))"
  unfolding stage_closed_def
proof (intro allI impI)
  fix F f and p :: "('a, 'b) pipe" and r s'
  let ?h = "\<lambda>f. map denseTextHash (chunks_of_file env cur f)"
  let ?cs = "chunks_of_file env cur f"
  let ?p1 = "staged_file env cur f p\<lparr>p_store := s'\<rparr>"
  assume t: "safe docs ok owner dead base fresh p \<and> (True \<longrightarrow> live docs ?h F p)" and f: "f \<in> files"
    and run: "existing_set env opts False f (?h f) (p_db (staged_file env cur f p)) (p_store p) = Some (r, s')"
  have spec: "ok s'" "docs s' = docs (p_store p)"
    "\<And>xs. r = Inr xs \<Longrightarrow> set xs = {h \<in> set (?h f). docs (p_store p) h \<noteq> None}"
    using vector_store_laws.existing_set_spec [OF laws refl ex _ run] t by (auto simp: safe_def)
  have p1: "queued ?p1 = queued p" "p_store ?p1 = s'"
    "fileNewHashes ?p1 = AList.update f (?h f) (fileNewHashes p)"
    using orph by (simp_all add: staged_file_def stage_file_def queued_def)
  show "case r of
       Inl e \<Rightarrow> safe docs ok owner dead base fresh ?p1 \<and> (False \<longrightarrow> live docs ?h (insert f F) ?p1)
     | Inr existing \<Rightarrow> safe docs ok owner dead base fresh
           (queue_chunks ?cs (filter (\<lambda>c. denseTextHash c \<notin> set existing) ?cs) ?p1)
         \<and> (True \<longrightarrow> live docs ?h (insert f F)
           (queue_chunks ?cs (filter (\<lambda>c. denseTextHash c \<notin> set existing) ?cs) ?p1))"
  proof (cases r)
    case (Inl e)
    have "safe docs ok owner dead base fresh ?p1"
      by (rule safe_storeI [OF conjunct1 [OF t] spec(1)]) (simp_all add: spec(2) p1)
    then show ?thesis using Inl by simp
  next
    case (Inr existing)
    let ?new = "filter (\<lambda>c. denseTextHash c \<notin> set existing) ?cs"
    let ?q = "queue_chunks ?cs ?new ?p1"
    have q: "queued ?q = queued p \<union> pairs_of ?new" "p_store ?q = s'" "fileNewHashes ?q = fileNewHashes ?p1"
      using p1 by (auto simp: queue_chunks_def queued_def pairs_of_append)
    have known: "set existing = {h \<in> set (?h f). docs (p_store p) h \<noteq> None}" by (rule spec(3) [OF Inr])
    have added: "owner h = g \<and> g \<notin> dead \<and> h \<in> fresh" if "(h, g) \<in> pairs_of ?new" for h g
      using that own [OF f] by (auto simp: pairs_of_def)
    have tp: "safe docs ok owner dead base fresh p" using t by blast
    have "owner h = g \<and> g \<notin> dead \<and> h \<in> fresh" if "(h, g) \<in> queued ?q" for h g
      using that added tp unfolding q safe_def by blast
    then have "safe docs ok owner dead base fresh ?q"
      using tp spec(1) unfolding safe_def q(2) spec(2) by simp
    moreover have "set (?h f) \<subseteq> dom (docs s') \<union> fst ` queued ?q"
    proof
      fix h assume "h \<in> set (?h f)"
      then obtain c where c: "c \<in> set ?cs" "h = denseTextHash c" by auto
      show "h \<in> dom (docs s') \<union> fst ` queued ?q"
      proof (cases "docs (p_store p) h = None")
        case True
        then have "c \<in> set ?new" using c known by simp
        then have "(h, sourceFile c) \<in> queued ?q" using c(2) unfolding q pairs_of_def by blast
        then show ?thesis by force
      next
        case False
        then show ?thesis using spec(2) by auto
      qed
    qed
    moreover have "set (fileNewHashes ?q) = (\<lambda>f. (f, ?h f)) ` insert f F"
    proof -
      have "set (fileNewHashes p) = (\<lambda>f. (f, ?h f)) ` F" using t by (simp add: live_def)
      then show ?thesis unfolding q(3) p1(3) by (subst update_same) auto
    qed
    moreover have "\<forall>g\<in>F. set (?h g) \<subseteq> dom (docs s') \<union> fst ` queued ?q"
    proof
      fix g assume "g \<in> F"
      then have "set (?h g) \<subseteq> dom (docs (p_store p)) \<union> fst ` queued p" using t by (simp add: live_def)
      also have "\<dots> \<subseteq> dom (docs s') \<union> fst ` queued ?q" unfolding spec(2) q(1) image_Un by blast
      finally show "set (?h g) \<subseteq> dom (docs s') \<union> fst ` queued ?q" .
    qed
    ultimately show ?thesis using Inr q(2) by (simp add: live_def)
  qed
qed

lemma stream_sync:
  assumes laws: "vector_store_laws (env_store env) docs ok"
    and ex: "st_existingHashes (env_store env) \<noteq> None"
    and orph: "st_deleteOrphanedChunks (env_store env) \<noteq> None"
    and pos: "0 < minEmbedBatch opts" "0 < minUploadBatch opts"
    and act: "\<not> skipUpload opts" "\<not> dryRun opts"
    and sched: "set (schedule env files) = set files"
    and own: "\<And>f c. f \<in> set files \<Longrightarrow> c \<in> set (chunks_of_file env cur f) \<Longrightarrow>
      owner (denseTextHash c) = f \<and> sourceFile c = f \<and> f \<notin> dead \<and> denseTextHash c \<in> fresh"
    and start: "safe docs ok owner dead base fresh p" "fileNewHashes p = []"
    and run: "stream env opts False m cur files p = Some (r, p')"
  shows "safe docs ok owner dead base fresh p'
    \<and> (\<not> isl r \<longrightarrow> (\<forall>f\<in>set files. denseTextHash ` set (chunks_of_file env cur f) \<subseteq> dom (docs (p_store p')))
         \<and> set (fileNewHashes p') = (\<lambda>f. (f, map denseTextHash (chunks_of_file env cur f))) ` set files)"
proof -
  let ?h = "\<lambda>f. map denseTextHash (chunks_of_file env cur f)"
  let ?T = "\<lambda>F b p. safe docs ok owner dead base fresh p \<and> (b \<longrightarrow> live docs ?h F p)"
  have stage: "stage_closed env opts False cur (set (schedule env files)) ?T"
    unfolding sched by (rule sync_stage_closed [OF laws ex orph own])
  have init: "?T {} True p" using start by (simp add: live_def)
  obtain r1 p1 where "stream env opts False m cur files p = Some (r1, p1)"
    and t1: "?T (set (schedule env files)) (\<not> isl r1) p1"
    and q: "\<not> isl r1 \<Longrightarrow> \<not> skipUpload opts \<Longrightarrow> \<not> dryRun opts \<Longrightarrow> pendingUpload p1 = [] \<and> pendingEmbed p1 = []"
    by (rule stream_rule [where T = ?T, OF pos sync_flush_closed [OF laws] stage _ init]) auto
  then have eq: "r1 = r" "p1 = p'" using run by auto
  have "queued p' = {}" if "\<not> isl r" using q act that eq by (simp add: queued_def pairs_of_def)
  then show ?thesis using t1 by (auto simp: eq sched live_def)
qed

subsection \<open>Before and after the stream\<close>

context reopenable_store
begin

lemma prepare_spec:
  assumes env: "st = env_store env" and "inv s" and "st_initialize st s = (Inr (), s1)"
    and "st_getCurrentState st s1 = (sr, s2)"
    and act: "\<not> skipUpload opts" "\<not> dryRun opts" and "st_deleteOrphanedChunks st \<noteq> None"
    and "\<not> store_changed st db" and run: "prepare env opts False plan db s2 = (r, s3)"
  shows "inv s3 \<and> writes_to (docs s1) (without_files (toDelete (changes plan)) (docs s1)) r (docs s3)"
proof -
  have i1: "inv s1" using inv_initialize [OF assms(2)] assms(3) by simp
  have i2: "inv s2" and d2: "docs s2 = docs s1" using state_law [OF i1 assms(4)] by blast+
  have up: "prepareUpdate st (uploader_retry opts) (env_pick env) db (toDelete (changes plan)) [] False s2 = (r, s3)"
    using run env act assms(7) by (auto simp: prepare_def)
  obtain r0 s0 where init: "st_initialize st s2 = (r0, s0)" by (cases "st_initialize st s2")
  have d0: "docs s0 = docs s1" using reopen_law [OF assms(2-4)] init d2 by simp
  show ?thesis
  proof (cases r0)
    case (Inl e)
    then have "r = Inl e" "s3 = s0" using up init by (simp_all add: prepareUpdate_def)
    then show ?thesis using d0 inv_initialize [OF i2] init by (simp add: writes_to_def)
  next
    case (Inr u)
    then have "st_initialize st s2 = (Inr (), s0)" using init by simp
    from prepareUpdate_spec [OF i2 up this] show ?thesis using assms(8) d0 by simp
  qed
qed

lemma finish_spec:
  assumes env: "st = env_store env" and "inv (p_store p)"
    and act: "\<not> skipUpload opts" "\<not> dryRun opts" and "st_deleteOrphanedChunks st \<noteq> None"
    and run: "finish env opts False p = (r, s2)"
  shows "(\<forall>k. docs s2 k = docs (p_store p) k \<or> docs s2 k = None)
    \<and> (\<forall>k d. docs (p_store p) k = Some d \<longrightarrow>
          (\<forall>(f, hs)\<in>set (fileNewHashes p). v_sourceFile d = f \<longrightarrow> k \<in> set hs) \<longrightarrow> docs s2 k = Some d)
    \<and> (\<not> isl r \<longrightarrow> (\<forall>k d. docs s2 k = Some d \<longrightarrow>
          (\<forall>(f, hs)\<in>set (fileNewHashes p). v_sourceFile d = f \<longrightarrow> k \<in> set hs)))"
proof -
  obtain dl where dl: "st_deleteOrphanedChunks st = Some dl" using assms(5) by blast
  obtain r1 s1 where clean: "clean_orphans dl (fileNewHashes p) (p_store p) = (r1, s1)"
    by (cases "clean_orphans dl (fileNewHashes p) (p_store p)")
  note spec = clean_orphans_spec [OF dl assms(2) clean]
  have "docs s2 = docs s1 \<and> (\<not> isl r \<longrightarrow> \<not> isl r1)"
  proof (cases r1)
    case (Inl e)
    then show ?thesis using run env act dl clean by (auto simp: finish_def)
  next
    case (Inr u)
    show ?thesis
    proof (cases "st_writeMeta st")
      case None
      then show ?thesis using run env act dl clean Inr by (auto simp: finish_def)
    next
      case (Some wm)
      then obtain vm where "wm vm s1 = (r, s2)" using run env act dl clean Inr by (auto simp: finish_def)
      then show ?thesis using meta_law [OF _ Some] spec Inr by simp
    qed
  qed
  then have eq: "docs s2 = docs s1" "\<not> isl r \<Longrightarrow> \<not> isl r1" by blast+
  note c = conjunct2 [OF spec]
  show ?thesis unfolding eq(1)
    by (intro conjI impI; (rule conjunct1 [OF c] conjunct1 [OF conjunct2 [OF c]]
          mp [OF conjunct2 [OF conjunct2 [OF c]]]; (rule eq(2), assumption)?))
qed

end

lemma toProcess_current: "set (toProcess (getChangedFiles prev cur)) \<subseteq> fst ` set cur"
  by (auto simp: getChangedFiles_def)

lemma toDelete_not_current: "set (toDelete (getChangedFiles prev cur)) \<inter> fst ` set cur = {}"
  by (force simp: getChangedFiles_def)

text \<open>The chunks a plan may still upload.\<close>

definition plan_hashes ::
  "('s, 'w) pipeline_env \<Rightarrow> (string \<times> file_state) list \<Rightarrow> run_plan \<Rightarrow> string set" where
  "plan_hashes env cur plan =
     fst ` (pairs_of (resumeEmbed plan) \<union> pairs_of (resumeUpload plan))
     \<union> (\<Union>f\<in>set (toProcess (changes plan)). denseTextHash ` set (chunks_of_file env cur f))"

lemma resumed_rows:
  assumes "(h, f) \<in> pairs_of (resumeEmbed (make_plan cwd False cur db raw))
      \<union> pairs_of (resumeUpload (make_plan cwd False cur db raw))"
  shows "(\<exists>r\<in>set (t_chunks db). dense_text_hash r = h \<and> source_file r = f)
    \<and> f \<notin> set (toProcess (changes (make_plan cwd False cur db raw)))
    \<and> f \<notin> set (toDelete (changes (make_plan cwd False cur db raw)))"
proof -
  have src: "sourceFile (the (row_to_embedded r)) = source_file r" if "dense_vector r \<noteq> None" for r
    using that by (auto simp: row_to_embedded_def row_to_chunk_def)
  show ?thesis using assms
    by (auto simp: make_plan_def Let_def pairs_of_def getPendingEmbedChunks_def getPendingUploadChunks_def
        rowsToEmbeddedChunks_def row_to_chunk_def row_to_embedded_hash src)
qed

lemma start_safe:
  assumes "attributed owner env cur db m" and "ok s" and "docs s = without_files (toDelete (changes plan)) m"
    and plan: "plan = make_plan cwd False cur db raw"
  shows "safe docs ok owner (set (toDelete (changes plan))) (dom (docs s)) (plan_hashes env cur plan)
    (start_pipe plan d s w)"
proof -
  have q: "queued (start_pipe plan d s w) = pairs_of (resumeEmbed plan) \<union> pairs_of (resumeUpload plan)"
    by (simp add: queued_def start_pipe_def)
  have "v_sourceFile x = owner k \<and> owner k \<notin> set (toDelete (changes plan))" if "docs s k = Some x" for k x
  proof -
    have "m k = Some x \<and> v_sourceFile x \<notin> set (toDelete (changes plan))"
      using that unfolding assms(3) without_files_def by (auto split: option.splits if_splits)
    moreover have "v_sourceFile x = owner k" if "m k = Some x"
      using assms(1) that unfolding attributed_def by blast
    ultimately show ?thesis by auto
  qed
  moreover have "owner h = f \<and> f \<notin> set (toDelete (changes plan)) \<and> h \<in> plan_hashes env cur plan"
    if hf: "(h, f) \<in> pairs_of (resumeEmbed plan) \<union> pairs_of (resumeUpload plan)" for h f
  proof -
    obtain r where "r \<in> set (t_chunks db)" "dense_text_hash r = h" "source_file r = f"
      and "f \<notin> set (toDelete (changes plan))"
      using resumed_rows hf unfolding plan by blast
    moreover have "h \<in> fst ` (pairs_of (resumeEmbed plan) \<union> pairs_of (resumeUpload plan))"
      using hf by force
    ultimately show ?thesis using assms(1) unfolding attributed_def plan_hashes_def by auto
  qed
  ultimately show ?thesis using assms(2) unfolding safe_def q by (simp add: start_pipe_def)
qed

text \<open>An incremental run that writes: not forced, same model, same store, and a store that can tell
  which hashes it has and clean the orphans of a file.\<close>

definition incremental :: "('s, 'w) pipeline_env \<Rightarrow> pipeline_options \<Rightarrow> virage_db \<Rightarrow> bool" where
  "incremental env opts db \<longleftrightarrow>
     \<not> opt_force opts \<and> \<not> skipUpload opts \<and> \<not> dryRun opts
     \<and> 0 < minEmbedBatch opts \<and> 0 < minUploadBatch opts
     \<and> (case getMeta db of None \<Rightarrow> True | Some m \<Rightarrow> \<not> embedding_changed (env_provider env) m)
     \<and> \<not> store_changed (env_store env) db
     \<and> st_existingHashes (env_store env) \<noteq> None \<and> st_deleteOrphanedChunks (env_store env) \<noteq> None"

text \<open>The outcome of a plan, in terms of the documents \<open>m\<close> before and \<open>m'\<close> after.\<close>

definition others_kept :: "run_plan \<Rightarrow> (string \<rightharpoonup> doc_view) \<Rightarrow> (string \<rightharpoonup> doc_view) \<Rightarrow> bool" where
  "others_kept plan m m' \<longleftrightarrow>
     (\<forall>f. f \<notin> set (toProcess (changes plan)) \<longrightarrow> f \<notin> set (toDelete (changes plan)) \<longrightarrow>
        doc_ids m f \<subseteq> doc_ids m' f)"

definition synchronised ::
  "('s, 'w) pipeline_env \<Rightarrow> (string \<times> file_state) list \<Rightarrow> virage_db \<Rightarrow> run_plan
   \<Rightarrow> (string \<rightharpoonup> doc_view) \<Rightarrow> (string \<rightharpoonup> doc_view) \<Rightarrow> bool" where
  "synchronised env cur db plan m m' \<longleftrightarrow>
     (\<forall>f\<in>set (toProcess (changes plan)).
        doc_ids m' f = denseTextHash ` set (chunks_of_file env cur f))
     \<and> (\<forall>f\<in>set (toDelete (changes plan)). doc_ids m' f = {})
     \<and> (\<forall>f. f \<notin> set (toProcess (changes plan)) \<longrightarrow> f \<notin> set (toDelete (changes plan)) \<longrightarrow>
          doc_ids m' f \<subseteq> doc_ids m f \<union> {h. \<exists>r\<in>set (t_chunks db). dense_text_hash r = h \<and> source_file r = f})"

lemma safe_owner:
  "safe docs ok owner dead base fresh p \<Longrightarrow> docs (p_store p) k = Some d \<Longrightarrow> v_sourceFile d = owner k"
  by (simp add: safe_def)

lemma conclude_docs:
  assumes laws: "reopenable_store (env_store env) docs ok" and "ok (p_store p)"
    and act: "\<not> skipUpload opts" "\<not> dryRun opts" and orph: "st_deleteOrphanedChunks (env_store env) \<noteq> None"
    and out: "conclude env opts False plan (r4, p) = (r, db', s', w')"
    and noted: "\<not> isl r4 \<Longrightarrow> set (fileNewHashes p) = (\<lambda>f. (f, h f)) ` P"
  shows "(\<forall>k. docs s' k = docs (p_store p) k \<or> docs s' k = None)
    \<and> (\<forall>k d. docs (p_store p) k = Some d \<longrightarrow> v_sourceFile d \<notin> P \<longrightarrow> docs s' k = Some d)
    \<and> (\<not> isl r \<longrightarrow> \<not> isl r4 \<and> r = Inr (length (toProcess (changes plan)), length (toDelete (changes plan)))
         \<and> (\<forall>k d. docs (p_store p) k = Some d \<longrightarrow> v_sourceFile d \<in> P \<longrightarrow>
                docs s' k = (if k \<in> set (h (v_sourceFile d)) then Some d else None)))"
proof (cases r4)
  case (Inl e)
  then have "r = Inl e" "s' = p_store p" using out by (auto simp: conclude_def)
  then show ?thesis by simp
next
  case (Inr u)
  obtain r5 s5 where f: "finish env opts False p = (r5, s5)" by (cases "finish env opts False p")
  have s': "s' = s5" "\<not> isl r \<Longrightarrow> \<not> isl r5"
    and r: "\<not> isl r5 \<Longrightarrow> r = Inr (length (toProcess (changes plan)), length (toDelete (changes plan)))"
    using out f Inr by (cases r5; auto simp: conclude_def)+
  have noted': "set (fileNewHashes p) = (\<lambda>f. (f, h f)) ` P" using noted Inr by simp
  note spec = reopenable_store.finish_spec [OF laws refl assms(2) act orph f, unfolded noted']
  have a: "docs s' k = docs (p_store p) k \<or> docs s' k = None" for k
    unfolding s'(1) by (rule HOL.spec [OF conjunct1 [OF spec]])
  have b: "docs s' k = Some d" if "docs (p_store p) k = Some d"
      "v_sourceFile d \<in> P \<longrightarrow> k \<in> set (h (v_sourceFile d))" for k d
  proof -
    have "\<forall>(f, hs)\<in>(\<lambda>f. (f, h f)) ` P. v_sourceFile d = f \<longrightarrow> k \<in> set hs" using that(2) by auto
    then show ?thesis unfolding s'(1) using conjunct1 [OF conjunct2 [OF spec]] that(1) by blast
  qed
  have c: "k \<in> set (h (v_sourceFile d))" if "\<not> isl r" "docs s' k = Some d" "v_sourceFile d \<in> P" for k d
  proof -
    have "\<forall>(f, hs)\<in>(\<lambda>f. (f, h f)) ` P. v_sourceFile d = f \<longrightarrow> k \<in> set hs"
      using conjunct2 [OF conjunct2 [OF spec]] s'(2) that(1,2) unfolding s'(1) by blast
    then show ?thesis using that(3) by auto
  qed
  have d: "docs s' k = (if k \<in> set (h (v_sourceFile d)) then Some d else None)"
    if nl: "\<not> isl r" and d: "docs (p_store p) k = Some d" "v_sourceFile d \<in> P" for k d
  proof (cases "k \<in> set (h (v_sourceFile d))")
    case True
    then show ?thesis using b [OF d(1)] by simp
  next
    case False
    then have "docs s' k \<noteq> Some d" using c [OF nl _ d(2)] by blast
    then have "docs s' k = None" using a [of k] d(1) by metis
    then show ?thesis using False by simp
  qed
  have e: "\<not> isl r4 \<and> r = Inr (length (toProcess (changes plan)), length (toDelete (changes plan)))"
    if "\<not> isl r" using s'(2) [OF that] r Inr by simp
  have b': "docs s' k = Some d" if "docs (p_store p) k = Some d" "v_sourceFile d \<notin> P" for k d
    by (rule b [OF that(1)]) (simp add: that(2))
  show ?thesis
    by (intro conjI allI impI) (rule a b' d conjunct1 [OF e] conjunct2 [OF e]; assumption)+
qed

lemma execute_sync:
  assumes laws: "reopenable_store (env_store env) docs ok" and s: "ok s"
    and init: "st_initialize (env_store env) s = (Inr (), s1)"
    and state: "st_getCurrentState (env_store env) s1 = (Inr raw, s2)"
    and inc: "incremental env opts db" and sched: "\<And>fs. mset (schedule env fs) = mset fs"
    and attr: "attributed owner env cur db (docs s1)"
    and plan: "plan = make_plan (env_cwd env) False cur db raw"
    and run: "execute_plan env opts False cur em plan db s2 w = Some (r, db', s', w')"
  shows "others_kept plan (docs s1) (docs s')
    \<and> (\<not> isl r \<longrightarrow> synchronised env cur db plan (docs s1) (docs s')
         \<and> r = Inr (length (toProcess (changes plan)), length (toDelete (changes plan))))"
proof -
  let ?P = "set (toProcess (changes plan))" and ?D = "set (toDelete (changes plan))"
  let ?h = "\<lambda>f. map denseTextHash (chunks_of_file env cur f)"
  note i = inc [unfolded incremental_def]
  have vlaws: "vector_store_laws (env_store env) docs ok" using laws by (simp add: reopenable_store_def)
  have prep: "ok s3 \<and> writes_to (docs s1) (without_files (toDelete (changes plan)) (docs s1)) r3 (docs s3)"
    if "prepare env opts False plan db s2 = (r3, s3)" for r3 s3
    using reopenable_store.prepare_spec [OF laws refl s init state _ _ _ _ that] i by blast
  have own1: "v_sourceFile d = owner k" if "docs s1 k = Some d" for k d
    using attr that by (simp add: attributed_def)
  have kept_prep: "docs s3 k = Some d"
    if "prepare env opts False plan db s2 = (r3, s3)" "docs s1 k = Some d" "v_sourceFile d \<notin> ?D" for r3 s3 k d
    using prep [OF that(1)] that(2,3) unfolding writes_to_def without_files_def
    by (auto split: option.splits if_splits)
  show ?thesis
  proof (cases rule: execute_plan_cases [of env opts False plan db s2 cur em w])
    case (not_prepared e s3)
    then have "r = Inl e" "s' = s3" using run by auto
    then show ?thesis using kept_prep [OF not_prepared(1)] by (auto simp: others_kept_def doc_ids_def)
  next
    case (not_warm e s3 w3)
    then have "r = Inl e" "s' = s3" using run by auto
    then show ?thesis using kept_prep [OF not_warm(1)] by (auto simp: others_kept_def doc_ids_def)
  next
    case (streamed s3 w1)
    define p0 where "p0 = start_pipe plan (fold deleteBySourceFile (toDelete (changes plan)) db) s3 w1"
    obtain r4 p where st: "stream env opts False (pipeline_meta env em \<lfloor>env_clock env w1 0\<rfloor>) cur
        (toProcess (changes plan)) p0 = Some (r4, p)"
      and out: "conclude env opts False plan (r4, p) = (r, db', s', w')"
      using run streamed(3) by (auto simp: p0_def)
    have d3: "docs s3 = without_files (toDelete (changes plan)) (docs s1)" and ok3: "ok s3"
      using prep [OF streamed(1)] by (simp_all add: writes_to_def)
    have chs: "owner (denseTextHash c) = f \<and> sourceFile c = f \<and> f \<notin> ?D \<and> denseTextHash c \<in> plan_hashes env cur plan"
      if "f \<in> ?P" "c \<in> set (chunks_of_file env cur f)" for f c
    proof -
      have ch: "changes plan = getChangedFiles (previous_state (env_cwd env) False db raw) cur"
        by (simp add: plan make_plan_def Let_def)
      have f: "f \<in> fst ` set cur" using that(1) toProcess_current unfolding ch by (rule subsetD [rotated])
      have "f \<notin> ?D" using f toDelete_not_current [of "previous_state (env_cwd env) False db raw" cur]
        unfolding ch by blast
      moreover have "owner (denseTextHash c) = f \<and> sourceFile c = f"
        using f that(2) attr unfolding attributed_def by blast
      ultimately show ?thesis using that unfolding plan_hashes_def by blast
    qed
    have start: "safe docs ok owner ?D (dom (docs s3)) (plan_hashes env cur plan) p0" "fileNewHashes p0 = []"
      using start_safe [where docs = docs and ok = ok and s = s3, OF attr ok3 d3 plan]
      by (simp_all add: p0_def start_pipe_def)
    have sset: "set (schedule env (toProcess (changes plan))) = ?P"
      by (rule mset_eq_setD [OF sched])
    have safe: "safe docs ok owner ?D (dom (docs s3)) (plan_hashes env cur plan) p"
      and full: "\<not> isl r4 \<Longrightarrow> (\<forall>f\<in>?P. set (?h f) \<subseteq> dom (docs (p_store p)))
        \<and> set (fileNewHashes p) = (\<lambda>f. (f, ?h f)) ` ?P"
      using stream_sync [OF vlaws _ _ _ _ _ _ sset chs start st] i by auto
    have mine: "v_sourceFile d = owner k" if "docs (p_store p) k = Some d" for k d
      using safe_owner [OF safe that] .
    have okp: "ok (p_store p)" using safe by (simp add: safe_def)
    have "set (fileNewHashes p) = (\<lambda>f. (f, ?h f)) ` ?P" if "\<not> isl r4" using full [OF that] by blast
    note c = conclude_docs [OF laws okp _ _ _ out this]
    have sub: "docs s' k = docs (p_store p) k \<or> docs s' k = None" for k
      by (rule spec [OF conjunct1 [OF c]]) (use i in blast)+
    have keep: "docs s' k = Some d" if "docs (p_store p) k = Some d" "v_sourceFile d \<notin> ?P" for k d
      using conjunct1 [OF conjunct2 [OF c]] i that by blast
    have fin: "\<not> isl r4 \<and> r = Inr (length (toProcess (changes plan)), length (toDelete (changes plan)))
          \<and> (\<forall>k d. docs (p_store p) k = Some d \<longrightarrow> v_sourceFile d \<in> ?P \<longrightarrow>
                docs s' k = (if k \<in> set (?h (v_sourceFile d)) then Some d else None))" if nl: "\<not> isl r"
      by (rule mp [OF conjunct2 [OF conjunct2 [OF c]] nl]) (use i in blast)+
    have kept: "docs s' k \<noteq> None \<and> owner k = f"
      if "docs s1 k = Some d" "v_sourceFile d = f" "f \<notin> ?P" "f \<notin> ?D" for k d f
    proof -
      have "docs s3 k = Some d" using kept_prep [OF streamed(1) that(1)] that(2,4) by simp
      then have "k \<in> dom (docs (p_store p))" using safe unfolding safe_def by blast
      then obtain d' where d': "docs (p_store p) k = Some d'" by blast
      have "v_sourceFile d' = f" using mine [OF d'] own1 [OF that(1)] that(2) by simp
      then show ?thesis using keep [OF d'] that(3) mine [OF d'] by simp
    qed
    have src: "v_sourceFile d = owner k" if "docs s' k = Some d" for k d
      using mine [of k d] sub [of k] that by simp
    have "others_kept plan (docs s1) (docs s')"
      unfolding others_kept_def doc_ids_def using kept src by fastforce
    moreover have "synchronised env cur db plan (docs s1) (docs s')" if nl: "\<not> isl r"
    proof -
      note f4 = fin [OF nl]
      have full': "\<forall>f\<in>?P. set (?h f) \<subseteq> dom (docs (p_store p))" using full f4 by blast
      have was: "docs (p_store p) k = Some d" if "docs s' k = Some d" for k d
        using sub [of k] that by simp
      have processed: "doc_ids (docs s') f = denseTextHash ` set (chunks_of_file env cur f)" if f: "f \<in> ?P" for f
      proof (intro equalityI subsetI)
        fix k assume "k \<in> doc_ids (docs s') f"
        then obtain d where d: "docs s' k = Some d" "v_sourceFile d = f" by (auto simp: doc_ids_def)
        then have "docs s' k = (if k \<in> set (?h f) then Some d else None)" using f4 was f by blast
        then show "k \<in> denseTextHash ` set (chunks_of_file env cur f)" using d(1) by (simp split: if_splits)
      next
        fix k assume k: "k \<in> denseTextHash ` set (chunks_of_file env cur f)"
        then have "k \<in> set (?h f)" by simp
        then obtain d where d: "docs (p_store p) k = Some d" using full' f by blast
        have "owner k = f" using k chs [OF f] by auto
        then have "v_sourceFile d = f" using mine [OF d] by simp
        then have "docs s' k = Some d" using f4 d f k by auto
        then show "k \<in> doc_ids (docs s') f" using \<open>v_sourceFile d = f\<close> by (auto simp: doc_ids_def)
      qed
      have removed: "doc_ids (docs s') f = {}" if f: "f \<in> ?D" for f
      proof -
        have "v_sourceFile d \<noteq> f" if "docs s' k = Some d" for k d
        proof -
          have "owner k \<notin> ?D" using safe was [OF that] unfolding safe_def by blast
          then show ?thesis using src [OF that] f by auto
        qed
        then show ?thesis by (auto simp: doc_ids_def)
      qed
      have rest: "doc_ids (docs s') f
          \<subseteq> doc_ids (docs s1) f \<union> {h. \<exists>r\<in>set (t_chunks db). dense_text_hash r = h \<and> source_file r = f}"
        if f: "f \<notin> ?P" for f
      proof
        fix k assume "k \<in> doc_ids (docs s') f"
        then obtain d where d: "docs s' k = Some d" "v_sourceFile d = f" by (auto simp: doc_ids_def)
        have ow: "owner k = f" using src [OF d(1)] d(2) by simp
        have "k \<in> dom (docs s3) \<union> plan_hashes env cur plan" using safe was [OF d(1)] unfolding safe_def by blast
        then consider (old) d3 where "docs s3 k = Some d3"
          | (res) g where "(k, g) \<in> pairs_of (resumeEmbed plan) \<union> pairs_of (resumeUpload plan)"
          | (new) g where "g \<in> ?P" "k \<in> denseTextHash ` set (chunks_of_file env cur g)"
          unfolding plan_hashes_def by (auto; blast)
        then show "k \<in> doc_ids (docs s1) f
            \<union> {h. \<exists>r\<in>set (t_chunks db). dense_text_hash r = h \<and> source_file r = f}"
        proof cases
          case old
          then have "docs s1 k = Some d3"
            unfolding d3 without_files_def by (auto split: option.splits if_splits)
          then show ?thesis using own1 ow by (auto simp: doc_ids_def)
        next
          case res
          then obtain row where "row \<in> set (t_chunks db)" "dense_text_hash row = k" "source_file row = g"
            using resumed_rows unfolding plan by blast
          moreover from this have "owner k = g" using attr unfolding attributed_def by blast
          ultimately show ?thesis using ow by auto
        next
          case new
          then show ?thesis using chs ow f by auto
        qed
      qed
      show ?thesis unfolding synchronised_def using processed removed rest by blast
    qed
    ultimately show ?thesis using fin by blast
  qed
qed

subsection \<open>The contract\<close>

lemma incremental_check_model: "incremental env opts db \<Longrightarrow> check_model (env_provider env) (opt_force opts) db = (False, db)"
  by (cases "getMeta db") (simp_all add: incremental_def check_model_def)

lemma nothing_synchronised:
  "nothing_to_do False plan \<Longrightarrow> others_kept plan m m \<and> synchronised env cur db plan m m"
  by (auto simp: nothing_to_do_def others_kept_def synchronised_def)

text \<open>C19. An incremental run, in whatever order its files are chunked, leaves the documents of
  unchanged files in the store on every outcome, errors included. When it returns, it reports the
  numbers of files processed and deleted, the documents of each processed file are exactly its
  chunks, those of deleted files are gone, and unchanged files gained at most the chunks an earlier
  run had left in the staging database.\<close>

theorem run_synchronises_store:
  assumes "reopenable_store (env_store env) docs ok" and "ok s"
    and "st_initialize (env_store env) s = (Inr (), s1)"
    and "st_getCurrentState (env_store env) s1 = (Inr raw, s2)"
    and "incremental env opts db" and "\<And>fs. mset (schedule env fs) = mset fs"
    and "attributed owner env cur db (docs s1)"
    and "run env opts cur db s w = Some (r, db', s', w')"
  shows "let plan = make_plan (env_cwd env) False cur db raw
    in others_kept plan (docs s1) (docs s')
       \<and> (\<not> isl r \<longrightarrow> synchronised env cur db plan (docs s1) (docs s')
            \<and> r = Inr (length (toProcess (changes plan)), length (toDelete (changes plan))))"
proof -
  define plan where "plan = make_plan (env_cwd env) False cur db raw"
  have vlaws: "vector_store_laws (env_store env) docs ok" using assms(1) by (simp add: reopenable_store_def)
  have "ok s1" using vector_store_laws.inv_initialize [OF vlaws assms(2)] assms(3) by simp
  then have d2: "docs s2 = docs s1" using vector_store_laws.state_law [OF vlaws _ assms(4)] by blast
  have run: "(if nothing_to_do False plan then Some (Inr (0, 0), db, s2, w)
      else if refuses_deletion opts False cur plan
      then Some (Inl (Err RagError ''Refusing to delete indexed source files without --force''), db, s2, w)
      else execute_plan env opts False cur (getMeta db) plan db s2 w) = Some (r, db', s', w')"
    using assms(8) incremental_check_model [OF assms(5)] assms(3,4)
    unfolding plan_def by (simp add: run_def Let_def split del: if_split)
  consider (none) "nothing_to_do False plan" "r = Inr (0, 0)" "s' = s2"
    | (refused) "isl r" "s' = s2"
    | (executed) "execute_plan env opts False cur (getMeta db) plan db s2 w = Some (r, db', s', w')"
    using run by (auto split: if_splits)
  then have "others_kept plan (docs s1) (docs s')
       \<and> (\<not> isl r \<longrightarrow> synchronised env cur db plan (docs s1) (docs s')
            \<and> r = Inr (length (toProcess (changes plan)), length (toDelete (changes plan))))"
  proof cases
    case none
    have "length (toProcess (changes plan)) = 0 \<and> length (toDelete (changes plan)) = 0"
      using none(1) by (simp add: nothing_to_do_def)
    then show ?thesis using nothing_synchronised [OF none(1)] none(2,3) d2 by simp
  next
    case refused
    then show ?thesis using d2 by (simp add: others_kept_def)
  next
    case executed
    show ?thesis by (rule execute_sync [OF assms(1-7) plan_def executed])
  qed
  then show ?thesis unfolding plan_def Let_def .
qed

text \<open>A tree of one file with one chunk, and the file-backed store.\<close>

definition sample_env :: "(file_store, unit) pipeline_env" where
  "sample_env =
     \<lparr>env_provider = sample_provider\<lparr>ep_embed := (\<lambda>t w. (Inr [], w)),
        ep_embedBatch := Some (\<lambda>ts w. (Inr (map (\<lambda>_. []) ts), w))\<rparr>,
      env_store = FileVectorStore, env_sha = (\<lambda>_. ''x''), env_matcher = (\<lambda>_ _ _ _. False),
      env_runner = (\<lambda>e p k. Inr [\<lparr>denseText = js ''t'', sparseText = js ''t'', denseTextHash = ''h-'' @ p,
         sparseTextGeneratorId = ''s'', metadataGeneratorId = ''m'', metadata = [], sourceFile = [],
         commitHash = [], content = None\<rparr>]),
      env_clock = (\<lambda>_ _. 0), env_cwd = ''/r'', env_pick = hd, schedule = rev\<rparr>"

definition sample_options :: pipeline_options where
  "sample_options = \<lparr>opt_force = False, skipUpload = False, dryRun = False, opt_rateLimitMs = None,
      opt_batchSize = None, opt_maxBatchChars = None,
      opt_retry = Some \<lparr>maxRetries = Some 0, retryDelayMs = Some 0, retryBackoffFactor = Some 0, isRetryable = None\<rparr>,
      opt_concurrency = None, minEmbeddingBatchSize = Some 1, minUploadingBatchSize = Some 1,
      opt_minIngestionBatchSize = None\<rparr>"

definition sample_tree :: "string \<Rightarrow> (string \<times> file_state) list" where
  "sample_tree rev_a = [(''a'', \<lparr>fs_commitHash = rev_a, fs_entries =
     [\<lparr>chunker = \<lparr>chunkerName = ''c'', chunkerVersion = None, patterns = []\<rparr>, include_globs = None,
       ignore_globs = None, fileSetTags = [], tagRules = [], chunkerKey = ''k'', has_templates = False,
       fileSetName = ''fs''\<rparr>]\<rparr>)]"

definition sample_store :: file_store where
  "sample_store = \<lparr>fs_data = [], disk = None, writable = True\<rparr>"

declare flushUpload_loop.simps [code] flushEmbed_loop.simps [code] batch_from.simps [code]

lemma run_synchronises_store_witness:
  "case run sample_env sample_options (sample_tree ''r1'') empty_db sample_store () of
     Some (r, _, s', _) \<Rightarrow> r = Inr (1, 0) \<and> doc_ids (file_docs s') ''a'' = {''h-a''}
   | None \<Rightarrow> False"
proof -
  let ?plan = "make_plan ''/r'' False (sample_tree ''r1'') empty_db []"
  have ev: "case run sample_env sample_options (sample_tree ''r1'') empty_db sample_store () of
      Some (r, _) \<Rightarrow> \<not> isl r | None \<Rightarrow> False" by code_simp
  then obtain r db' s' w' where run: "run sample_env sample_options (sample_tree ''r1'') empty_db sample_store ()
      = Some (r, db', s', w')" and r: "\<not> isl r"
    by (auto split: option.splits prod.splits)
  have cs: "map (\<lambda>c. (denseTextHash c, sourceFile c)) (chunks_of_file sample_env (sample_tree ''r1'') ''a'')
      = [(''h-a'', ''a'')]" by code_simp
  have todo: "toProcess (changes ?plan) = [''a'']" "toDelete (changes ?plan) = []" by code_simp+
  have "file_inv sample_store" "reopenable_store (env_store sample_env) file_docs file_inv"
    by (simp_all add: file_inv_def sample_store_def sample_env_def file_store_reopenable)
  moreover have "st_initialize (env_store sample_env) sample_store = (Inr (), sample_store)"
    "st_getCurrentState (env_store sample_env) sample_store = (Inr [], sample_store)"
    by (simp_all add: sample_env_def FileVectorStore_def file_initialize_def file_getCurrentState_def sample_store_def)
  moreover have "incremental sample_env sample_options empty_db"
    by (simp add: incremental_def sample_env_def sample_options_def minEmbedBatch_def minUploadBatch_def
        getMeta_def empty_db_def get_row_def store_changed_def FileVectorStore_def)
  moreover have "mset (schedule sample_env fs) = mset fs" for fs by (simp add: sample_env_def)
  moreover have "attributed (\<lambda>_. ''a'') sample_env (sample_tree ''r1'') empty_db (file_docs sample_store)"
    using cs by (auto simp: attributed_def sample_store_def file_docs_def get_row_def empty_db_def sample_tree_def)
  ultimately have "let plan = make_plan (env_cwd sample_env) False (sample_tree ''r1'') empty_db []
    in others_kept plan (file_docs sample_store) (file_docs s')
       \<and> (\<not> isl r \<longrightarrow> synchronised sample_env (sample_tree ''r1'') empty_db plan (file_docs sample_store) (file_docs s')
            \<and> r = Inr (length (toProcess (changes plan)), length (toDelete (changes plan))))"
    using run_synchronises_store [OF _ _ _ _ _ _ _ run] by blast
  then have "synchronised sample_env (sample_tree ''r1'') empty_db ?plan (file_docs sample_store) (file_docs s')"
    and "r = Inr (1, 0)"
    using r todo by (simp_all add: Let_def sample_env_def)
  then have "doc_ids (file_docs s') ''a'' = fst ` set [(''h-a'', ''a'')] \<and> r = Inr (1, 0)"
    using todo by (simp add: synchronised_def image_image flip: cs)
  then show ?thesis by (simp add: run)
qed

text \<open>
  A file whose revision changes but whose chunks do not keeps its old revision in the store, since
  chunks the store has are not written again; every later run then finds it changed and chunks it
  anew.
\<close>

lemma unchanged_chunks_processed_again:
  "case run sample_env sample_options (sample_tree ''r1'') empty_db sample_store () of
     None \<Rightarrow> False
   | Some (_, db1, s1, _) \<Rightarrow>
       (case run sample_env sample_options (sample_tree ''r2'') db1 s1 () of
          None \<Rightarrow> False
        | Some (_, db2, s2, _) \<Rightarrow>
            fst (the (run sample_env sample_options (sample_tree ''r2'') db2 s2 ())) = Inr (1, 0))"
  by code_simp

end
