(* ===== verification/Rrf.thy ===== *)
theory Rrf
  imports Interfaces
begin

section \<open>Reciprocal rank fusion\<close>

text \<open>
  The search results of \<open>src/packages/virage-core/src/interfaces/vector-store.ts\<close> and their
  fusion, \<open>rrfMerge\<close> of \<open>src/packages/virage-core/src/core/rrf.ts\<close>. The two \<open>Map\<close>s of the code are
  association lists in insertion order, so the stable sort breaks ties as the code does. Scores
  are exact fractions.
\<close>

record search_result =
  sr_id :: string
  sr_denseText :: jstext
  sr_sparseText :: jstext
  sr_metadata :: json_obj
  sr_similarity :: rat
  sr_sourceFile :: "string option"
  sr_ingestedAt :: "int option"
  sr_sparseTextGeneratorId :: "string option"
  sr_metadataGeneratorId :: "string option"

definition RRF_K :: nat where
  "RRF_K = 60"

definition or_zero :: "rat option \<Rightarrow> rat" where
  "or_zero s = (case s of None \<Rightarrow> 0 | Some x \<Rightarrow> x)"

text \<open>One loop over a result list: \<open>w\<close> is the weight of the list, \<open>i\<close> the loop index.\<close>

fun add_scores :: "rat \<Rightarrow> nat \<Rightarrow> search_result list \<Rightarrow> (string \<times> rat) list \<Rightarrow> (string \<times> rat) list" where
  "add_scores w i [] m = m"
| "add_scores w i (r # rs) m =
     add_scores w (i + 1) rs
       (AList.update (sr_id r) (or_zero (map_of m (sr_id r)) + w * (1 / of_nat (RRF_K + i + 1))) m)"

definition index_vector :: "search_result list \<Rightarrow> (string \<times> search_result) list" where
  "index_vector rs = fold (\<lambda>r m. AList.update (sr_id r) r m) rs []"

definition index_bm25 ::
  "search_result list \<Rightarrow> (string \<times> search_result) list \<Rightarrow> (string \<times> search_result) list" where
  "index_bm25 rs m =
     fold (\<lambda>r m. if map_of m (sr_id r) = None then AList.update (sr_id r) r m else m) rs m"

definition fused_scores :: "search_result list \<Rightarrow> search_result list \<Rightarrow> rat \<Rightarrow> (string \<times> rat) list" where
  "fused_scores vectorResults bm25Results hybridAlpha =
     add_scores (1 - hybridAlpha) 0 bm25Results (add_scores hybridAlpha 0 vectorResults [])"

text \<open>\<open>Math.max\<close> of no value is \<open>-Infinity\<close>; it is not used then, since no entry is mapped.\<close>

definition max_score :: "(string \<times> rat) list \<Rightarrow> rat" where
  "max_score m = (case map snd m of [] \<Rightarrow> 0 | x # xs \<Rightarrow> fold max xs x)"

definition by_score :: "(string \<times> rat) list \<Rightarrow> (string \<times> rat) list" where
  "by_score m = sort_key (\<lambda>e. - snd e) m"

definition rrfMerge ::
  "search_result list \<Rightarrow> search_result list \<Rightarrow> nat \<Rightarrow> rat \<Rightarrow> search_result list" where
  "rrfMerge vectorResults bm25Results topK hybridAlpha =
     (let scores = fused_scores vectorResults bm25Results hybridAlpha;
          byId = index_bm25 bm25Results (index_vector vectorResults);
          maxScore = max_score scores
      in map (\<lambda>(i, score). (the (map_of byId i))
               \<lparr>sr_similarity := if maxScore > 0 then score / maxScore else 0\<rparr>)
           (take topK (by_score scores)))"

definition default_hybridAlpha :: rat where
  "default_hybridAlpha = 6 / 10"

subsection \<open>The scores\<close>

text \<open>The contribution of one list to an id, stated without the loop.\<close>

definition rank_score :: "rat \<Rightarrow> search_result list \<Rightarrow> string \<Rightarrow> rat" where
  "rank_score w rs k =
     sum_list (map (\<lambda>(i, r). if sr_id r = k then w / of_nat (61 + i) else 0) (enumerate 0 rs))"

lemma rank_score_offset:
  "map_of (add_scores w i rs m) k =
     (if k \<in> sr_id ` set rs
      then Some (or_zero (map_of m k)
        + sum_list (map (\<lambda>(j, r). if sr_id r = k then w / of_nat (61 + j) else 0) (enumerate i rs)))
      else map_of m k)"
proof (induction rs arbitrary: i m)
  case Nil
  then show ?case by simp
next
  case (Cons r rs)
  have none: "sum_list (map (\<lambda>(j, r). if sr_id r = k then w / of_nat (61 + j) else 0) (enumerate n rs)) = 0"
    if "k \<notin> sr_id ` set rs" for n
    using that by (induction rs arbitrary: n) auto
  show ?case
    using none [of "Suc i"]
    by (auto simp: Cons.IH update_conv' or_zero_def RRF_K_def add.commute add.left_commute)
qed

definition fused_rank :: "search_result list \<Rightarrow> search_result list \<Rightarrow> rat \<Rightarrow> string \<Rightarrow> rat" where
  "fused_rank v b a k = rank_score a v k + rank_score (1 - a) b k"

lemma rank_score_none: "k \<notin> sr_id ` set rs \<Longrightarrow> rank_score w rs k = 0"
proof -
  have "sum_list (map (\<lambda>(j, r). if sr_id r = k then w / of_nat (61 + j) else 0) (enumerate n rs)) = (0 :: rat)"
    if "k \<notin> sr_id ` set rs" for n
    using that by (induction rs arbitrary: n) auto
  then show "k \<notin> sr_id ` set rs \<Longrightarrow> rank_score w rs k = 0" by (simp add: rank_score_def)
qed

lemma rank_score_nonneg: "0 \<le> w \<Longrightarrow> 0 \<le> rank_score w rs k"
  unfolding rank_score_def by (rule sum_list_nonneg) (auto split: if_splits)

lemma fused_scores_map:
  "map_of (fused_scores v b a) k =
     (if k \<in> sr_id ` (set v \<union> set b) then Some (fused_rank v b a k) else None)"
  using rank_score_none [of k v] rank_score_none [of k b]
  by (auto simp: fused_scores_def rank_score_offset fused_rank_def or_zero_def simp flip: rank_score_def)

lemma add_scores_distinct:
  "distinct (map fst m) \<Longrightarrow> distinct (map fst (add_scores w i rs m))"
  by (induction w i rs m rule: add_scores.induct) (simp_all add: distinct_update)

lemma fused_scores_distinct: "distinct (map fst (fused_scores v b a))"
  by (simp add: fused_scores_def add_scores_distinct)

lemma fused_scores_keys: "fst ` set (fused_scores v b a) = sr_id ` (set v \<union> set b)"
proof -
  have "fst ` set m = dom (map_of m)" for m :: "(string \<times> rat) list" by (simp add: dom_map_of_conv_image_fst)
  then show ?thesis by (auto simp: fused_scores_map split: if_splits)
qed

lemma fused_scores_mem:
  "(k, x) \<in> set (fused_scores v b a) \<longleftrightarrow> k \<in> sr_id ` (set v \<union> set b) \<and> x = fused_rank v b a k"
  using map_of_eq_Some_iff [OF fused_scores_distinct, of v b a k x] by (auto simp: fused_scores_map split: if_splits)

lemma map_of_index_vector:
  "map_of (index_vector rs) k = find (\<lambda>r. sr_id r = k) (rev rs)"
proof (induction rs rule: rev_induct)
  case Nil
  then show ?case by (simp add: index_vector_def)
next
  case (snoc r rs)
  then show ?case by (simp add: index_vector_def update_conv')
qed

lemma map_of_index_bm25:
  "map_of (index_bm25 rs m) k = (case map_of m k of Some r \<Rightarrow> Some r | None \<Rightarrow> find (\<lambda>r. sr_id r = k) rs)"
  by (induction rs arbitrary: m) (auto simp: index_bm25_def update_conv' split: option.splits)

lemma find_SomeD: "find P xs = Some x \<Longrightarrow> P x \<and> x \<in> set xs"
  by (auto simp: find_Some_iff)

text \<open>The document shown for an id: the last vector result that has it, else the first keyword
  result.\<close>

definition shown_document :: "search_result list \<Rightarrow> search_result list \<Rightarrow> string \<Rightarrow> search_result option" where
  "shown_document v b k = (case find (\<lambda>r. sr_id r = k) (rev v) of
     Some r \<Rightarrow> Some r | None \<Rightarrow> find (\<lambda>r. sr_id r = k) b)"

lemma map_of_byId: "map_of (index_bm25 b (index_vector v)) k = shown_document v b k"
  by (simp add: map_of_index_bm25 map_of_index_vector shown_document_def split: option.splits)

lemma shown_document_id:
  assumes "k \<in> sr_id ` (set v \<union> set b)"
  obtains r where "shown_document v b k = Some r" and "sr_id r = k" and "r \<in> set v \<union> set b"
proof (cases "find (\<lambda>r. sr_id r = k) (rev v)")
  case (Some r)
  then show ?thesis using that [of r] find_SomeD [OF Some] by (simp add: shown_document_def)
next
  case None
  then have "k \<in> sr_id ` set b" using assms by (auto simp: find_None_iff)
  then obtain r where "find (\<lambda>r. sr_id r = k) b = Some r"
    by (cases "find (\<lambda>r. sr_id r = k) b") (auto simp: find_None_iff)
  then show ?thesis using None that [of r] find_SomeD [of "\<lambda>r. sr_id r = k" b r]
    by (simp add: shown_document_def)
qed

subsection \<open>The ranking\<close>

lemma fold_max_ge: "x \<le> fold max xs (x :: 'a :: linorder)" "y \<in> set xs \<Longrightarrow> y \<le> fold max xs x"
  using Max.set_eq_fold [of x xs] by (auto simp flip: Max.set_eq_fold)

lemma max_score_ge: "(k, x) \<in> set m \<Longrightarrow> x \<le> max_score m"
  using fold_max_ge by (cases m) (force simp: max_score_def)+

lemma max_score_mem: "m \<noteq> [] \<Longrightarrow> max_score m \<in> snd ` set m"
proof (cases m)
  case (Cons e es)
  have "fold max xs x \<in> insert x (set xs)" for xs and x :: rat
    using Max_in [of "set (x # xs)"] Max.set_eq_fold [of x xs] by simp
  from this [of "map snd es" "snd e"] show ?thesis using Cons by (simp add: max_score_def)
qed simp

lemma by_score_facts [simp]: "set (by_score m) = set m" "length (by_score m) = length m"
  "distinct (map fst (by_score m)) = distinct (map fst m)"
  by (simp_all add: by_score_def distinct_map)

lemma by_score_sorted: "sorted_wrt (\<lambda>e e'. snd e \<ge> snd e') (by_score m)"
  using sorted_sort_key [of "\<lambda>e. - snd e" m] unfolding by_score_def sorted_map by simp

lemma sorted_wrt_take_drop:
  "sorted_wrt R xs \<Longrightarrow> x \<in> set (take k xs) \<Longrightarrow> y \<in> set (drop k xs) \<Longrightarrow> R x y"
  by (metis append_take_drop_id sorted_wrt_append)

lemma rrfMerge_mem:
  assumes "r \<in> set (rrfMerge v b topK a)"
  obtains r0 where "r0 \<in> set v \<union> set b" and "shown_document v b (sr_id r) = Some r0"
    and "r = r0\<lparr>sr_similarity := sr_similarity r\<rparr>" and "sr_id r = sr_id r0"
    and "sr_similarity r = (if max_score (fused_scores v b a) > 0
          then fused_rank v b a (sr_id r) / max_score (fused_scores v b a) else 0)"
proof -
  obtain k x where kx: "(k, x) \<in> set (take topK (by_score (fused_scores v b a)))"
    and r: "r = (the (shown_document v b k))\<lparr>sr_similarity :=
        if max_score (fused_scores v b a) > 0 then x / max_score (fused_scores v b a) else 0\<rparr>"
    using assms by (auto simp: rrfMerge_def map_of_byId Let_def)
  from kx have k: "k \<in> sr_id ` (set v \<union> set b)" "x = fused_rank v b a k"
    by (auto dest!: in_set_takeD simp: fused_scores_mem)
  obtain r0 where "shown_document v b k = Some r0" "sr_id r0 = k" "r0 \<in> set v \<union> set b"
    using shown_document_id [OF k(1)] .
  then show ?thesis using that [of r0] r k by simp
qed

lemma rrfMerge_ids: "map sr_id (rrfMerge v b topK a) = map fst (take topK (by_score (fused_scores v b a)))"
proof -
  have "sr_id (the (shown_document v b (fst e))) = fst e" if "e \<in> set (take topK (by_score (fused_scores v b a)))" for e
  proof -
    have "fst e \<in> sr_id ` (set v \<union> set b)"
      using that fused_scores_mem [of "fst e" "snd e" v b a] by (auto dest!: in_set_takeD)
    then show ?thesis by (metis option.sel shown_document_id)
  qed
  then show ?thesis by (auto simp: rrfMerge_def map_of_byId Let_def case_prod_unfold)
qed

lemma fused_score_is_rank: "e \<in> set (by_score (fused_scores v b a)) \<Longrightarrow> snd e = fused_rank v b a (fst e)"
  using fused_scores_mem [of "fst e" "snd e" v b a] by simp

lemma fused_rank_nonneg: "0 \<le> a \<Longrightarrow> a \<le> 1 \<Longrightarrow> 0 \<le> fused_rank v b a k"
  by (simp add: fused_rank_def rank_score_nonneg)

lemma fused_rank_le_max: "r \<in> set v \<union> set b \<Longrightarrow> fused_rank v b a (sr_id r) \<le> max_score (fused_scores v b a)"
  by (rule max_score_ge [of "sr_id r"]) (auto simp: fused_scores_mem)

lemma by_rank_sorted:
  "sorted_wrt (\<lambda>e e'. fused_rank v b a (fst e) \<ge> fused_rank v b a (fst e')) (by_score (fused_scores v b a))"
  by (rule sorted_wrt_mono_rel [OF _ by_score_sorted]) (auto simp: fused_score_is_rank)

lemma rrfMerge_distinct: "distinct (map sr_id (rrfMerge v b topK a))"
proof -
  have "distinct (take topK (map fst (by_score (fused_scores v b a))))"
    by (rule distinct_take) (simp add: fused_scores_distinct)
  then show ?thesis by (simp add: rrfMerge_ids take_map)
qed

lemma rrfMerge_length: "length (rrfMerge v b topK a) = min topK (card (sr_id ` (set v \<union> set b)))"
proof -
  have "length (fused_scores v b a) = card (fst ` set (fused_scores v b a))"
    using distinct_card [OF fused_scores_distinct, of v b a] by simp
  then show ?thesis
    using arg_cong [OF rrfMerge_ids, of length] by (simp add: fused_scores_keys min.commute)
qed

lemma rrfMerge_sorted:
  "sorted_wrt (\<lambda>r r'. fused_rank v b a (sr_id r) \<ge> fused_rank v b a (sr_id r')) (rrfMerge v b topK a)"
proof -
  have "sorted_wrt (\<lambda>k k'. fused_rank v b a k \<ge> fused_rank v b a k')
      (map fst (take topK (by_score (fused_scores v b a))))"
    using sorted_wrt_take [OF by_rank_sorted [of v b a], where n = topK] by (simp add: sorted_wrt_map)
  then show ?thesis by (simp add: rrfMerge_ids [symmetric] sorted_wrt_map)
qed

lemma rrfMerge_left_out:
  assumes r: "r \<in> set v \<union> set b" and out: "sr_id r \<notin> sr_id ` set (rrfMerge v b topK a)"
    and r': "r' \<in> set (rrfMerge v b topK a)"
  shows "fused_rank v b a (sr_id r) \<le> fused_rank v b a (sr_id r')"
proof -
  let ?s = "by_score (fused_scores v b a)" and ?e = "(sr_id r, fused_rank v b a (sr_id r))"
  have ids: "sr_id ` set (rrfMerge v b topK a) = fst ` set (take topK ?s)"
    using arg_cong [OF rrfMerge_ids, of set, of v b topK a] by simp
  have "sr_id r' \<in> fst ` set (take topK ?s)" using r' by (simp flip: ids)
  then obtain e' where e': "e' \<in> set (take topK ?s)" "sr_id r' = fst e'" by blast
  have "?e \<in> set (take topK ?s @ drop topK ?s)" using r by (auto simp: fused_scores_mem)
  moreover have "?e \<notin> set (take topK ?s)" using out unfolding ids by force
  ultimately have "?e \<in> set (drop topK ?s)" by (metis Un_iff set_append)
  from sorted_wrt_take_drop [OF by_rank_sorted e'(1) this] show ?thesis using e'(2) by simp
qed

lemma rrfMerge_first:
  assumes "rrfMerge v b topK a \<noteq> []"
  shows "fused_rank v b a (sr_id (hd (rrfMerge v b topK a))) = max_score (fused_scores v b a)"
proof -
  let ?m = "fused_scores v b a"
  obtain e es where e: "by_score ?m = e # es" and hd: "sr_id (hd (rrfMerge v b topK a)) = fst e"
    using assms rrfMerge_ids [of v b topK a]
    by (cases "by_score ?m"; cases "rrfMerge v b topK a"; cases topK) auto
  have ne: "?m \<noteq> []" using e by (metis by_score_facts(2) length_0_conv list.distinct(1))
  obtain f where f: "f \<in> set (by_score ?m)" "max_score ?m = snd f"
    using max_score_mem [OF ne] by auto
  have mem: "(fst e, snd e) \<in> set ?m" using e by (metis by_score_facts(1) list.set_intros(1) prod.collapse)
  have "fused_rank v b a (fst f) \<le> fused_rank v b a (fst e)"
    using by_rank_sorted [of v b a] f(1) unfolding e by auto
  moreover have "fused_rank v b a (fst e) \<le> max_score ?m"
    using max_score_ge [OF mem] fused_score_is_rank [of e v b a] e by simp
  ultimately show ?thesis using hd f fused_score_is_rank [OF f(1)] by simp
qed

lemma rrfMerge_document:
  assumes "0 \<le> a" and "a \<le> 1" and "r \<in> set (rrfMerge v b topK a)"
  shows "(\<exists>r0 \<in> set v \<union> set b. r = r0\<lparr>sr_similarity := sr_similarity r\<rparr>)
    \<and> 0 \<le> sr_similarity r \<and> sr_similarity r \<le> 1"
proof -
  obtain r0 where r0: "r0 \<in> set v \<union> set b" "r = r0\<lparr>sr_similarity := sr_similarity r\<rparr>" "sr_id r = sr_id r0"
    and sim: "sr_similarity r = (if max_score (fused_scores v b a) > 0
      then fused_rank v b a (sr_id r) / max_score (fused_scores v b a) else 0)"
    using rrfMerge_mem [OF assms(3)] by blast
  have "fused_rank v b a (sr_id r) \<le> max_score (fused_scores v b a)"
    using fused_rank_le_max [OF r0(1), of a] by (simp add: r0(3))
  then show ?thesis using r0 fused_rank_nonneg [OF assms(1,2), of v b "sr_id r"]
    unfolding sim by (auto simp: divide_le_eq_1)
qed

lemma rrfMerge_head_shown:
  assumes "rrfMerge v b topK a \<noteq> []"
  shows "sr_similarity (hd (rrfMerge v b topK a))
    = (if fused_rank v b a (sr_id (hd (rrfMerge v b topK a))) > 0 then 1 else 0)"
proof -
  have "hd (rrfMerge v b topK a) \<in> set (rrfMerge v b topK a)" using assms by simp
  from rrfMerge_mem [OF this] show ?thesis using rrfMerge_first [OF assms] by fastforce
qed

text \<open>
  C20. What \<open>rrfMerge\<close> returns: at most \<open>topK\<close> results with distinct ids, as many as there are
  ids in the two lists; they are ordered by the reciprocal-rank sum of their positions in the two
  lists, and nothing left out has a larger sum; each is a document of one of the lists with its
  similarity replaced by its sum divided by the largest one, so it lies between 0 and 1, and the
  first result is shown with exactly 1 unless every sum is 0.
\<close>

theorem rrf_returns_the_best:
  fixes v b :: "search_result list" and topK :: nat and a :: rat
  assumes "0 \<le> a" and "a \<le> 1"
  defines "out \<equiv> rrfMerge v b topK a" and "total_score \<equiv> fused_rank v b a"
  shows "distinct (map sr_id out)
    \<and> length out = min topK (card (sr_id ` (set v \<union> set b)))
    \<and> sorted_wrt (\<lambda>r r'. total_score (sr_id r) \<ge> total_score (sr_id r')) out
    \<and> (\<forall>r \<in> set v \<union> set b. sr_id r \<notin> sr_id ` set out \<longrightarrow> (\<forall>r' \<in> set out. total_score (sr_id r) \<le> total_score (sr_id r')))
    \<and> (\<forall>r \<in> set out. (\<exists>r0 \<in> set v \<union> set b. r = r0\<lparr>sr_similarity := sr_similarity r\<rparr>)
         \<and> 0 \<le> sr_similarity r \<and> sr_similarity r \<le> 1)
    \<and> (out \<noteq> [] \<longrightarrow> sr_similarity (hd out) = (if total_score (sr_id (hd out)) > 0 then 1 else 0))"
  unfolding out_def total_score_def
proof (intro conjI ballI impI)
  fix r
  assume r: "r \<in> set (rrfMerge v b topK a)"
  note d = rrfMerge_document [OF assms(1,2) r]
  show "\<exists>r0 \<in> set v \<union> set b. r = r0\<lparr>sr_similarity := sr_similarity r\<rparr>" by (rule conjunct1 [OF d])
  show "0 \<le> sr_similarity r" "sr_similarity r \<le> 1" using d by simp_all
qed (rule rrfMerge_distinct rrfMerge_length rrfMerge_sorted rrfMerge_left_out rrfMerge_head_shown; assumption)+

definition two_results :: "search_result list" where
  "two_results = map (\<lambda>i. \<lparr>sr_id = i, sr_denseText = [], sr_sparseText = [], sr_metadata = [], sr_similarity = 0,
     sr_sourceFile = None, sr_ingestedAt = None, sr_sparseTextGeneratorId = None, sr_metadataGeneratorId = None\<rparr>)
     [''a'', ''b'']"

lemma rrf_returns_the_best_witness:
  "distinct (map sr_id (rrfMerge two_results (drop 1 two_results) 1 default_hybridAlpha))
    \<and> map sr_id (rrfMerge two_results (drop 1 two_results) 1 default_hybridAlpha) = [''b'']
    \<and> map sr_similarity (rrfMerge two_results (drop 1 two_results) 1 default_hybridAlpha) = [1]"
proof -
  have "distinct (map sr_id (rrfMerge two_results (drop 1 two_results) 1 default_hybridAlpha))"
    using rrf_returns_the_best [of default_hybridAlpha two_results "drop 1 two_results" 1]
    by (simp add: default_hybridAlpha_def)
  moreover have "map sr_id (rrfMerge two_results (drop 1 two_results) 1 default_hybridAlpha) = [''b'']
    \<and> map sr_similarity (rrfMerge two_results (drop 1 two_results) 1 default_hybridAlpha) = [1]"
    by code_simp
  ultimately show ?thesis by blast
qed

subsection \<open>A single list\<close>

lemma add_scores_distinct_ids:
  assumes "distinct (map sr_id rs)" and "sr_id ` set rs \<inter> fst ` set m = {}"
  shows "add_scores w i rs m = m @ map (\<lambda>(j, r). (sr_id r, w / of_nat (61 + j))) (enumerate i rs)"
  using assms
proof (induction rs arbitrary: i m)
  case (Cons r rs)
  have "map_of m (sr_id r) = None" using Cons.prems(2) by (auto simp: map_of_eq_None_iff)
  moreover have "sr_id ` set rs \<inter> fst ` set (m @ [(sr_id r, w / of_nat (61 + i))]) = {}"
    using Cons.prems by auto
  ultimately show ?case
    using Cons.IH [of "m @ [(sr_id r, w / of_nat (61 + i))]" "Suc i"] Cons.prems
    by (simp add: update_new or_zero_def RRF_K_def add.commute)
qed simp

lemma vector_scores:
  assumes "distinct (map sr_id v)"
  shows "fused_scores v [] a = map (\<lambda>(j, r). (sr_id r, a / of_nat (61 + j))) (enumerate 0 v)"
  using add_scores_distinct_ids [OF assms, of "[]" a 0] by (simp add: fused_scores_def)

lemma vector_scores_descend:
  assumes "distinct (map sr_id v)" and "0 \<le> a"
  shows "by_score (fused_scores v [] a) = fused_scores v [] a"
proof -
  have "sorted (map (\<lambda>e. - snd e) (map (\<lambda>(j, r). (sr_id r, a / of_nat (61 + j))) (enumerate n v)))" for n
  proof (induction v arbitrary: n)
    case (Cons r rs)
    have "a / of_nat (61 + j) \<le> a / of_nat (61 + n)" if "n \<le> j" for j
      using that assms(2) by (intro divide_left_mono) simp_all
    then show ?case using Cons.IH [of "Suc n"] by (auto simp: in_set_enumerate_eq)
  qed simp
  then show ?thesis by (simp add: by_score_def vector_scores [OF assms(1)] sort_key_id_if_sorted)
qed

lemma vector_max_score:
  assumes "distinct (map sr_id v)" and "0 \<le> a" and "v \<noteq> []"
  shows "max_score (fused_scores v [] a) = a / 61"
proof (rule antisym)
  have ne: "fused_scores v [] a \<noteq> []" using assms(3) by (simp add: vector_scores [OF assms(1)] enumerate_eq_zip)
  from max_score_mem [OF ne] obtain e where e: "max_score (fused_scores v [] a) = snd e" "e \<in> set (fused_scores v [] a)"
    by blast
  have "\<exists>j. snd e = a / of_nat (61 + j)" using e(2) by (auto simp: vector_scores [OF assms(1)])
  then obtain j where "max_score (fused_scores v [] a) = a / of_nat (61 + j)" using e(1) by metis
  moreover have "a / of_nat (61 + j) \<le> a / 61" using assms(2) by (intro divide_left_mono) simp_all
  ultimately show "max_score (fused_scores v [] a) \<le> a / 61" by simp
  have "(sr_id (hd v), a / 61) \<in> set (fused_scores v [] a)"
    unfolding vector_scores [OF assms(1)] using assms(3) by (cases v) simp_all
  from max_score_ge [OF this] show "a / 61 \<le> max_score (fused_scores v [] a)" .
qed

lemma shown_alone: "distinct (map sr_id v) \<Longrightarrow> r \<in> set v \<Longrightarrow> shown_document v [] (sr_id r) = Some r"
proof -
  assume d: "distinct (map sr_id v)" and r: "r \<in> set v"
  then have "sr_id r \<in> sr_id ` (set v \<union> set [])" by simp
  from shown_document_id [OF this] obtain r' where "shown_document v [] (sr_id r) = Some r'" "sr_id r' = sr_id r" "r' \<in> set v"
    by auto
  moreover from this d r have "r' = r" by (simp add: distinct_map inj_on_def)
  ultimately show ?thesis by simp
qed

text \<open>
  With no keyword results the fusion changes nothing but the shown numbers: the vector results
  come back in their own order, cut at \<open>topK\<close>, and the similarity of the one at position \<open>i\<close> becomes
  61 / (61 + i), whatever the blend weight and whatever the similarities were.
\<close>

theorem rrf_of_one_list:
  assumes d: "distinct (map sr_id v)" and a: "0 < a"
  shows "rrfMerge v [] topK a
    = take topK (map (\<lambda>(i, r). r\<lparr>sr_similarity := 61 / of_nat (61 + i)\<rparr>) (enumerate 0 v))"
proof (cases "v = []")
  case True
  then show ?thesis by (simp add: rrfMerge_def fused_scores_def by_score_def)
next
  case False
  have m: "max_score (fused_scores v [] a) = a / 61" using vector_max_score [OF d _ False] a by simp
  have s: "by_score (fused_scores v [] a) = fused_scores v [] a" using vector_scores_descend [OF d] a by simp
  have "rrfMerge v [] topK a = take topK (map (\<lambda>(i, r). (the (shown_document v [] (sr_id r)))
      \<lparr>sr_similarity := (a / of_nat (61 + i)) / (a / 61)\<rparr>) (enumerate 0 v))"
    unfolding rrfMerge_def Let_def map_of_byId m s unfolding vector_scores [OF d]
    using a by (simp add: take_map case_prod_unfold comp_def)
  also have "\<dots> = take topK (map (\<lambda>(i, r). r\<lparr>sr_similarity := 61 / of_nat (61 + i)\<rparr>) (enumerate 0 v))"
    using a by (intro arg_cong [where f = "take topK"] map_cong)
      (auto simp: shown_alone [OF d] in_set_enumerate_eq)
  finally show ?thesis .
qed

lemma rrf_of_one_list_witness:
  "rrfMerge two_results [] 1 default_hybridAlpha = [(hd two_results)\<lparr>sr_similarity := 1\<rparr>]"
proof -
  have "distinct (map sr_id two_results)" and "0 < default_hybridAlpha" by code_simp+
  from rrf_of_one_list [OF this, of 1] show ?thesis by (simp add: two_results_def)
qed

end
