(* ===== verification/Eval.thy ===== *)
theory Eval
  imports Rrf Embedder
begin

section \<open>Retrieval evaluation\<close>

text \<open>
  \<open>src/packages/virage-core/src/eval\<close>: the metrics (\<open>metrics.ts\<close>), the runner over a dataset
  (\<open>runner.ts\<close>), the paired bootstrap test (\<open>statistics.ts\<close>) and the grid search over
  query-time parameters (\<open>adaptive-tuner.ts\<close>). The store's \<open>search\<close>, the embedder and the
  reranker are parameters, functions over the state \<open>'w\<close> of the outside world that may fail;
  \<open>Math.random\<close> is a stream of draws. A JavaScript \<open>Set\<close> of ids is a list without duplicates in
  insertion order. Numbers are exact fractions; \<open>None\<close> is NaN, or an array read out of range.
\<close>

subsection \<open>Metrics\<close>

definition hits_in :: "string list \<Rightarrow> string list \<Rightarrow> nat \<Rightarrow> nat" where
  "hits_in retrieved relevant k = length (filter (\<lambda>i. i \<in> set relevant) (take k retrieved))"

definition precisionAtK :: "string list \<Rightarrow> string list \<Rightarrow> nat \<Rightarrow> rat" where
  "precisionAtK retrieved relevant k =
     (if k = 0 then 0 else of_nat (hits_in retrieved relevant k) / of_nat k)"

definition recallAtK :: "string list \<Rightarrow> string list \<Rightarrow> nat \<Rightarrow> rat" where
  "recallAtK retrieved relevant k =
     (if length relevant = 0 then 0 else of_nat (hits_in retrieved relevant k) / of_nat (length relevant))"

fun rank_from :: "nat \<Rightarrow> string list \<Rightarrow> string list \<Rightarrow> rat" where
  "rank_from i [] relevant = 0"
| "rank_from i (x # xs) relevant =
     (if x \<in> set relevant then 1 / of_nat (i + 1) else rank_from (i + 1) xs relevant)"

definition reciprocalRank :: "string list \<Rightarrow> string list \<Rightarrow> rat" where
  "reciprocalRank retrieved relevant = rank_from 0 retrieved relevant"

definition hitRateAtK :: "string list \<Rightarrow> string list \<Rightarrow> nat \<Rightarrow> rat" where
  "hitRateAtK retrieved relevant k = (if \<exists>i \<in> set (take k retrieved). i \<in> set relevant then 1 else 0)"

record per_query_metrics =
  q_precisionAt5 :: rat
  q_precisionAt10 :: rat
  q_recallAt10 :: rat
  q_rr :: rat
  q_hitRateAt5 :: rat

record eval_result =
  precisionAt5 :: rat
  precisionAt10 :: rat
  recallAt10 :: rat
  mrr :: rat
  hitRateAt5 :: rat
  queriesEvaluated :: nat

definition add_metrics :: "per_query_metrics \<Rightarrow> per_query_metrics \<Rightarrow> per_query_metrics" where
  "add_metrics acc q =
     \<lparr>q_precisionAt5 = q_precisionAt5 acc + q_precisionAt5 q,
      q_precisionAt10 = q_precisionAt10 acc + q_precisionAt10 q,
      q_recallAt10 = q_recallAt10 acc + q_recallAt10 q,
      q_rr = q_rr acc + q_rr q,
      q_hitRateAt5 = q_hitRateAt5 acc + q_hitRateAt5 q\<rparr>"

definition no_metrics :: per_query_metrics where
  "no_metrics = \<lparr>q_precisionAt5 = 0, q_precisionAt10 = 0, q_recallAt10 = 0, q_rr = 0, q_hitRateAt5 = 0\<rparr>"

definition aggregateEvalResults :: "per_query_metrics list \<Rightarrow> eval_result" where
  "aggregateEvalResults perQuery =
     (if length perQuery = 0
      then \<lparr>precisionAt5 = 0, precisionAt10 = 0, recallAt10 = 0, mrr = 0, hitRateAt5 = 0, queriesEvaluated = 0\<rparr>
      else let n = of_nat (length perQuery); total = foldl add_metrics no_metrics perQuery
           in \<lparr>precisionAt5 = q_precisionAt5 total / n, precisionAt10 = q_precisionAt10 total / n,
               recallAt10 = q_recallAt10 total / n, mrr = q_rr total / n,
               hitRateAt5 = q_hitRateAt5 total / n, queriesEvaluated = length perQuery\<rparr>)"

definition query_metrics :: "string list \<times> string list \<Rightarrow> per_query_metrics" where
  "query_metrics q = (case q of (retrieved, relevant) \<Rightarrow>
     \<lparr>q_precisionAt5 = precisionAtK retrieved relevant 5,
      q_precisionAt10 = precisionAtK retrieved relevant 10,
      q_recallAt10 = recallAtK retrieved relevant 10,
      q_rr = reciprocalRank retrieved relevant,
      q_hitRateAt5 = hitRateAtK retrieved relevant 5\<rparr>)"

definition computeEvalResult :: "(string list \<times> string list) list \<Rightarrow> eval_result" where
  "computeEvalResult queries = aggregateEvalResults (map query_metrics queries)"

subsection \<open>Running a dataset\<close>

record eval_query =
  eq_query :: jstext
  expectedContent :: "jstext list option"
  expectedChunkIds :: "string list option"

text \<open>The options \<open>run\<close> passes to \<open>search\<close>; \<open>None\<close> is the empty object.\<close>

record hybrid_options =
  ho_hybridAlpha :: "rat option"
  ho_queryText :: jstext

record ('w) search_config =
  sc_hybrid :: bool
  sc_hybridAlpha :: "rat option"
  sc_reranker :: "(jstext \<Rightarrow> search_result list \<Rightarrow> nat \<Rightarrow> 'w \<Rightarrow> search_result list result \<times> 'w) option"
  sc_rerankOversample :: "nat option"

type_synonym 'w search_fn =
  "jsnum list \<Rightarrow> nat \<Rightarrow> hybrid_options option \<Rightarrow> 'w \<Rightarrow> search_result list result \<times> 'w"

type_synonym 'w embed_fn = "jstext \<Rightarrow> 'w \<Rightarrow> jsnum list result \<times> 'w"

definition set_add :: "'a list \<Rightarrow> 'a \<Rightarrow> 'a list" where
  "set_add s x = (if x \<in> set s then s else s @ [x])"

text \<open>The relevant ids of a query: the expected ids, then the ids of the results that contain an
  expected text.\<close>

definition relevant_ids :: "eval_query \<Rightarrow> search_result list \<Rightarrow> string list" where
  "relevant_ids q results =
     (let expected = foldl set_add [] (case expectedChunkIds q of None \<Rightarrow> [] | Some is \<Rightarrow> is)
      in case expectedContent q of None \<Rightarrow> expected
         | Some texts \<Rightarrow>
             foldl (\<lambda>s t. foldl (\<lambda>s r. if contains t (sr_denseText r) \<or> contains t (sr_sparseText r)
                                          then set_add s (sr_id r) else s) s results)
               expected texts)"

definition search_options_for :: "'w search_config option \<Rightarrow> eval_query \<Rightarrow> hybrid_options option" where
  "search_options_for cfg q = (case cfg of None \<Rightarrow> None
     | Some c \<Rightarrow> if sc_hybrid c then Some \<lparr>ho_hybridAlpha = sc_hybridAlpha c, ho_queryText = eq_query q\<rparr>
                 else None)"

definition fetchTopK :: "'w search_config option \<Rightarrow> nat \<Rightarrow> nat" where
  "fetchTopK cfg topK = (case cfg of None \<Rightarrow> topK
     | Some c \<Rightarrow> (case sc_reranker c of None \<Rightarrow> topK
         | Some _ \<Rightarrow> topK * nullish (sc_rerankOversample c) 5))"

definition rerank_results ::
  "'w search_config option \<Rightarrow> nat \<Rightarrow> eval_query \<Rightarrow> search_result list \<Rightarrow> 'w \<Rightarrow> search_result list result \<times> 'w" where
  "rerank_results cfg topK q results w = (case cfg of None \<Rightarrow> (Inr results, w)
     | Some c \<Rightarrow> (case sc_reranker c of None \<Rightarrow> (Inr results, w)
         | Some rerank \<Rightarrow> rerank (eq_query q) results topK w))"

text \<open>One query: the ids retrieved and the relevant ids, or the first error.\<close>

definition eval_query_run ::
  "'w embed_fn \<Rightarrow> 'w search_fn \<Rightarrow> nat \<Rightarrow> 'w search_config option \<Rightarrow> eval_query \<Rightarrow> 'w
   \<Rightarrow> (string list \<times> string list) result \<times> 'w" where
  "eval_query_run emb search topK cfg q w =
     (case emb (eq_query q) w of
        (Inl e, w1) \<Rightarrow> (Inl e, w1)
      | (Inr v, w1) \<Rightarrow>
          (case search v (fetchTopK cfg topK) (search_options_for cfg q) w1 of
             (Inl e, w2) \<Rightarrow> (Inl e, w2)
           | (Inr found, w2) \<Rightarrow>
               (case rerank_results cfg topK q found w2 of
                  (Inl e, w3) \<Rightarrow> (Inl e, w3)
                | (Inr results, w3) \<Rightarrow> (Inr (map sr_id results, relevant_ids q results), w3))))"

fun eval_queries ::
  "'w embed_fn \<Rightarrow> 'w search_fn \<Rightarrow> nat \<Rightarrow> 'w search_config option \<Rightarrow> eval_query list \<Rightarrow> 'w
   \<Rightarrow> (string list \<times> string list) list result \<times> 'w" where
  "eval_queries emb search topK cfg [] w = (Inr [], w)"
| "eval_queries emb search topK cfg (q # qs) w =
     (case eval_query_run emb search topK cfg q w of
        (Inl e, w1) \<Rightarrow> (Inl e, w1)
      | (Inr x, w1) \<Rightarrow>
          (case eval_queries emb search topK cfg qs w1 of
             (Inl e, w2) \<Rightarrow> (Inl e, w2)
           | (Inr xs, w2) \<Rightarrow> (Inr (x # xs), w2)))"

definition eval_run ::
  "'w embed_fn \<Rightarrow> 'w search_fn \<Rightarrow> nat \<Rightarrow> 'w search_config option \<Rightarrow> eval_query list \<Rightarrow> 'w
   \<Rightarrow> (eval_result \<times> rat list) result \<times> 'w" where
  "eval_run emb search topK cfg queries w =
     (case eval_queries emb search topK cfg queries w of
        (Inl e, w') \<Rightarrow> (Inl e, w')
      | (Inr qs, w') \<Rightarrow>
          (Inr (computeEvalResult qs, map (\<lambda>(retrieved, relevant). reciprocalRank retrieved relevant) qs), w'))"

subsection \<open>The grid search\<close>

record tuning_params =
  tp_hybridAlpha :: rat
  tp_topK :: nat
  tp_rerankOversample :: nat

record search_space =
  ss_hybridAlpha :: "rat list option"
  ss_topK :: "nat list option"
  ss_rerankOversample :: "nat list option"

definition tuning_grid :: "search_space \<Rightarrow> tuning_params list" where
  "tuning_grid sp =
     concat (map (\<lambda>a. concat (map (\<lambda>k. map (\<lambda>o'. \<lparr>tp_hybridAlpha = a, tp_topK = k, tp_rerankOversample = o'\<rparr>)
         (nullish (ss_rerankOversample sp) [5])) (nullish (ss_topK sp) [10])))
       (nullish (ss_hybridAlpha sp) [6 / 10]))"

definition grid_config ::
  "(jstext \<Rightarrow> search_result list \<Rightarrow> nat \<Rightarrow> 'w \<Rightarrow> search_result list result \<times> 'w) option
   \<Rightarrow> tuning_params \<Rightarrow> 'w search_config" where
  "grid_config reranker p =
     \<lparr>sc_hybrid = True, sc_hybridAlpha = Some (tp_hybridAlpha p), sc_reranker = reranker,
      sc_rerankOversample = map_option (\<lambda>_. tp_rerankOversample p) reranker\<rparr>"

record tuning_result =
  bestParams :: "tuning_params option"
  bestMrr :: rat
  tuning_runs :: "(tuning_params \<times> rat) list"

fun tune_loop ::
  "(tuning_params \<Rightarrow> 'w \<Rightarrow> (eval_result \<times> rat list) result \<times> 'w) \<Rightarrow> tuning_params list \<Rightarrow>
   tuning_result \<Rightarrow> 'w \<Rightarrow> tuning_result result \<times> 'w" where
  "tune_loop go [] acc w = (Inr acc, w)"
| "tune_loop go (p # ps) acc w =
     (case go p w of
        (Inl e, w') \<Rightarrow> (Inl e, w')
      | (Inr (er, _), w') \<Rightarrow>
          (let acc1 = acc\<lparr>tuning_runs := tuning_runs acc @ [(p, mrr er)]\<rparr>;
               acc2 = (if mrr er > bestMrr acc1 then acc1\<lparr>bestMrr := mrr er, bestParams := Some p\<rparr> else acc1)
           in tune_loop go ps acc2 w'))"

definition runAdaptiveTuning ::
  "'w embed_fn \<Rightarrow> 'w search_fn \<Rightarrow>
   (jstext \<Rightarrow> search_result list \<Rightarrow> nat \<Rightarrow> 'w \<Rightarrow> search_result list result \<times> 'w) option \<Rightarrow>
   search_space \<Rightarrow> eval_query list \<Rightarrow> 'w \<Rightarrow> tuning_result result \<times> 'w" where
  "runAdaptiveTuning emb search reranker sp queries w =
     (let grid = tuning_grid sp
      in tune_loop (\<lambda>p. eval_run emb search (tp_topK p) (Some (grid_config reranker p)) queries) grid
           \<lparr>bestParams = (case grid of [] \<Rightarrow> None | p # _ \<Rightarrow> Some p), bestMrr = -1, tuning_runs = []\<rparr> w)"

subsection \<open>The paired bootstrap test\<close>

datatype recommendation = Accept | Reject | Inconclusive

record stat_test_result =
  baselineMrr :: rat
  candidateMrr :: rat
  mrrDelta :: rat
  pValue :: "rat option"
  ci_lo :: "rat option"
  ci_hi :: "rat option"
  recommended :: recommendation

definition mean :: "rat list \<Rightarrow> rat" where
  "mean arr = foldl (+) 0 arr / of_nat (length arr)"

definition array_at :: "'a list \<Rightarrow> int \<Rightarrow> 'a option" where
  "array_at xs i = (if 0 \<le> i \<and> i < int (length xs) then Some (xs ! nat i) else None)"

text \<open>\<open>Math.floor(Math.random() * n)\<close> for a draw \<open>x\<close>; \<open>rnd j\<close> is the \<open>j\<close>-th draw of the run.\<close>

definition draw_index :: "rat \<Rightarrow> nat \<Rightarrow> nat" where
  "draw_index x n = nat \<lfloor>x * of_nat n\<rfloor>"

definition resampled_delta :: "(nat \<Rightarrow> rat) \<Rightarrow> rat list \<Rightarrow> nat \<Rightarrow> rat" where
  "resampled_delta rnd differences iter =
     (let n = length differences
      in foldl (\<lambda>s i. s + differences ! draw_index (rnd (iter * n + i)) n) 0 [0..<n] / of_nat n)"

definition bootstrap_deltas :: "(nat \<Rightarrow> rat) \<Rightarrow> rat list \<Rightarrow> nat \<Rightarrow> rat list" where
  "bootstrap_deltas rnd differences iterations =
     sort (map (resampled_delta rnd differences) [0..<iterations])"

definition bootstrapPairedTest ::
  "(nat \<Rightarrow> rat) \<Rightarrow> rat list \<Rightarrow> rat list \<Rightarrow> nat \<Rightarrow> stat_test_result result" where
  "bootstrapPairedTest rnd baseline candidate iterations =
     (if length baseline \<noteq> length candidate
      then Inl (Err EError ''Baseline and candidate must have the same number of queries'')
      else if length baseline = 0
      then Inl (Err EError ''Cannot run statistical test on empty query sets'')
      else
        let differences = map2 (\<lambda>b c. c - b) baseline candidate;
            deltas = bootstrap_deltas rnd differences iterations;
            p = (if iterations = 0 then None
                 else Some (of_nat (length (filter (\<lambda>d. d \<le> 0) deltas)) / of_nat iterations));
            loIdx = max 0 (\<lfloor>(25 / 1000 :: rat) * of_nat iterations\<rfloor> - 1);
            hiIdx = min (int iterations - 1) \<lceil>(975 / 1000 :: rat) * of_nat iterations\<rceil>;
            lo = array_at deltas loIdx;
            hi = array_at deltas hiIdx
        in Inr \<lparr>baselineMrr = mean baseline, candidateMrr = mean candidate,
                mrrDelta = mean candidate - mean baseline, pValue = p, ci_lo = lo, ci_hi = hi,
                recommended =
                  (if (case lo of None \<Rightarrow> False | Some x \<Rightarrow> x > 0) then Accept
                   else if (case hi of None \<Rightarrow> False | Some x \<Rightarrow> x < 0) then Reject
                   else Inconclusive)\<rparr>)"

subsection \<open>The metrics are fractions\<close>

lemma hits_in_le: "hits_in retrieved relevant k \<le> min k (length retrieved)"
  using length_filter_le [of _ "take k retrieved"] by (simp add: hits_in_def)

lemma hits_in_mono: "k \<le> l \<Longrightarrow> hits_in xs relevant k \<le> hits_in xs relevant l"
proof -
  assume "k \<le> l"
  then have "take l xs = take k xs @ take (l - k) (drop k xs)" by (metis le_add_diff_inverse take_add)
  then show ?thesis by (simp add: hits_in_def)
qed

lemma hits_in_pos: "0 < hits_in xs relevant k \<longleftrightarrow> (\<exists>i \<in> set (take k xs). i \<in> set relevant)"
  by (auto simp: hits_in_def filter_empty_conv)

lemma precisionAtK_bounds: "0 \<le> precisionAtK xs relevant k \<and> precisionAtK xs relevant k \<le> 1"
  using hits_in_le [of xs relevant k] by (simp add: precisionAtK_def)

lemma recallAtK_nonneg: "0 \<le> recallAtK xs relevant k"
  by (simp add: recallAtK_def)

text \<open>Recall is a fraction when the retrieved ids are distinct, and only then.\<close>

lemma recallAtK_le_1:
  assumes "distinct xs"
  shows "recallAtK xs relevant k \<le> 1"
proof -
  have "hits_in xs relevant k = card (set (filter (\<lambda>i. i \<in> set relevant) (take k xs)))"
    unfolding hits_in_def using assms by (intro distinct_card [symmetric] distinct_filter distinct_take)
  also have "\<dots> \<le> card (set relevant)" by (intro card_mono) auto
  also have "\<dots> \<le> length relevant" by (rule card_length)
  finally show ?thesis by (simp add: recallAtK_def divide_le_eq_1)
qed

lemma recall_of_duplicates_exceeds_1: "recallAtK [''a'', ''a''] [''a''] 10 = 2"
  by (simp add: recallAtK_def hits_in_def)

lemma rank_from_bounds: "0 \<le> rank_from i xs relevant \<and> rank_from i xs relevant \<le> 1"
  by (induction i xs relevant rule: rank_from.induct) simp_all

lemma rank_from_hit:
  "i \<in> set (take k xs) \<Longrightarrow> i \<in> set relevant \<Longrightarrow> 1 / of_nat (n + k) \<le> rank_from n xs relevant"
proof (induction xs arbitrary: n k)
  case (Cons x xs)
  obtain k' where k: "k = Suc k'" using Cons.prems(1) by (cases k) auto
  show ?case
  proof (cases "x \<in> set relevant")
    case True
    then show ?thesis using k by (simp add: frac_le)
  next
    case False
    then show ?thesis using Cons.prems Cons.IH [of k' "Suc n"] k by auto
  qed
qed simp

lemma reciprocalRank_bounds: "0 \<le> reciprocalRank xs relevant \<and> reciprocalRank xs relevant \<le> 1"
  by (simp add: reciprocalRank_def rank_from_bounds)

lemma hit_bounds:
  "precisionAtK xs relevant 5 \<le> hitRateAtK xs relevant 5"
  "hitRateAtK xs relevant 5 / 5 \<le> reciprocalRank xs relevant"
  "precisionAtK xs relevant 5 \<le> 2 * precisionAtK xs relevant 10"
proof -
  show "precisionAtK xs relevant 5 \<le> hitRateAtK xs relevant 5"
    using precisionAtK_bounds [of xs relevant 5] hits_in_pos [of xs relevant 5]
    by (auto simp: hitRateAtK_def precisionAtK_def)
  show "hitRateAtK xs relevant 5 / 5 \<le> reciprocalRank xs relevant"
    using rank_from_hit [of _ 5 xs relevant 0] reciprocalRank_bounds [of xs relevant]
    by (auto simp: hitRateAtK_def reciprocalRank_def)
  show "precisionAtK xs relevant 5 \<le> 2 * precisionAtK xs relevant 10"
    using hits_in_mono [of 5 10 xs relevant] by (simp add: precisionAtK_def)
qed

subsection \<open>Averages over the queries\<close>

definition average :: "('a \<Rightarrow> rat) \<Rightarrow> 'a list \<Rightarrow> rat" where
  "average f xs = sum_list (map f xs) / of_nat (length xs)"

lemma foldl_add_metrics:
  "foldl add_metrics acc ms =
     \<lparr>q_precisionAt5 = q_precisionAt5 acc + sum_list (map q_precisionAt5 ms),
      q_precisionAt10 = q_precisionAt10 acc + sum_list (map q_precisionAt10 ms),
      q_recallAt10 = q_recallAt10 acc + sum_list (map q_recallAt10 ms),
      q_rr = q_rr acc + sum_list (map q_rr ms),
      q_hitRateAt5 = q_hitRateAt5 acc + sum_list (map q_hitRateAt5 ms)\<rparr>"
  by (induction ms arbitrary: acc) (simp_all add: add_metrics_def)

lemma aggregate_averages:
  "precisionAt5 (aggregateEvalResults ms) = average q_precisionAt5 ms"
  "precisionAt10 (aggregateEvalResults ms) = average q_precisionAt10 ms"
  "recallAt10 (aggregateEvalResults ms) = average q_recallAt10 ms"
  "mrr (aggregateEvalResults ms) = average q_rr ms"
  "hitRateAt5 (aggregateEvalResults ms) = average q_hitRateAt5 ms"
  "queriesEvaluated (aggregateEvalResults ms) = length ms"
  by (simp_all add: aggregateEvalResults_def foldl_add_metrics no_metrics_def average_def Let_def)

lemma average_mono:
  assumes "\<And>x. x \<in> set xs \<Longrightarrow> f x \<le> g x"
  shows "average f xs \<le> average g xs"
  unfolding average_def using assms by (intro divide_right_mono sum_list_mono) simp_all

lemma average_scale: "average (\<lambda>x. c * f x) xs = c * average f xs"
  by (simp add: average_def sum_list_const_mult)

lemma average_unit:
  assumes "\<And>x. x \<in> set xs \<Longrightarrow> 0 \<le> f x \<and> f x \<le> 1"
  shows "0 \<le> average f xs \<and> average f xs \<le> 1"
proof
  show "0 \<le> average f xs" unfolding average_def using assms by (intro divide_nonneg_nonneg sum_list_nonneg) auto
  have "sum_list (map f xs) \<le> sum_list (map (\<lambda>_. 1) xs)" using assms by (intro sum_list_mono) simp
  then show "average f xs \<le> 1" by (cases "xs = []") (simp_all add: average_def sum_list_triv)
qed

lemma foldl_plus: "foldl (+) a xs = a + sum_list (xs :: rat list)"
  by (induction xs arbitrary: a) simp_all

lemma mean_average: "mean (map f xs) = average f xs"
  by (simp add: mean_def average_def foldl_plus)

lemma eval_queries_results:
  assumes "eval_queries emb search topK cfg queries w = (Inr qs, w')"
    and "\<And>q w x w'. eval_query_run emb search topK cfg q w = (Inr x, w') \<Longrightarrow> P x"
  shows "length qs = length queries \<and> (\<forall>x \<in> set qs. P x)"
  using assms(1)
proof (induction queries arbitrary: w qs)
  case (Cons q queries)
  then show ?case using assms(2) by (auto split: prod.splits sum.splits)
qed simp

lemma query_metrics_bounds:
  assumes "distinct (fst x)"
  defines "m \<equiv> query_metrics x"
  shows "0 \<le> q_precisionAt5 m \<and> q_precisionAt5 m \<le> 1" "0 \<le> q_precisionAt10 m \<and> q_precisionAt10 m \<le> 1"
    "0 \<le> q_recallAt10 m \<and> q_recallAt10 m \<le> 1" "0 \<le> q_rr m \<and> q_rr m \<le> 1"
    "0 \<le> q_hitRateAt5 m \<and> q_hitRateAt5 m \<le> 1"
    "q_precisionAt5 m \<le> q_hitRateAt5 m" "1 / 5 * q_hitRateAt5 m \<le> q_rr m" "q_precisionAt5 m \<le> 2 * q_precisionAt10 m"
  using assms(1) hit_bounds precisionAtK_bounds reciprocalRank_bounds recallAtK_le_1 recallAtK_nonneg
  by (cases x; simp add: m_def query_metrics_def hitRateAtK_def)+

text \<open>
  C21. The report of an evaluation run that ends without an error, over a store and a reranker that
  never return an id twice: it counts every query, its per-query scores have the dataset's length,
  the reported MRR is their mean, every figure lies between 0 and 1, precision at 5 is at most the
  hit rate at 5 and at most twice the precision at 10, and the MRR is at least a fifth of the
  hit rate.
\<close>

theorem eval_report_is_consistent:
  fixes emb :: "'w embed_fn" and search :: "'w search_fn" and cfg :: "'w search_config option"
  assumes run: "eval_run emb search topK cfg queries w = (Inr (er, rrs), w')"
    and store: "\<forall>v k opts w rs w'. search v k opts w = (Inr rs, w') \<longrightarrow> distinct (map sr_id rs)"
    and reranker: "\<forall>c rerank q cs k w rs w'. cfg = Some c \<longrightarrow> sc_reranker c = Some rerank \<longrightarrow>
      distinct (map sr_id cs) \<longrightarrow> rerank q cs k w = (Inr rs, w') \<longrightarrow> distinct (map sr_id rs)"
  shows "queriesEvaluated er = length queries \<and> length rrs = length queries \<and> mrr er = mean rrs
    \<and> (\<forall>x \<in> {precisionAt5 er, precisionAt10 er, recallAt10 er, mrr er, hitRateAt5 er}. 0 \<le> x \<and> x \<le> 1)
    \<and> precisionAt5 er \<le> hitRateAt5 er \<and> precisionAt5 er \<le> 2 * precisionAt10 er
    \<and> hitRateAt5 er / 5 \<le> mrr er"
proof -
  obtain qs where qs: "eval_queries emb search topK cfg queries w = (Inr qs, w')"
    and er: "er = computeEvalResult qs" and rrs: "rrs = map q_rr (map query_metrics qs)"
    using run by (auto simp: eval_run_def query_metrics_def split: prod.splits sum.splits)
  have "distinct (fst x)" if "eval_query_run emb search topK cfg q w = (Inr x, w')" for q w x w'
    using that store reranker
    by (fastforce simp: eval_query_run_def rerank_results_def split: prod.splits sum.splits option.splits)
  from eval_queries_results [where P = "\<lambda>x. distinct (fst x)", OF qs this]
  have len: "length qs = length queries" and dist: "\<And>x. x \<in> set qs \<Longrightarrow> distinct (fst x)" by simp_all
  have bounds: "0 \<le> average f (map query_metrics qs) \<and> average f (map query_metrics qs) \<le> 1"
    if "\<And>x. distinct (fst x) \<Longrightarrow> 0 \<le> f (query_metrics x) \<and> f (query_metrics x) \<le> 1" for f
    using that dist by (intro average_unit) auto
  have mono: "average f (map query_metrics qs) \<le> average g (map query_metrics qs)"
    if "\<And>x. distinct (fst x) \<Longrightarrow> f (query_metrics x) \<le> g (query_metrics x)" for f g
    using that dist by (intro average_mono) auto
  note m = query_metrics_bounds
  show ?thesis
    unfolding er computeEvalResult_def aggregate_averages rrs mean_average
    using bounds [where f = q_precisionAt5, OF m(1)] bounds [where f = q_precisionAt10, OF m(2)]
      bounds [where f = q_recallAt10, OF m(3)] bounds [where f = q_rr, OF m(4)]
      bounds [where f = q_hitRateAt5, OF m(5)] mono [where f = q_precisionAt5 and g = q_hitRateAt5, OF m(6)]
      mono [where f = q_precisionAt5 and g = "\<lambda>x. 2 * q_precisionAt10 x", OF m(8), unfolded average_scale]
      mono [where f = "\<lambda>x. 1 / 5 * q_hitRateAt5 x" and g = q_rr, OF m(7), unfolded average_scale] len
    by simp
qed

definition sample_search :: "unit search_fn" where
  "sample_search v k opts w = (Inr (take k two_results), w)"

definition sample_query :: eval_query where
  "sample_query = \<lparr>eq_query = js ''q'', expectedContent = None, expectedChunkIds = Some [''b'']\<rparr>"

lemma sample_search_distinct: "distinct (map sr_id (take k two_results))"
  unfolding take_map [symmetric] by (rule distinct_take) (simp add: two_results_def)

lemma eval_report_is_consistent_witness:
  "\<exists>er rrs. eval_run (\<lambda>_ w. (Inr [], w)) sample_search 10 None [sample_query] () = (Inr (er, rrs), ())
     \<and> mrr er = 1 / 2 \<and> precisionAt5 er \<le> 2 * precisionAt10 er"
proof -
  let ?r = "eval_run (\<lambda>_ w. (Inr [], w)) sample_search 10 None [sample_query] ()"
  obtain er rrs where r: "?r = (Inr (er, rrs), ())" and m: "mrr er = 1 / 2"
  proof -
    have "case ?r of (Inr (er, rrs), _) \<Rightarrow> mrr er = 1 / 2 | _ \<Rightarrow> False" by code_simp
    then show thesis using that by (cases ?r) (auto split: sum.splits)
  qed
  have "\<forall>v k opts w rs w'. sample_search v k opts w = (Inr rs, w') \<longrightarrow> distinct (map sr_id rs)"
    by (auto simp: sample_search_def sample_search_distinct)
  from eval_report_is_consistent [OF r this] have "precisionAt5 er \<le> 2 * precisionAt10 er" by simp
  with r m show ?thesis by blast
qed

subsection \<open>The best point of the grid\<close>

definition best_so_far :: "tuning_result \<Rightarrow> bool" where
  "best_so_far acc \<longleftrightarrow>
     (if tuning_runs acc = [] then bestMrr acc = -1
      else \<exists>i < length (tuning_runs acc). (\<exists>p. bestParams acc = Some p \<and> tuning_runs acc ! i = (p, bestMrr acc))
        \<and> (\<forall>j < length (tuning_runs acc). snd (tuning_runs acc ! j) \<le> bestMrr acc)
        \<and> (\<forall>j < i. snd (tuning_runs acc ! j) < bestMrr acc))"

lemma best_so_far_step:
  fixes acc :: tuning_result and p :: tuning_params and m :: rat
  assumes acc: "best_so_far acc" and m: "0 \<le> m"
  defines "acc1 \<equiv> acc\<lparr>tuning_runs := tuning_runs acc @ [(p, m)]\<rparr>"
  shows "best_so_far (if m > bestMrr acc1 then acc1\<lparr>bestMrr := m, bestParams := Some p\<rparr> else acc1)"
proof (cases "m > bestMrr acc")
  case True
  have le: "snd (tuning_runs acc ! j) \<le> bestMrr acc" if "j < length (tuning_runs acc)" for j
    using acc that by (auto simp: best_so_far_def split: if_splits)
  have new: "(tuning_runs acc @ [(p, m)]) ! length (tuning_runs acc) = (p, m)" by simp
  have old: "snd ((tuning_runs acc @ [(p, m)]) ! j) < m" if "j < length (tuning_runs acc)" for j
    using le [OF that] True that by (simp add: nth_append)
  show ?thesis
    using True new old unfolding acc1_def best_so_far_def
    by (auto intro!: exI [of _ "length (tuning_runs acc)"] simp: less_Suc_eq intro: less_imp_le)
next
  case False
  then have ne: "tuning_runs acc \<noteq> []" using acc m by (auto simp: best_so_far_def)
  then obtain i q where i: "i < length (tuning_runs acc)" "bestParams acc = Some q"
    "tuning_runs acc ! i = (q, bestMrr acc)"
    and le: "\<forall>j < length (tuning_runs acc). snd (tuning_runs acc ! j) \<le> bestMrr acc"
    and lt: "\<forall>j < i. snd (tuning_runs acc ! j) < bestMrr acc"
    using acc by (auto simp: best_so_far_def)
  show ?thesis
    using False i le lt unfolding acc1_def best_so_far_def
    by (auto intro!: exI [of _ i] simp: nth_append less_Suc_eq)
qed

lemma tune_loop_best:
  assumes "tune_loop go ps acc w = (Inr res, w')" and "best_so_far acc"
    and "\<And>p w er rrs w'. go p w = (Inr (er, rrs), w') \<Longrightarrow> 0 \<le> mrr er"
  shows "best_so_far res \<and> map fst (tuning_runs res) = map fst (tuning_runs acc) @ ps"
  using assms(1,2)
proof (induction ps arbitrary: acc w)
  case (Cons p ps)
  obtain er rrs w1 where go: "go p w = (Inr (er, rrs), w1)"
    using Cons.prems(1) by (auto split: prod.splits sum.splits)
  show ?case
    using Cons.IH [OF _ best_so_far_step [OF Cons.prems(2) assms(3) [OF go], of p]] Cons.prems(1)
    by (auto simp: go Let_def split: if_splits)
qed simp

lemma eval_run_mrr_nonneg: "eval_run emb search topK cfg queries w = (Inr (er, rrs), w') \<Longrightarrow> 0 \<le> mrr er"
proof -
  assume "eval_run emb search topK cfg queries w = (Inr (er, rrs), w')"
  then obtain qs where er: "er = computeEvalResult qs" by (auto simp: eval_run_def split: prod.splits sum.splits)
  have "0 \<le> q_rr (query_metrics x) \<and> q_rr (query_metrics x) \<le> 1" for x
    using reciprocalRank_bounds by (simp add: query_metrics_def split: prod.splits)
  then have "0 \<le> average q_rr (map query_metrics qs)"
    by (intro conjunct1 [OF average_unit]) (metis imageE set_map)
  then show ?thesis by (simp add: er computeEvalResult_def aggregate_averages)
qed

text \<open>
  C22. The grid search runs every combination of the search space once, in the order of the nested
  loops, and its best parameters are those of the first run with the largest MRR; with an empty
  grid there is no best point.
\<close>

theorem tuning_picks_the_first_best:
  assumes "runAdaptiveTuning emb search reranker sp queries w = (Inr res, w')"
  shows "map fst (tuning_runs res) = tuning_grid sp
    \<and> (if tuning_grid sp = [] then bestMrr res = -1
       else \<exists>i < length (tuning_runs res). (\<exists>p. bestParams res = Some p \<and> tuning_runs res ! i = (p, bestMrr res))
        \<and> (\<forall>j < length (tuning_runs res). snd (tuning_runs res ! j) \<le> bestMrr res)
        \<and> (\<forall>j < i. snd (tuning_runs res ! j) < bestMrr res))"
proof -
  let ?start = "\<lparr>bestParams = (case tuning_grid sp of [] \<Rightarrow> None | p # _ \<Rightarrow> Some p), bestMrr = -1, tuning_runs = []\<rparr>"
  have start: "best_so_far ?start" by (simp add: best_so_far_def)
  have "best_so_far res \<and> map fst (tuning_runs res) = map fst (tuning_runs ?start) @ tuning_grid sp"
    by (rule tune_loop_best [OF assms [unfolded runAdaptiveTuning_def Let_def] start])
      (erule eval_run_mrr_nonneg)
  then have "best_so_far res \<and> map fst (tuning_runs res) = tuning_grid sp" by simp
  moreover from this have "tuning_runs res = [] \<longleftrightarrow> tuning_grid sp = []" by (metis map_is_Nil_conv)
  ultimately show ?thesis by (simp add: best_so_far_def)
qed

definition sample_space :: search_space where
  "sample_space = \<lparr>ss_hybridAlpha = None, ss_topK = Some [1, 2], ss_rerankOversample = None\<rparr>"

lemma tuning_picks_the_first_best_witness:
  "\<exists>res. runAdaptiveTuning (\<lambda>_ w. (Inr [], w)) sample_search None sample_space [sample_query] () = (Inr res, ())
     \<and> map fst (tuning_runs res) = tuning_grid sample_space \<and> map tp_topK (map fst (tuning_runs res)) = [1, 2]
     \<and> bestMrr res = 1 / 2"
proof -
  let ?r = "runAdaptiveTuning (\<lambda>_ w. (Inr [], w)) sample_search None sample_space [sample_query] ()"
  obtain res where r: "?r = (Inr res, ())" and b: "bestMrr res = 1 / 2"
  proof -
    have "case ?r of (Inr res, _) \<Rightarrow> bestMrr res = 1 / 2 | _ \<Rightarrow> False" by code_simp
    then show thesis using that by (cases ?r) (auto split: sum.splits)
  qed
  have "map tp_topK (tuning_grid sample_space) = [1, 2]" by code_simp
  with tuning_picks_the_first_best [OF r] r b show ?thesis by auto
qed

subsection \<open>The recommendation of the bootstrap test\<close>

lemma bootstrap_deltas_facts [simp]:
  "length (bootstrap_deltas rnd ds n) = n" "sorted (bootstrap_deltas rnd ds n)"
  by (simp_all add: bootstrap_deltas_def)

lemma count_le_index:
  assumes "sorted xs" and "i < length xs" and "xs ! i > (0 :: rat)"
  shows "length (filter (\<lambda>d. d \<le> 0) xs) \<le> i"
proof -
  have "0 < x" if "x \<in> set (drop i xs)" for x
  proof -
    obtain j where "j < length xs - i" "x = xs ! (i + j)" using \<open>x \<in> set (drop i xs)\<close> assms(2) by (auto simp: in_set_conv_nth)
    then have "xs ! i \<le> x" using sorted_nth_mono [OF assms(1), of i "i + j"] by simp
    then show ?thesis using assms(3) by simp
  qed
  then have "filter (\<lambda>d. d \<le> 0) (drop i xs) = []" by (auto simp: filter_empty_conv not_le)
  then have "length (filter (\<lambda>d. d \<le> 0) (take i xs @ drop i xs)) \<le> i"
    using length_filter_le [of "\<lambda>d. d \<le> 0" "take i xs"] unfolding filter_append by simp
  then show ?thesis by simp
qed

lemma count_ge_index:
  assumes "sorted xs" and "i < length xs" and "xs ! i < (0 :: rat)"
  shows "Suc i \<le> length (filter (\<lambda>d. d \<le> 0) xs)"
proof -
  have "x \<le> 0" if "x \<in> set (take (Suc i) xs)" for x
  proof -
    have "\<exists>j < length (take (Suc i) xs). take (Suc i) xs ! j = x" using that by (simp only: in_set_conv_nth)
    then obtain j where "j < length (take (Suc i) xs)" "x = take (Suc i) xs ! j" by blast
    then have "j \<le> i" "x = xs ! j" by simp_all
    then show ?thesis using sorted_nth_mono [OF assms(1), of j i] assms(2,3) by simp
  qed
  then have "filter (\<lambda>d. d \<le> 0) (take (Suc i) xs) = take (Suc i) xs" by (simp add: filter_id_conv)
  then have "Suc i \<le> length (filter (\<lambda>d. d \<le> 0) (take (Suc i) xs @ drop (Suc i) xs))"
    using assms(2) unfolding filter_append by simp
  then show ?thesis by simp
qed

lemma draw_in_range:
  assumes "0 \<le> x" and "x < 1" and "0 < n"
  shows "draw_index x n < n"
proof -
  have "x * of_nat n < of_nat n" using assms by simp
  moreover have "of_int \<lfloor>x * of_nat n\<rfloor> \<le> x * of_nat n" by simp
  ultimately have "rat_of_int \<lfloor>x * of_nat n\<rfloor> < rat_of_int (int n)" by (simp only: of_int_of_nat_eq)
  then have "\<lfloor>x * of_nat n\<rfloor> < int n" unfolding of_int_less_iff .
  then show ?thesis using assms by (simp add: draw_index_def)
qed

lemma foldl_sum_pos: "(\<And>i. i \<in> set is \<Longrightarrow> (0 :: rat) < f i) \<Longrightarrow> 0 < a \<or> 0 \<le> a \<and> is \<noteq> [] \<Longrightarrow> 0 < foldl (\<lambda>s i. s + f i) a is"
  by (induction "is" arbitrary: a) (auto simp: add_pos_pos add_nonneg_pos)

lemma deltas_of_a_dominating_candidate:
  assumes "ds \<noteq> []" and "\<forall>d \<in> set ds. 0 < d" and "\<forall>j. 0 \<le> rnd j \<and> rnd j < 1"
  shows "\<forall>d \<in> set (bootstrap_deltas rnd ds n). 0 < d"
proof -
  have "0 < resampled_delta rnd ds iter" for iter
    unfolding resampled_delta_def Let_def using assms draw_in_range
    by (intro divide_pos_pos foldl_sum_pos) auto
  then show ?thesis by (simp add: bootstrap_deltas_def)
qed

text \<open>
  C23. What the recommendation of the paired bootstrap test says about its p-value: an accepted
  candidate has p at most 0.025; a rejected one has p at least 0.975, so never a small one, contrary
  to the comment on the field; and a candidate better on every single query is always accepted, with
  p-value 0. The test fails exactly on inputs of different lengths or without queries.
\<close>

theorem recommendation_follows_the_p_value:
  assumes n: "0 < n" and rnd: "\<forall>j. 0 \<le> rnd j \<and> rnd j < 1"
  shows "case bootstrapPairedTest rnd b c n of
      Inl _ \<Rightarrow> length b \<noteq> length c \<or> b = []
    | Inr r \<Rightarrow> length b = length c \<and> b \<noteq> []
        \<and> (\<exists>p. pValue r = Some p \<and> (recommended r = Accept \<longrightarrow> p \<le> 25 / 1000)
             \<and> (recommended r = Reject \<longrightarrow> 975 / 1000 \<le> p)
             \<and> ((\<forall>i < length b. b ! i < c ! i) \<longrightarrow> recommended r = Accept \<and> p = 0))"
proof (cases "length b \<noteq> length c \<or> b = []")
  case True
  then show ?thesis by (auto simp: bootstrapPairedTest_def)
next
  case False
  define xs where "xs = bootstrap_deltas rnd (map2 (\<lambda>b c. c - b) b c) n"
  define cnt where "cnt = length (filter (\<lambda>d. d \<le> 0) xs)"
  define lo where "lo = max 0 (\<lfloor>(25 / 1000 :: rat) * of_nat n\<rfloor> - 1)"
  define hi where "hi = min (int n - 1) \<lceil>(975 / 1000 :: rat) * of_nat n\<rceil>"
  have xs: "sorted xs" "length xs = n" by (simp_all add: xs_def)
  have lo: "0 \<le> lo" "lo < int n" "rat_of_int lo \<le> 25 / 1000 * of_nat n"
    unfolding lo_def using n by linarith+
  have hi: "0 \<le> hi" "hi < int n" "975 / 1000 * of_nat n \<le> rat_of_int (hi + 1)"
    unfolding hi_def using n by linarith+
  have acc: "rat_of_nat cnt \<le> 25 / 1000 * of_nat n" if "0 < xs ! nat lo"
  proof -
    have "cnt \<le> nat lo" unfolding cnt_def using count_le_index [OF xs(1), of "nat lo"] that lo xs(2) by simp
    then show ?thesis using lo by linarith
  qed
  have rej: "975 / 1000 * of_nat n \<le> rat_of_nat cnt" if "xs ! nat hi < 0"
  proof -
    have "Suc (nat hi) \<le> cnt" unfolding cnt_def using count_ge_index [OF xs(1), of "nat hi"] that hi xs(2) by simp
    then show ?thesis using hi by linarith
  qed
  have dom: "0 < xs ! nat lo \<and> cnt = 0" if "\<forall>i < length b. b ! i < c ! i"
  proof -
    have "\<forall>d \<in> set xs. 0 < d"
      unfolding xs_def using False that by (intro deltas_of_a_dominating_candidate rnd) (auto simp: set_zip)
    then show ?thesis using lo xs(2) by (auto simp: cnt_def filter_empty_conv not_le)
  qed
  have at: "array_at xs lo = Some (xs ! nat lo)" "array_at xs hi = Some (xs ! nat hi)"
    using lo hi xs(2) by (simp_all add: array_at_def)
  have "bootstrapPairedTest rnd b c n = Inr \<lparr>baselineMrr = mean b, candidateMrr = mean c,
      mrrDelta = mean c - mean b, pValue = Some (of_nat cnt / of_nat n),
      ci_lo = Some (xs ! nat lo), ci_hi = Some (xs ! nat hi),
      recommended = (if xs ! nat lo > 0 then Accept else if xs ! nat hi < 0 then Reject else Inconclusive)\<rparr>"
    unfolding bootstrapPairedTest_def Let_def xs_def [symmetric] cnt_def [symmetric] lo_def [symmetric]
      hi_def [symmetric] at using False n by auto
  then show ?thesis
    using False n acc rej dom by (simp add: divide_le_eq le_divide_eq)
qed

lemma recommendation_follows_the_p_value_witness:
  "\<exists>r. bootstrapPairedTest (\<lambda>_. 1 / 2) [0, 1 / 2] [1 / 2, 1] 2 = Inr r \<and> recommended r = Accept \<and> pValue r = Some 0"
proof -
  have "\<not> isl (bootstrapPairedTest (\<lambda>_. 1 / 2) [0, 1 / 2] [1 / 2, 1] 2)"
    by (simp add: bootstrapPairedTest_def Let_def)
  then obtain r where r: "bootstrapPairedTest (\<lambda>_. 1 / 2) [0, 1 / 2] [1 / 2, 1] 2 = Inr r"
    by (cases "bootstrapPairedTest (\<lambda>_. 1 / 2) [0, 1 / 2] [1 / 2, 1] 2") auto
  show ?thesis
    using recommendation_follows_the_p_value [of 2 "\<lambda>_. 1 / 2" "[0, 1 / 2]" "[1 / 2, 1]"] r
    by (auto simp: less_Suc_eq numeral_2_eq_2)
qed

end
