(* ===== verification/SuiteRunner.thy ===== *)
theory SuiteRunner
  imports Eval RunsDb Formatting
begin

section \<open>Evaluation suites\<close>

text \<open>
  \<open>src/packages/virage-core/src/eval/suite-runner.ts\<close>: evaluating the variants of a suite one after
  the other, with a progress file from which an interrupted run resumes, then comparing them with
  the baseline. The outside world (files, downloads, plugin installation, configuration loading, the
  evaluation itself, the database of runs, the clock) is a record of functions over a state \<open>'w\<close>;
  a loaded configuration is a value \<open>'c\<close>. Configurations are JSON objects, in which an undefined
  property is an absent one, as \<open>JSON.stringify\<close> has it. Console output other than the table of
  configuration parameters is left out.
\<close>

subsection \<open>Suites\<close>

record fileset_definition =
  fd_include :: "string list"
  fd_exclude :: "string list option"

record database_spec =
  db_url :: string
  db_sha256 :: "string option"
  db_embedder :: "json option"
  db_vectorStore :: "json option"
  db_chunkers :: "(string \<times> string) list option"
  db_pluginVersions :: "(string \<times> string) list option"

record eval_variant =
  va_name :: string
  va_config :: "string option"
  va_database :: string
  va_skip :: bool
  va_search :: "json option"

record eval_suite =
  su_dataset :: string
  su_topK :: "nat option"
  su_baseline :: string
  su_ciGate :: "rat option"
  su_databases :: "(string \<times> database_spec) list"
  su_variants :: "eval_variant list"
  su_cacheDir :: "string option"
  su_filesets :: "(string \<times> fileset_definition) list option"
  su_chunkers :: "(string \<times> string) list option"
  su_exclude :: "string list option"

record config_fields =
  cf_topK :: nat
  cf_embedderPackage :: "json option"
  cf_embedderModel :: "json option"
  cf_vectorStorePackage :: "json option"
  cf_searchHybrid :: "json option"
  cf_searchHybridAlpha :: "json option"
  cf_rerankerPackage :: "json option"
  cf_pluginVersions :: "json option"

record variant_result =
  vr_name :: string
  vr_evalResult :: eval_result
  vr_perQueryRrScores :: "rat list"
  vr_runId :: string
  vr_comparison :: "stat_test_result option"
  vr_configFields :: config_fields

record suite_result =
  sr_variants :: "variant_result list"
  sr_baseline :: variant_result
  sr_ciPassed :: bool

record progress_file =
  pf_fingerprint :: string
  pf_completedAt :: "(string \<times> string) list"
  pf_results :: "variant_result list"

subsection \<open>Reading configurations\<close>

text \<open>\<open>v?.k\<close>\<close>

definition prop_of :: "json option \<Rightarrow> string \<Rightarrow> json option" where
  "prop_of v k = (case v of Some (JObj m) \<Rightarrow> get_prop k m | _ \<Rightarrow> None)"

text \<open>\<open>a ?? b\<close> on values of properties\<close>

definition coalesce :: "json option \<Rightarrow> json option \<Rightarrow> json option" where
  "coalesce a b = (case a of None \<Rightarrow> b | Some JNull \<Rightarrow> b | Some v \<Rightarrow> Some v)"

definition pluginRefLabel :: "json option \<Rightarrow> json option" where
  "pluginRefLabel r = coalesce (prop_of r ''builtin'') (prop_of r ''package'')"

definition extractConfigFields :: "json_obj \<Rightarrow> nat \<Rightarrow> config_fields" where
  "extractConfigFields rawConfig topK =
     (let providers = get_prop ''providers'' rawConfig; search = get_prop ''search'' rawConfig
      in \<lparr>cf_topK = topK,
          cf_embedderPackage = pluginRefLabel (prop_of providers ''embedder''),
          cf_embedderModel = prop_of (prop_of (prop_of providers ''embedder'') ''options'') ''model'',
          cf_vectorStorePackage = pluginRefLabel (prop_of providers ''vectorStore''),
          cf_searchHybrid = coalesce (prop_of search ''hybrid'') (Some (JBool False)),
          cf_searchHybridAlpha = prop_of search ''hybridAlpha'',
          cf_rerankerPackage = pluginRefLabel (prop_of providers ''reranker''),
          cf_pluginVersions = get_prop ''pluginVersions'' rawConfig\<rparr>)"

definition optional :: "string \<Rightarrow> json option \<Rightarrow> json_obj" where
  "optional k v = (case v of None \<Rightarrow> [] | Some x \<Rightarrow> [(k, x)])"

definition strings_json :: "string list \<Rightarrow> json" where
  "strings_json ss = JArr (map JStr ss)"

definition versions_json :: "(string \<times> string) list \<Rightarrow> json" where
  "versions_json vs = JObj (map (\<lambda>(k, v). (k, JStr v)) vs)"

text \<open>An array that is absent or empty: \<open>xs?.length\<close> is falsy.\<close>

definition non_empty :: "string list option \<Rightarrow> string list option" where
  "non_empty xs = (case xs of Some (x # ys) \<Rightarrow> Some (x # ys) | _ \<Rightarrow> None)"

record chunker_entry_spec =
  ce_name :: string
  ce_package :: string
  ce_include :: "string list option"
  ce_ignore :: "string list option"

definition effective_chunkers :: "eval_suite \<Rightarrow> database_spec \<Rightarrow> (string \<times> string) list" where
  "effective_chunkers suite db =
     map_set_all (nullish (db_chunkers db) []) (map_set_all (nullish (su_chunkers suite) []) [])"

fun chunker_entries ::
  "eval_suite \<Rightarrow> (string \<times> string) list \<Rightarrow> chunker_entry_spec list result" where
  "chunker_entries suite [] = Inr []"
| "chunker_entries suite ((filesetName, packageName) # es) =
     (case Option.bind (su_filesets suite) (\<lambda>fs. map_of fs filesetName) of
        None \<Rightarrow> Inl (Err EError (''Unknown fileset '' @ filesetName @ '' referenced in chunkers''))
      | Some fileset \<Rightarrow>
          result_bind (chunker_entries suite es) (\<lambda>rest.
            Inr (\<lparr>ce_name = filesetName, ce_package = packageName, ce_include = non_empty (Some (fd_include fileset)),
                  ce_ignore = non_empty (fd_exclude fileset)\<rparr> # rest)))"

definition file_set_json :: "chunker_entry_spec \<Rightarrow> json" where
  "file_set_json e =
     JObj ([(''name'', JStr (ce_name e))] @ optional ''include'' (map_option strings_json (ce_include e))
       @ optional ''ignore'' (map_option strings_json (ce_ignore e))
       @ [(''chunkers'', JArr [JObj [(''package'', JStr (ce_package e))]])])"

definition buildRawConfigFromSuite :: "eval_suite \<Rightarrow> eval_variant \<Rightarrow> database_spec \<Rightarrow> json_obj result" where
  "buildRawConfigFromSuite suite variant db =
     (case (db_embedder db, db_vectorStore db) of
        (Some embedder, Some vectorStore) \<Rightarrow>
          result_bind (chunker_entries suite (effective_chunkers suite db)) (\<lambda>entries.
            Inr ([(''providers'', JObj [(''embedder'', embedder), (''vectorStore'', vectorStore)]),
                  (''fileSets'', JArr (map file_set_json entries))]
                 @ optional ''ignore'' (map_option strings_json (su_exclude suite))
                 @ optional ''search'' (va_search variant)
                 @ optional ''pluginVersions'' (map_option versions_json (db_pluginVersions db))))
      | _ \<Rightarrow> Inl (Err EError (''Database '' @ va_database variant @ '' is missing embedder or vectorStore'')))"

text \<open>\<open>vectorStore.options = { ...vectorStore.options, uri }\<close>; a configuration without this object is
  left as it is.\<close>

definition patch_uri :: "string \<Rightarrow> json_obj \<Rightarrow> json_obj" where
  "patch_uri uri raw =
     (case get_prop ''providers'' raw of
        Some (JObj providers) \<Rightarrow>
          (case get_prop ''vectorStore'' providers of
             Some (JObj vectorStore) \<Rightarrow>
               let options = (case get_prop ''options'' vectorStore of Some (JObj m) \<Rightarrow> m | _ \<Rightarrow> [])
               in set_prop ''providers'' (JObj (set_prop ''vectorStore''
                    (JObj (set_prop ''options'' (JObj (set_prop ''uri'' (JStr uri) options)) vectorStore))
                    providers)) raw
           | _ \<Rightarrow> raw)
      | _ \<Rightarrow> raw)"

definition plugin_versions :: "json_obj \<Rightarrow> (string \<times> string) list" where
  "plugin_versions raw =
     (case get_prop ''pluginVersions'' raw of
        Some (JObj m) \<Rightarrow> map (\<lambda>(k, v). (k, case v of JStr s \<Rightarrow> s | _ \<Rightarrow> [])) m
      | _ \<Rightarrow> [])"

subsection \<open>The table of configuration parameters\<close>

definition config_columns :: "(string \<times> (config_fields \<Rightarrow> json option)) list" where
  "config_columns =
     [(''embedder'', cf_embedderPackage), (''model'', cf_embedderModel), (''store'', cf_vectorStorePackage),
      (''top-k'', \<lambda>c. Some (JNum (of_nat (cf_topK c)))), (''hybrid'', cf_searchHybrid),
      (''hybridAlpha'', cf_searchHybridAlpha), (''reranker'', cf_rerankerPackage)]"

text \<open>\<open>String(value ?? "none")\<close>, where \<open>str\<close> is \<open>String\<close> on a JSON value.\<close>

definition config_value :: "(json \<Rightarrow> string) \<Rightarrow> json option \<Rightarrow> string" where
  "config_value str v = (case coalesce v None of None \<Rightarrow> ''none'' | Some x \<Rightarrow> str x)"

definition config_line ::
  "(json \<Rightarrow> string) \<Rightarrow> variant_result list \<Rightarrow> string \<times> (config_fields \<Rightarrow> json option)
   \<Rightarrow> string option \<times> string option" where
  "config_line str results column =
     (case column of (name, field) \<Rightarrow>
        let vals = map (\<lambda>r. config_value str (field (vr_configFields r))) results;
            label = ''      '' @ pad_end 14 (CHR '' '') name @ '' ''
        in if length (dedup vals) = 1
           then (if hd vals \<noteq> ''undefined'' \<and> hd vals \<noteq> ''none'' then Some (label @ hd vals) else None, None)
           else (None, Some (label @ join_with '', ''
                  (map (\<lambda>r. vr_name r @ ''='' @ config_value str (field (vr_configFields r))) results))))"

definition printConfigParams :: "(json \<Rightarrow> string) \<Rightarrow> variant_result list \<Rightarrow> string list" where
  "printConfigParams str results =
     (let lines = map (config_line str results) config_columns;
          sharedLines = List.map_filter fst lines;
          differsLines = List.map_filter snd lines
      in [''  Config parameters:'']
         @ (if length sharedLines > 0 then ''    shared'' # sharedLines else [])
         @ (if length differsLines > 0 then ''    differs'' # differsLines else []))"

subsection \<open>The outside world\<close>

record ('w, 'c) suite_env =
  se_loadDataset :: "string \<Rightarrow> 'w \<Rightarrow> eval_query list result \<times> 'w"
  se_readFile :: "string \<Rightarrow> 'w \<Rightarrow> string result \<times> 'w"
  se_readConfig :: "string \<Rightarrow> 'w \<Rightarrow> json_obj result \<times> 'w"
  se_fingerprint :: "eval_suite \<Rightarrow> string \<Rightarrow> string"
  se_hash16 :: "string \<Rightarrow> string"
  se_sortPlugins :: "(string \<times> string) list \<Rightarrow> (string \<times> string) list"
  se_resolve :: "string \<Rightarrow> string \<Rightarrow> string"
  se_readProgress :: "string \<Rightarrow> 'w \<Rightarrow> progress_file option \<times> 'w"
  se_writeProgress :: "string \<Rightarrow> progress_file \<Rightarrow> 'w \<Rightarrow> 'w"
  se_removeProgress :: "string \<Rightarrow> 'w \<Rightarrow> 'w"
  se_download :: "string \<Rightarrow> string \<Rightarrow> string option \<Rightarrow> bool \<Rightarrow> 'w \<Rightarrow> bool result \<times> 'w"
  se_installPlugins :: "(string \<times> string) list \<Rightarrow> string \<Rightarrow> 'w \<Rightarrow> unit result \<times> 'w"
  se_loadConfig :: "string option \<Rightarrow> json_obj \<Rightarrow> 'w \<Rightarrow> 'c result \<times> 'w"
  se_initialize :: "'c \<Rightarrow> 'w \<Rightarrow> unit result \<times> 'w"
  se_evaluate :: "'c \<Rightarrow> eval_query list \<Rightarrow> nat \<Rightarrow> 'w \<Rightarrow> (eval_result \<times> rat list) result \<times> 'w"
  se_close :: "'c \<Rightarrow> 'w \<Rightarrow> unit result \<times> 'w"
  se_saveRun :: "experiment_run \<Rightarrow> 'w \<Rightarrow> unit result \<times> 'w"
  se_nowIso :: "'w \<Rightarrow> string result \<times> 'w"

record suite_run_options =
  ro_noCache :: bool

definition path_join :: "string \<Rightarrow> string \<Rightarrow> string" where
  "path_join a b = a @ ''/'' @ b"

text \<open>\<open>makeRunId\<close> of \<open>experiment-store.ts\<close>; \<open>stamp\<close> is the time stamp.\<close>

definition safe_char :: "char \<Rightarrow> bool" where
  "safe_char c \<longleftrightarrow> (let n = of_char c :: nat in (48 \<le> n \<and> n \<le> 57) \<or> (65 \<le> n \<and> n \<le> 90) \<or> (97 \<le> n \<and> n \<le> 122)
     \<or> c = CHR ''_'' \<or> c = CHR ''-'')"

definition makeRunId :: "string \<Rightarrow> string \<Rightarrow> string" where
  "makeRunId stamp name =
     map (\<lambda>c. if safe_char c then c else CHR ''_'') name @ ''_''
     @ take 19 (map (\<lambda>c. if c = CHR '':'' \<or> c = CHR ''.'' then CHR ''-'' else c) stamp)"

definition eval_result_json :: "eval_result \<Rightarrow> json" where
  "eval_result_json e = JObj [(''precisionAt5'', JNum (precisionAt5 e)), (''precisionAt10'', JNum (precisionAt10 e)),
     (''recallAt10'', JNum (recallAt10 e)), (''mrr'', JNum (mrr e)), (''hitRateAt5'', JNum (hitRateAt5 e)),
     (''queriesEvaluated'', JNum (of_nat (queriesEvaluated e)))]"

definition config_fields_json :: "config_fields \<Rightarrow> json_obj" where
  "config_fields_json c =
     [(''topK'', JNum (of_nat (cf_topK c)))] @ optional ''embedderPackage'' (cf_embedderPackage c)
     @ optional ''embedderModel'' (cf_embedderModel c) @ optional ''vectorStorePackage'' (cf_vectorStorePackage c)
     @ optional ''searchHybrid'' (cf_searchHybrid c) @ optional ''searchHybridAlpha'' (cf_searchHybridAlpha c)
     @ optional ''rerankerPackage'' (cf_rerankerPackage c) @ optional ''pluginVersions'' (cf_pluginVersions c)"

definition suite_run ::
  "eval_suite \<Rightarrow> eval_variant \<Rightarrow> string \<Rightarrow> string \<Rightarrow> config_fields \<Rightarrow> eval_result \<times> rat list
   \<Rightarrow> experiment_run" where
  "suite_run suite variant id_stamp stamp cfields res =
     \<lparr>run_id = makeRunId id_stamp (''suite-'' @ va_name variant), run_name = ''suite:'' @ va_name variant, run_timestamp = stamp,
      run_config = [(''configFile'', JStr (nullish (va_config variant) (''suite:'' @ va_database variant))),
        (''database'', JStr (va_database variant)), (''suiteDataset'', JStr (su_dataset suite))]
        @ config_fields_json cfields,
      run_evalResult = eval_result_json (fst res), run_ragasResult = None,
      run_perQueryRrScores = Some (JArr (map JNum (snd res)))\<rparr>"

subsection \<open>Running a suite\<close>

text \<open>\<open>try { body } finally { cleanup }\<close>: an error of the clean-up replaces the outcome.\<close>

definition finally_do :: "('w \<Rightarrow> unit result \<times> 'w) \<Rightarrow> ('w \<Rightarrow> 'a result \<times> 'w) \<Rightarrow> 'w \<Rightarrow> 'a result \<times> 'w" where
  "finally_do cleanup body w =
     (case body w of (r, w1) \<Rightarrow>
        (case cleanup w1 of (Inl e, w2) \<Rightarrow> (Inl e, w2) | (Inr _, w2) \<Rightarrow> (r, w2)))"

text \<open>What stays the same for all variants of a run.\<close>

record suite_context =
  sx_suite :: eval_suite
  sx_suiteDir :: string
  sx_cacheDir :: string
  sx_noCache :: bool
  sx_topK :: nat
  sx_dataset :: "eval_query list"
  sx_fingerprint :: string
  sx_progressPath :: string

type_synonym suite_progress = "(string \<times> string) list \<times> variant_result list"

text \<open>The body of the \<open>try\<close>: evaluate, record the run, and persist the progress.\<close>

definition record_variant ::
  "('w, 'c) suite_env \<Rightarrow> suite_context \<Rightarrow> suite_progress \<Rightarrow> eval_variant \<Rightarrow> 'c \<Rightarrow> config_fields \<Rightarrow> 'w
   \<Rightarrow> suite_progress result \<times> 'w" where
  "record_variant env cx progress variant cfg configFields =
     and_then (se_evaluate env cfg (sx_dataset cx) (sx_topK cx)) (\<lambda>res.
       and_then (se_nowIso env) (\<lambda>id_stamp. and_then (se_nowIso env) (\<lambda>stamp.
         let run = suite_run (sx_suite cx) variant id_stamp stamp configFields res
         in and_then (se_saveRun env run) (\<lambda>_.
              let results = snd progress @ [\<lparr>vr_name = va_name variant, vr_evalResult = fst res,
                    vr_perQueryRrScores = snd res, vr_runId = run_id run, vr_comparison = None,
                    vr_configFields = configFields\<rparr>]
              in and_then (se_nowIso env) (\<lambda>done_stamp w.
                   let completedAt = AList.update (va_name variant) done_stamp (fst progress)
                   in (Inr (completedAt, results),
                       se_writeProgress env (sx_progressPath cx)
                         \<lparr>pf_fingerprint = sx_fingerprint cx, pf_completedAt = completedAt, pf_results = results\<rparr> w))))))"

definition variant_config ::
  "('w, 'c) suite_env \<Rightarrow> suite_context \<Rightarrow> eval_variant \<Rightarrow> database_spec \<Rightarrow> 'w \<Rightarrow> json_obj result \<times> 'w" where
  "variant_config env cx variant spec =
     (case va_config variant of
        Some (c # cs) \<Rightarrow> se_readConfig env (se_resolve env (sx_suiteDir cx) (c # cs))
      | _ \<Rightarrow> (\<lambda>w. (buildRawConfigFromSuite (sx_suite cx) variant spec, w)))"

definition run_variant ::
  "('w, 'c) suite_env \<Rightarrow> suite_context \<Rightarrow> suite_progress \<Rightarrow> eval_variant \<Rightarrow> database_spec \<Rightarrow> 'w
   \<Rightarrow> suite_progress result \<times> 'w" where
  "run_variant env cx progress variant spec =
     and_then (variant_config env cx variant spec) (\<lambda>rawConfig.
       let pluginVersions = plugin_versions rawConfig;
           sortedPlugins = map (\<lambda>(k, v). k @ ''@'' @ v) (se_sortPlugins env pluginVersions);
           runKey = se_hash16 env (db_url spec @ join_with '','' sortedPlugins);
           evalRunDir = path_join (path_join (sx_cacheDir cx) ''runs'') runKey;
           lancedbDir = path_join evalRunDir ''lancedb'';
           pluginDir = path_join evalRunDir ''plugins''
       in and_then (se_download env (db_url spec) lancedbDir (db_sha256 spec) (sx_noCache cx)) (\<lambda>dbCached.
            and_then (if length sortedPlugins > 0 then se_installPlugins env pluginVersions pluginDir else give ())
              (\<lambda>_.
              let patched = patch_uri lancedbDir rawConfig
              in and_then (se_loadConfig env (if length sortedPlugins > 0 then Some evalRunDir else None) patched)
                   (\<lambda>cfg. and_then (se_initialize env cfg) (\<lambda>_.
                      finally_do (se_close env cfg)
                        (record_variant env cx progress variant cfg
                           (extractConfigFields patched (sx_topK cx))))))))"

definition completed :: "suite_progress \<Rightarrow> string \<Rightarrow> bool" where
  "completed progress name \<longleftrightarrow>
     (case map_of (fst progress) name of None \<Rightarrow> False | Some stamp \<Rightarrow> stamp \<noteq> [])
     \<and> (\<exists>r \<in> set (snd progress). vr_name r = name)"

fun run_variants ::
  "('w, 'c) suite_env \<Rightarrow> suite_context \<Rightarrow> eval_variant list \<Rightarrow> suite_progress \<Rightarrow> 'w
   \<Rightarrow> suite_progress result \<times> 'w" where
  "run_variants env cx [] progress = give progress"
| "run_variants env cx (variant # vs) progress =
     (if va_skip variant then run_variants env cx vs progress
      else if completed progress (va_name variant) then run_variants env cx vs progress
      else case map_of (su_databases (sx_suite cx)) (va_database variant) of
             None \<Rightarrow> (\<lambda>w. (Inl (Err EError (''Variant '' @ va_name variant @ '' references unknown database '' @ va_database variant)), w))
           | Some spec \<Rightarrow> and_then (run_variant env cx progress variant spec) (run_variants env cx vs))"

text \<open>The saved progress of this suite, unless the cache is off.\<close>

definition saved_progress ::
  "('w, 'c) suite_env \<Rightarrow> suite_context \<Rightarrow> 'w \<Rightarrow> suite_progress result \<times> 'w" where
  "saved_progress env cx w =
     (if sx_noCache cx then (Inr ([], []), w)
      else case se_readProgress env (sx_progressPath cx) w of
             (Some saved, w1) \<Rightarrow>
               (Inr (if pf_fingerprint saved = sx_fingerprint cx then (pf_completedAt saved, pf_results saved) else ([], [])), w1)
           | (None, w1) \<Rightarrow> (Inr ([], []), w1))"

text \<open>The comparisons with the baseline; challenger \<open>i\<close> draws from \<open>rnd i\<close>.\<close>

fun compare_all ::
  "(nat \<Rightarrow> nat \<Rightarrow> rat) \<Rightarrow> nat \<Rightarrow> string \<Rightarrow> rat list \<Rightarrow> variant_result list \<Rightarrow> variant_result list result" where
  "compare_all rnd i base scores [] = Inr []"
| "compare_all rnd i base scores (r # rs) =
     (if vr_name r = base then result_bind (compare_all rnd i base scores rs) (\<lambda>rest. Inr (r # rest))
      else result_bind (bootstrapPairedTest (rnd i) scores (vr_perQueryRrScores r) 10000) (\<lambda>c.
             result_bind (compare_all rnd (i + 1) base scores rs) (\<lambda>rest.
               Inr (r\<lparr>vr_comparison := Some c\<rparr> # rest))))"

definition judge_suite ::
  "(nat \<Rightarrow> nat \<Rightarrow> rat) \<Rightarrow> eval_suite \<Rightarrow> variant_result list \<Rightarrow> suite_result result" where
  "judge_suite rnd suite results =
     (case find (\<lambda>r. vr_name r = su_baseline suite) results of
        None \<Rightarrow> Inl (Err EError (''Baseline variant '' @ su_baseline suite @ '' was not found in results.''))
      | Some baseline \<Rightarrow>
          result_bind (compare_all rnd 0 (su_baseline suite) (vr_perQueryRrScores baseline) results) (\<lambda>variants.
            Inr \<lparr>sr_variants = variants, sr_baseline = baseline,
                 sr_ciPassed = (case su_ciGate suite of None \<Rightarrow> True | Some gate \<Rightarrow> mrr (vr_evalResult baseline) \<ge> gate)\<rparr>))"

definition suite_context_of ::
  "('w, 'c) suite_env \<Rightarrow> suite_run_options \<Rightarrow> eval_suite \<Rightarrow> string \<Rightarrow> eval_query list \<Rightarrow> string \<Rightarrow> suite_context" where
  "suite_context_of env opts suite suiteDir dataset content =
     (let cacheDir = se_resolve env suiteDir (nullish (su_cacheDir suite) ''.virage/eval-cache'');
          fingerprint = se_fingerprint env suite content
      in \<lparr>sx_suite = suite, sx_suiteDir = suiteDir, sx_cacheDir = cacheDir, sx_noCache = ro_noCache opts,
          sx_topK = nullish (su_topK suite) 10, sx_dataset = dataset, sx_fingerprint = fingerprint,
          sx_progressPath = path_join cacheDir (''progress-'' @ fingerprint @ ''.json'')\<rparr>)"

definition runSuite ::
  "('w, 'c) suite_env \<Rightarrow> (nat \<Rightarrow> nat \<Rightarrow> rat) \<Rightarrow> suite_run_options \<Rightarrow> eval_suite \<Rightarrow> string \<Rightarrow> 'w
   \<Rightarrow> suite_result result \<times> 'w" where
  "runSuite env rnd opts suite suiteDir =
     and_then (se_loadDataset env (se_resolve env suiteDir (su_dataset suite))) (\<lambda>dataset.
       and_then (se_readFile env (se_resolve env suiteDir (su_dataset suite))) (\<lambda>content.
         let cx = suite_context_of env opts suite suiteDir dataset content
         in and_then (saved_progress env cx) (\<lambda>progress.
              and_then (run_variants env cx (su_variants suite) progress) (\<lambda>final w.
                (case judge_suite rnd suite (snd final) of
                   Inl e \<Rightarrow> (Inl e, w)
                 | Inr res \<Rightarrow> (Inr res, se_removeProgress env (sx_progressPath cx) w))))))"

subsection \<open>What a run relies on\<close>

text \<open>
  \<open>prog w p\<close> is the progress file at path \<open>p\<close> as it parses, \<open>None\<close> when it is missing or corrupt. Only
  the three operations on progress files touch one; writing may fail or leave a corrupt file.
\<close>

type_synonym 'w progress_view = "'w \<Rightarrow> string \<Rightarrow> progress_file option"

definition untouched :: "'w progress_view \<Rightarrow> ('w \<Rightarrow> 'a \<times> 'w) \<Rightarrow> bool" where
  "untouched prog f \<longleftrightarrow> (\<forall>w. prog (snd (f w)) = prog w)"

definition quiet_calls :: "('w, 'c) suite_env \<Rightarrow> 'w progress_view \<Rightarrow> bool" where
  "quiet_calls env prog \<longleftrightarrow>
     (\<forall>p. untouched prog (se_loadDataset env p) \<and> untouched prog (se_readFile env p) \<and> untouched prog (se_readConfig env p)
        \<and> untouched prog (se_readProgress env p))
     \<and> (\<forall>u d s n. untouched prog (se_download env u d s n)) \<and> (\<forall>v d. untouched prog (se_installPlugins env v d))
     \<and> (\<forall>d c. untouched prog (se_loadConfig env d c))
     \<and> (\<forall>c. untouched prog (se_initialize env c) \<and> untouched prog (se_close env c)
          \<and> (\<forall>ds k. untouched prog (se_evaluate env c ds k)))
     \<and> (\<forall>r. untouched prog (se_saveRun env r)) \<and> untouched prog (se_nowIso env)"

definition progress_files :: "('w, 'c) suite_env \<Rightarrow> 'w progress_view \<Rightarrow> bool" where
  "progress_files env prog \<longleftrightarrow>
     (\<forall>p w. fst (se_readProgress env p w) = prog w p)
     \<and> (\<forall>p pf w. prog (se_writeProgress env p pf w) p \<in> {prog w p, None, Some pf})
     \<and> (\<forall>p w. prog (se_removeProgress env p w) p \<in> {prog w p, None})"

definition suite_laws :: "('w, 'c) suite_env \<Rightarrow> 'w progress_view \<Rightarrow> bool" where
  "suite_laws env prog \<longleftrightarrow> quiet_calls env prog \<and> progress_files env prog
     \<and> (\<forall>w s w'. se_nowIso env w = (Inr s, w') \<longrightarrow> s \<noteq> [])"

text \<open>
  Evaluations are reproducible: a configuration file always has the contents \<open>conf\<close>, and however
  often a configuration is loaded and evaluated, a successful evaluation yields \<open>figs\<close>.
\<close>

type_synonym figures_fn = "string option \<Rightarrow> json_obj \<Rightarrow> eval_query list \<Rightarrow> nat \<Rightarrow> eval_result \<times> rat list"

definition reproducible ::
  "('w, 'c) suite_env \<Rightarrow> (string \<Rightarrow> json_obj) \<Rightarrow> figures_fn \<Rightarrow> bool" where
  "reproducible env conf figs \<longleftrightarrow>
     (\<forall>p w j w'. se_readConfig env p w = (Inr j, w') \<longrightarrow> j = conf p)
     \<and> (\<forall>dir raw w cfg w1 ds k v res v'. se_loadConfig env dir raw w = (Inr cfg, w1) \<longrightarrow>
          se_evaluate env cfg ds k v = (Inr res, v') \<longrightarrow> res = figs dir raw ds k)"

text \<open>What a result says of its variant, and what it should say.\<close>

definition figures_of :: "variant_result \<Rightarrow> string \<times> (eval_result \<times> rat list) \<times> config_fields" where
  "figures_of r = (vr_name r, (vr_evalResult r, vr_perQueryRrScores r), vr_configFields r)"

definition expected_config ::
  "('w, 'c) suite_env \<Rightarrow> (string \<Rightarrow> json_obj) \<Rightarrow> suite_context \<Rightarrow> eval_variant \<Rightarrow> database_spec \<Rightarrow> json_obj result" where
  "expected_config env conf cx v spec =
     (case va_config v of
        Some (c # cs) \<Rightarrow> Inr (conf (se_resolve env (sx_suiteDir cx) (c # cs)))
      | _ \<Rightarrow> buildRawConfigFromSuite (sx_suite cx) v spec)"

definition expected_figures ::
  "('w, 'c) suite_env \<Rightarrow> (string \<Rightarrow> json_obj) \<Rightarrow> figures_fn \<Rightarrow> suite_context \<Rightarrow> eval_variant
   \<Rightarrow> string \<times> (eval_result \<times> rat list) \<times> config_fields" where
  "expected_figures env conf figs cx v =
     (let spec = the (map_of (su_databases (sx_suite cx)) (va_database v));
          raw = (case expected_config env conf cx v spec of Inr raw \<Rightarrow> raw | Inl _ \<Rightarrow> []);
          sortedPlugins = map (\<lambda>(k, v). k @ ''@'' @ v) (se_sortPlugins env (plugin_versions raw));
          evalRunDir = path_join (path_join (sx_cacheDir cx) ''runs'')
            (se_hash16 env (db_url spec @ join_with '','' sortedPlugins));
          patched = patch_uri (path_join evalRunDir ''lancedb'') raw
      in (va_name v,
          figs (if length sortedPlugins > 0 then Some evalRunDir else None) patched (sx_dataset cx) (sx_topK cx),
          extractConfigFields patched (sx_topK cx)))"

definition variant_order :: "eval_suite \<Rightarrow> eval_variant list" where
  "variant_order suite = filter_unseen va_name [] (filter (\<lambda>v. \<not> va_skip v) (su_variants suite))"

text \<open>Every result has a time stamp under its name.\<close>

definition stamped :: "suite_progress \<Rightarrow> bool" where
  "stamped progress \<longleftrightarrow>
     (\<forall>r \<in> set (snd progress). \<exists>s. s \<noteq> [] \<and> map_of (fst progress) (vr_name r) = Some s)"

definition names_of :: "suite_progress \<Rightarrow> string list" where
  "names_of progress = map vr_name (snd progress)"

text \<open>Saved progress: nothing usable, or the results of the first variants of the order.\<close>

definition saved_ok ::
  "'w progress_view \<Rightarrow> suite_context \<Rightarrow> (eval_variant \<Rightarrow> string \<times> (eval_result \<times> rat list) \<times> config_fields)
   \<Rightarrow> 'w \<Rightarrow> bool" where
  "saved_ok prog cx VF w \<longleftrightarrow>
     (\<forall>pf. prog w (sx_progressPath cx) = Some pf \<longrightarrow> pf_fingerprint pf = sx_fingerprint cx \<longrightarrow>
        stamped (pf_completedAt pf, pf_results pf)
        \<and> (\<exists>n. map figures_of (pf_results pf) = map VF (take n (variant_order (sx_suite cx)))))"

subsection \<open>One variant\<close>

text \<open>A computation that leaves the progress file alone, corrupts it, or writes one with \<open>P\<close>, and
  returns only values with \<open>Q\<close>.\<close>

definition does ::
  "'w progress_view \<Rightarrow> string \<Rightarrow> (progress_file \<Rightarrow> bool) \<Rightarrow> ('a \<Rightarrow> bool) \<Rightarrow> ('w \<Rightarrow> 'a result \<times> 'w) \<Rightarrow> bool" where
  "does prog path P Q f \<longleftrightarrow> (\<forall>w r w'. f w = (r, w') \<longrightarrow>
     (prog w' path \<in> {prog w path, None} \<or> (\<exists>pf. prog w' path = Some pf \<and> P pf))
     \<and> (\<forall>x. r = Inr x \<longrightarrow> Q x))"

lemma does_untouched: "untouched prog f \<Longrightarrow> does prog path P (\<lambda>_. True) f"
  by (simp add: does_def untouched_def) (metis snd_conv)

lemma does_give: "Q x \<Longrightarrow> does prog path P Q (give x)"
  by (simp add: does_def give_def)

lemma does_fail: "does prog path P Q (\<lambda>w. (Inl e, w))"
  by (simp add: does_def)

lemma doesD:
  assumes "does prog path P Q f" and "f w = (r, w')"
  shows "prog w' path \<in> {prog w path, None} \<or> (\<exists>pf. prog w' path = Some pf \<and> P pf)"
    and "r = Inr x \<Longrightarrow> Q x"
  using assms unfolding does_def by blast+

lemma does_and_then:
  assumes m: "does prog path P R m" and f: "\<And>x w w'. m w = (Inr x, w') \<Longrightarrow> R x \<Longrightarrow> does prog path P Q (f x)"
  shows "does prog path P Q (and_then m f)"
  unfolding does_def
proof (intro allI impI)
  fix w r w'
  assume "and_then m f w = (r, w')"
  then show "(prog w' path \<in> {prog w path, None} \<or> (\<exists>pf. prog w' path = Some pf \<and> P pf)) \<and> (\<forall>x. r = Inr x \<longrightarrow> Q x)"
  proof (cases rule: and_thenE)
    case (failed e)
    then show ?thesis using doesD(1) [OF m failed(1)] by simp
  next
    case (returned x w1)
    have d: "does prog path P Q (f x)" by (rule f [OF returned(1) doesD(2) [OF m returned(1) refl]])
    show ?thesis using doesD(1) [OF m returned(1)] doesD [OF d returned(2)] by auto
  qed
qed

lemma does_finally:
  assumes "does prog path P Q f" and "untouched prog c"
  shows "does prog path P Q (finally_do c f)"
  unfolding does_def
proof (intro allI impI)
  fix w r w'
  assume run: "finally_do c f w = (r, w')"
  obtain r1 w1 where f: "f w = (r1, w1)" by force
  obtain r2 w2 where c: "c w1 = (r2, w2)" by force
  have "w' = w2" and r: "r = r1 \<or> isl r" using run f c by (auto simp: finally_do_def split: sum.splits)
  moreover have "prog w2 = prog w1" using assms(2) c unfolding untouched_def by (metis snd_conv)
  ultimately show "(prog w' path \<in> {prog w path, None} \<or> (\<exists>pf. prog w' path = Some pf \<and> P pf)) \<and> (\<forall>x. r = Inr x \<longrightarrow> Q x)"
    using doesD [OF assms(1) f] by auto
qed

lemma suite_untouched:
  assumes "suite_laws env prog"
  shows "untouched prog (se_loadDataset env p)" "untouched prog (se_readFile env p)"
    "untouched prog (se_readConfig env p)" "untouched prog (se_readProgress env p)"
    "untouched prog (se_download env u d s n)" "untouched prog (se_installPlugins env v d)"
    "untouched prog (se_loadConfig env vd raw)" "untouched prog (se_initialize env c)" "untouched prog (se_close env c)"
    "untouched prog (se_evaluate env c ds k)" "untouched prog (se_saveRun env r)" "untouched prog (se_nowIso env)"
  using assms by (simp_all add: suite_laws_def quiet_calls_def)

lemma suite_progress_files:
  assumes "suite_laws env prog"
  shows "fst (se_readProgress env p w) = prog w p"
    "prog (se_writeProgress env p pf w) p \<in> {prog w p, None, Some pf}"
    "prog (se_removeProgress env p w) p \<in> {prog w p, None}"
proof -
  have "progress_files env prog" using assms by (simp add: suite_laws_def)
  note laws = this [unfolded progress_files_def]
  show "fst (se_readProgress env p w) = prog w p" by (rule laws [THEN conjunct1, rule_format])
  show "prog (se_writeProgress env p pf w) p \<in> {prog w p, None, Some pf}"
    by (rule laws [THEN conjunct2, THEN conjunct1, rule_format])
  show "prog (se_removeProgress env p w) p \<in> {prog w p, None}"
    by (rule laws [THEN conjunct2, THEN conjunct2, rule_format])
qed

lemma suite_stamp:
  assumes "suite_laws env prog" and "se_nowIso env w = (Inr s, w')"
  shows "s \<noteq> []"
proof -
  have "\<forall>w s w'. se_nowIso env w = (Inr s, w') \<longrightarrow> s \<noteq> []" using assms(1) by (simp add: suite_laws_def)
  then show ?thesis using assms(2) by blast
qed

text \<open>The new progress after a variant with the given figures.\<close>

definition extends ::
  "string \<times> (eval_result \<times> rat list) \<times> config_fields \<Rightarrow> suite_progress \<Rightarrow> suite_progress \<Rightarrow> bool" where
  "extends F progress progress' \<longleftrightarrow>
     (\<exists>s vr. s \<noteq> [] \<and> figures_of vr = F \<and> progress' = (AList.update (fst F) s (fst progress), snd progress @ [vr]))"

definition written_by ::
  "suite_context \<Rightarrow> (suite_progress \<Rightarrow> bool) \<Rightarrow> progress_file \<Rightarrow> bool" where
  "written_by cx P pf \<longleftrightarrow> pf_fingerprint pf = sx_fingerprint cx \<and> P (pf_completedAt pf, pf_results pf)"

lemma record_variant_does:
  assumes laws: "suite_laws env prog"
    and res: "\<And>w r w'. se_evaluate env cfg (sx_dataset cx) (sx_topK cx) w = (Inr r, w') \<Longrightarrow> r = fst (snd F)"
    and F: "fst F = va_name v" "snd (snd F) = cfields"
  shows "does prog (sx_progressPath cx) (written_by cx (extends F progress)) (extends F progress)
    (record_variant env cx progress v cfg cfields)"
proof -
  note u = suite_untouched [OF laws]
  let ?vr = "\<lambda>r i. \<lparr>vr_name = va_name v, vr_evalResult = fst r, vr_perQueryRrScores = snd r, vr_runId = i,
     vr_comparison = None, vr_configFields = cfields\<rparr>"
  have vr: "figures_of (?vr (fst (snd F)) i) = F" for i using F by (cases F) (auto simp: figures_of_def)
  have last: "does prog (sx_progressPath cx) (written_by cx (extends F progress)) (extends F progress)
      (\<lambda>w. let completedAt = AList.update (va_name v) st (fst progress)
           in (Inr (completedAt, snd progress @ [?vr (fst (snd F)) i]),
               se_writeProgress env (sx_progressPath cx) \<lparr>pf_fingerprint = sx_fingerprint cx,
                 pf_completedAt = completedAt, pf_results = snd progress @ [?vr (fst (snd F)) i]\<rparr> w))"
    if "st \<noteq> []" for st i
  proof -
    let ?p = "(AList.update (va_name v) st (fst progress), snd progress @ [?vr (fst (snd F)) i])"
    have ext: "extends F progress ?p"
      unfolding extends_def F(1) by (intro exI [of _ st] exI [of _ "?vr (fst (snd F)) i"] conjI that vr refl)
    let ?pf = "\<lparr>pf_fingerprint = sx_fingerprint cx, pf_completedAt = fst ?p, pf_results = snd ?p\<rparr>"
    have "written_by cx (extends F progress) ?pf" using ext by (simp add: written_by_def)
    then have pf: "prog (se_writeProgress env (sx_progressPath cx) ?pf w) (sx_progressPath cx)
          \<in> {prog w (sx_progressPath cx), None}
        \<or> (\<exists>pf. prog (se_writeProgress env (sx_progressPath cx) ?pf w) (sx_progressPath cx) = Some pf
             \<and> written_by cx (extends F progress) pf)" for w
      using suite_progress_files(2) [OF laws, of "sx_progressPath cx" ?pf w] by blast
    show ?thesis unfolding does_def Let_def
    proof (intro allI impI)
      fix w r w'
      assume run: "(Inr ?p, se_writeProgress env (sx_progressPath cx) \<lparr>pf_fingerprint = sx_fingerprint cx,
          pf_completedAt = AList.update (va_name v) st (fst progress),
          pf_results = snd progress @ [?vr (fst (snd F)) i]\<rparr> w) = (r, w')"
      have "w' = se_writeProgress env (sx_progressPath cx) ?pf w" and r: "r = Inr ?p"
        using run by (simp_all only: prod.inject fst_conv snd_conv)
      then show "(prog w' (sx_progressPath cx) \<in> {prog w (sx_progressPath cx), None}
          \<or> (\<exists>pf. prog w' (sx_progressPath cx) = Some pf \<and> written_by cx (extends F progress) pf))
          \<and> (\<forall>x. r = Inr x \<longrightarrow> extends F progress x)"
        using pf [of w] ext by simp
    qed
  qed
  show ?thesis unfolding record_variant_def Let_def
  proof (intro does_and_then [OF does_untouched] u)
    fix r w w1 i1 w2 w3 i2 w4 w5 q w6 w7 st w8 w9
    assume "se_evaluate env cfg (sx_dataset cx) (sx_topK cx) w = (Inr r, w1)"
      and "se_nowIso env w8 = (Inr st, w9)"
    then show "does prog (sx_progressPath cx) (written_by cx (extends F progress)) (extends F progress)
      (\<lambda>w. (Inr (AList.update (va_name v) st (fst progress),
                 snd progress @ [?vr r (run_id (suite_run (sx_suite cx) v i1 i2 cfields r))]),
            se_writeProgress env (sx_progressPath cx) \<lparr>pf_fingerprint = sx_fingerprint cx,
              pf_completedAt = AList.update (va_name v) st (fst progress),
              pf_results = snd progress @ [?vr r (run_id (suite_run (sx_suite cx) v i1 i2 cfields r))]\<rparr> w))"
      using last [unfolded Let_def] res suite_stamp [OF laws] by blast
  qed
qed

lemma expected_name [simp]: "fst (expected_figures env conf figs cx v) = va_name v"
  by (simp add: expected_figures_def Let_def)

lemma variant_config_untouched: "suite_laws env prog \<Longrightarrow> untouched prog (variant_config env cx v spec)"
  using suite_untouched(3) [of env prog]
  by (auto simp: variant_config_def untouched_def split: option.split list.split)

lemma variant_config_expected:
  assumes "reproducible env conf figs" and "variant_config env cx v spec w = (Inr raw, w')"
  shows "expected_config env conf cx v spec = Inr raw"
proof -
  have "\<And>p j. se_readConfig env p w = (Inr j, w') \<Longrightarrow> j = conf p"
    using assms(1) unfolding reproducible_def by blast
  then show ?thesis using assms(2)
    by (auto simp: variant_config_def expected_config_def split: option.splits list.splits)
qed

lemma reproducible_evaluate:
  assumes "reproducible env conf figs" and "se_loadConfig env dir raw w = (Inr cfg, w1)"
    and "se_evaluate env cfg ds k v = (Inr res, v')"
  shows "res = figs dir raw ds k"
  using assms unfolding reproducible_def by blast

lemma run_variant_does:
  assumes laws: "suite_laws env prog" and rep: "reproducible env conf figs"
    and spec: "map_of (su_databases (sx_suite cx)) (va_database v) = Some spec"
  defines "F \<equiv> expected_figures env conf figs cx v"
  shows "does prog (sx_progressPath cx) (written_by cx (extends F progress)) (extends F progress)
    (run_variant env cx progress v spec)"
  unfolding run_variant_def
proof (rule does_and_then [OF does_untouched [OF variant_config_untouched [OF laws]]])
  fix raw w w'
  assume "variant_config env cx v spec w = (Inr raw, w')"
  then have raw: "expected_config env conf cx v spec = Inr raw" by (rule variant_config_expected [OF rep])
  note u = suite_untouched [OF laws]
  define sorted where "sorted = map (\<lambda>(k, v). k @ ''@'' @ v) (se_sortPlugins env (plugin_versions raw))"
  define run_dir where "run_dir = path_join (path_join (sx_cacheDir cx) ''runs'')
    (se_hash16 env (db_url spec @ join_with '','' sorted))"
  define patched where "patched = patch_uri (path_join run_dir ''lancedb'') raw"
  have F: "F = (va_name v, figs (if length sorted > 0 then Some run_dir else None) patched (sx_dataset cx) (sx_topK cx),
      extractConfigFields patched (sx_topK cx))"
    unfolding F_def expected_figures_def spec raw option.sel sum.case Let_def patched_def run_dir_def sorted_def
    by (rule refl)
  have step: "does prog (sx_progressPath cx) (written_by cx (extends F progress)) (extends F progress)
      (finally_do (se_close env cfg) (record_variant env cx progress v cfg (extractConfigFields patched (sx_topK cx))))"
    if "se_loadConfig env (if length sorted > 0 then Some run_dir else None) patched w1 = (Inr cfg, w2)" for cfg w1 w2
    using reproducible_evaluate [OF rep that]
    by (intro does_finally u record_variant_does [OF laws]) (auto simp: F)
  have plugins: "untouched prog (if length sorted > 0 then se_installPlugins env pv pd else give ())" for pv pd
    using u(6) by (simp add: untouched_def give_def)
  show "does prog (sx_progressPath cx) (written_by cx (extends F progress)) (extends F progress)
      (let pluginVersions = plugin_versions raw;
           sortedPlugins = map (\<lambda>(k, v). k @ ''@'' @ v) (se_sortPlugins env pluginVersions);
           runKey = se_hash16 env (db_url spec @ join_with '','' sortedPlugins);
           evalRunDir = path_join (path_join (sx_cacheDir cx) ''runs'') runKey;
           lancedbDir = path_join evalRunDir ''lancedb'';
           pluginDir = path_join evalRunDir ''plugins''
       in and_then (se_download env (db_url spec) lancedbDir (db_sha256 spec) (sx_noCache cx)) (\<lambda>dbCached.
            and_then (if length sortedPlugins > 0 then se_installPlugins env pluginVersions pluginDir else give ())
              (\<lambda>_.
              let patched = patch_uri lancedbDir raw
              in and_then (se_loadConfig env (if length sortedPlugins > 0 then Some evalRunDir else None) patched)
                   (\<lambda>cfg. and_then (se_initialize env cfg) (\<lambda>_.
                      finally_do (se_close env cfg)
                        (record_variant env cx progress v cfg
                           (extractConfigFields patched (sx_topK cx))))))))"
    unfolding Let_def sorted_def [symmetric] run_dir_def [symmetric] patched_def [symmetric]
    by (intro does_and_then [OF does_untouched] u plugins) (rule step)
qed

subsection \<open>All variants\<close>

lemma filter_unseen_cong: "set A = set B \<Longrightarrow> filter_unseen key A xs = filter_unseen key B xs"
proof (induction xs arbitrary: A B)
  case (Cons x xs)
  have "filter_unseen key (key x # A) xs = filter_unseen key (key x # B) xs"
    by (rule Cons.IH) (simp add: Cons.prems)
  moreover have "filter_unseen key A xs = filter_unseen key B xs" by (rule Cons.IH) (rule Cons.prems)
  ultimately show ?case by (simp only: filter_unseen.simps Cons.prems)
qed simp

lemma filter_unseen_filter:
  "filter_unseen key (A @ S) xs = filter (\<lambda>x. key x \<notin> set A) (filter_unseen key S xs)"
proof (induction xs arbitrary: S)
  case (Cons x xs)
  have "filter_unseen key (key x # A @ S) xs = filter_unseen key (A @ key x # S) xs"
    by (rule filter_unseen_cong) simp
  moreover have "filter_unseen key (A @ key x # S) xs = filter_unseen key (A @ S) xs" if "key x \<in> set A"
    using that by (intro filter_unseen_cong) auto
  ultimately show ?case using Cons.IH [of S] Cons.IH [of "key x # S"] by auto
qed simp



lemma filter_unseen_rest:
  "filter_unseen key (map key (take n (filter_unseen key [] xs))) xs = drop n (filter_unseen key [] xs)"
proof -
  let ?F = "filter_unseen key [] xs"
  have "distinct (map key (take n ?F @ drop n ?F))" by (simp add: filter_unseen_distinct)
  then have "key ` set (take n ?F) \<inter> key ` set (drop n ?F) = {}" by (simp only: map_append distinct_append set_map)
  then have "filter (\<lambda>x. key x \<notin> set (map key (take n ?F))) (take n ?F @ drop n ?F) = drop n ?F"
    by (auto simp: filter_empty_conv filter_id_conv simp del: append_take_drop_id)
  then show ?thesis using filter_unseen_filter [of key "map key (take n ?F)" "[]" xs] by simp
qed

text \<open>The variants a run still has to evaluate.\<close>

definition todo :: "suite_progress \<Rightarrow> eval_variant list \<Rightarrow> eval_variant list" where
  "todo progress vs = filter_unseen va_name (names_of progress) (filter (\<lambda>v. \<not> va_skip v) vs)"

text \<open>The first \<open>k\<close> of them have been done.\<close>

definition advanced ::
  "(eval_variant \<Rightarrow> string \<times> (eval_result \<times> rat list) \<times> config_fields) \<Rightarrow> suite_progress \<Rightarrow> eval_variant list
   \<Rightarrow> nat \<Rightarrow> suite_progress \<Rightarrow> bool" where
  "advanced VF progress vs k progress' \<longleftrightarrow> stamped progress'
     \<and> map figures_of (snd progress') = map figures_of (snd progress) @ map VF (take k (todo progress vs))"

lemma completed_iff: "stamped progress \<Longrightarrow> completed progress n \<longleftrightarrow> n \<in> set (names_of progress)"
  by (force simp: stamped_def completed_def names_of_def)

lemma extends_stamped: "stamped progress \<Longrightarrow> extends F progress p' \<Longrightarrow> stamped p'"
  by (auto simp: stamped_def extends_def figures_of_def update_conv')

lemma extends_figures: "extends F progress p' \<Longrightarrow> map figures_of (snd p') = map figures_of (snd progress) @ [F]"
  by (auto simp: extends_def)

lemma extends_names: "extends F progress p' \<Longrightarrow> names_of p' = names_of progress @ [fst F]"
  by (auto simp: extends_def names_of_def figures_of_def)

lemma does_mono:
  assumes "does prog path P Q f" and "\<And>pf. P pf \<Longrightarrow> P' pf" and "\<And>x. Q x \<Longrightarrow> Q' x"
  shows "does prog path P' Q' f"
  using assms unfolding does_def by blast

lemma written_by_mono: "written_by cx P pf \<Longrightarrow> (\<And>p. P p \<Longrightarrow> P' p) \<Longrightarrow> written_by cx P' pf"
  by (simp add: written_by_def)

lemma run_variants_does:
  fixes env :: "('w, 'c) suite_env" and cx :: suite_context
  assumes laws: "suite_laws env prog" and rep: "reproducible env conf figs"
  defines "VF \<equiv> expected_figures env conf figs cx"
  shows "stamped progress \<Longrightarrow> does prog (sx_progressPath cx) (written_by cx (\<lambda>p. \<exists>k. advanced VF progress vs k p))
    (advanced VF progress vs (length (todo progress vs))) (run_variants env cx vs progress)"
proof (induction vs arbitrary: progress)
  case Nil
  then show ?case by (auto simp: todo_def advanced_def intro!: does_give)
next
  case (Cons v vs)
  consider (skip) "va_skip v" | (finished) "\<not> va_skip v" "completed progress (va_name v)"
    | (unknown) "\<not> va_skip v" "\<not> completed progress (va_name v)"
        "map_of (su_databases (sx_suite cx)) (va_database v) = None"
    | (evaluate) spec where "\<not> va_skip v" "\<not> completed progress (va_name v)"
        "map_of (su_databases (sx_suite cx)) (va_database v) = Some spec"
    by (cases "map_of (su_databases (sx_suite cx)) (va_database v)") auto
  then show ?case
  proof cases
    case skip
    then have "todo progress (v # vs) = todo progress vs" by (simp add: todo_def)
    then show ?thesis using Cons skip by (simp add: advanced_def)
  next
    case finished
    then have "todo progress (v # vs) = todo progress vs"
      using completed_iff [OF Cons.prems] by (simp add: todo_def)
    then show ?thesis using Cons finished by (simp add: advanced_def)
  next
    case unknown
    then show ?thesis by (simp add: does_fail)
  next
    case evaluate
    have new: "va_name v \<notin> set (names_of progress)" using evaluate completed_iff [OF Cons.prems] by simp
    have later: "todo progress (v # vs) = v # todo p1 vs" if "extends (VF v) progress p1" for p1
      using evaluate(1) new extends_names [OF that]
      by (simp add: todo_def VF_def) (rule filter_unseen_cong, simp)
    have one: "\<exists>k. advanced VF progress (v # vs) k p1" if "extends (VF v) progress p1" for p1
      using extends_stamped [OF Cons.prems that] extends_figures [OF that] later [OF that]
      by (intro exI [of _ 1]) (simp add: advanced_def)
    have more: "advanced VF progress (v # vs) (Suc k) p2"
      if "extends (VF v) progress p1" "advanced VF p1 vs k p2" for p1 p2 k
      using that(2) extends_figures [OF that(1)] later [OF that(1)] by (simp add: advanced_def)
    have "does prog (sx_progressPath cx) (written_by cx (\<lambda>p. \<exists>k. advanced VF progress (v # vs) k p))
        (advanced VF progress (v # vs) (length (todo progress (v # vs))))
        (and_then (run_variant env cx progress v spec) (run_variants env cx vs))"
    proof (rule does_and_then)
      show "does prog (sx_progressPath cx) (written_by cx (\<lambda>p. \<exists>k. advanced VF progress (v # vs) k p))
          (extends (VF v) progress) (run_variant env cx progress v spec)"
        using run_variant_does [OF laws rep evaluate(3), of progress] one
        by (elim does_mono) (auto simp: VF_def elim: written_by_mono)
    next
      fix p1 w w'
      assume ext: "extends (VF v) progress p1"
      show "does prog (sx_progressPath cx) (written_by cx (\<lambda>p. \<exists>k. advanced VF progress (v # vs) k p))
          (advanced VF progress (v # vs) (length (todo progress (v # vs)))) (run_variants env cx vs p1)"
        by (rule does_mono [OF Cons.IH [OF extends_stamped [OF Cons.prems ext]]])
          (auto simp: later [OF ext] elim!: written_by_mono intro: more [OF ext])
    qed
    then show ?thesis using evaluate by simp
  qed
qed

subsection \<open>Interrupted and resumed runs\<close>

lemma saved_ok_same:
  assumes "saved_ok prog cx VF w" and "prog w' (sx_progressPath cx) \<in> {prog w (sx_progressPath cx), None}"
  shows "saved_ok prog cx VF w'"
  using assms by (auto simp: saved_ok_def)

lemma saved_ok_untouched:
  assumes "saved_ok prog cx VF w" and "untouched prog f" and "f w = (r, w')"
  shows "saved_ok prog cx VF w'"
proof -
  have "prog w' = prog w" using assms(2,3) unfolding untouched_def by (metis snd_conv)
  then show ?thesis using assms(1) by (simp add: saved_ok_def)
qed

lemma saved_progress_spec:
  assumes laws: "suite_laws env prog" and ok: "saved_ok prog cx VF w" and run: "saved_progress env cx w = (r, w')"
  shows "prog w' = prog w" and "\<exists>p n. r = Inr p \<and> stamped p
    \<and> map figures_of (snd p) = map VF (take n (variant_order (sx_suite cx)))"
proof -
  have none: "stamped ([], [])" by (simp add: stamped_def)
  obtain saved w1 where read: "se_readProgress env (sx_progressPath cx) w = (saved, w1)" by force
  have same: "prog w1 = prog w" using suite_untouched(4) [OF laws] read unfolding untouched_def by (metis snd_conv)
  have saved: "saved = prog w (sx_progressPath cx)" using suite_progress_files(1) [OF laws] read by (metis fst_conv)
  show "prog w' = prog w" using run read same by (auto simp: saved_progress_def split: if_splits option.splits)
  consider "r = Inr ([], [])" | pf where "saved = Some pf" "pf_fingerprint pf = sx_fingerprint cx"
      "r = Inr (pf_completedAt pf, pf_results pf)"
    using run read by (auto simp: saved_progress_def split: if_splits option.splits)
  then show "\<exists>p n. r = Inr p \<and> stamped p \<and> map figures_of (snd p) = map VF (take n (variant_order (sx_suite cx)))"
  proof cases
    case 1
    then show ?thesis using none by (intro exI [of _ "([], [])"] exI [of _ 0]) simp
  next
    case 2
    then show ?thesis using ok saved unfolding saved_ok_def by auto
  qed
qed

text \<open>From the first variants on, what is left are the others.\<close>

lemma todo_prefix:
  assumes "map figures_of (snd p) = map VF (take n (variant_order suite))" and "\<And>v. fst (VF v) = va_name v"
  shows "todo p (su_variants suite) = drop n (variant_order suite)"
proof -
  have "names_of p = map fst (map figures_of (snd p))" by (simp add: names_of_def figures_of_def comp_def)
  then have "names_of p = map va_name (take n (variant_order suite))" by (simp add: assms comp_def)
  then show ?thesis by (simp add: todo_def variant_order_def filter_unseen_rest)
qed

lemma compare_all_figures:
  "compare_all rnd i base scores rs = Inr rs' \<Longrightarrow> map figures_of rs' = map figures_of rs"
proof (induction rs arbitrary: i rs')
  case (Cons r rs)
  then show ?case by (auto simp: result_bind_Inr figures_of_def split: if_splits)
qed simp

lemma judge_suite_figures:
  "judge_suite rnd suite results = Inr res \<Longrightarrow> map figures_of (sr_variants res) = map figures_of results"
  by (auto simp: judge_suite_def result_bind_Inr dest: compare_all_figures split: option.splits)

lemma take_take_drop: "take n xs @ take k (drop n xs) = take (n + k) xs"
  by (simp add: take_add)

lemma run_variants_resumes:
  assumes laws: "suite_laws env prog" and rep: "reproducible env conf figs"
    and VF: "VF = expected_figures env conf figs cx"
    and ok: "saved_ok prog cx VF w" and p: "stamped p" "map figures_of (snd p) = map VF (take n (variant_order (sx_suite cx)))"
    and run: "run_variants env cx (su_variants (sx_suite cx)) p w = (r, w')"
  shows "saved_ok prog cx VF w'"
    and "r = Inr p' \<Longrightarrow> map figures_of (snd p') = map VF (variant_order (sx_suite cx))"
proof -
  let ?vs = "su_variants (sx_suite cx)" and ?o = "variant_order (sx_suite cx)"
  have rest: "todo p ?vs = drop n ?o" by (rule todo_prefix [OF p(2)]) (simp add: VF)
  note d = doesD [OF run_variants_does [OF laws rep p(1), of cx ?vs] run]
  show "r = Inr p' \<Longrightarrow> map figures_of (snd p') = map VF ?o"
    using d(2) [of p'] p(2) by (simp add: advanced_def VF [symmetric] rest flip: map_append)
  have adv: "stamped q \<and> (\<exists>m. map figures_of (snd q) = map VF (take m ?o))" if "advanced VF p ?vs k q" for k q
    using that p(2) by (auto simp: advanced_def rest take_take_drop simp flip: map_append)
  from d(1) show "saved_ok prog cx VF w'"
  proof
    assume "prog w' (sx_progressPath cx) \<in> {prog w (sx_progressPath cx), None}"
    then show ?thesis by (rule saved_ok_same [OF ok])
  next
    assume "\<exists>pf. prog w' (sx_progressPath cx) = Some pf
      \<and> written_by cx (\<lambda>q. \<exists>k. advanced (expected_figures env conf figs cx) p ?vs k q) pf"
    then obtain pf k where pf: "prog w' (sx_progressPath cx) = Some pf"
      and k: "advanced VF p ?vs k (pf_completedAt pf, pf_results pf)" by (auto simp: written_by_def VF)
    show ?thesis using adv [OF k] pf by (simp add: saved_ok_def)
  qed
qed


text \<open>A world whose only file is the progress file, and a suite with two variants of which one is
  skipped.\<close>

definition demo_figures :: "eval_result \<times> rat list" where
  "demo_figures = (\<lparr>precisionAt5 = 1, precisionAt10 = 1, recallAt10 = 1, mrr = 1, hitRateAt5 = 1, queriesEvaluated = 1\<rparr>, [1])"

definition demo_env :: "(progress_file option, unit) suite_env" where
  "demo_env = \<lparr>se_loadDataset = (\<lambda>p w. (Inr [], w)), se_readFile = (\<lambda>p w. (Inr [], w)),
     se_readConfig = (\<lambda>p w. (Inr [], w)), se_fingerprint = (\<lambda>s c. ''f''), se_hash16 = (\<lambda>s. ''h''),
     se_sortPlugins = (\<lambda>ps. ps), se_resolve = path_join, se_readProgress = (\<lambda>p w. (w, w)),
     se_writeProgress = (\<lambda>p pf w. Some pf), se_removeProgress = (\<lambda>p w. None),
     se_download = (\<lambda>u d s n w. (Inr True, w)), se_installPlugins = (\<lambda>v d w. (Inr (), w)),
     se_loadConfig = (\<lambda>d c w. (Inr (), w)), se_initialize = (\<lambda>c w. (Inr (), w)),
     se_evaluate = (\<lambda>c ds k w. (Inr demo_figures, w)), se_close = (\<lambda>c w. (Inr (), w)),
     se_saveRun = (\<lambda>r w. (Inr (), w)), se_nowIso = (\<lambda>w. (Inr ''2026-01-01T00:00:00.000Z'', w))\<rparr>"

definition demo_suite :: eval_suite where
  "demo_suite = \<lparr>su_dataset = ''d.json'', su_topK = None, su_baseline = ''a'', su_ciGate = Some 1,
     su_databases = [(''db'', \<lparr>db_url = ''u'', db_sha256 = None, db_embedder = Some (JObj []),
        db_vectorStore = Some (JObj []), db_chunkers = None, db_pluginVersions = None\<rparr>)],
     su_variants = [\<lparr>va_name = ''a'', va_config = None, va_database = ''db'', va_skip = False, va_search = None\<rparr>,
        \<lparr>va_name = ''b'', va_config = None, va_database = ''db'', va_skip = True, va_search = None\<rparr>],
     su_cacheDir = None, su_filesets = None, su_chunkers = None, su_exclude = None\<rparr>"


end
