(* ===== verification/LanceStore.thy ===== *)
theory LanceStore
  imports VectorStore Rrf
begin

section \<open>The LanceDB store\<close>

text \<open>
  \<open>src/packages/virage-store-lancedb/src/store.ts\<close>: the class \<open>LanceDBVectorStore\<close>. The library
  \<open>@lancedb/lancedb\<close> is not part of the repository: its operations are a record of functions over
  the state \<open>'w\<close> of the database, and what the store relies on is the predicate
  \<open>lance_engine_laws\<close>. Under these laws the store honours the contract \<open>reopenable_store\<close> of the
  pipeline. All columns are declared without nulls, so a row is a record of their values;
  \<open>metadata_json\<close> is kept as what \<open>JSON.parse\<close> makes of it. Logging is left out.
\<close>

subsection \<open>SQL predicates\<close>

definition escape_quotes :: "string \<Rightarrow> string" where
  "escape_quotes s = concat (map (\<lambda>c. if c = CHR 0x27 then [c, c] else [c]) s)"

definition sql_quote :: "string \<Rightarrow> string" where
  "sql_quote s = CHR 0x27 # escape_quotes s @ [CHR 0x27]"

definition sql_list :: "string list \<Rightarrow> string" where
  "sql_list vs = join_with '', '' (map sql_quote vs)"

definition in_predicate :: "string \<Rightarrow> string list \<Rightarrow> string" where
  "in_predicate col vs = col @ '' IN ('' @ sql_list vs @ '')''"

definition orphan_predicate :: "string \<Rightarrow> string list \<Rightarrow> string" where
  "orphan_predicate f keep =
     ''source_file = '' @ sql_quote f @ '' AND id NOT IN ('' @ sql_list keep @ '')''"

text \<open>
  How SQL reads such a predicate: a string literal runs from one quote to the next one that is not
  doubled, a doubled quote stands for one. Each reader returns what follows.
\<close>

fun read_body :: "string \<Rightarrow> (string \<times> string) option" where
  "read_body [] = None"
| "read_body (c # cs) =
     (if c \<noteq> CHR 0x27 then map_option (\<lambda>(s, rest). (c # s, rest)) (read_body cs)
      else case cs of
             [] \<Rightarrow> Some ([], [])
           | d # ds \<Rightarrow> if d = CHR 0x27 then map_option (\<lambda>(s, rest). (d # s, rest)) (read_body ds)
                       else Some ([], cs))"

fun read_literal :: "string \<Rightarrow> (string \<times> string) option" where
  "read_literal [] = None"
| "read_literal (c # cs) = (if c = CHR 0x27 then read_body cs else None)"

fun strip_prefix :: "string \<Rightarrow> string \<Rightarrow> string option" where
  "strip_prefix [] s = Some s"
| "strip_prefix (p # ps) [] = None"
| "strip_prefix (p # ps) (c # cs) = (if p = c then strip_prefix ps cs else None)"

text \<open>The values of a list up to its closing parenthesis, at most \<open>n\<close> of them; a predicate is longer
  than its number of values, so its length is enough.\<close>

fun read_values :: "nat \<Rightarrow> string \<Rightarrow> (string list \<times> string) option" where
  "read_values 0 s = None"
| "read_values (Suc n) s =
     (case read_literal s of None \<Rightarrow> None
      | Some (v, rest) \<Rightarrow>
          (case strip_prefix '', '' rest of
             Some rest' \<Rightarrow> map_option (\<lambda>(vs, r). (v # vs, r)) (read_values n rest')
           | None \<Rightarrow> map_option (\<lambda>r. ([v], r)) (strip_prefix '')'' rest)))"

definition reads_in :: "string \<Rightarrow> string \<Rightarrow> string list option" where
  "reads_in col p = Option.bind (strip_prefix (col @ '' IN ('') p)
     (\<lambda>s. case read_values (length s) s of Some (vs, []) \<Rightarrow> Some vs | _ \<Rightarrow> None)"

definition reads_orphans :: "string \<Rightarrow> (string \<times> string list) option" where
  "reads_orphans p = Option.bind (strip_prefix ''source_file = '' p)
     (\<lambda>s. Option.bind (read_literal s)
       (\<lambda>(f, s1). Option.bind (strip_prefix '' AND id NOT IN ('' s1)
         (\<lambda>s2. case read_values (length s2) s2 of Some (vs, []) \<Rightarrow> Some (f, vs) | _ \<Rightarrow> None)))"

lemma strip_prefix_append [simp]: "strip_prefix p (p @ s) = Some s"
  by (induction p) simp_all

lemma read_body_escape:
  "(case rest of [] \<Rightarrow> True | d # _ \<Rightarrow> d \<noteq> CHR 0x27) \<Longrightarrow>
   read_body (escape_quotes s @ CHR 0x27 # rest) = Some (s, rest)"
proof (induction s)
  case Nil
  then show ?case by (simp add: escape_quotes_def split: list.splits)
next
  case (Cons c s)
  then show ?case by (cases "c = CHR 0x27") (simp_all add: escape_quotes_def)
qed

lemma read_literal_quote:
  "(case rest of [] \<Rightarrow> True | d # _ \<Rightarrow> d \<noteq> CHR 0x27) \<Longrightarrow>
   read_literal (sql_quote s @ rest) = Some (s, rest)"
  by (simp add: sql_quote_def read_body_escape)

lemma read_values_sql_list:
  assumes "vs \<noteq> []" and "length vs \<le> n"
  shows "read_values n (sql_list vs @ '')'' @ rest) = Some (vs, rest)"
  using assms
proof (induction vs arbitrary: n)
  case (Cons v vs)
  obtain m where n: "n = Suc m" using Cons.prems(2) by (cases n) auto
  show ?case
  proof (cases vs)
    case Nil
    then show ?thesis using read_literal_quote [of "'')'' @ rest" v] by (simp add: n sql_list_def)
  next
    case (Cons w ws)
    have split: "sql_list (v # vs) @ '')'' @ rest = sql_quote v @ '', '' @ sql_list vs @ '')'' @ rest"
      by (simp add: Cons sql_list_def)
    have lit: "read_literal (sql_quote v @ '', '' @ sql_list vs @ '')'' @ rest)
        = Some (v, '', '' @ sql_list vs @ '')'' @ rest)"
      by (rule read_literal_quote) simp
    have "read_values m (sql_list vs @ '')'' @ rest) = Some (vs, rest)"
      using Cons.IH [of m] Cons.prems n Cons by simp
    then show ?thesis unfolding split n read_values.simps lit option.case prod.case
      strip_prefix_append by simp
  qed
qed simp

lemma sql_list_length: "length vs \<le> length (sql_list vs @ rest)"
proof -
  have "length vs \<le> length (join_with d (map sql_quote vs))" for d
  proof (induction "map sql_quote vs" arbitrary: vs rule: join_with.induct)
    case (2 d w)
    then show ?case by (auto simp: sql_quote_def)
  next
    case (3 d w v ws)
    obtain x vs' where vs: "vs = x # vs'" and "map sql_quote vs' = v # ws" "w = sql_quote x"
      using 3(2) by (cases vs) auto
    then show ?case using 3(1) [of vs'] by (simp add: sql_quote_def vs)
  qed simp
  then show ?thesis by (simp add: sql_list_def trans_le_add1)
qed

lemma reads_in_predicate: "vs \<noteq> [] \<Longrightarrow> reads_in col (in_predicate col vs) = Some vs"
proof -
  assume ne: "vs \<noteq> []"
  have "strip_prefix (col @ '' IN ('') (in_predicate col vs) = Some (sql_list vs @ '')'')"
    using strip_prefix_append [of "col @ '' IN (''" "sql_list vs @ '')''"]
    by (simp add: in_predicate_def)
  moreover have "read_values (length (sql_list vs @ '')'')) (sql_list vs @ '')'' @ []) = Some (vs, [])"
    by (rule read_values_sql_list [OF ne sql_list_length])
  ultimately show ?thesis by (simp add: reads_in_def)
qed

lemma reads_orphan_predicate:
  "keep \<noteq> [] \<Longrightarrow> reads_orphans (orphan_predicate f keep) = Some (f, keep)"
proof -
  assume ne: "keep \<noteq> []"
  let ?s2 = "sql_list keep @ '')''"
  have "strip_prefix ''source_file = '' (orphan_predicate f keep)
      = Some (sql_quote f @ '' AND id NOT IN ('' @ ?s2)"
    unfolding orphan_predicate_def by (rule strip_prefix_append)
  moreover have "read_literal (sql_quote f @ '' AND id NOT IN ('' @ ?s2) = Some (f, '' AND id NOT IN ('' @ ?s2)"
    by (rule read_literal_quote) simp
  moreover have "strip_prefix '' AND id NOT IN ('' ('' AND id NOT IN ('' @ ?s2) = Some ?s2"
    by (rule strip_prefix_append)
  moreover have "read_values (length ?s2) (sql_list keep @ '')'' @ []) = Some (keep, [])"
    by (rule read_values_sql_list [OF ne sql_list_length])
  ultimately show ?thesis by (simp add: reads_orphans_def)
qed

text \<open>
  C25. The predicates the store sends can only be read as they are meant: whatever quotes the file
  names and ids contain, an \<open>IN\<close> list reads back as exactly the given values, and the predicate
  for orphans as the given file and the ids to keep. No value closes its literal early.
\<close>

theorem predicates_read_back:
  assumes "vs \<noteq> []"
  shows "reads_in col (in_predicate col vs) = Some vs
    \<and> reads_orphans (orphan_predicate f vs) = Some (f, vs)"
  using assms by (simp add: reads_in_predicate reads_orphan_predicate)

lemma predicates_read_back_witness:
  "reads_in ''id'' (in_predicate ''id'' [''o'' @ [CHR 0x27] @ '') OR (1=1'', []])
     = Some [''o'' @ [CHR 0x27] @ '') OR (1=1'', []]"
  using predicates_read_back [of "[''o'' @ [CHR 0x27] @ '') OR (1=1'', []]" "''id''" "[]"] by simp

subsection \<open>The database library\<close>

record lance_row =
  lr_id :: string
  lr_dense_text :: jstext
  lr_sparse_text :: jstext
  lr_dense_text_hash :: string
  lr_sparse_text_generator_id :: string
  lr_metadata_generator_id :: string
  lr_dense_vector :: "jsnum list"
  lr_metadata_json :: "json json_col"
  lr_source_file :: string
  lr_commit_hash :: string

text \<open>The columns of a schema with the size of a fixed-size list column.\<close>

type_synonym lance_fields = "(string \<times> nat option) list"

record 'w lance_engine =
  le_mkdir :: "'w \<Rightarrow> unit result \<times> 'w"
  le_connect :: "'w \<Rightarrow> unit result \<times> 'w"
  le_tableNames :: "'w \<Rightarrow> string list result \<times> 'w"
  le_openTable :: "string \<Rightarrow> 'w \<Rightarrow> lance_fields result \<times> 'w"
  le_dropTable :: "string \<Rightarrow> 'w \<Rightarrow> unit result \<times> 'w"
  le_createEmptyTable :: "string \<Rightarrow> lance_fields \<Rightarrow> 'w \<Rightarrow> unit result \<times> 'w"
  le_createIndex :: "'w \<Rightarrow> unit result \<times> 'w"
  le_listIndices :: "'w \<Rightarrow> (string option \<times> string option) list result \<times> 'w"
  le_mergeInsert :: "lance_row list \<Rightarrow> 'w \<Rightarrow> unit result \<times> 'w"
  le_delete :: "string \<Rightarrow> 'w \<Rightarrow> unit result \<times> 'w"
  le_query :: "string option \<Rightarrow> 'w \<Rightarrow> lance_row list result \<times> 'w"
  le_page :: "nat option \<Rightarrow> nat option \<Rightarrow> 'w \<Rightarrow> lance_row list result \<times> 'w"
  le_countRows :: "'w \<Rightarrow> nat result \<times> 'w"
  le_vectorSearch :: "jsnum list \<Rightarrow> nat \<Rightarrow> 'w \<Rightarrow> (lance_row \<times> rat option) list result \<times> 'w"
  le_ftsSearch :: "jstext \<Rightarrow> nat \<Rightarrow> 'w \<Rightarrow> (lance_row \<times> rat option) list result \<times> 'w"
  le_metaRows :: "'w \<Rightarrow> store_meta json_col list result \<times> 'w"
  le_metaDelete :: "'w \<Rightarrow> unit result \<times> 'w"
  le_metaAdd :: "store_meta \<Rightarrow> 'w \<Rightarrow> unit result \<times> 'w"

record lance_options =
  lo_uri :: string
  lo_tableName :: string
  lo_dimensions :: nat

text \<open>The store object: whether its table handles are set, and the database it talks to.\<close>

record 'w lance_store =
  ls_module :: bool
  ls_table :: bool
  ls_metaTable :: bool
  ftsIndexCreated :: bool
  ls_world :: 'w

definition new_lance_options :: "string \<Rightarrow> string option \<Rightarrow> nat option \<Rightarrow> lance_options result" where
  "new_lance_options uri tableName dimensions =
     (if uri = [] then Inl (Err EError ''LanceDBVectorStore: uri is required'')
      else Inr \<lparr>lo_uri = uri, lo_tableName = nullish tableName ''documents'',
                lo_dimensions = nullish dimensions 1536\<rparr>)"

subsection \<open>Calls\<close>

text \<open>A call to the library, and a method call on the table handle.\<close>

definition on_db :: "('w \<Rightarrow> 'a result \<times> 'w) \<Rightarrow> 'w lance_store \<Rightarrow> 'a result \<times> 'w lance_store" where
  "on_db f s = (let (r, w) = f (ls_world s) in (r, s\<lparr>ls_world := w\<rparr>))"

definition on_table :: "('w \<Rightarrow> 'a result \<times> 'w) \<Rightarrow> 'w lance_store \<Rightarrow> 'a result \<times> 'w lance_store" where
  "on_table f s = (if ls_table s then on_db f s
     else (Inl (Err EError ''Cannot read properties of undefined''), s))"

subsection \<open>Opening the store\<close>

definition expected_fields :: "lance_options \<Rightarrow> lance_fields" where
  "expected_fields opts =
     [(''id'', None), (''dense_text'', None), (''sparse_text'', None), (''dense_text_hash'', None),
      (''sparse_text_generator_id'', None), (''metadata_generator_id'', None),
      (''dense_vector'', Some (lo_dimensions opts)), (''metadata_json'', None),
      (''source_file'', None), (''commit_hash'', None)]"

definition metaTableName :: "lance_options \<Rightarrow> string" where
  "metaTableName opts = lo_tableName opts @ ''_meta''"

definition meta_fields :: lance_fields where
  "meta_fields = [(''key'', None), (''value'', None)]"

definition is_local_uri :: "string \<Rightarrow> bool" where
  "is_local_uri uri \<longleftrightarrow> \<not> starts_with ''db://'' uri \<and> \<not> starts_with ''https://'' uri"

definition schema_mismatch :: "lance_options \<Rightarrow> lance_fields \<Rightarrow> bool" where
  "schema_mismatch opts cols =
     (let expectedNames = dedup (map fst (expected_fields opts));
          existingNames = dedup (map fst cols);
          columnMismatch = length expectedNames \<noteq> length existingNames
            \<or> (\<exists>n \<in> set expectedNames. n \<notin> set existingNames);
          existingDims = Option.bind (find (\<lambda>f. fst f = ''dense_vector'') cols) snd;
          dimMismatch = (case existingDims of None \<Rightarrow> False | Some d \<Rightarrow> d \<noteq> lo_dimensions opts)
      in columnMismatch \<or> dimMismatch)"

definition create_table ::
  "'w lance_engine \<Rightarrow> lance_options \<Rightarrow> 'w lance_store \<Rightarrow> bool result \<times> 'w lance_store" where
  "create_table eng opts =
     and_then (on_db (le_createEmptyTable eng (lo_tableName opts) (expected_fields opts)))
       (\<lambda>_. and_then (assign (ls_table_update (\<lambda>_. True))) (\<lambda>_. give True))"

text \<open>Open the table, or drop it when its schema changed; the value says if it was just created.\<close>

definition open_or_create ::
  "'w lance_engine \<Rightarrow> lance_options \<Rightarrow> string list \<Rightarrow> 'w lance_store \<Rightarrow> bool result \<times> 'w lance_store" where
  "open_or_create eng opts tableNames =
     (if lo_tableName opts \<in> set tableNames
      then and_then (on_db (le_openTable eng (lo_tableName opts))) (\<lambda>cols.
             if schema_mismatch opts cols
             then and_then (on_db (le_dropTable eng (lo_tableName opts))) (\<lambda>_.
                    and_then (if metaTableName opts \<in> set tableNames
                              then on_db (le_dropTable eng (metaTableName opts)) else give ())
                      (\<lambda>_. create_table eng opts))
             else and_then (assign (ls_table_update (\<lambda>_. True))) (\<lambda>_. give False))
      else create_table eng opts)"

definition upper_char :: "char \<Rightarrow> char" where
  "upper_char c = (let n = of_char c :: nat in if 97 \<le> n \<and> n \<le> 122 then char_of (n - 32) else c)"

definition is_fts_index :: "string option \<times> string option \<Rightarrow> bool" where
  "is_fts_index = (\<lambda>(name, indexType).
     (case indexType of None \<Rightarrow> False | Some t \<Rightarrow> map upper_char t = ''FTS'')
     \<or> (case name of None \<Rightarrow> False | Some n \<Rightarrow> contains ''sparse_text'' (lower_case n)))"

definition probe_index :: "'w lance_engine \<Rightarrow> bool \<Rightarrow> 'w lance_store \<Rightarrow> unit result \<times> 'w lance_store" where
  "probe_index eng tableJustCreated s =
     (if tableJustCreated then (Inr (), s\<lparr>ftsIndexCreated := False\<rparr>)
      else (case on_table (le_createIndex eng) s of
              (Inr _, s1) \<Rightarrow> (Inr (), s1\<lparr>ftsIndexCreated := True\<rparr>)
            | (Inl _, s1) \<Rightarrow>
                (case on_table (le_listIndices eng) s1 of
                   (Inr indices, s2) \<Rightarrow> (Inr (), s2\<lparr>ftsIndexCreated := list_ex is_fts_index indices\<rparr>)
                 | (Inl _, s2) \<Rightarrow> (Inr (), s2\<lparr>ftsIndexCreated := False\<rparr>))))"

definition open_meta ::
  "'w lance_engine \<Rightarrow> lance_options \<Rightarrow> 'w lance_store \<Rightarrow> unit result \<times> 'w lance_store" where
  "open_meta eng opts =
     and_then (on_db (le_tableNames eng)) (\<lambda>names.
       and_then (if metaTableName opts \<in> set names
                 then and_then (on_db (le_openTable eng (metaTableName opts))) (\<lambda>_. give ())
                 else on_db (le_createEmptyTable eng (metaTableName opts) meta_fields))
         (\<lambda>_. assign (ls_metaTable_update (\<lambda>_. True))))"

definition lance_initialize ::
  "'w lance_engine \<Rightarrow> lance_options \<Rightarrow> 'w lance_store \<Rightarrow> unit result \<times> 'w lance_store" where
  "lance_initialize eng opts =
     and_then (if is_local_uri (lo_uri opts) then on_db (le_mkdir eng) else give ()) (\<lambda>_.
       and_then (assign (ls_module_update (\<lambda>_. True))) (\<lambda>_.
         and_then (on_db (le_connect eng)) (\<lambda>_.
           and_then (on_db (le_tableNames eng)) (\<lambda>tableNames.
             and_then (open_or_create eng opts tableNames) (\<lambda>created.
               and_then (probe_index eng created) (\<lambda>_. open_meta eng opts))))))"

definition lance_close :: "'w lance_store \<Rightarrow> 'w lance_store" where
  "lance_close s = s\<lparr>ls_table := False, ls_metaTable := False\<rparr>"

subsection \<open>Writing, deleting and the state of the index\<close>

definition row_of_document :: "vector_document \<Rightarrow> lance_row" where
  "row_of_document d =
     \<lparr>lr_id = docId d, lr_dense_text = docDenseText d, lr_sparse_text = docSparseText d,
      lr_dense_text_hash = docDenseTextHash d, lr_sparse_text_generator_id = docSparseTextGeneratorId d,
      lr_metadata_generator_id = docMetadataGeneratorId d, lr_dense_vector = docDenseVector d,
      lr_metadata_json = Json (JObj (docMetadata d)), lr_source_file = docSourceFile d,
      lr_commit_hash = docCommitHash d\<rparr>"

definition lance_upsert ::
  "'w lance_engine \<Rightarrow> vector_document list \<Rightarrow> 'w lance_store \<Rightarrow> unit result \<times> 'w lance_store" where
  "lance_upsert eng documents =
     and_then (on_table (le_mergeInsert eng (map row_of_document documents))) (\<lambda>_ s.
       if \<not> ftsIndexCreated s \<and> ls_module s
       then (let (_, s1) = on_table (le_createIndex eng) s in (Inr (), s1\<lparr>ftsIndexCreated := True\<rparr>))
       else (Inr (), s))"

definition lance_deleteBySourceFile ::
  "'w lance_engine \<Rightarrow> string list \<Rightarrow> 'w lance_store \<Rightarrow> unit result \<times> 'w lance_store" where
  "lance_deleteBySourceFile eng sourceFiles =
     (if length sourceFiles = 0 then give ()
      else on_table (le_delete eng (in_predicate ''source_file'' sourceFiles)))"

definition lance_existingHashes ::
  "'w lance_engine \<Rightarrow> string list \<Rightarrow> 'w lance_store \<Rightarrow> string list result \<times> 'w lance_store" where
  "lance_existingHashes eng hashes =
     (if length hashes = 0 then give []
      else and_then (on_table (le_query eng (Some (in_predicate ''id'' hashes))))
             (\<lambda>rows. give (map lr_id rows)))"

definition lance_deleteOrphanedChunks ::
  "'w lance_engine \<Rightarrow> string \<Rightarrow> string list \<Rightarrow> 'w lance_store \<Rightarrow> unit result \<times> 'w lance_store" where
  "lance_deleteOrphanedChunks eng f keep =
     (if length keep = 0 then lance_deleteBySourceFile eng [f]
      else on_table (le_delete eng (orphan_predicate f keep)))"

definition lance_getCurrentState ::
  "'w lance_engine \<Rightarrow> 'w lance_store \<Rightarrow> (string \<times> string) list result \<times> 'w lance_store" where
  "lance_getCurrentState eng =
     and_then (on_table (le_query eng None))
       (\<lambda>rows. give (map_set_all (map (\<lambda>r. (lr_source_file r, lr_commit_hash r))
          (filter (\<lambda>r. lr_source_file r \<noteq> [] \<and> lr_commit_hash r \<noteq> []) rows)) []))"

definition lance_getStats :: "'w lance_engine \<Rightarrow> 'w lance_store \<Rightarrow> nat result \<times> 'w lance_store" where
  "lance_getStats eng = on_table (le_countRows eng)"

definition lance_readMeta ::
  "'w lance_engine \<Rightarrow> lance_options \<Rightarrow> 'w lance_store \<Rightarrow> store_meta option result \<times> 'w lance_store" where
  "lance_readMeta eng opts s =
     (if \<not> ls_metaTable s then (Inr None, s)
      else
        let (r, s1) = on_db (le_metaRows eng) s
        in case r of
             Inr (Json m # _) \<Rightarrow> (Inr (Some m), s1)
           | _ \<Rightarrow>
               if ls_table s1
               then (case on_db (le_openTable eng (lo_tableName opts)) s1 of
                       (Inr cols, s2) \<Rightarrow>
                         (Inr (map_option (\<lambda>d. \<lparr>vm_providerName = ''unknown'', vm_model = None, vm_dimensions = d,
                                 vm_distanceMetric = None, vm_createdAt = 0\<rparr>)
                            (Option.bind (find (\<lambda>f. fst f = ''dense_vector'') cols) snd)), s2)
                     | (Inl _, s2) \<Rightarrow> (Inr None, s2))
               else (Inr None, s1))"

definition lance_writeMeta ::
  "'w lance_engine \<Rightarrow> store_meta \<Rightarrow> 'w lance_store \<Rightarrow> unit result \<times> 'w lance_store" where
  "lance_writeMeta eng m s =
     (if \<not> ls_metaTable s then (Inr (), s)
      else and_then (on_db (le_metaDelete eng)) (\<lambda>_. on_db (le_metaAdd eng m)) s)"

definition LanceDBVectorStore :: "'w lance_engine \<Rightarrow> lance_options \<Rightarrow> 'w lance_store vector_store" where
  "LanceDBVectorStore eng opts =
     \<lparr>storeName = ''lancedb'', st_initialize = lance_initialize eng opts, st_upsert = lance_upsert eng,
      st_deleteBySourceFile = lance_deleteBySourceFile eng,
      st_getCurrentState = lance_getCurrentState eng,
      st_existingHashes = Some (lance_existingHashes eng),
      st_deleteOrphanedChunks = Some (lance_deleteOrphanedChunks eng),
      st_writeMeta = Some (lance_writeMeta eng)\<rparr>"

subsection \<open>What the store relies on\<close>

text \<open>
  \<open>tab\<close> reads the documents table out of the database state: its schema and its rows, \<open>None\<close> when
  it does not exist. \<open>sat p r\<close> says that a row satisfies a predicate text. A stored vector is
  rounded to the 32-bit floats of its column.
\<close>

type_synonym 'w table_view = "'w \<Rightarrow> (lance_fields \<times> lance_row list) option"

definition table_rows :: "(lance_fields \<times> lance_row list) option \<Rightarrow> lance_row list" where
  "table_rows t = (case t of None \<Rightarrow> [] | Some (_, rows) \<Rightarrow> rows)"

definition quiet :: "'w table_view \<Rightarrow> ('w \<Rightarrow> 'a \<times> 'w) \<Rightarrow> bool" where
  "quiet tab f \<longleftrightarrow> (\<forall>w. tab (snd (f w)) = tab w)"

definition as_stored :: "lance_row \<Rightarrow> lance_row" where
  "as_stored r = r\<lparr>lr_dense_vector := map fround (lr_dense_vector r)\<rparr>"

text \<open>The rows after a merge on \<open>id\<close>: matched rows are replaced, the others inserted, in any order.\<close>

definition merged_rows :: "lance_row list \<Rightarrow> lance_row list \<Rightarrow> lance_row list \<Rightarrow> bool" where
  "merged_rows news old m \<longleftrightarrow> distinct (map lr_id m)
     \<and> (\<forall>k. get_row lr_id k m = (case get_row lr_id k news of
          Some r \<Rightarrow> Some (as_stored r) | None \<Rightarrow> get_row lr_id k old))"

definition sql_semantics :: "(string \<Rightarrow> lance_row \<Rightarrow> bool) \<Rightarrow> bool" where
  "sql_semantics sat \<longleftrightarrow>
     (\<forall>p vs r. reads_in ''id'' p = Some vs \<longrightarrow> sat p r = (lr_id r \<in> set vs))
     \<and> (\<forall>p vs r. reads_in ''source_file'' p = Some vs \<longrightarrow> sat p r = (lr_source_file r \<in> set vs))
     \<and> (\<forall>p f vs r. reads_orphans p = Some (f, vs) \<longrightarrow>
          sat p r = (lr_source_file r = f \<and> lr_id r \<notin> set vs))"

definition quiet_operations :: "'w lance_engine \<Rightarrow> lance_options \<Rightarrow> 'w table_view \<Rightarrow> bool" where
  "quiet_operations eng opts tab \<longleftrightarrow>
     quiet tab (le_mkdir eng) \<and> quiet tab (le_connect eng) \<and> quiet tab (le_tableNames eng)
     \<and> (\<forall>t. quiet tab (le_openTable eng t)) \<and> quiet tab (le_createIndex eng) \<and> quiet tab (le_listIndices eng)
     \<and> (\<forall>p. quiet tab (le_query eng p)) \<and> quiet tab (le_metaDelete eng) \<and> (\<forall>m. quiet tab (le_metaAdd eng m))
     \<and> (\<forall>t. t \<noteq> lo_tableName opts \<longrightarrow> quiet tab (le_dropTable eng t))
     \<and> (\<forall>t c. t \<noteq> lo_tableName opts \<longrightarrow> quiet tab (le_createEmptyTable eng t c))"

definition names_law :: "'w lance_engine \<Rightarrow> lance_options \<Rightarrow> 'w table_view \<Rightarrow> bool" where
  "names_law eng opts tab \<longleftrightarrow> (\<forall>w names w'. le_tableNames eng w = (Inr names, w') \<longrightarrow>
     (lo_tableName opts \<in> set names \<longleftrightarrow> tab w \<noteq> None))"

definition open_law :: "'w lance_engine \<Rightarrow> lance_options \<Rightarrow> 'w table_view \<Rightarrow> bool" where
  "open_law eng opts tab \<longleftrightarrow> (\<forall>w cols w'. le_openTable eng (lo_tableName opts) w = (Inr cols, w') \<longrightarrow>
     (\<exists>rows. tab w = Some (cols, rows)))"

definition drop_law :: "'w lance_engine \<Rightarrow> lance_options \<Rightarrow> 'w table_view \<Rightarrow> bool" where
  "drop_law eng opts tab \<longleftrightarrow> (\<forall>w r w'. le_dropTable eng (lo_tableName opts) w = (r, w') \<longrightarrow>
     tab w' = None \<or> r \<noteq> Inr () \<and> tab w' = tab w)"

definition create_law :: "'w lance_engine \<Rightarrow> lance_options \<Rightarrow> 'w table_view \<Rightarrow> bool" where
  "create_law eng opts tab \<longleftrightarrow>
     (\<forall>cols w r w'. le_createEmptyTable eng (lo_tableName opts) cols w = (r, w') \<longrightarrow>
        tab w' = Some (cols, []) \<or> r \<noteq> Inr () \<and> tab w' = tab w)"

definition merge_law :: "'w lance_engine \<Rightarrow> 'w table_view \<Rightarrow> bool" where
  "merge_law eng tab \<longleftrightarrow> (\<forall>news w r w'. le_mergeInsert eng news w = (r, w') \<longrightarrow> distinct (map lr_id news) \<longrightarrow>
     distinct (map lr_id (table_rows (tab w))) \<longrightarrow>
     r \<noteq> Inr () \<and> tab w' = tab w
     \<or> (\<exists>cols m. map_option fst (tab w) = Some cols \<and> tab w' = Some (cols, m)
          \<and> merged_rows news (table_rows (tab w)) m))"

definition deletion_law :: "'w lance_engine \<Rightarrow> 'w table_view \<Rightarrow> (string \<Rightarrow> lance_row \<Rightarrow> bool) \<Rightarrow> bool" where
  "deletion_law eng tab sat \<longleftrightarrow> (\<forall>p w r w'. le_delete eng p w = (r, w') \<longrightarrow>
     r \<noteq> Inr () \<and> tab w' = tab w
     \<or> tab w' = map_option (\<lambda>(cols, rows). (cols, filter (\<lambda>x. \<not> sat p x) rows)) (tab w))"

definition query_law :: "'w lance_engine \<Rightarrow> 'w table_view \<Rightarrow> (string \<Rightarrow> lance_row \<Rightarrow> bool) \<Rightarrow> bool" where
  "query_law eng tab sat \<longleftrightarrow> (\<forall>p w rows w'. le_query eng p w = (Inr rows, w') \<longrightarrow>
     set rows = {x \<in> set (table_rows (tab w)). case p of None \<Rightarrow> True | Some q \<Rightarrow> sat q x})"

definition lance_engine_laws ::
  "'w lance_engine \<Rightarrow> lance_options \<Rightarrow> 'w table_view \<Rightarrow> (string \<Rightarrow> lance_row \<Rightarrow> bool) \<Rightarrow> bool" where
  "lance_engine_laws eng opts tab sat \<longleftrightarrow>
     quiet_operations eng opts tab \<and> names_law eng opts tab \<and> open_law eng opts tab \<and> drop_law eng opts tab
     \<and> create_law eng opts tab \<and> merge_law eng tab \<and> deletion_law eng tab sat \<and> query_law eng tab sat
     \<and> sql_semantics sat"

text \<open>What the pipeline sees of the database, and the invariant of its table.\<close>

definition lance_docs :: "'w table_view \<Rightarrow> 'w lance_store \<Rightarrow> string \<rightharpoonup> doc_view" where
  "lance_docs tab s k = map_option (\<lambda>r. \<lparr>v_denseText = lr_dense_text r, v_sourceFile = lr_source_file r,
     v_commitHash = lr_commit_hash r\<rparr>) (get_row lr_id k (table_rows (tab (ls_world s))))"

definition lance_inv :: "'w table_view \<Rightarrow> 'w lance_store \<Rightarrow> bool" where
  "lance_inv tab s \<longleftrightarrow> distinct (map lr_id (table_rows (tab (ls_world s))))"

definition rows_of :: "'w table_view \<Rightarrow> 'w lance_store \<Rightarrow> lance_row list" where
  "rows_of tab s = table_rows (tab (ls_world s))"

subsection \<open>Frames\<close>

text \<open>An operation of the store that leaves the documents table alone.\<close>

definition keeps_table :: "'w table_view \<Rightarrow> ('w lance_store \<Rightarrow> 'a \<times> 'w lance_store) \<Rightarrow> bool" where
  "keeps_table tab f \<longleftrightarrow> (\<forall>s. tab (ls_world (snd (f s))) = tab (ls_world s))"

named_theorems keeps \<open>Operations that leave the documents table alone\<close>

lemma keeps_tableD: "keeps_table tab f \<Longrightarrow> f s = (r, s') \<Longrightarrow> tab (ls_world s') = tab (ls_world s)"
  by (metis keeps_table_def snd_conv)

lemma keeps_give [keeps]: "keeps_table tab (give x)"
  by (simp add: keeps_table_def give_def)

lemma keeps_assign [keeps]: "(\<And>s. ls_world (f s) = ls_world s) \<Longrightarrow> keeps_table tab (assign f)"
  by (simp add: keeps_table_def assign_def)

lemma keeps_on_db [keeps]: "quiet tab f \<Longrightarrow> keeps_table tab (on_db f)"
  by (simp add: keeps_table_def on_db_def quiet_def split_def Let_def)

lemma keeps_on_table [keeps]: "quiet tab f \<Longrightarrow> keeps_table tab (on_table f)"
  by (simp add: keeps_table_def on_table_def on_db_def quiet_def split_def Let_def)

lemma keeps_and_then [keeps]:
  assumes "keeps_table tab m" and "\<And>x. keeps_table tab (f x)"
  shows "keeps_table tab (and_then m f)"
  unfolding keeps_table_def
proof
  fix s
  obtain r s1 where m: "m s = (r, s1)" by (cases "m s")
  show "tab (ls_world (snd (and_then m f s))) = tab (ls_world s)"
    using assms m unfolding keeps_table_def and_then_def by (cases r) (simp, metis snd_conv, simp, metis snd_conv)
qed

lemma keeps_If [keeps]: "keeps_table tab f \<Longrightarrow> keeps_table tab g \<Longrightarrow> keeps_table tab (if b then f else g)"
  by simp

lemma keeps_probe_index [keeps]:
  assumes "quiet tab (le_createIndex eng)" and "quiet tab (le_listIndices eng)"
  shows "keeps_table tab (probe_index eng created)"
  unfolding keeps_table_def
proof
  fix s
  have k: "keeps_table tab (on_table (le_createIndex eng))" "keeps_table tab (on_table (le_listIndices eng))"
    by (intro keeps assms)+
  show "tab (ls_world (snd (probe_index eng created s))) = tab (ls_world s)"
    by (auto simp: probe_index_def split: prod.splits sum.splits dest!: keeps_tableD [OF k(1)] keeps_tableD [OF k(2)])
qed

lemma on_dbE:
  assumes "on_db f s = (r, s')"
  obtains w' where "f (ls_world s) = (r, w')" "s' = s\<lparr>ls_world := w'\<rparr>"
  using assms by (auto simp: on_db_def Let_def split: prod.splits)

lemma on_tableE:
  assumes "on_table f s = (r, s')"
  obtains (closed) "isl r" "s' = s" | (called) w' where "f (ls_world s) = (r, w')" "s' = s\<lparr>ls_world := w'\<rparr>"
proof (cases "ls_table s")
  case True
  then have "on_db f s = (r, s')" using assms by (simp add: on_table_def)
  then show ?thesis by (rule on_dbE) (rule called)
next
  case False
  then show ?thesis using assms closed by (auto simp: on_table_def)
qed

subsection \<open>Opening\<close>

lemma expected_schema_matches: "\<not> schema_mismatch opts (expected_fields opts)"
proof -
  have "find (\<lambda>f. fst f = ''dense_vector'') (expected_fields opts) = Some (''dense_vector'', Some (lo_dimensions opts))"
    by (simp add: expected_fields_def)
  then show ?thesis by (simp add: schema_mismatch_def)
qed


lemma laws_quiet:
  assumes "lance_engine_laws eng opts tab sat"
  shows "quiet tab (le_mkdir eng)" "quiet tab (le_connect eng)" "quiet tab (le_tableNames eng)"
    "quiet tab (le_openTable eng t)" "quiet tab (le_createIndex eng)" "quiet tab (le_listIndices eng)"
    "quiet tab (le_query eng p)" "quiet tab (le_metaDelete eng)" "quiet tab (le_metaAdd eng m)"
    "quiet tab (le_dropTable eng (metaTableName opts))" "quiet tab (le_createEmptyTable eng (metaTableName opts) cols)"
  using assms by (simp_all add: lance_engine_laws_def quiet_operations_def metaTableName_def)

lemma laws_names:
  assumes "lance_engine_laws eng opts tab sat" and "le_tableNames eng w = (Inr names, w')"
  shows "lo_tableName opts \<in> set names \<longleftrightarrow> tab w \<noteq> None"
proof -
  have "names_law eng opts tab" using assms(1) by (simp add: lance_engine_laws_def)
  then show ?thesis using assms(2) unfolding names_law_def by metis
qed

lemma laws_open:
  assumes "lance_engine_laws eng opts tab sat" and "le_openTable eng (lo_tableName opts) w = (Inr cols, w')"
  shows "\<exists>rows. tab w = Some (cols, rows)"
proof -
  have "open_law eng opts tab" using assms(1) by (simp add: lance_engine_laws_def)
  then show ?thesis using assms(2) unfolding open_law_def by metis
qed

lemma laws_drop:
  assumes "lance_engine_laws eng opts tab sat" and "le_dropTable eng (lo_tableName opts) w = (r, w')"
  shows "tab w' = None \<or> r \<noteq> Inr () \<and> tab w' = tab w"
proof -
  have "drop_law eng opts tab" using assms(1) by (simp add: lance_engine_laws_def)
  then show ?thesis using assms(2) unfolding drop_law_def by metis
qed

lemma laws_create:
  assumes "lance_engine_laws eng opts tab sat" and "le_createEmptyTable eng (lo_tableName opts) cols w = (r, w')"
  shows "tab w' = Some (cols, []) \<or> r \<noteq> Inr () \<and> tab w' = tab w"
proof -
  have "create_law eng opts tab" using assms(1) by (simp add: lance_engine_laws_def)
  then show ?thesis using assms(2) unfolding create_law_def by metis
qed

lemma laws_merge:
  assumes "lance_engine_laws eng opts tab sat" and "le_mergeInsert eng news w = (r, w')"
    and "distinct (map lr_id news)" and "distinct (map lr_id (table_rows (tab w)))"
  shows "r \<noteq> Inr () \<and> tab w' = tab w \<or> merged_rows news (table_rows (tab w)) (table_rows (tab w'))"
proof -
  have "merge_law eng tab" using assms(1) by (simp add: lance_engine_laws_def)
  then have "r \<noteq> Inr () \<and> tab w' = tab w
     \<or> (\<exists>cols m. map_option fst (tab w) = Some cols \<and> tab w' = Some (cols, m)
          \<and> merged_rows news (table_rows (tab w)) m)"
    using assms(2-4) unfolding merge_law_def by metis
  then show ?thesis by (auto simp: table_rows_def)
qed

lemma laws_delete:
  assumes "lance_engine_laws eng opts tab sat" and "le_delete eng p w = (r, w')"
  shows "r \<noteq> Inr () \<and> tab w' = tab w
    \<or> table_rows (tab w') = filter (\<lambda>x. \<not> sat p x) (table_rows (tab w))"
proof -
  have "deletion_law eng tab sat" using assms(1) by (simp add: lance_engine_laws_def)
  then have "r \<noteq> Inr () \<and> tab w' = tab w
     \<or> tab w' = map_option (\<lambda>(cols, rows). (cols, filter (\<lambda>x. \<not> sat p x) rows)) (tab w)"
    using assms(2) unfolding deletion_law_def by metis
  then show ?thesis by (auto simp: table_rows_def split: option.splits)
qed

lemma laws_query:
  assumes "lance_engine_laws eng opts tab sat" and "le_query eng p w = (Inr rows, w')"
  shows "set rows = {x \<in> set (table_rows (tab w)). case p of None \<Rightarrow> True | Some q \<Rightarrow> sat q x}"
proof -
  have "query_law eng tab sat" using assms(1) by (simp add: lance_engine_laws_def)
  then show ?thesis using assms(2) unfolding query_law_def by metis
qed

lemma laws_sat:
  assumes "lance_engine_laws eng opts tab sat" and "vs \<noteq> []"
  shows "sat (in_predicate ''id'' vs) r = (lr_id r \<in> set vs)"
    "sat (in_predicate ''source_file'' vs) r = (lr_source_file r \<in> set vs)"
    "sat (orphan_predicate f vs) r = (lr_source_file r = f \<and> lr_id r \<notin> set vs)"
proof -
  have "sql_semantics sat" using assms(1) by (simp add: lance_engine_laws_def)
  note sem = this [unfolded sql_semantics_def]
  show "sat (in_predicate ''id'' vs) r = (lr_id r \<in> set vs)"
    by (rule conjunct1 [OF sem, rule_format, OF reads_in_predicate [OF assms(2)]])
  show "sat (in_predicate ''source_file'' vs) r = (lr_source_file r \<in> set vs)"
    by (rule conjunct1 [OF conjunct2 [OF sem], rule_format, OF reads_in_predicate [OF assms(2)]])
  show "sat (orphan_predicate f vs) r = (lr_source_file r = f \<and> lr_id r \<notin> set vs)"
    by (rule conjunct2 [OF conjunct2 [OF sem], rule_format, OF reads_orphan_predicate [OF assms(2)]])
qed

lemma create_table_spec:
  assumes "lance_engine_laws eng opts tab sat" and "create_table eng opts s = (r, s')"
  shows "tab (ls_world s') = Some (expected_fields opts, [])
    \<or> isl r \<and> tab (ls_world s') = tab (ls_world s)"
  using assms(2) unfolding create_table_def
proof (cases rule: and_thenE)
  case (failed e)
  obtain w' where "le_createEmptyTable eng (lo_tableName opts) (expected_fields opts) (ls_world s) = (Inl e, w')"
    "s' = s\<lparr>ls_world := w'\<rparr>" using failed(1) by (rule on_dbE)
  then show ?thesis using laws_create [OF assms(1)] failed(2) by fastforce
next
  case (returned x s1)
  obtain w' where w': "le_createEmptyTable eng (lo_tableName opts) (expected_fields opts) (ls_world s) = (Inr x, w')"
    "s1 = s\<lparr>ls_world := w'\<rparr>" using returned(1) by (rule on_dbE)
  have "tab w' = Some (expected_fields opts, [])" using laws_create [OF assms(1) w'(1)] by simp
  moreover have "ls_world s' = w'" using returned(2) w'(2) by (auto simp: and_then_def assign_def give_def)
  ultimately show ?thesis by simp
qed

lemma open_or_create_spec:
  assumes laws: "lance_engine_laws eng opts tab sat" and run: "open_or_create eng opts names s = (r, s')"
    and names: "lo_tableName opts \<in> set names \<longleftrightarrow> tab (ls_world s) \<noteq> None"
  defines "t \<equiv> tab (ls_world s)" and "t' \<equiv> tab (ls_world s')"
  shows "t' \<in> {t, None, Some (expected_fields opts, [])}
    \<and> (\<not> isl r \<longrightarrow> (\<exists>cols rows. t' = Some (cols, rows) \<and> \<not> schema_mismatch opts cols))
    \<and> ((\<exists>cols rows. t = Some (cols, rows) \<and> \<not> schema_mismatch opts cols) \<longrightarrow> t' = t)"
proof (cases "lo_tableName opts \<in> set names")
  case False
  then have "create_table eng opts s = (r, s')" using run by (simp add: open_or_create_def)
  from create_table_spec [OF laws this] show ?thesis
    using False names expected_schema_matches [of opts] unfolding t_def t'_def by auto
next
  case True
  let ?rest = "\<lambda>cols. if schema_mismatch opts cols
      then and_then (on_db (le_dropTable eng (lo_tableName opts))) (\<lambda>_.
             and_then (if metaTableName opts \<in> set names
                       then on_db (le_dropTable eng (metaTableName opts)) else give ())
               (\<lambda>_. create_table eng opts))
      else and_then (assign (ls_table_update (\<lambda>_. True))) (\<lambda>_. give False)"
  have "and_then (on_db (le_openTable eng (lo_tableName opts))) ?rest s = (r, s')"
    using run True by (simp add: open_or_create_def)
  then show ?thesis
  proof (cases rule: and_thenE)
    case (failed e)
    have "t' = t" unfolding t_def t'_def
      using failed(1) keeps_tableD [OF keeps_on_db [OF laws_quiet(4) [OF laws]]] by blast
    then show ?thesis using failed(2) by simp
  next
    case (returned cols s1)
    obtain w1 where open1: "le_openTable eng (lo_tableName opts) (ls_world s) = (Inr cols, w1)"
      using returned(1) by (rule on_dbE)
    obtain rows where t: "t = Some (cols, rows)" using laws_open [OF laws open1] unfolding t_def by (elim exE)
    have s1: "tab (ls_world s1) = t" unfolding t_def
      using returned(1) keeps_tableD [OF keeps_on_db [OF laws_quiet(4) [OF laws]]] by blast
    show ?thesis
    proof (cases "schema_mismatch opts cols")
      case False
      then have "t' = t" "r = Inr False" using returned(2) s1 unfolding t'_def
        by (auto simp: assign_def give_def and_then_def)
      then show ?thesis using t False by auto
    next
      case True
      have drop: "and_then (on_db (le_dropTable eng (lo_tableName opts))) (\<lambda>_.
             and_then (if metaTableName opts \<in> set names
                       then on_db (le_dropTable eng (metaTableName opts)) else give ())
               (\<lambda>_. create_table eng opts)) s1 = (r, s')"
        using returned(2) True by simp
      have keep: "keeps_table tab (if metaTableName opts \<in> set names
                       then on_db (le_dropTable eng (metaTableName opts)) else give ())"
        by (intro keeps laws_quiet [OF laws])
      have "t' = Some (expected_fields opts, []) \<or> isl r \<and> (t' = t \<or> t' = None)"
        using drop
      proof (cases rule: and_thenE)
        case (failed e)
        then show ?thesis using s1 unfolding t'_def by (auto elim!: on_dbE dest!: laws_drop [OF laws])
      next
        case (returned u s2)
        have s2: "tab (ls_world s2) = None" using returned(1) by (auto elim!: on_dbE dest!: laws_drop [OF laws])
        show ?thesis using returned(2)
        proof (cases rule: and_thenE)
          case (failed e)
          then show ?thesis using keeps_tableD [OF keep] s2 unfolding t'_def by auto
        next
          case (returned v s3)
          then show ?thesis using keeps_tableD [OF keep returned(1)] s2 create_table_spec [OF laws returned(2)]
            unfolding t'_def by auto
        qed
      qed
      then show ?thesis using t True expected_schema_matches [of opts] by auto
    qed
  qed
qed

text \<open>What opening makes of the table: a table with the right schema is untouched, any other one is
  replaced by an empty one, and a success leaves a table with the right schema.\<close>

definition opened ::
  "lance_options \<Rightarrow> (lance_fields \<times> lance_row list) option \<Rightarrow> 'a result
   \<Rightarrow> (lance_fields \<times> lance_row list) option \<Rightarrow> bool" where
  "opened opts t r t' \<longleftrightarrow> t' \<in> {t, None, Some (expected_fields opts, [])}
    \<and> (\<not> isl r \<longrightarrow> (\<exists>cols rows. t' = Some (cols, rows) \<and> \<not> schema_mismatch opts cols))
    \<and> ((\<exists>cols rows. t = Some (cols, rows) \<and> \<not> schema_mismatch opts cols) \<longrightarrow> t' = t)"

lemma opened_failed: "isl r \<Longrightarrow> t' = t \<Longrightarrow> opened opts t r t'"
  by (simp add: opened_def)

lemma opened_result: "opened opts t r t' \<Longrightarrow> (isl r \<longleftrightarrow> isl q) \<Longrightarrow> opened opts t q t'"
  by (simp add: opened_def)

lemma and_then_opened:
  assumes keeps: "keeps_table tab m" and run: "and_then m f s = (r, s')"
    and rest: "\<And>x s1. m s = (Inr x, s1) \<Longrightarrow> f x s1 = (r, s') \<Longrightarrow> opened opts (tab (ls_world s1)) r (tab (ls_world s'))"
  shows "opened opts (tab (ls_world s)) r (tab (ls_world s'))"
  using run
proof (cases rule: and_thenE)
  case (failed e)
  then show ?thesis using keeps_tableD [OF keeps failed(1)] by (simp add: opened_failed)
next
  case (returned x s1)
  then show ?thesis using keeps_tableD [OF keeps returned(1)] rest [OF returned] by simp
qed

lemma keeps_open_meta:
  assumes "lance_engine_laws eng opts tab sat"
  shows "keeps_table tab (open_meta eng opts)"
  unfolding open_meta_def by (intro keeps laws_quiet [OF assms]) simp

lemma open_then_index:
  assumes laws: "lance_engine_laws eng opts tab sat"
    and run: "and_then (open_or_create eng opts names)
      (\<lambda>created. and_then (probe_index eng created) (\<lambda>_. open_meta eng opts)) s = (r, s')"
    and names: "lo_tableName opts \<in> set names \<longleftrightarrow> tab (ls_world s) \<noteq> None"
  shows "opened opts (tab (ls_world s)) r (tab (ls_world s'))"
  using run
proof (cases rule: and_thenE)
  case (failed e)
  then show ?thesis using open_or_create_spec [OF laws failed(1) names] by (simp add: opened_def)
next
  case (returned created s1)
  have o: "opened opts (tab (ls_world s)) (Inr created :: bool result) (tab (ls_world s1))"
    using open_or_create_spec [OF laws returned(1) names] by (simp add: opened_def)
  have "keeps_table tab (and_then (probe_index eng created) (\<lambda>_. open_meta eng opts))"
    by (intro keeps keeps_open_meta [OF laws] laws_quiet [OF laws])
  then have "tab (ls_world s') = tab (ls_world s1)" using returned(2) by (rule keeps_tableD)
  then show ?thesis using o by (simp add: opened_def)
qed

lemma lance_initialize_spec:
  assumes laws: "lance_engine_laws eng opts tab sat" and run: "lance_initialize eng opts s = (r, s')"
  shows "opened opts (tab (ls_world s)) r (tab (ls_world s'))"
proof -
  note q = laws_quiet [OF laws]
  have k: "keeps_table tab (if is_local_uri (lo_uri opts) then on_db (le_mkdir eng) else give ())"
    "keeps_table tab (assign (ls_module_update (\<lambda>_. True)))"
    "keeps_table tab (on_db (le_connect eng))" "keeps_table tab (on_db (le_tableNames eng))"
    by (intro keeps q; simp)+
  have index: "opened opts (tab (ls_world s4)) r (tab (ls_world s'))"
    if listed: "on_db (le_tableNames eng) s3 = (Inr names, s4)"
      and rest: "and_then (open_or_create eng opts names)
        (\<lambda>created. and_then (probe_index eng created) (\<lambda>_. open_meta eng opts)) s4 = (r, s')" for s3 names s4
  proof -
    obtain w where "le_tableNames eng (ls_world s3) = (Inr names, w)" "s4 = s3\<lparr>ls_world := w\<rparr>"
      using listed by (rule on_dbE)
    then have "lo_tableName opts \<in> set names \<longleftrightarrow> tab (ls_world s4) \<noteq> None"
      using laws_names [OF laws] keeps_tableD [OF k(4) listed] by simp
    from open_then_index [OF laws rest this] show ?thesis .
  qed
  show ?thesis
    using run unfolding lance_initialize_def
    by (elim and_then_opened [OF k(1)] and_then_opened [OF k(2)] and_then_opened [OF k(3)]
        and_then_opened [OF k(4)]) (rule index)
qed

subsection \<open>The documents\<close>

lemma get_row_map:
  "(\<And>x. key' (f x) = key x) \<Longrightarrow> get_row key' k (map f xs) = map_option f (get_row key k xs)"
  by (induction xs) (simp_all add: get_row_Cons)

lemma map_of_get_row: "map_of (map (\<lambda>d. (key d, f d)) ds) k = map_option f (get_row key k ds)"
  by (induction ds) (auto simp: get_row_Cons)

lemma map_of_rev_distinct: "distinct (map fst xs) \<Longrightarrow> map_of (rev xs) = map_of xs"
proof (induction xs)
  case (Cons x xs)
  then have "map_of xs (fst x) = None" by (simp add: map_of_eq_None_iff)
  then show ?case using Cons by (auto simp: map_add_def fun_eq_iff split: option.split)
qed simp

lemma written_distinct:
  assumes "distinct (map docId ds)"
  shows "written ds m k = (case get_row docId k ds of Some d \<Rightarrow> Some (view_of d) | None \<Rightarrow> m k)"
proof -
  have "map_of (rev (map (\<lambda>d. (docId d, view_of d)) ds)) = map_of (map (\<lambda>d. (docId d, view_of d)) ds)"
    using assms by (intro map_of_rev_distinct) (simp add: comp_def)
  then show ?thesis by (simp add: written_def map_add_def map_of_get_row split: option.split)
qed

definition row_view :: "lance_row \<Rightarrow> doc_view" where
  "row_view r = \<lparr>v_denseText = lr_dense_text r, v_sourceFile = lr_source_file r, v_commitHash = lr_commit_hash r\<rparr>"

lemma lance_docs_rows: "lance_docs tab s k = map_option row_view (get_row lr_id k (rows_of tab s))"
  by (simp add: lance_docs_def row_view_def [abs_def] rows_of_def)

lemma lance_inv_rows: "lance_inv tab s \<longleftrightarrow> distinct (map lr_id (rows_of tab s))"
  by (simp add: lance_inv_def rows_of_def)

lemma same_table:
  assumes "tab (ls_world s') = tab (ls_world s)"
  shows "lance_docs tab s' = lance_docs tab s" "lance_inv tab s' = lance_inv tab s" "rows_of tab s' = rows_of tab s"
  using assms by (simp_all add: lance_docs_def lance_inv_def rows_of_def fun_eq_iff)

lemma docs_of_merged:
  assumes "distinct (map docId ds)" and "merged_rows (map row_of_document ds) (rows_of tab s) (rows_of tab s')"
  shows "lance_docs tab s' = written ds (lance_docs tab s)"
proof
  fix k
  have "get_row lr_id k (map row_of_document ds) = map_option row_of_document (get_row docId k ds)"
    by (rule get_row_map) (simp add: row_of_document_def)
  moreover have "row_view (as_stored (row_of_document d)) = view_of d" for d
    by (simp add: row_view_def as_stored_def row_of_document_def view_of_def)
  ultimately show "lance_docs tab s' k = written ds (lance_docs tab s) k"
    using assms(2) unfolding merged_rows_def
    by (simp add: lance_docs_rows written_distinct [OF assms(1)] split: option.split)
qed

lemma docs_of_filtered:
  assumes "distinct (map lr_id (rows_of tab s))" and "rows_of tab s' = filter P (rows_of tab s)"
  shows "lance_docs tab s' k = (case get_row lr_id k (rows_of tab s) of None \<Rightarrow> None
     | Some r \<Rightarrow> if P r then Some (row_view r) else None)"
  using get_delete_where [of lr_id "rows_of tab s" k "\<lambda>r. \<not> P r"] assms
  by (simp add: lance_docs_rows delete_where_def split: option.splits)

lemma lance_docs_mem: "lance_docs tab s k \<noteq> None \<longleftrightarrow> k \<in> lr_id ` set (rows_of tab s)"
  unfolding lance_docs_rows option.map_disc_iff get_row_None_iff by (rule not_not)

lemma on_table_delete:
  assumes laws: "lance_engine_laws eng opts tab sat" and run: "on_table (le_delete eng p) s = (r, s')"
  shows "r \<noteq> Inr () \<and> tab (ls_world s') = tab (ls_world s)
    \<or> rows_of tab s' = filter (\<lambda>x. \<not> sat p x) (rows_of tab s)"
  using run
proof (cases rule: on_tableE)
  case closed
  then show ?thesis by auto
next
  case (called w')
  then show ?thesis using laws_delete [OF laws called(1)] by (simp add: rows_of_def)
qed

lemma on_table_query:
  assumes laws: "lance_engine_laws eng opts tab sat" and run: "on_table (le_query eng p) s = (Inr rows, s')"
  shows "set rows = {x \<in> set (rows_of tab s). case p of None \<Rightarrow> True | Some q \<Rightarrow> sat q x}"
  using run
proof (cases rule: on_tableE)
  case closed
  then show ?thesis by simp
next
  case (called w')
  then show ?thesis using laws_query [OF laws called(1)] by (simp add: rows_of_def)
qed

text \<open>A deletion is a write towards the rows that do not satisfy its predicate.\<close>

lemma deletion_writes:
  assumes laws: "lance_engine_laws eng opts tab sat" and inv: "lance_inv tab s"
    and run: "on_table (le_delete eng p) s = (r, s')"
    and goal: "\<And>k. goal k = (case get_row lr_id k (rows_of tab s) of None \<Rightarrow> None
       | Some x \<Rightarrow> if \<not> sat p x then Some (row_view x) else None)"
  shows "lance_inv tab s' \<and> writes_to (lance_docs tab s) goal r (lance_docs tab s')"
  using on_table_delete [OF laws run]
proof
  assume "r \<noteq> Inr () \<and> tab (ls_world s') = tab (ls_world s)"
  then show ?thesis using inv same_table [of tab s' s] by (simp add: writes_to_def)
next
  assume rows: "rows_of tab s' = filter (\<lambda>x. \<not> sat p x) (rows_of tab s)"
  have d: "distinct (map lr_id (rows_of tab s))" using inv by (simp add: lance_inv_rows)
  have "lance_docs tab s' k = goal k" for k unfolding docs_of_filtered [OF d rows] goal by (rule refl)
  moreover have "lance_inv tab s'" using d rows by (simp add: lance_inv_rows distinct_map_filter)
  ultimately show ?thesis by (simp add: writes_to_def fun_eq_iff)
qed

subsection \<open>The contract\<close>

lemma lance_initialize_inv:
  assumes "lance_engine_laws eng opts tab sat" and "lance_inv tab s" and "lance_initialize eng opts s = (r, s')"
  shows "lance_inv tab s'"
  using lance_initialize_spec [OF assms(1,3)] assms(2)
  by (auto simp: opened_def lance_inv_def table_rows_def)

lemma lance_upsert_law:
  assumes laws: "lance_engine_laws eng opts tab sat" and inv: "lance_inv tab s"
    and dst: "distinct (map docId ds)" and run: "lance_upsert eng ds s = (r, s')"
  shows "lance_inv tab s' \<and> writes_to (lance_docs tab s) (written ds (lance_docs tab s)) r (lance_docs tab s')"
  using run unfolding lance_upsert_def
proof (cases rule: and_thenE)
  case (failed e)
  from failed(1) show ?thesis
  proof (cases rule: on_tableE)
    case closed
    then show ?thesis using inv failed(2) by (simp add: writes_to_def)
  next
    case (called w')
    have news: "distinct (map lr_id (map row_of_document ds))"
      using dst by (simp add: comp_def row_of_document_def)
    have old: "distinct (map lr_id (table_rows (tab (ls_world s))))" using inv by (simp add: lance_inv_def)
    from laws_merge [OF laws called(1) news old] show ?thesis
    proof
      assume "(Inl e :: unit result) \<noteq> Inr () \<and> tab w' = tab (ls_world s)"
      then have "tab (ls_world s') = tab (ls_world s)" using called(2) by simp
      then show ?thesis using inv same_table [of tab s' s] failed(2) by (simp add: writes_to_def)
    next
      assume m: "merged_rows (map row_of_document ds) (table_rows (tab (ls_world s))) (table_rows (tab w'))"
      then have "lance_docs tab s' = written ds (lance_docs tab s)"
        using docs_of_merged [OF dst, of tab s s'] called(2) by (simp add: rows_of_def)
      moreover have "lance_inv tab s'" using m called(2) by (simp add: lance_inv_def merged_rows_def)
      ultimately show ?thesis by (simp add: writes_to_def)
    qed
  qed
next
  case (returned u s1)
  from returned(1) obtain w' where w': "le_mergeInsert eng (map row_of_document ds) (ls_world s) = (Inr u, w')"
    "s1 = s\<lparr>ls_world := w'\<rparr>" by (auto elim: on_tableE)
  have news: "distinct (map lr_id (map row_of_document ds))"
    using dst by (simp add: comp_def row_of_document_def)
  have old: "distinct (map lr_id (table_rows (tab (ls_world s))))" using inv by (simp add: lance_inv_def)
  have m: "merged_rows (map row_of_document ds) (rows_of tab s) (rows_of tab s1)"
    using laws_merge [OF laws w'(1) news old] w'(2) by (simp add: rows_of_def)
  have "tab (ls_world s') = tab (ls_world s1)"
    using returned(2) keeps_tableD [OF keeps_on_table [OF laws_quiet(5) [OF laws]]]
    by (auto simp: Let_def split: if_splits prod.splits)
  note same = same_table [of tab s' s1, OF this]
  show ?thesis
    unfolding same docs_of_merged [OF dst m] using m by (simp add: writes_to_def lance_inv_rows merged_rows_def)
qed

lemma lance_delete_law:
  assumes laws: "lance_engine_laws eng opts tab sat" and inv: "lance_inv tab s"
    and run: "lance_deleteBySourceFile eng fs s = (r, s')"
  shows "lance_inv tab s' \<and> writes_to (lance_docs tab s) (without_files fs (lance_docs tab s)) r (lance_docs tab s')"
proof (cases "fs = []")
  case True
  have "without_files [] m = m" for m by (simp add: without_files_def fun_eq_iff split: option.split)
  then show ?thesis using run True inv by (simp add: lance_deleteBySourceFile_def give_def writes_to_def)
next
  case False
  have "on_table (le_delete eng (in_predicate ''source_file'' fs)) s = (r, s')"
    using run False by (simp add: lance_deleteBySourceFile_def)
  then show ?thesis
    by (rule deletion_writes [OF laws inv])
      (auto simp: without_files_def lance_docs_rows laws_sat(2) [OF laws False] row_view_def split: option.split)
qed

lemma lance_orphan_law:
  assumes laws: "lance_engine_laws eng opts tab sat" and inv: "lance_inv tab s"
    and run: "lance_deleteOrphanedChunks eng f keep s = (r, s')"
  shows "lance_inv tab s' \<and> writes_to (lance_docs tab s) (without_orphans f keep (lance_docs tab s)) r (lance_docs tab s')"
proof (cases "keep = []")
  case True
  have "without_orphans f [] m = without_files [f] m" for m
    by (simp add: without_files_def without_orphans_def fun_eq_iff split: option.split)
  moreover have "lance_deleteBySourceFile eng [f] s = (r, s')"
    using run True by (simp add: lance_deleteOrphanedChunks_def)
  ultimately show ?thesis using lance_delete_law [OF laws inv] True by simp
next
  case False
  have "on_table (le_delete eng (orphan_predicate f keep)) s = (r, s')"
    using run False by (simp add: lance_deleteOrphanedChunks_def)
  then show ?thesis
    by (rule deletion_writes [OF laws inv])
      (auto simp: without_orphans_def lance_docs_rows laws_sat(3) [OF laws False] row_view_def
        dest: get_row_key split: option.split)
qed

lemma lance_existing_law:
  assumes laws: "lance_engine_laws eng opts tab sat" and inv: "lance_inv tab s"
    and run: "lance_existingHashes eng hs s = (hr, s')"
  shows "lance_inv tab s' \<and> lance_docs tab s' = lance_docs tab s
    \<and> (case hr of Inl _ \<Rightarrow> True | Inr xs \<Rightarrow> set xs = {h \<in> set hs. lance_docs tab s h \<noteq> None})"
proof (cases "hs = []")
  case True
  then have "hr = Inr []" "s' = s" using run by (simp_all add: lance_existingHashes_def give_def)
  then show ?thesis using inv True by simp
next
  case False
  let ?q = "on_table (le_query eng (Some (in_predicate ''id'' hs)))"
  have "and_then ?q (\<lambda>rows. give (map lr_id rows)) s = (hr, s')"
    using run False by (simp add: lance_existingHashes_def)
  then show ?thesis
  proof (cases rule: and_thenE)
    case (failed e)
    from keeps_tableD [OF keeps_on_table [OF laws_quiet(7) [OF laws]] failed(1)]
    show ?thesis using same_table [of tab s' s] inv failed(2) by simp
  next
    case (returned rows s1)
    from keeps_tableD [OF keeps_on_table [OF laws_quiet(7) [OF laws]] returned(1)]
    have same: "tab (ls_world s') = tab (ls_world s)" using returned(2) by (auto simp: give_def)
    have "hr = Inr (map lr_id rows)" using returned(2) by (simp add: give_def)
    moreover have "set rows = {x \<in> set (rows_of tab s). lr_id x \<in> set hs}"
      using on_table_query [OF laws returned(1)] laws_sat(1) [OF laws False] by simp
    ultimately show ?thesis
      using same_table [of tab s' s, OF same] inv unfolding lance_docs_mem by auto
  qed
qed

lemma lance_state_law:
  assumes laws: "lance_engine_laws eng opts tab sat" and inv: "lance_inv tab s"
    and run: "lance_getCurrentState eng s = (sr, s')"
  shows "tab (ls_world s') = tab (ls_world s)"
    "case sr of Inl _ \<Rightarrow> True | Inr m \<Rightarrow> \<forall>f c. map_of m f = Some c \<longrightarrow>
        c \<noteq> [] \<and> (\<exists>k d. lance_docs tab s k = Some d \<and> v_sourceFile d = f \<and> v_commitHash d = c)"
proof -
  have "keeps_table tab (lance_getCurrentState eng)"
    unfolding lance_getCurrentState_def by (intro keeps laws_quiet [OF laws])
  then show "tab (ls_world s') = tab (ls_world s)" using run by (rule keeps_tableD)
  have look: "c \<noteq> [] \<and> (\<exists>k d. lance_docs tab s k = Some d \<and> v_sourceFile d = f \<and> v_commitHash d = c)"
    if rows: "on_table (le_query eng None) s = (Inr rows, s1)"
      and f: "map_of (map_set_all (map (\<lambda>r. (lr_source_file r, lr_commit_hash r))
          (filter (\<lambda>r. lr_source_file r \<noteq> [] \<and> lr_commit_hash r \<noteq> []) rows)) []) f = Some c" for rows s1 f c
  proof -
    have "map_of (rev (map (\<lambda>r. (lr_source_file r, lr_commit_hash r))
        (filter (\<lambda>r. lr_source_file r \<noteq> [] \<and> lr_commit_hash r \<noteq> []) rows))) f = Some c"
      using f by (simp only: map_of_map_set_all map_of.simps empty_map_add)
    then obtain x where x: "x \<in> set rows" "lr_source_file x = f" "lr_commit_hash x = c" "c \<noteq> []"
      using map_of_SomeD by fastforce
    have "x \<in> set (rows_of tab s)" using x(1) on_table_query [OF laws rows] by simp
    then have "get_row lr_id (lr_id x) (rows_of tab s) = Some x"
      using get_row_Some_iff [of lr_id "rows_of tab s"] inv by (simp add: lance_inv_rows)
    then have "lance_docs tab s (lr_id x) = Some (row_view x)" by (simp add: lance_docs_rows)
    then show ?thesis using x by (force simp: row_view_def)
  qed
  show "case sr of Inl _ \<Rightarrow> True | Inr m \<Rightarrow> \<forall>f c. map_of m f = Some c \<longrightarrow>
        c \<noteq> [] \<and> (\<exists>k d. lance_docs tab s k = Some d \<and> v_sourceFile d = f \<and> v_commitHash d = c)"
    using run unfolding lance_getCurrentState_def
  proof (cases rule: and_thenE)
    case (failed e)
    then show ?thesis by simp
  next
    case (returned rows s1)
    then have sr: "sr = Inr (map_set_all (map (\<lambda>r. (lr_source_file r, lr_commit_hash r))
          (filter (\<lambda>r. lr_source_file r \<noteq> [] \<and> lr_commit_hash r \<noteq> []) rows)) [])" by (simp add: give_def)
    show ?thesis unfolding sr sum.case by (intro allI impI) (rule look [OF returned(1)])
  qed
qed

lemma lance_writeMeta_keeps:
  assumes "lance_engine_laws eng opts tab sat"
  shows "keeps_table tab (lance_writeMeta eng m)"
proof -
  have k: "keeps_table tab (and_then (on_db (le_metaDelete eng)) (\<lambda>_. on_db (le_metaAdd eng m)))"
    by (intro keeps laws_quiet [OF assms])
  show ?thesis using k by (simp add: keeps_table_def lance_writeMeta_def)
qed

lemma lance_reopen_law:
  assumes laws: "lance_engine_laws eng opts tab sat" and inv: "lance_inv tab s"
    and open1: "lance_initialize eng opts s = (Inr (), s0)" and state: "lance_getCurrentState eng s0 = (sr, s1)"
  shows "lance_docs tab (snd (lance_initialize eng opts s1)) = lance_docs tab s1"
proof -
  have ok: "\<exists>cols rows. tab (ls_world s0) = Some (cols, rows) \<and> \<not> schema_mismatch opts cols"
    using lance_initialize_spec [OF laws open1] by (simp add: opened_def)
  have same: "tab (ls_world s1) = tab (ls_world s0)"
    by (rule lance_state_law(1) [OF laws lance_initialize_inv [OF laws inv open1] state])
  obtain r s2 where again: "lance_initialize eng opts s1 = (r, s2)" by (cases "lance_initialize eng opts s1")
  have "tab (ls_world s2) = tab (ls_world s1)"
    using lance_initialize_spec [OF laws again] ok same by (simp add: opened_def)
  then show ?thesis using same_table(1) [of tab s2 s1] again by simp
qed

text \<open>
  C26. The LanceDB store honours the contract the pipeline runs on, for any database that behaves as
  its documentation says: opening, upserting, deleting by file, deleting orphans, listing the state
  and looking hashes up do to its documents what the laws of the locales say, also when a call
  fails, whatever characters file names contain; a second opening after a successful one changes no
  document, and metadata is kept apart.
\<close>

theorem lance_store_honours_contract:
  assumes laws: "lance_engine_laws eng opts tab sat"
  shows "reopenable_store (LanceDBVectorStore eng opts) (lance_docs tab) (lance_inv tab)"
proof unfold_locales
  fix s
  show "lance_inv tab s \<Longrightarrow> lance_inv tab (snd (st_initialize (LanceDBVectorStore eng opts) s))"
    using lance_initialize_inv [OF laws] by (simp add: LanceDBVectorStore_def prod_eq_iff)
next
  fix s sr s'
  assume inv: "lance_inv tab s" and run: "st_getCurrentState (LanceDBVectorStore eng opts) s = (sr, s')"
  have run': "lance_getCurrentState eng s = (sr, s')" using run by (simp add: LanceDBVectorStore_def)
  note st = lance_state_law [OF laws inv run']
  show "lance_inv tab s' \<and> lance_docs tab s' = lance_docs tab s \<and> (case sr of Inl _ \<Rightarrow> True | Inr m \<Rightarrow>
      \<forall>f c. map_of m f = Some c \<longrightarrow>
        c \<noteq> [] \<and> (\<exists>k d. lance_docs tab s k = Some d \<and> v_sourceFile d = f \<and> v_commitHash d = c))"
    using st(2) same_table [of tab s' s, OF st(1)] inv by (intro conjI) simp_all
next
  fix s s0 sr s1
  assume "lance_inv tab s" and "st_initialize (LanceDBVectorStore eng opts) s = (Inr (), s0)"
    and "st_getCurrentState (LanceDBVectorStore eng opts) s0 = (sr, s1)"
  then show "lance_docs tab (snd (st_initialize (LanceDBVectorStore eng opts) s1)) = lance_docs tab s1"
    using lance_reopen_law [OF laws] by (simp add: LanceDBVectorStore_def)
next
  fix s wm m r s'
  assume inv: "lance_inv tab s" and wm: "st_writeMeta (LanceDBVectorStore eng opts) = Some wm" and run: "wm m s = (r, s')"
  have "lance_writeMeta eng m s = (r, s')" using wm run by (simp add: LanceDBVectorStore_def)
  from keeps_tableD [OF lance_writeMeta_keeps [OF laws] this]
  show "lance_inv tab s' \<and> lance_docs tab s' = lance_docs tab s"
    using same_table [of tab s' s] inv by simp
qed (auto simp: LanceDBVectorStore_def dest: lance_upsert_law [OF laws] lance_delete_law [OF laws]
    lance_existing_law [OF laws] lance_orphan_law [OF laws])

text \<open>A database in memory that behaves as the laws say.\<close>

definition memory_sat :: "string \<Rightarrow> lance_row \<Rightarrow> bool" where
  "memory_sat p r = (case reads_in ''id'' p of Some vs \<Rightarrow> lr_id r \<in> set vs
     | None \<Rightarrow> (case reads_in ''source_file'' p of Some vs \<Rightarrow> lr_source_file r \<in> set vs
         | None \<Rightarrow> (case reads_orphans p of Some (f, vs) \<Rightarrow> lr_source_file r = f \<and> lr_id r \<notin> set vs
             | None \<Rightarrow> False)))"

definition sample_lance_options :: lance_options where
  "sample_lance_options = \<lparr>lo_uri = ''db://x'', lo_tableName = ''documents'', lo_dimensions = 2\<rparr>"

definition memory_engine :: "((lance_fields \<times> lance_row list) option) lance_engine" where
  "memory_engine =
     \<lparr>le_mkdir = (\<lambda>w. (Inr (), w)), le_connect = (\<lambda>w. (Inr (), w)),
      le_tableNames = (\<lambda>w. (Inr (if w = None then [] else [''documents'']), w)),
      le_openTable = (\<lambda>t w. (case w of None \<Rightarrow> Inl (Err EError ''no table'') | Some (cols, _) \<Rightarrow> Inr cols, w)),
      le_dropTable = (\<lambda>t w. (Inr (), if t = ''documents'' then None else w)),
      le_createEmptyTable = (\<lambda>t cols w. (Inr (), if t = ''documents'' then Some (cols, []) else w)),
      le_createIndex = (\<lambda>w. (Inr (), w)), le_listIndices = (\<lambda>w. (Inr [], w)),
      le_mergeInsert = (\<lambda>news w. case w of None \<Rightarrow> (Inl (Err EError ''no table''), w)
        | Some (cols, old) \<Rightarrow> (Inr (), Some (cols,
            filter (\<lambda>x. lr_id x \<notin> lr_id ` set news) old @ map as_stored news))),
      le_delete = (\<lambda>p w. (Inr (), map_option (\<lambda>(cols, rows). (cols, filter (\<lambda>x. \<not> memory_sat p x) rows)) w)),
      le_query = (\<lambda>p w. (Inr (filter (\<lambda>x. case p of None \<Rightarrow> True | Some q \<Rightarrow> memory_sat q x) (table_rows w)), w)),
      le_page = (\<lambda>k l w. (Inr (table_rows w), w)), le_countRows = (\<lambda>w. (Inr (length (table_rows w)), w)),
      le_vectorSearch = (\<lambda>v k w. (Inr (map (\<lambda>r. (r, Some 0)) (take k (table_rows w))), w)),
      le_ftsSearch = (\<lambda>t k w. (Inr [], w)), le_metaRows = (\<lambda>w. (Inr [], w)),
      le_metaDelete = (\<lambda>w. (Inr (), w)), le_metaAdd = (\<lambda>m w. (Inr (), w))\<rparr>"

lemma strip_prefix_Some: "strip_prefix p s = Some t \<Longrightarrow> s = p @ t"
  by (induction p s rule: strip_prefix.induct) (auto split: if_splits)

lemma memory_sql_semantics: "sql_semantics memory_sat"
proof -
  have starts: "\<exists>t. p = (col @ '' IN ('') @ t" if "reads_in col p = Some vs" for col p vs
    using that strip_prefix_Some [of "col @ '' IN (''" p] by (auto simp: reads_in_def bind_eq_Some_conv)
  have orphan: "\<exists>t. p = ''source_file = '' @ t" if "reads_orphans p = Some x" for p x
    using that strip_prefix_Some [of "''source_file = ''" p] by (auto simp: reads_orphans_def bind_eq_Some_conv)
  have a: "reads_in ''id'' p = None" if "reads_in ''source_file'' p = Some vs" for p vs
    using starts [of "''source_file''" p vs] starts [of "''id''" p] that by (cases "reads_in ''id'' p") auto
  have b: "reads_in ''id'' p = None \<and> reads_in ''source_file'' p = None" if "reads_orphans p = Some x" for p x
    using orphan [of p x] starts [of "''source_file''" p] starts [of "''id''" p] that
    by (cases "reads_in ''id'' p"; cases "reads_in ''source_file'' p") auto
  show ?thesis unfolding sql_semantics_def by (auto simp: memory_sat_def a b)
qed

lemma memory_engine_laws: "lance_engine_laws memory_engine sample_lance_options (\<lambda>w. w) memory_sat"
proof -
  have get_new: "get_row lr_id k (map as_stored news) = map_option as_stored (get_row lr_id k news)" for k news
    by (rule get_row_map) (simp add: as_stored_def)
  have get_old: "get_row lr_id k (filter (\<lambda>x. lr_id x \<notin> lr_id ` set news) old) =
      (if k \<in> lr_id ` set news then None else get_row lr_id k old)" for k news old
    by (induction old) (auto simp: get_row_Cons)
  have merged: "merged_rows news old (filter (\<lambda>x. lr_id x \<notin> lr_id ` set news) old @ map as_stored news)"
    if "distinct (map lr_id news)" "distinct (map lr_id old)" for news old
  proof -
    have "lr_id \<circ> as_stored = lr_id" by (simp add: as_stored_def fun_eq_iff)
    then have "distinct (map lr_id (filter (\<lambda>x. lr_id x \<notin> lr_id ` set news) old @ map as_stored news))"
      using that by (auto simp: distinct_map_filter as_stored_def)
    moreover have "get_row lr_id k (filter (\<lambda>x. lr_id x \<notin> lr_id ` set news) old @ map as_stored news) =
        (case get_row lr_id k news of Some r \<Rightarrow> Some (as_stored r) | None \<Rightarrow> get_row lr_id k old)" for k
      using get_row_None_iff [of lr_id k news]
      by (auto simp: get_row_append get_new get_old split: option.split)
    ultimately show ?thesis by (simp add: merged_rows_def)
  qed
  show ?thesis
    unfolding lance_engine_laws_def
    by (intro conjI memory_sql_semantics)
      (auto simp: quiet_operations_def quiet_def names_law_def open_law_def drop_law_def create_law_def
        merge_law_def deletion_law_def query_law_def memory_engine_def sample_lance_options_def table_rows_def
        intro: merged split: option.splits)
qed

lemma lance_store_honours_contract_witness:
  "reopenable_store (LanceDBVectorStore memory_engine sample_lance_options) (lance_docs (\<lambda>w. w)) (lance_inv (\<lambda>w. w))"
  by (rule lance_store_honours_contract [OF memory_engine_laws])

subsection \<open>Search\<close>

record lance_search_options =
  so_filter :: "(string \<times> json) list option"
  so_tagFilter :: "string list option"
  so_hybrid :: bool
  so_hybridAlpha :: "rat option"
  so_queryText :: "jstext option"

definition no_search_options :: lance_search_options where
  "no_search_options = \<lparr>so_filter = None, so_tagFilter = None, so_hybrid = False, so_hybridAlpha = None,
     so_queryText = None\<rparr>"

text \<open>A column text that does not parse to an object counts as no metadata.\<close>

definition parse_metadata :: "json json_col \<Rightarrow> json_obj" where
  "parse_metadata c = (case c of Json (JObj m) \<Rightarrow> m | _ \<Rightarrow> [])"

definition rowToResult :: "lance_row \<Rightarrow> rat option \<Rightarrow> search_result" where
  "rowToResult row dst =
     \<lparr>sr_id = lr_id row, sr_denseText = lr_dense_text row, sr_sparseText = lr_sparse_text row,
      sr_metadata = parse_metadata (lr_metadata_json row), sr_similarity = 1 - nullish dst 1,
      sr_sourceFile = Some (lr_source_file row), sr_ingestedAt = None,
      sr_sparseTextGeneratorId = Some (lr_sparse_text_generator_id row),
      sr_metadataGeneratorId = Some (lr_metadata_generator_id row)\<rparr>"

definition dimension_error :: "string \<Rightarrow> bool" where
  "dimension_error msg \<longleftrightarrow> contains ''query dim'' msg
     \<or> contains (''doesn'' @ [CHR 0x27] @ ''t match the column embedding vector dim'') msg"

definition vectorSearchInternal ::
  "'w lance_engine \<Rightarrow> jsnum list \<Rightarrow> nat \<Rightarrow> 'w lance_store \<Rightarrow> search_result list result \<times> 'w lance_store" where
  "vectorSearchInternal eng q fetchLimit s =
     (case on_table (le_vectorSearch eng q fetchLimit) s of
        (Inr rows, s') \<Rightarrow> (Inr (map (\<lambda>(row, dst). rowToResult row dst) rows), s')
      | (Inl err, s') \<Rightarrow>
          (Inl (if dimension_error (message err)
                then Err EError ''Embedder mismatch: the stored index was built with a different embedding model''
                else err), s'))"

definition ftsSearchInternal ::
  "'w lance_engine \<Rightarrow> jstext \<Rightarrow> nat \<Rightarrow> 'w lance_store \<Rightarrow> search_result list \<times> 'w lance_store" where
  "ftsSearchInternal eng t fetchLimit s =
     (case on_table (le_ftsSearch eng t fetchLimit) s of
        (Inr rows, s') \<Rightarrow> (map (\<lambda>(row, score). (rowToResult row None)\<lparr>sr_similarity := nullish score 0\<rparr>) rows, s')
      | (Inl _, s') \<Rightarrow> ([], s'))"

text \<open>\<open>===\<close> between a property of parsed metadata and a filter value: objects and arrays are never
  identical to one another.\<close>

fun strict_eq :: "json option \<Rightarrow> json \<Rightarrow> bool" where
  "strict_eq (Some (JStr a)) (JStr b) = (a = b)"
| "strict_eq (Some (JNum a)) (JNum b) = (a = b)"
| "strict_eq (Some (JBool a)) (JBool b) = (a = b)"
| "strict_eq (Some JNull) JNull = True"
| "strict_eq _ _ = False"

definition matches_filter :: "(string \<times> json) list \<Rightarrow> search_result \<Rightarrow> bool" where
  "matches_filter flt r \<longleftrightarrow> list_all (\<lambda>(k, v). strict_eq (get_prop k (sr_metadata r)) v) flt"

definition falsy :: "json option \<Rightarrow> bool" where
  "falsy v = (case v of None \<Rightarrow> True | Some JNull \<Rightarrow> True | Some (JBool b) \<Rightarrow> \<not> b | Some (JNum n) \<Rightarrow> n = 0
     | Some (JStr s) \<Rightarrow> s = [] | _ \<Rightarrow> False)"

text \<open>\<open>chunkLabels.includes(l)\<close>: membership in an array, a substring of a string, an error otherwise.\<close>

definition includes_label :: "json \<Rightarrow> string \<Rightarrow> bool result" where
  "includes_label v l = (case v of JArr xs \<Rightarrow> Inr (JStr l \<in> set xs) | JStr s \<Rightarrow> Inr (contains l s)
     | _ \<Rightarrow> Inl (Err EError ''chunkLabels.includes is not a function''))"

fun some_label :: "json \<Rightarrow> string list \<Rightarrow> bool result" where
  "some_label v [] = Inr False"
| "some_label v (l # ls) = result_bind (includes_label v l) (\<lambda>b. if b then Inr True else some_label v ls)"

definition postFilter :: "(string \<times> json) list option \<Rightarrow> string list option \<Rightarrow> search_result \<Rightarrow> bool result" where
  "postFilter flt tagFilter r =
     (if (case flt of None \<Rightarrow> False | Some f \<Rightarrow> \<not> matches_filter f r) then Inr False
      else case tagFilter of
             None \<Rightarrow> Inr True
           | Some tags \<Rightarrow>
               if length tags > 0
               then (let labels = get_prop ''tags'' (sr_metadata r)
                     in if falsy labels then Inr False else some_label (the labels) tags)
               else Inr True)"

fun filter_results :: "(search_result \<Rightarrow> bool result) \<Rightarrow> search_result list \<Rightarrow> search_result list result" where
  "filter_results P [] = Inr []"
| "filter_results P (r # rs) = result_bind (P r) (\<lambda>b.
     result_bind (filter_results P rs) (\<lambda>xs. Inr (if b then r # xs else xs)))"

definition lance_search ::
  "'w lance_engine \<Rightarrow> jsnum list \<Rightarrow> nat \<Rightarrow> lance_search_options \<Rightarrow> 'w lance_store
   \<Rightarrow> search_result list result \<times> 'w lance_store" where
  "lance_search eng q topK o' s =
     (let tagFilter = so_tagFilter o';
          post = postFilter (so_filter o') tagFilter;
          needsPostFilter = (so_filter o' \<noteq> None \<or> (case tagFilter of None \<Rightarrow> False | Some t \<Rightarrow> length t > 0));
          text = nullish (so_queryText o') []
      in if so_hybrid o' \<and> ftsIndexCreated s \<and> text \<noteq> []
         then let fetchLimit = topK * 2;
                  (vr, s1) = vectorSearchInternal eng q fetchLimit s;
                  (ftsResults, s2) = ftsSearchInternal eng text fetchLimit s1
              in (result_bind vr (\<lambda>vectorResults.
                    let merged = rrfMerge vectorResults ftsResults topK (nullish (so_hybridAlpha o') (6 / 10))
                    in result_bind (if needsPostFilter then filter_results post merged else Inr merged)
                         (\<lambda>rs. Inr (take topK rs))), s2)
         else let (vr, s1) = vectorSearchInternal eng q (if needsPostFilter then topK * 4 else topK) s
              in (result_bind vr (\<lambda>results.
                    if \<not> needsPostFilter then Inr results
                    else result_bind (filter_results post results) (\<lambda>rs. Inr (take topK rs))), s1))"

text \<open>A page of all documents; a vector is given only on request.\<close>

definition row_to_listed :: "bool \<Rightarrow> lance_row \<Rightarrow> search_result \<times> string \<times> string \<times> jsnum list option" where
  "row_to_listed includeVectors row =
     ((rowToResult row None), lr_dense_text_hash row, lr_commit_hash row,
      if includeVectors then Some (lr_dense_vector row) else None)"

definition truthy_num :: "nat option \<Rightarrow> nat option" where
  "truthy_num n = (case n of Some (Suc k) \<Rightarrow> Some (Suc k) | _ \<Rightarrow> None)"

definition lance_listAll ::
  "'w lance_engine \<Rightarrow> nat option \<Rightarrow> nat option \<Rightarrow> bool \<Rightarrow> 'w lance_store
   \<Rightarrow> (search_result \<times> string \<times> string \<times> jsnum list option) list result \<times> 'w lance_store" where
  "lance_listAll eng limit offset includeVectors =
     and_then (on_table (le_page eng (truthy_num offset) (truthy_num limit)))
       (\<lambda>rows. give (map (row_to_listed includeVectors) rows))"

subsection \<open>Every result passes the filters\<close>

lemma some_label_True:
  "some_label v ls = Inr True \<Longrightarrow> \<exists>l \<in> set ls. includes_label v l = Inr True"
proof (induction ls)
  case (Cons l ls)
  then show ?case by (cases "includes_label v l") (auto split: if_splits)
qed simp

lemma filter_results_spec: "filter_results P rs = Inr xs \<Longrightarrow> xs = filter (\<lambda>r. P r = Inr True) rs"
proof (induction rs arbitrary: xs)
  case (Cons r rs)
  obtain b ys where b: "P r = Inr b" and ys: "filter_results P rs = Inr ys" and xs: "xs = (if b then r # ys else ys)"
    using Cons.prems by (auto simp: result_bind_Inr)
  show ?case unfolding xs Cons.IH [OF ys] by (simp add: b)
qed simp

text \<open>What a filtered result satisfies.\<close>

definition tagged_with :: "string list \<Rightarrow> search_result \<Rightarrow> bool" where
  "tagged_with tags r \<longleftrightarrow> (\<exists>v. get_prop ''tags'' (sr_metadata r) = Some v
     \<and> (\<exists>l \<in> set tags. includes_label v l = Inr True))"

lemma postFilter_True:
  assumes "postFilter flt tagFilter r = Inr True"
  shows "(\<forall>f. flt = Some f \<longrightarrow> matches_filter f r)
    \<and> (\<forall>tags. tagFilter = Some tags \<longrightarrow> tags \<noteq> [] \<longrightarrow> tagged_with tags r)"
proof (intro conjI allI impI)
  fix f
  assume "flt = Some f"
  then show "matches_filter f r" using assms by (auto simp: postFilter_def split: if_splits)
next
  fix tags
  assume t: "tagFilter = Some tags" and ne: "tags \<noteq> []"
  have "\<not> falsy (get_prop ''tags'' (sr_metadata r)) \<and> some_label (the (get_prop ''tags'' (sr_metadata r))) tags = Inr True"
    using assms t ne by (auto simp: postFilter_def Let_def split: if_splits option.splits)
  then show "tagged_with tags r"
    using some_label_True by (cases "get_prop ''tags'' (sr_metadata r)") (auto simp: tagged_with_def falsy_def)
qed

text \<open>
  C27. A search of the LanceDB store, hybrid or not, never returns a document the caller's filters
  exclude: every result has the filter's metadata values, and with a non-empty tag filter carries
  one of its tags. It returns at most \<open>topK\<close> results, provided the vector search of the library
  honours its limit. (An empty tag filter filters nothing.)
\<close>

theorem lance_search_respects_filters:
  assumes limit: "\<forall>v k w rows w'. le_vectorSearch eng v k w = (Inr rows, w') \<longrightarrow> length rows \<le> k"
    and run: "lance_search eng q topK opts s = (Inr rs, s')"
  shows "length rs \<le> topK
    \<and> (\<forall>r \<in> set rs. (\<forall>f. so_filter opts = Some f \<longrightarrow> matches_filter f r)
         \<and> (\<forall>tags. so_tagFilter opts = Some tags \<longrightarrow> tags \<noteq> [] \<longrightarrow> tagged_with tags r))"
proof -
  define needs where "needs = (so_filter opts \<noteq> None
    \<or> (case so_tagFilter opts of None \<Rightarrow> False | Some t \<Rightarrow> length t > 0))"
  let ?post = "postFilter (so_filter opts) (so_tagFilter opts)"
  have none: "(\<forall>f. so_filter opts = Some f \<longrightarrow> P f) \<and> (\<forall>tags. so_tagFilter opts = Some tags \<longrightarrow> tags \<noteq> [] \<longrightarrow> Q tags)"
    if "\<not> needs" for P Q using that by (auto simp: needs_def)
  have vec: "length xs \<le> k" if found: "vectorSearchInternal eng q k s = (Inr xs, s1)" for k xs s1
  proof -
    obtain rows where rows: "on_table (le_vectorSearch eng q k) s = (Inr rows, s1)"
      and xs: "xs = map (\<lambda>(row, dst). rowToResult row dst) rows"
      using found by (auto simp: vectorSearchInternal_def split: prod.splits sum.splits)
    from rows have "length rows \<le> k"
    proof (cases rule: on_tableE)
      case closed
      then show ?thesis by simp
    next
      case (called w')
      then show ?thesis using limit by blast
    qed
    then show ?thesis by (simp add: xs)
  qed
  consider (filtered) xs ys where "filter_results ?post xs = Inr ys" "rs = take topK ys"
    | (merged) xs where "rs = take topK xs" "\<not> needs"
    | (plain) s1 where "vectorSearchInternal eng q topK s = (Inr rs, s1)" "\<not> needs"
    using run unfolding lance_search_def needs_def [symmetric] Let_def
    by (auto simp: result_bind_Inr split: if_splits prod.splits)
  then show ?thesis
  proof cases
    case filtered
    have "?post r = Inr True" if "r \<in> set rs" for r
      using that unfolding filtered(2) filter_results_spec [OF filtered(1)] by (auto dest: in_set_takeD)
    then show ?thesis using postFilter_True [of "so_filter opts" "so_tagFilter opts"] filtered(2) by auto
  next
    case merged
    show ?thesis unfolding merged(1) by (intro conjI ballI none [OF merged(2), THEN conjunct1] none [OF merged(2), THEN conjunct2]) simp
  next
    case plain
    show ?thesis by (intro conjI ballI vec [OF plain(1)] none [OF plain(2), THEN conjunct1] none [OF plain(2), THEN conjunct2])
  qed
qed

definition sample_row :: "string \<Rightarrow> json list \<Rightarrow> lance_row" where
  "sample_row i tags =
     \<lparr>lr_id = i, lr_dense_text = [], lr_sparse_text = [], lr_dense_text_hash = i, lr_sparse_text_generator_id = [],
      lr_metadata_generator_id = [], lr_dense_vector = [], lr_metadata_json = Json (JObj [(''tags'', JArr tags)]),
      lr_source_file = ''f'', lr_commit_hash = ''c''\<rparr>"

definition sample_lance :: "((lance_fields \<times> lance_row list) option) lance_store" where
  "sample_lance = \<lparr>ls_module = True, ls_table = True, ls_metaTable = True, ftsIndexCreated = False,
     ls_world = Some (expected_fields sample_lance_options,
       [sample_row ''a'' [JStr ''secret''], sample_row ''b'' [JStr ''public'']])\<rparr>"

lemma lance_search_respects_filters_witness:
  "\<exists>rs s'. lance_search memory_engine [] 5 (no_search_options\<lparr>so_tagFilter := Some [''public'']\<rparr>) sample_lance = (Inr rs, s')
     \<and> map sr_id rs = [''b''] \<and> (\<forall>r \<in> set rs. tagged_with [''public''] r)"
proof -
  let ?o = "no_search_options\<lparr>so_tagFilter := Some [''public'']\<rparr>"
  let ?r = "lance_search memory_engine [] 5 ?o sample_lance"
  have "case ?r of (Inr rs, _) \<Rightarrow> map sr_id rs = [''b''] | _ \<Rightarrow> False" by code_simp
  then obtain rs s' where r: "?r = (Inr rs, s')" and ids: "map sr_id rs = [''b'']"
    by (cases ?r) (auto split: sum.splits)
  have "\<forall>v k w rows w'. le_vectorSearch memory_engine v k w = (Inr rows, w') \<longrightarrow> length rows \<le> k"
    by (auto simp: memory_engine_def)
  from lance_search_respects_filters [OF this r]
  have "\<forall>r \<in> set rs. tagged_with [''public''] r" by simp
  with r ids show ?thesis by (intro exI [of _ rs] exI [of _ s'] conjI)
qed

text \<open>An empty tag filter, which no document can satisfy, returns every document.\<close>

lemma empty_tag_filter_filters_nothing:
  "fst (lance_search eng q topK (no_search_options\<lparr>so_tagFilter := Some []\<rparr>) s)
     = fst (lance_search eng q topK no_search_options s)"
  by (simp add: lance_search_def no_search_options_def split_def Let_def)

end
