(* ===== verification/QdrantStore.thy ===== *)
theory QdrantStore
  imports LanceStore Formatting
begin

section \<open>The Qdrant store\<close>

text \<open>
  \<open>src/packages/virage-store-qdrant/src/store.ts\<close>: the class \<open>QdrantVectorStore\<close>. The client of the
  Qdrant server is a record of functions over the state \<open>'w\<close> of the server, and what the store
  relies on is the predicate \<open>qdrant_laws\<close>: under it the store honours the contract
  \<open>reopenable_store\<close>. The payload of a point is a record of the properties the code reads, each
  \<open>None\<close> when it is missing or not of the expected type. The loop over the pages of the
  collection (\<open>scroll_state\<close>) is a partial function: its end is a theorem. Logging is left out.
\<close>

subsection \<open>The client\<close>

record qdrant_payload =
  pl_dense_text :: "jstext option"
  pl_sparse_text :: "jstext option"
  pl_dense_text_hash :: "string option"
  pl_sparse_text_generator_id :: "string option"
  pl_metadata_generator_id :: "string option"
  pl_metadata :: "json option"
  pl_source_file :: "string option"
  pl_commit_hash :: "string option"

record qdrant_point =
  qp_id :: string
  qp_vector :: "jsnum list"
  qp_payload :: qdrant_payload

datatype qdrant_condition =
    MatchAny string "string list"
  | MatchValue string string
  | MatchText string jstext
  | HasId "string list"

record qdrant_filter =
  must :: "qdrant_condition list"
  must_not :: "qdrant_condition list"

type_synonym qdrant_hit = "string \<times> qdrant_payload"

record 'w qdrant_client =
  qc_collectionExists :: "'w \<Rightarrow> bool result \<times> 'w"
  qc_createCollection :: "nat \<Rightarrow> 'w \<Rightarrow> unit result \<times> 'w"
  qc_upsert :: "qdrant_point list \<Rightarrow> 'w \<Rightarrow> unit result \<times> 'w"
  qc_delete :: "qdrant_filter \<Rightarrow> 'w \<Rightarrow> unit result \<times> 'w"
  qc_retrieve :: "string list \<Rightarrow> 'w \<Rightarrow> string list result \<times> 'w"
  qc_scroll :: "qdrant_filter option \<Rightarrow> string list option \<Rightarrow> nat \<Rightarrow> string option \<Rightarrow> 'w
    \<Rightarrow> (qdrant_hit list \<times> string option) result \<times> 'w"
  qc_search :: "jsnum list \<Rightarrow> nat \<Rightarrow> 'w \<Rightarrow> (qdrant_hit \<times> rat) list result \<times> 'w"

subsection \<open>The store\<close>

record qdrant_options =
  qo_url :: "string option"
  qo_path :: "string option"
  qo_port :: "nat option"
  qo_collection :: "string option"
  qo_dimensions :: "nat option"

record qdrant_config =
  qs_url :: string
  qs_collection :: string
  qs_dimensions :: nat

definition given :: "string option \<Rightarrow> bool" where
  "given s \<longleftrightarrow> (case s of None \<Rightarrow> False | Some x \<Rightarrow> x \<noteq> [])"

definition new_qdrant_config :: "qdrant_options \<Rightarrow> qdrant_config result" where
  "new_qdrant_config opts =
     (if \<not> given (qo_url opts) \<and> \<not> given (qo_path opts)
      then Inl (Err EError ''QdrantVectorStore: either url or path is required'')
      else Inr \<lparr>qs_url = nullish (qo_url opts) (''http://localhost:'' @ show_nat (nullish (qo_port opts) 6333)),
                qs_collection = nullish (qo_collection opts) ''documents'',
                qs_dimensions = nullish (qo_dimensions opts) 1536\<rparr>)"

definition UPSERT_BATCH_SIZE :: nat where
  "UPSERT_BATCH_SIZE = 100"

definition SCROLL_PAGE_SIZE :: nat where
  "SCROLL_PAGE_SIZE = 250"

definition qdrant_initialize :: "'w qdrant_client \<Rightarrow> nat \<Rightarrow> 'w \<Rightarrow> unit result \<times> 'w" where
  "qdrant_initialize qc dims =
     and_then (qc_collectionExists qc) (\<lambda>ex. if \<not> ex then qc_createCollection qc dims else give ())"

definition point_of :: "vector_document \<Rightarrow> qdrant_point" where
  "point_of d =
     \<lparr>qp_id = docId d, qp_vector = docDenseVector d,
      qp_payload = \<lparr>pl_dense_text = Some (docDenseText d), pl_sparse_text = Some (docSparseText d),
        pl_dense_text_hash = Some (docDenseTextHash d),
        pl_sparse_text_generator_id = Some (docSparseTextGeneratorId d),
        pl_metadata_generator_id = Some (docMetadataGeneratorId d),
        pl_metadata = Some (JObj (docMetadata d)), pl_source_file = Some (docSourceFile d),
        pl_commit_hash = Some (docCommitHash d)\<rparr>\<rparr>"

function qdrant_upsert :: "'w qdrant_client \<Rightarrow> vector_document list \<Rightarrow> 'w \<Rightarrow> unit result \<times> 'w" where
  "qdrant_upsert qc ds =
     (if ds = [] then give ()
      else and_then (qc_upsert qc (map point_of (take UPSERT_BATCH_SIZE ds)))
             (\<lambda>_. qdrant_upsert qc (drop UPSERT_BATCH_SIZE ds)))"
  by auto
termination by (relation "measure (length \<circ> snd)") (auto simp: UPSERT_BATCH_SIZE_def)

declare qdrant_upsert.simps [simp del]

definition qdrant_deleteBySourceFile ::
  "'w qdrant_client \<Rightarrow> string list \<Rightarrow> 'w \<Rightarrow> unit result \<times> 'w" where
  "qdrant_deleteBySourceFile qc sourceFiles =
     (if length sourceFiles = 0 then give ()
      else qc_delete qc \<lparr>must = [MatchAny ''source_file'' sourceFiles], must_not = []\<rparr>)"

definition qdrant_existingHashes ::
  "'w qdrant_client \<Rightarrow> string list \<Rightarrow> 'w \<Rightarrow> string list result \<times> 'w" where
  "qdrant_existingHashes qc hashes = (if length hashes = 0 then give [] else qc_retrieve qc hashes)"

definition qdrant_deleteOrphanedChunks ::
  "'w qdrant_client \<Rightarrow> string \<Rightarrow> string list \<Rightarrow> 'w \<Rightarrow> unit result \<times> 'w" where
  "qdrant_deleteOrphanedChunks qc f keep =
     (if length keep = 0 then qdrant_deleteBySourceFile qc [f]
      else qc_delete qc \<lparr>must = [MatchValue ''source_file'' f], must_not = [HasId keep]\<rparr>)"

text \<open>One page of the loop: what each point adds to the \<open>Map\<close>.\<close>

definition state_entry :: "qdrant_hit \<Rightarrow> (string \<times> string) option" where
  "state_entry h =
     (case (pl_source_file (snd h), pl_commit_hash (snd h)) of
        (Some f, Some c) \<Rightarrow> if f \<noteq> [] \<and> c \<noteq> [] then Some (f, c) else None
      | _ \<Rightarrow> None)"

definition collect_page :: "qdrant_hit list \<Rightarrow> (string \<times> string) list \<Rightarrow> (string \<times> string) list" where
  "collect_page page m = map_set_all (List.map_filter state_entry page) m"

partial_function (option) scroll_state ::
  "'w qdrant_client \<Rightarrow> string option \<Rightarrow> (string \<times> string) list \<Rightarrow> 'w
   \<Rightarrow> ((string \<times> string) list result \<times> 'w) option" where
  "scroll_state qc offset state w =
     (case qc_scroll qc None (Some [''source_file'', ''commit_hash'']) SCROLL_PAGE_SIZE offset w of
        (Inl e, w') \<Rightarrow> Some (Inl e, w')
      | (Inr (page, next_page_offset), w') \<Rightarrow>
          (case next_page_offset of
             None \<Rightarrow> Some (Inr (collect_page page state), w')
           | Some off \<Rightarrow> scroll_state qc (Some off) (collect_page page state) w'))"

definition qdrant_getCurrentState ::
  "'w qdrant_client \<Rightarrow> 'w \<Rightarrow> ((string \<times> string) list result \<times> 'w) option" where
  "qdrant_getCurrentState qc w = scroll_state qc None [] w"

text \<open>The store as an implementation of the interface; that the loop ends is part of what is shown.\<close>

definition QdrantVectorStore :: "'w qdrant_client \<Rightarrow> qdrant_config \<Rightarrow> 'w vector_store" where
  "QdrantVectorStore qc cfg =
     \<lparr>storeName = ''qdrant'', st_initialize = qdrant_initialize qc (qs_dimensions cfg),
      st_upsert = qdrant_upsert qc, st_deleteBySourceFile = qdrant_deleteBySourceFile qc,
      st_getCurrentState = (\<lambda>w. the (qdrant_getCurrentState qc w)),
      st_existingHashes = Some (qdrant_existingHashes qc),
      st_deleteOrphanedChunks = Some (qdrant_deleteOrphanedChunks qc), st_writeMeta = None\<rparr>"

subsection \<open>Search\<close>

definition payload_metadata :: "json option \<Rightarrow> json_obj" where
  "payload_metadata v = (case v of Some (JObj m) \<Rightarrow> m | _ \<Rightarrow> [])"

definition payloadToResult :: "qdrant_hit \<times> rat \<Rightarrow> search_result" where
  "payloadToResult r = (case r of ((i, p), score) \<Rightarrow>
     \<lparr>sr_id = i, sr_denseText = nullish (pl_dense_text p) [], sr_sparseText = nullish (pl_sparse_text p) [],
      sr_metadata = payload_metadata (pl_metadata p), sr_similarity = score, sr_sourceFile = None,
      sr_ingestedAt = None, sr_sparseTextGeneratorId = None, sr_metadataGeneratorId = None\<rparr>)"

definition label_filter :: "string list option \<Rightarrow> search_result \<Rightarrow> bool result" where
  "label_filter tagFilter r =
     (case tagFilter of
        None \<Rightarrow> Inr True
      | Some tags \<Rightarrow>
          if length tags = 0 then Inr True
          else (let chunkLabels = get_prop ''tags'' (sr_metadata r)
                in if falsy chunkLabels then Inr False else some_label (the chunkLabels) tags))"

definition applyLabelFilter :: "string list option \<Rightarrow> search_result list \<Rightarrow> search_result list result" where
  "applyLabelFilter tagFilter results = filter_results (label_filter tagFilter) results"

definition rank_scores :: "qdrant_hit list \<Rightarrow> (qdrant_hit \<times> rat) list" where
  "rank_scores page = map (\<lambda>(i, h). (h, 1 / of_nat (i + 1))) (enumerate 0 page)"

definition qdrant_search ::
  "'w qdrant_client \<Rightarrow> jsnum list \<Rightarrow> nat \<Rightarrow> lance_search_options \<Rightarrow> 'w \<Rightarrow> search_result list result \<times> 'w" where
  "qdrant_search qc q topK opts =
     (let tagFilter = so_tagFilter opts; queryText = nullish (so_queryText opts) []
      in if so_hybrid opts \<and> queryText \<noteq> []
         then and_then (qc_search qc q (topK * 2)) (\<lambda>vectorResults.
                and_then (qc_scroll qc (Some \<lparr>must = [MatchText ''sparse_text'' queryText], must_not = []\<rparr>)
                    None (topK * 2) None) (\<lambda>(page, _) w.
                  (result_bind (applyLabelFilter tagFilter
                     (rrfMerge (map payloadToResult vectorResults) (map payloadToResult (rank_scores page))
                        topK (nullish (so_hybridAlpha opts) (6 / 10))))
                     (\<lambda>rs. Inr (take topK rs)), w)))
         else let fetchLimit = (case tagFilter of Some (t # ts) \<Rightarrow> topK * 4 | _ \<Rightarrow> topK)
              in and_then (qc_search qc q fetchLimit) (\<lambda>results w.
                   (result_bind (applyLabelFilter tagFilter (map payloadToResult results))
                      (\<lambda>rs. Inr (take topK rs)), w)))"

subsection \<open>What the store relies on\<close>

text \<open>
  \<open>pts\<close> reads the collection out of the server's state: the payload of every point, \<open>None\<close> when the
  collection does not exist. \<open>ord\<close> is the order in which the server enumerates the points, \<open>sat\<close> what
  it makes of a condition. A failed write may have reached any of its points.
\<close>

type_synonym 'w points_view = "'w \<Rightarrow> (string \<rightharpoonup> qdrant_payload) option"

definition points :: "'w points_view \<Rightarrow> 'w \<Rightarrow> string \<rightharpoonup> qdrant_payload" where
  "points pts w = (case pts w of None \<Rightarrow> Map.empty | Some m \<Rightarrow> m)"

definition point_writes ::
  "(string \<rightharpoonup> qdrant_payload) \<Rightarrow> (string \<rightharpoonup> qdrant_payload) \<Rightarrow> unit result \<Rightarrow> (string \<rightharpoonup> qdrant_payload) \<Rightarrow> bool" where
  "point_writes old new r m \<longleftrightarrow> (r = Inr () \<longrightarrow> m = new) \<and> (\<forall>k. m k = old k \<or> m k = new k)"

type_synonym condition_sat = "qdrant_condition \<Rightarrow> string \<Rightarrow> qdrant_payload \<Rightarrow> bool"

definition filter_sat :: "condition_sat \<Rightarrow> qdrant_filter \<Rightarrow> string \<Rightarrow> qdrant_payload \<Rightarrow> bool" where
  "filter_sat sat flt k p \<longleftrightarrow>
     list_all (\<lambda>c. sat c k p) (must flt) \<and> \<not> list_ex (\<lambda>c. sat c k p) (must_not flt)"

definition condition_semantics :: "condition_sat \<Rightarrow> bool" where
  "condition_semantics sat \<longleftrightarrow>
     (\<forall>vs k p. sat (MatchAny ''source_file'' vs) k p = (\<exists>f \<in> set vs. pl_source_file p = Some f))
     \<and> (\<forall>f k p. sat (MatchValue ''source_file'' f) k p = (pl_source_file p = Some f))
     \<and> (\<forall>ids k p. sat (HasId ids) k p = (k \<in> set ids))"

definition upserted :: "qdrant_point list \<Rightarrow> (string \<rightharpoonup> qdrant_payload) \<Rightarrow> (string \<rightharpoonup> qdrant_payload)" where
  "upserted news m = m ++ map_of (map (\<lambda>p. (qp_id p, qp_payload p)) news)"

definition removed :: "(string \<Rightarrow> qdrant_payload \<Rightarrow> bool) \<Rightarrow> (string \<rightharpoonup> qdrant_payload) \<Rightarrow> (string \<rightharpoonup> qdrant_payload)" where
  "removed P m = (\<lambda>k. case m k of None \<Rightarrow> None | Some p \<Rightarrow> if P k p then None else Some p)"

text \<open>The ids from an offset on.\<close>

definition from_offset :: "string option \<Rightarrow> string list \<Rightarrow> string list" where
  "from_offset offset ids = (case offset of None \<Rightarrow> ids | Some off \<Rightarrow> dropWhile (\<lambda>k. k \<noteq> off) ids)"

definition opening_laws :: "'w qdrant_client \<Rightarrow> 'w points_view \<Rightarrow> bool" where
  "opening_laws qc pts \<longleftrightarrow>
     (\<forall>w r w'. qc_collectionExists qc w = (r, w') \<longrightarrow> pts w' = pts w \<and> (\<forall>ex. r = Inr ex \<longrightarrow> ex = (pts w \<noteq> None)))
     \<and> (\<forall>d w r w'. qc_createCollection qc d w = (r, w') \<longrightarrow> pts w = None \<longrightarrow>
          pts w' = Some Map.empty \<or> r \<noteq> Inr () \<and> pts w' = None)"

definition writing_laws :: "'w qdrant_client \<Rightarrow> 'w points_view \<Rightarrow> condition_sat \<Rightarrow> bool" where
  "writing_laws qc pts sat \<longleftrightarrow>
     (\<forall>news w r w'. qc_upsert qc news w = (r, w') \<longrightarrow> distinct (map qp_id news) \<longrightarrow>
        point_writes (points pts w) (upserted news (points pts w)) r (points pts w'))
     \<and> (\<forall>flt w r w'. qc_delete qc flt w = (r, w') \<longrightarrow>
        point_writes (points pts w) (removed (filter_sat sat flt) (points pts w)) r (points pts w'))"

definition reading_laws ::
  "'w qdrant_client \<Rightarrow> 'w points_view \<Rightarrow> ('w \<Rightarrow> string list) \<Rightarrow> bool" where
  "reading_laws qc pts ord \<longleftrightarrow>
     (\<forall>ids w r w'. qc_retrieve qc ids w = (r, w') \<longrightarrow> pts w' = pts w
        \<and> (\<forall>found. r = Inr found \<longrightarrow> set found = {k \<in> set ids. points pts w k \<noteq> None}))
     \<and> (\<forall>w. distinct (ord w) \<and> set (ord w) = dom (points pts w))
     \<and> (\<forall>fs n off w r w'. qc_scroll qc None fs n off w = (r, w') \<longrightarrow> (pts w' = pts w \<and> ord w' = ord w)
        \<and> (\<forall>page nxt. r = Inr (page, nxt) \<longrightarrow>
             (let rest = from_offset off (ord w)
              in map fst page = take n rest
                \<and> nxt = (case drop n rest of [] \<Rightarrow> None | k # _ \<Rightarrow> Some k))
             \<and> (\<forall>(k, p) \<in> set page. \<exists>q. points pts w k = Some q \<and> pl_source_file p = pl_source_file q
                  \<and> pl_commit_hash p = pl_commit_hash q)))"

definition qdrant_laws ::
  "'w qdrant_client \<Rightarrow> 'w points_view \<Rightarrow> ('w \<Rightarrow> string list) \<Rightarrow> condition_sat \<Rightarrow> bool" where
  "qdrant_laws qc pts ord sat \<longleftrightarrow>
     opening_laws qc pts \<and> writing_laws qc pts sat \<and> reading_laws qc pts ord \<and> condition_semantics sat"

text \<open>What the pipeline sees of a point, and the invariant: every point was written by this store.\<close>

definition payload_view :: "qdrant_payload \<Rightarrow> doc_view" where
  "payload_view p = \<lparr>v_denseText = nullish (pl_dense_text p) [], v_sourceFile = nullish (pl_source_file p) [],
     v_commitHash = nullish (pl_commit_hash p) []\<rparr>"

definition qdrant_docs :: "'w points_view \<Rightarrow> 'w \<Rightarrow> string \<rightharpoonup> doc_view" where
  "qdrant_docs pts w = map_option payload_view \<circ> points pts w"

definition own_points :: "(string \<rightharpoonup> qdrant_payload) \<Rightarrow> bool" where
  "own_points m \<longleftrightarrow> (\<forall>k p. m k = Some p \<longrightarrow> pl_source_file p \<noteq> None \<and> pl_commit_hash p \<noteq> None)"

definition qdrant_inv :: "'w points_view \<Rightarrow> 'w \<Rightarrow> bool" where
  "qdrant_inv pts w \<longleftrightarrow> own_points (points pts w)"

subsection \<open>Writing\<close>

lemma laws_upsert:
  assumes "qdrant_laws qc pts ord sat" and "qc_upsert qc news w = (r, w')" and "distinct (map qp_id news)"
  shows "point_writes (points pts w) (upserted news (points pts w)) r (points pts w')"
proof -
  have "writing_laws qc pts sat" using assms(1) by (simp add: qdrant_laws_def)
  then show ?thesis using assms(2,3) unfolding writing_laws_def by metis
qed

lemma laws_remove:
  assumes "qdrant_laws qc pts ord sat" and "qc_delete qc flt w = (r, w')"
  shows "point_writes (points pts w) (removed (filter_sat sat flt) (points pts w)) r (points pts w')"
proof -
  have "writing_laws qc pts sat" using assms(1) by (simp add: qdrant_laws_def)
  then show ?thesis using assms(2) unfolding writing_laws_def by metis
qed

lemma point_writes_own:
  assumes "point_writes old new r m" and "own_points old" and "own_points new"
  shows "own_points m"
  using assms unfolding point_writes_def own_points_def by metis

lemma point_writes_view:
  assumes "point_writes old new r m"
  shows "writes_to (map_option payload_view \<circ> old) (map_option payload_view \<circ> new) r (map_option payload_view \<circ> m)"
  using assms unfolding point_writes_def writes_to_def by (metis comp_apply)

lemma own_removed: "own_points m \<Longrightarrow> own_points (removed P m)"
  by (auto simp: own_points_def removed_def split: option.splits if_splits)

lemma own_upserted: "own_points m \<Longrightarrow> own_points (upserted (map point_of ds) m)"
  by (auto simp: own_points_def upserted_def map_add_Some_iff point_of_def dest!: map_of_SomeD)

lemma view_upserted:
  assumes "distinct (map docId ds)"
  shows "map_option payload_view \<circ> upserted (map point_of ds) m = written ds (map_option payload_view \<circ> m)"
proof
  fix k
  have "map_of (map (\<lambda>d. (docId d, qp_payload (point_of d))) ds) k = map_option (qp_payload \<circ> point_of) (get_row docId k ds)"
    by (simp add: map_of_get_row comp_def)
  moreover have "payload_view (qp_payload (point_of d)) = view_of d" for d
    by (simp add: payload_view_def point_of_def view_of_def nullish_def)
  ultimately show "(map_option payload_view \<circ> upserted (map point_of ds) m) k = written ds (map_option payload_view \<circ> m) k"
    by (simp add: written_distinct [OF assms] upserted_def map_add_def comp_def point_of_def split: option.split)
qed

lemma written_prefix:
  assumes "distinct (map docId (ds @ es))" and "\<forall>k. m k = old k \<or> m k = written ds old k"
  shows "\<forall>k. m k = old k \<or> m k = written (ds @ es) old k"
proof
  fix k
  have split: "written (ds @ es) old k = (if k \<in> docId ` set es then written es (written ds old) k else written ds old k)"
    by (simp add: written_append written_other)
  show "m k = old k \<or> m k = written (ds @ es) old k"
  proof (cases "k \<in> docId ` set es")
    case True
    then have "k \<notin> docId ` set ds" using assms(1) by auto
    then show ?thesis using spec [OF assms(2), of k] by (simp add: written_other)
  next
    case False
    then show ?thesis using spec [OF assms(2), of k] split by simp
  qed
qed

lemma first_batch:
  assumes laws: "qdrant_laws qc pts ord sat" and inv: "qdrant_inv pts w" and dst: "distinct (map docId ds)"
    and run: "qc_upsert qc (map point_of ds) w = (r, w')"
  shows "qdrant_inv pts w' \<and> writes_to (qdrant_docs pts w) (written ds (qdrant_docs pts w)) r (qdrant_docs pts w')"
proof -
  have "qp_id \<circ> point_of = docId" by (simp add: point_of_def fun_eq_iff)
  then have "distinct (map qp_id (map point_of ds))" using dst by (simp only: map_map)
  from laws_upsert [OF laws run this]
  have pw: "point_writes (points pts w) (upserted (map point_of ds) (points pts w)) r (points pts w')" .
  have "qdrant_inv pts w'"
    using point_writes_own [OF pw] own_upserted inv by (simp add: qdrant_inv_def)
  then show ?thesis using point_writes_view [OF pw] by (simp add: qdrant_docs_def view_upserted [OF dst])
qed

lemma qdrant_upsert_law:
  assumes laws: "qdrant_laws qc pts ord sat"
  shows "qdrant_inv pts w \<Longrightarrow> distinct (map docId ds) \<Longrightarrow> qdrant_upsert qc ds w = (r, w') \<Longrightarrow>
    qdrant_inv pts w' \<and> writes_to (qdrant_docs pts w) (written ds (qdrant_docs pts w)) r (qdrant_docs pts w')"
proof (induction "length ds" arbitrary: ds w rule: less_induct)
  case less
  let ?b = "take UPSERT_BATCH_SIZE ds" and ?rest = "drop UPSERT_BATCH_SIZE ds"
  have dst: "distinct (map docId (?b @ ?rest))" using less.prems(2) by simp
  then have b: "distinct (map docId ?b)" and rest: "distinct (map docId ?rest)" by (simp_all only: map_append distinct_append)
  show ?case
  proof (cases "ds = []")
    case True
    then show ?thesis using less.prems by (simp add: qdrant_upsert.simps give_def writes_to_def)
  next
    case False
    have "and_then (qc_upsert qc (map point_of ?b)) (\<lambda>_. qdrant_upsert qc ?rest) w = (r, w')"
      using less.prems(3) False by (subst (asm) qdrant_upsert.simps) simp
    then show ?thesis
    proof (cases rule: and_thenE)
      case (failed e)
      from first_batch [OF laws less.prems(1) b failed(1)]
      have inv: "qdrant_inv pts w'" and each: "\<forall>k. qdrant_docs pts w' k = qdrant_docs pts w k
          \<or> qdrant_docs pts w' k = written ?b (qdrant_docs pts w) k" by (simp_all add: writes_to_def)
      from written_prefix [OF dst each] show ?thesis using inv failed(2) by (simp add: writes_to_def)
    next
      case (returned u w1)
      from first_batch [OF laws less.prems(1) b returned(1)]
      have inv: "qdrant_inv pts w1" and w1: "qdrant_docs pts w1 = written ?b (qdrant_docs pts w)"
        by (simp_all add: writes_to_def)
      have "length ?rest < length ds" using False by (simp add: UPSERT_BATCH_SIZE_def)
      from less.hyps [OF this inv rest returned(2)]
      have inv': "qdrant_inv pts w'"
        and wr: "writes_to (qdrant_docs pts w1) (written ?rest (qdrant_docs pts w1)) r (qdrant_docs pts w')" by simp_all
      have all: "written ?rest (qdrant_docs pts w1) = written ds (qdrant_docs pts w)"
        unfolding w1 by (simp flip: written_append)
      have "\<forall>k. qdrant_docs pts w1 k = qdrant_docs pts w k \<or> qdrant_docs pts w1 k = written ?b (qdrant_docs pts w) k"
        by (simp add: w1)
      from written_prefix [OF dst this] show ?thesis
        using wr inv' unfolding all writes_to_def by (metis append_take_drop_id)
    qed
  qed
qed

lemma removed_files:
  assumes sem: "condition_semantics sat" and own: "own_points m"
  shows "map_option payload_view \<circ> removed (filter_sat sat \<lparr>must = [MatchAny ''source_file'' fs], must_not = []\<rparr>) m
    = without_files fs (map_option payload_view \<circ> m)"
proof
  fix k
  show "(map_option payload_view \<circ> removed (filter_sat sat \<lparr>must = [MatchAny ''source_file'' fs], must_not = []\<rparr>) m) k
    = without_files fs (map_option payload_view \<circ> m) k"
  proof (cases "m k")
    case (Some p)
    then obtain f where "pl_source_file p = Some f" using own by (auto simp: own_points_def)
    then show ?thesis using sem Some
      by (simp add: removed_def without_files_def filter_sat_def condition_semantics_def payload_view_def nullish_def)
  qed (simp add: removed_def without_files_def)
qed

lemma removed_orphans:
  assumes sem: "condition_semantics sat" and own: "own_points m"
  shows "map_option payload_view \<circ> removed (filter_sat sat \<lparr>must = [MatchValue ''source_file'' f], must_not = [HasId keep]\<rparr>) m
    = without_orphans f keep (map_option payload_view \<circ> m)"
proof
  fix k
  show "(map_option payload_view \<circ> removed (filter_sat sat \<lparr>must = [MatchValue ''source_file'' f], must_not = [HasId keep]\<rparr>) m) k
    = without_orphans f keep (map_option payload_view \<circ> m) k"
  proof (cases "m k")
    case (Some p)
    then obtain g where "pl_source_file p = Some g" using own by (auto simp: own_points_def)
    then show ?thesis using sem Some
      by (simp add: removed_def without_orphans_def filter_sat_def condition_semantics_def payload_view_def nullish_def)
  qed (simp add: removed_def without_orphans_def)
qed

lemma deletion_law_of:
  assumes laws: "qdrant_laws qc pts ord sat" and inv: "qdrant_inv pts w" and run: "qc_delete qc flt w = (r, w')"
    and goal: "map_option payload_view \<circ> removed (filter_sat sat flt) (points pts w) = goal"
  shows "qdrant_inv pts w' \<and> writes_to (qdrant_docs pts w) goal r (qdrant_docs pts w')"
proof -
  note pw = laws_remove [OF laws run]
  have "qdrant_inv pts w'" using point_writes_own [OF pw] own_removed inv by (simp add: qdrant_inv_def)
  then show ?thesis using point_writes_view [OF pw] by (simp add: qdrant_docs_def goal)
qed

lemma laws_conditions: "qdrant_laws qc pts ord sat \<Longrightarrow> condition_semantics sat"
  by (simp add: qdrant_laws_def)

lemma qdrant_delete_law:
  assumes laws: "qdrant_laws qc pts ord sat" and inv: "qdrant_inv pts w"
    and run: "qdrant_deleteBySourceFile qc fs w = (r, w')"
  shows "qdrant_inv pts w' \<and> writes_to (qdrant_docs pts w) (without_files fs (qdrant_docs pts w)) r (qdrant_docs pts w')"
proof (cases "fs = []")
  case True
  have "without_files [] m = m" for m by (simp add: without_files_def fun_eq_iff split: option.split)
  then show ?thesis using run True inv by (simp add: qdrant_deleteBySourceFile_def give_def writes_to_def)
next
  case False
  then have "qc_delete qc \<lparr>must = [MatchAny ''source_file'' fs], must_not = []\<rparr> w = (r, w')"
    using run by (simp add: qdrant_deleteBySourceFile_def)
  from deletion_law_of [OF laws inv this] show ?thesis
    using removed_files [OF laws_conditions [OF laws]] inv by (simp add: qdrant_inv_def qdrant_docs_def)
qed

lemma qdrant_orphan_law:
  assumes laws: "qdrant_laws qc pts ord sat" and inv: "qdrant_inv pts w"
    and run: "qdrant_deleteOrphanedChunks qc f keep w = (r, w')"
  shows "qdrant_inv pts w' \<and> writes_to (qdrant_docs pts w) (without_orphans f keep (qdrant_docs pts w)) r (qdrant_docs pts w')"
proof (cases "keep = []")
  case True
  have "without_orphans f [] m = without_files [f] m" for m
    by (simp add: without_files_def without_orphans_def fun_eq_iff split: option.split)
  then show ?thesis using qdrant_delete_law [OF laws inv] run True by (simp add: qdrant_deleteOrphanedChunks_def)
next
  case False
  then have "qc_delete qc \<lparr>must = [MatchValue ''source_file'' f], must_not = [HasId keep]\<rparr> w = (r, w')"
    using run by (simp add: qdrant_deleteOrphanedChunks_def)
  from deletion_law_of [OF laws inv this] show ?thesis
    using removed_orphans [OF laws_conditions [OF laws]] inv by (simp add: qdrant_inv_def qdrant_docs_def)
qed

subsection \<open>The pages of the collection\<close>

lemma scroll_page:
  assumes "qdrant_laws qc pts ord sat" and "qc_scroll qc None fs n off w = (r, w')"
  shows "pts w' = pts w \<and> ord w' = ord w"
    and "r = Inr (page, nxt) \<Longrightarrow> map fst page = take n (from_offset off (ord w))"
    and "r = Inr (page, nxt) \<Longrightarrow>
      nxt = (case drop n (from_offset off (ord w)) of [] \<Rightarrow> None | k # _ \<Rightarrow> Some k)"
    and "r = Inr (page, nxt) \<Longrightarrow> (k, p) \<in> set page \<Longrightarrow> \<exists>q. points pts w k = Some q
      \<and> pl_source_file p = pl_source_file q \<and> pl_commit_hash p = pl_commit_hash q"
proof -
  have "reading_laws qc pts ord" using assms(1) by (simp add: qdrant_laws_def)
  then have law: "(pts w' = pts w \<and> ord w' = ord w) \<and> (\<forall>page nxt. r = Inr (page, nxt) \<longrightarrow>
             (let rest = from_offset off (ord w)
              in map fst page = take n rest
                \<and> nxt = (case drop n rest of [] \<Rightarrow> None | k # _ \<Rightarrow> Some k))
             \<and> (\<forall>(k, p) \<in> set page. \<exists>q. points pts w k = Some q \<and> pl_source_file p = pl_source_file q
                  \<and> pl_commit_hash p = pl_commit_hash q))"
    unfolding reading_laws_def by (elim conjE) (drule spec, drule spec, drule spec, drule spec, drule spec,
      drule spec, drule mp, rule assms(2), assumption)
  then show "pts w' = pts w \<and> ord w' = ord w" by (rule conjunct1)
  note all = conjunct2 [OF law, rule_format, unfolded Let_def, of page nxt]
  show "r = Inr (page, nxt) \<Longrightarrow> map fst page = take n (from_offset off (ord w))"
    and "r = Inr (page, nxt) \<Longrightarrow>
      nxt = (case drop n (from_offset off (ord w)) of [] \<Rightarrow> None | k # _ \<Rightarrow> Some k)"
    using all by simp_all
  show "r = Inr (page, nxt) \<Longrightarrow> (k, p) \<in> set page \<Longrightarrow> \<exists>q. points pts w k = Some q
      \<and> pl_source_file p = pl_source_file q \<and> pl_commit_hash p = pl_commit_hash q"
    using all by fastforce
qed

lemma from_next_offset:
  assumes "distinct ids" and "drop n (from_offset off ids) = k # ks"
  shows "from_offset (Some k) ids = k # ks"
proof -
  have "\<exists>pre. ids = pre @ from_offset off ids"
  proof (cases off)
    case (Some x)
    have "ids = takeWhile (\<lambda>k. k \<noteq> x) ids @ from_offset off ids" by (simp add: from_offset_def Some)
    then show ?thesis by blast
  qed (simp add: from_offset_def)
  then obtain pre where "ids = pre @ from_offset off ids" ..
  then have ids: "ids = (pre @ take n (from_offset off ids)) @ k # ks"
    by (metis append.assoc append_take_drop_id assms(2))
  then have "\<forall>x \<in> set (pre @ take n (from_offset off ids)). x \<noteq> k" using assms(1)
    by (metis disjoint_iff distinct_append list.set_intros(1))
  then show ?thesis by (subst ids) (simp add: from_offset_def dropWhile_append2)
qed

text \<open>What the state says: of every point whose payload names its file and commit, one entry per
  file, with the commit of one of its points.\<close>

definition file_entries :: "(string \<rightharpoonup> qdrant_payload) \<Rightarrow> string set \<Rightarrow> (string \<times> string) set" where
  "file_entries m ks = {(f, c). f \<noteq> [] \<and> c \<noteq> [] \<and> (\<exists>k \<in> ks. \<exists>p. m k = Some p
     \<and> pl_source_file p = Some f \<and> pl_commit_hash p = Some c)}"

definition reflects :: "(string \<times> string) list \<Rightarrow> (string \<times> string) set \<Rightarrow> bool" where
  "reflects m es \<longleftrightarrow> fst ` set m = fst ` es \<and> (\<forall>f c. map_of m f = Some c \<longrightarrow> (f, c) \<in> es)"

lemma map_set_all_keys: "fst ` set (map_set_all es m) = fst ` set m \<union> fst ` set es"
proof -
  have "dom (map_of (map_set_all es m)) = dom (map_of m) \<union> dom (map_of (rev es))"
    by (simp add: map_of_map_set_all Un_commute)
  then show ?thesis by (simp add: dom_map_of_conv_image_fst)
qed

lemma collect_page_reflects:
  assumes m: "reflects m (file_entries pl ks)"
    and sound: "\<forall>(k, p) \<in> set page. \<exists>q. pl k = Some q \<and> pl_source_file p = pl_source_file q
      \<and> pl_commit_hash p = pl_commit_hash q"
  shows "reflects (collect_page page m) (file_entries pl (ks \<union> fst ` set page))"
proof -
  let ?es = "List.map_filter state_entry page"
  have es: "set ?es = file_entries pl (fst ` set page)"
  proof (intro set_eqI iffI; clarify)
    fix f c
    assume "(f, c) \<in> set ?es"
    then obtain k p where kp: "(k, p) \<in> set page" "state_entry (k, p) = Some (f, c)"
      by (force simp: map_filter_def)
    obtain q where "pl k = Some q" "pl_source_file p = pl_source_file q" "pl_commit_hash p = pl_commit_hash q"
      using sound kp(1) by blast
    then show "(f, c) \<in> file_entries pl (fst ` set page)"
      using kp by (force simp: state_entry_def file_entries_def split: option.splits if_splits)
  next
    fix f c
    assume "(f, c) \<in> file_entries pl (fst ` set page)"
    then obtain k p q where kp: "(k, p) \<in> set page" and q: "pl k = Some q" "pl_source_file q = Some f"
      "pl_commit_hash q = Some c" "f \<noteq> []" "c \<noteq> []" by (auto simp: file_entries_def)
    then have "state_entry (k, p) = Some (f, c)" using sound by (fastforce simp: state_entry_def)
    then show "(f, c) \<in> set ?es" using kp by (force simp: map_filter_def)
  qed
  have un: "file_entries pl (ks \<union> fst ` set page) = file_entries pl ks \<union> set ?es"
    unfolding es by (auto simp: file_entries_def)
  have "(f, c) \<in> file_entries pl ks \<union> set ?es" if "map_of (collect_page page m) f = Some c" for f c
    using that m map_of_SomeD [of "rev ?es" f c]
    by (auto simp: collect_page_def map_of_map_set_all map_add_Some_iff reflects_def)
  moreover have "fst ` set (collect_page page m) = fst ` (file_entries pl ks \<union> set ?es)"
    using m by (simp add: collect_page_def map_set_all_keys reflects_def image_Un)
  ultimately show ?thesis unfolding un by (simp add: reflects_def)
qed

text \<open>The loop ends, changes nothing, and after its last page the state reflects every point.\<close>

lemma scroll_state_spec:
  assumes laws: "qdrant_laws qc pts ord sat"
  shows "from_offset off (ord w) = rest \<Longrightarrow>
    reflects m (file_entries (points pts w) ks) \<Longrightarrow> ks \<union> set rest = dom (points pts w) \<Longrightarrow>
    \<exists>r w'. scroll_state qc off m w = Some (r, w') \<and> pts w' = pts w
      \<and> (\<forall>m'. r = Inr m' \<longrightarrow> reflects m' (file_entries (points pts w) (dom (points pts w))))"
proof (induction "length rest" arbitrary: rest off m w ks rule: less_induct)
  case less
  let ?fs = "Some [''source_file'', ''commit_hash'']"
  obtain r w' where page: "qc_scroll qc None ?fs SCROLL_PAGE_SIZE off w = (r, w')" by force
  have same: "pts w' = pts w" and order: "ord w' = ord w" using scroll_page(1) [OF laws page] by simp_all
  show ?case
  proof (cases r)
    case (Inl e)
    then show ?thesis using page same by (subst scroll_state.simps) simp
  next
    case (Inr pn)
    obtain pg nxt where pn: "pn = (pg, nxt)" by force
    have r: "r = Inr (pg, nxt)" using Inr pn by simp
    let ?n = SCROLL_PAGE_SIZE
    have ids: "map fst pg = take ?n rest" and nxt: "nxt = (case drop ?n rest of [] \<Rightarrow> None | k # _ \<Rightarrow> Some k)"
      using scroll_page(2,3) [OF laws page r] less.prems(1) by simp_all
    have m': "reflects (collect_page pg m) (file_entries (points pts w) (ks \<union> fst ` set pg))"
      using scroll_page(4) [OF laws page r] by (intro collect_page_reflects [OF less.prems(2)]) blast
    have pgs: "fst ` set pg = set (take ?n rest)" using ids by (metis set_map)
    have all: "(ks \<union> fst ` set pg) \<union> set (drop ?n rest) = dom (points pts w)"
      unfolding pgs using less.prems(3) by (metis append_take_drop_id set_append sup_assoc)
    show ?thesis
    proof (cases "drop ?n rest")
      case Nil
      then have "scroll_state qc off m w = Some (Inr (collect_page pg m), w')"
        using page r nxt by (subst scroll_state.simps) simp
      moreover have "ks \<union> fst ` set pg = dom (points pts w)" using all Nil by simp
      ultimately show ?thesis using m' same by simp
    next
      case (Cons k rs)
      have dst: "distinct (ord w)" using laws by (simp add: qdrant_laws_def reading_laws_def)
      have shorter: "length (k # rs) < length rest" using Cons
        by (metis SCROLL_PAGE_SIZE_def length_drop diff_less less_numeral_extra(3) length_greater_0_conv
            drop_Nil list.distinct(1) zero_less_numeral)
      have next_rest: "from_offset (Some k) (ord w') = k # rs"
        using from_next_offset [OF dst, of ?n off k rs] Cons less.prems(1) order by simp
      have pw: "points pts w' = points pts w" by (simp add: points_def same)
      have step: "scroll_state qc off m w = scroll_state qc (Some k) (collect_page pg m) w'"
        using page r nxt Cons by (subst scroll_state.simps) simp
      have "ks \<union> fst ` set pg \<union> set (k # rs) = dom (points pts w')" using all Cons pw by simp
      from less.hyps [OF shorter next_rest _ this] m' pw same
      show ?thesis unfolding step by simp
    qed
  qed
qed

subsection \<open>The contract\<close>

lemma qdrant_inv_same: "pts w' = pts w \<Longrightarrow> qdrant_inv pts w' = qdrant_inv pts w"
  by (simp add: qdrant_inv_def points_def)

lemma qdrant_docs_same: "pts w' = pts w \<Longrightarrow> qdrant_docs pts w' = qdrant_docs pts w"
  by (simp add: qdrant_docs_def points_def)



lemma laws_open_collection:
  assumes "qdrant_laws qc pts ord sat"
  shows "qc_collectionExists qc w = (r, w') \<Longrightarrow> pts w' = pts w"
    "qc_collectionExists qc w = (Inr ex, w') \<Longrightarrow> ex = (pts w \<noteq> None)"
    "qc_createCollection qc d w = (r', w') \<Longrightarrow> pts w = None \<Longrightarrow>
      pts w' = Some Map.empty \<or> r' \<noteq> Inr () \<and> pts w' = None"
proof -
  have law: "opening_laws qc pts" using assms by (simp add: qdrant_laws_def)
  then show "qc_collectionExists qc w = (r, w') \<Longrightarrow> pts w' = pts w"
    unfolding opening_laws_def by metis
  from law show "qc_collectionExists qc w = (Inr ex, w') \<Longrightarrow> ex = (pts w \<noteq> None)"
    unfolding opening_laws_def by metis
  from law show "qc_createCollection qc d w = (r', w') \<Longrightarrow> pts w = None \<Longrightarrow>
      pts w' = Some Map.empty \<or> r' \<noteq> Inr () \<and> pts w' = None"
    unfolding opening_laws_def by metis
qed

text \<open>Opening adds an empty collection at most; after a success there is one.\<close>

lemma qdrant_initialize_spec:
  assumes laws: "qdrant_laws qc pts ord sat" and run: "qdrant_initialize qc dims w = (r, w')"
  shows "points pts w' = points pts w \<and> (pts w \<noteq> None \<longrightarrow> pts w' = pts w) \<and> (r = Inr () \<longrightarrow> pts w' \<noteq> None)"
  using run unfolding qdrant_initialize_def
proof (cases rule: and_thenE)
  case (failed e)
  then show ?thesis using laws_open_collection(1) [OF laws failed(1)] by (simp add: points_def)
next
  case (returned ex w1)
  have w1: "pts w1 = pts w" by (rule laws_open_collection(1) [OF laws returned(1)])
  have ex: "ex = (pts w \<noteq> None)" by (rule laws_open_collection(2) [OF laws returned(1)])
  show ?thesis
  proof (cases ex)
    case True
    then show ?thesis using returned(2) w1 ex by (simp add: give_def points_def)
  next
    case False
    then have "qc_createCollection qc dims w1 = (r, w')" and none: "pts w1 = None"
      using returned(2) w1 ex by simp_all
    from laws_open_collection(3) [OF laws this] show ?thesis using w1 none by (auto simp: points_def)
  qed
qed

lemma qdrant_existing_law:
  assumes laws: "qdrant_laws qc pts ord sat" and run: "qdrant_existingHashes qc hs w = (hr, w')"
  shows "pts w' = pts w \<and> (case hr of Inl _ \<Rightarrow> True | Inr xs \<Rightarrow> set xs = {h \<in> set hs. qdrant_docs pts w h \<noteq> None})"
proof (cases "hs = []")
  case True
  then have "hr = Inr []" "w' = w" using run by (simp_all add: qdrant_existingHashes_def give_def)
  then show ?thesis using True by simp
next
  case False
  then have "qc_retrieve qc hs w = (hr, w')" using run by (simp add: qdrant_existingHashes_def)
  moreover have "\<forall>ids w r w'. qc_retrieve qc ids w = (r, w') \<longrightarrow> pts w' = pts w
        \<and> (\<forall>found. r = Inr found \<longrightarrow> set found = {k \<in> set ids. points pts w k \<noteq> None})"
    using laws unfolding qdrant_laws_def reading_laws_def by (elim conjE)
  ultimately have "pts w' = pts w \<and> (\<forall>found. hr = Inr found \<longrightarrow> set found = {k \<in> set hs. points pts w k \<noteq> None})"
    by blast
  moreover have "(qdrant_docs pts w k \<noteq> None) = (points pts w k \<noteq> None)" for k by (simp add: qdrant_docs_def)
  ultimately show ?thesis by (cases hr) (simp_all only: sum.case simp_thms)
qed

lemma qdrant_state_returns:
  assumes laws: "qdrant_laws qc pts ord sat"
  obtains r w' where "qdrant_getCurrentState qc w = Some (r, w')" "pts w' = pts w"
    "\<And>m. r = Inr m \<Longrightarrow> reflects m (file_entries (points pts w) (dom (points pts w)))"
proof -
  have ord: "set (ord w) = dom (points pts w)" using laws by (simp add: qdrant_laws_def reading_laws_def)
  have "reflects [] (file_entries (points pts w) {})" by (simp add: reflects_def file_entries_def)
  from scroll_state_spec [OF laws _ this, of None "ord w"] ord
  have "\<exists>r w'. scroll_state qc None [] w = Some (r, w') \<and> pts w' = pts w
      \<and> (\<forall>m'. r = Inr m' \<longrightarrow> reflects m' (file_entries (points pts w) (dom (points pts w))))"
    by (simp add: from_offset_def)
  then show ?thesis using that unfolding qdrant_getCurrentState_def by blast
qed

lemma reflects_docs:
  assumes m: "reflects m (file_entries (points pts w) (dom (points pts w)))"
  shows "map_of m f = Some c \<Longrightarrow>
      c \<noteq> [] \<and> (\<exists>k d. qdrant_docs pts w k = Some d \<and> v_sourceFile d = f \<and> v_commitHash d = c)"
    and "qdrant_docs pts w k = Some d \<Longrightarrow> v_sourceFile d \<noteq> [] \<Longrightarrow> v_commitHash d \<noteq> [] \<Longrightarrow>
      map_of m (v_sourceFile d) \<noteq> None"
proof -
  assume "map_of m f = Some c"
  then have "(f, c) \<in> file_entries (points pts w) (dom (points pts w))" using m by (simp add: reflects_def)
  then obtain k p where c: "c \<noteq> []" and p: "points pts w k = Some p" "pl_source_file p = Some f" "pl_commit_hash p = Some c"
    by (auto simp: file_entries_def)
  then have "qdrant_docs pts w k = Some (payload_view p)" "v_sourceFile (payload_view p) = f"
    "v_commitHash (payload_view p) = c" by (simp_all add: qdrant_docs_def payload_view_def nullish_def)
  with c show "c \<noteq> [] \<and> (\<exists>k d. qdrant_docs pts w k = Some d \<and> v_sourceFile d = f \<and> v_commitHash d = c)" by blast
next
  assume "qdrant_docs pts w k = Some d" "v_sourceFile d \<noteq> []" "v_commitHash d \<noteq> []"
  then obtain p where p: "points pts w k = Some p" "d = payload_view p" by (auto simp: qdrant_docs_def)
  have "pl_source_file p = Some (v_sourceFile d)" "pl_commit_hash p = Some (v_commitHash d)"
    using \<open>v_sourceFile d \<noteq> []\<close> \<open>v_commitHash d \<noteq> []\<close>
    by (auto simp: p(2) payload_view_def nullish_def split: option.splits)
  then have "(v_sourceFile d, v_commitHash d) \<in> file_entries (points pts w) (dom (points pts w))"
    using \<open>v_sourceFile d \<noteq> []\<close> \<open>v_commitHash d \<noteq> []\<close> p(1) by (auto simp: file_entries_def)
  then have "v_sourceFile d \<in> fst ` set m" using m by (force simp: reflects_def)
  then show "map_of m (v_sourceFile d) \<noteq> None" by (metis map_of_eq_None_iff)
qed

text \<open>
  C28. The Qdrant store honours the contract the pipeline runs on, for every server that behaves as
  documented and a collection only this store writes: its batched upserts, deletions, lookups and
  openings do to the documents what the laws say, also when a call fails between two batches. The
  loop over the pages of the collection always ends, and a state it returns lists every file with
  a stored document.
\<close>

theorem qdrant_store_honours_contract:
  assumes laws: "qdrant_laws qc pts ord sat"
  shows "reopenable_store (QdrantVectorStore qc cfg) (qdrant_docs pts) (qdrant_inv pts)
    \<and> (\<forall>w. \<exists>r w'. qdrant_getCurrentState qc w = Some (r, w')
         \<and> (\<forall>m. r = Inr m \<longrightarrow> (\<forall>k d. qdrant_docs pts w k = Some d \<longrightarrow> v_sourceFile d \<noteq> [] \<longrightarrow>
              v_commitHash d \<noteq> [] \<longrightarrow> map_of m (v_sourceFile d) \<noteq> None)))"
proof (intro conjI allI)
  fix w
  show "\<exists>r w'. qdrant_getCurrentState qc w = Some (r, w')
         \<and> (\<forall>m. r = Inr m \<longrightarrow> (\<forall>k d. qdrant_docs pts w k = Some d \<longrightarrow> v_sourceFile d \<noteq> [] \<longrightarrow>
              v_commitHash d \<noteq> [] \<longrightarrow> map_of m (v_sourceFile d) \<noteq> None))"
    by (rule qdrant_state_returns [OF laws, of w]) (metis reflects_docs(2))
next
  show "reopenable_store (QdrantVectorStore qc cfg) (qdrant_docs pts) (qdrant_inv pts)"
  proof unfold_locales
    fix w
    assume "qdrant_inv pts w"
    then show "qdrant_inv pts (snd (st_initialize (QdrantVectorStore qc cfg) w))"
      using qdrant_initialize_spec [OF laws, of "qs_dimensions cfg" w]
      by (simp add: QdrantVectorStore_def qdrant_inv_def prod_eq_iff)
  next
    fix w sr w'
    assume inv: "qdrant_inv pts w" and run: "st_getCurrentState (QdrantVectorStore qc cfg) w = (sr, w')"
    obtain r w1 where "qdrant_getCurrentState qc w = Some (r, w1)" and same: "pts w1 = pts w"
      and m: "\<And>m. r = Inr m \<Longrightarrow> reflects m (file_entries (points pts w) (dom (points pts w)))"
      by (rule qdrant_state_returns [OF laws, of w]) simp
    then have eq: "sr = r" "w' = w1" using run by (simp_all add: QdrantVectorStore_def)
    show "qdrant_inv pts w' \<and> qdrant_docs pts w' = qdrant_docs pts w \<and> (case sr of Inl _ \<Rightarrow> True | Inr m \<Rightarrow>
        \<forall>f c. map_of m f = Some c \<longrightarrow>
          c \<noteq> [] \<and> (\<exists>k d. qdrant_docs pts w k = Some d \<and> v_sourceFile d = f \<and> v_commitHash d = c))"
    proof (cases sr)
      case (Inr es)
      then have es: "reflects es (file_entries (points pts w) (dom (points pts w)))" using m eq by simp
      show ?thesis
        using inv qdrant_inv_same [of pts w1 w, OF same] qdrant_docs_same [of pts w1 w, OF same]
        unfolding eq(2) Inr sum.case by (intro conjI allI impI reflects_docs(1) [OF es, THEN conjunct1]
            reflects_docs(1) [OF es, THEN conjunct2]) simp_all
    qed (use inv qdrant_inv_same [of pts w1 w, OF same] qdrant_docs_same [of pts w1 w, OF same] eq in simp)
  next
    fix w ex hs hr w'
    assume inv: "qdrant_inv pts w" and "st_existingHashes (QdrantVectorStore qc cfg) = Some ex" and "ex hs w = (hr, w')"
    then have "qdrant_existingHashes qc hs w = (hr, w')" by (simp add: QdrantVectorStore_def)
    note ex = qdrant_existing_law [OF laws this]
    show "qdrant_inv pts w' \<and> qdrant_docs pts w' = qdrant_docs pts w
      \<and> (case hr of Inl _ \<Rightarrow> True | Inr xs \<Rightarrow> set xs = {h \<in> set hs. qdrant_docs pts w h \<noteq> None})"
      using ex inv qdrant_inv_same [of pts w' w] qdrant_docs_same [of pts w' w] by simp
  next
    fix w w0 sr w1
    assume opened: "st_initialize (QdrantVectorStore qc cfg) w = (Inr (), w0)"
      and state: "st_getCurrentState (QdrantVectorStore qc cfg) w0 = (sr, w1)"
    have init: "qdrant_initialize qc (qs_dimensions cfg) w = (Inr (), w0)" using opened by (simp add: QdrantVectorStore_def)
    obtain r w2 where "qdrant_getCurrentState qc w0 = Some (r, w2)" and "pts w2 = pts w0"
      by (rule qdrant_state_returns [OF laws, of w0]) simp
    then have "pts w1 = pts w0" using state by (simp add: QdrantVectorStore_def)
    obtain r' w3 where again: "qdrant_initialize qc (qs_dimensions cfg) w1 = (r', w3)" by force
    show "qdrant_docs pts (snd (st_initialize (QdrantVectorStore qc cfg) w1)) = qdrant_docs pts w1"
      using qdrant_initialize_spec [OF laws again] again by (simp add: QdrantVectorStore_def qdrant_docs_def)
  qed (auto simp: QdrantVectorStore_def dest: qdrant_upsert_law [OF laws] qdrant_delete_law [OF laws]
      qdrant_orphan_law [OF laws])
qed

text \<open>A server in memory that behaves as the laws say: an association list with sorted keys.\<close>

definition memory_cond :: condition_sat where
  "memory_cond c k p = (case c of
     MatchAny key vs \<Rightarrow> (\<exists>f \<in> set vs. pl_source_file p = Some f)
   | MatchValue key f \<Rightarrow> pl_source_file p = Some f
   | MatchText key t \<Rightarrow> (case pl_sparse_text p of None \<Rightarrow> False | Some s \<Rightarrow> contains t s)
   | HasId ids \<Rightarrow> k \<in> set ids)"

type_synonym memory_points = "(string \<times> qdrant_payload) list option"

definition memory_rows :: "memory_points \<Rightarrow> (string \<times> qdrant_payload) list" where
  "memory_rows w = (case w of None \<Rightarrow> [] | Some xs \<Rightarrow> xs)"

definition memory_order :: "memory_points \<Rightarrow> string list" where
  "memory_order w = remdups (map fst (memory_rows w))"

definition memory_view :: "memory_points \<Rightarrow> (string \<rightharpoonup> qdrant_payload) option" where
  "memory_view w = map_option map_of w"

definition memory_client :: "memory_points qdrant_client" where
  "memory_client =
     \<lparr>qc_collectionExists = (\<lambda>w. (Inr (w \<noteq> None), w)),
      qc_createCollection = (\<lambda>d w. (Inr (), Some [])),
      qc_upsert = (\<lambda>news w. case w of None \<Rightarrow> (Inl (Err EError ''Not Found''), w)
        | Some xs \<Rightarrow> (Inr (), Some (map (\<lambda>p. (qp_id p, qp_payload p)) news @ xs))),
      qc_delete = (\<lambda>flt w. (Inr (), map_option (filter (\<lambda>(k, p). \<not> filter_sat memory_cond flt k p))
        (map_option AList.clearjunk w))),
      qc_retrieve = (\<lambda>ids w. (Inr (filter (\<lambda>k. k \<in> set (map fst (memory_rows w))) ids), w)),
      qc_scroll = (\<lambda>flt fs n off w.
        let rest = from_offset off (memory_order w)
        in (Inr (map (\<lambda>k. (k, the (map_of (memory_rows w) k))) (take n rest),
                 case drop n rest of [] \<Rightarrow> None | k # _ \<Rightarrow> Some k), w)),
      qc_search = (\<lambda>v n w. (Inr (take n (map (\<lambda>h. (h, 1)) (memory_rows w))), w))\<rparr>"

lemma points_memory: "points memory_view w = map_of (memory_rows w)"
  by (simp add: points_def memory_view_def memory_rows_def split: option.split)

lemma from_offset_subset: "set (from_offset off ids) \<subseteq> set ids"
  by (auto simp: from_offset_def dest: set_dropWhileD split: option.splits)

lemma map_of_filter_clearjunk:
  "map_of (filter (\<lambda>(k, p). \<not> P k p) (AList.clearjunk xs)) = removed P (map_of xs)"
proof
  fix k
  have gen: "map_of (filter (\<lambda>(k, p). \<not> P k p) ys) k = removed P (map_of ys) k" if "distinct (map fst ys)" for ys
    using that by (induction ys) (auto simp: removed_def map_of_eq_None_iff split: option.splits dest: map_of_SomeD)
  show "map_of (filter (\<lambda>(k, p). \<not> P k p) (AList.clearjunk xs)) k = removed P (map_of xs) k"
    using gen [of "AList.clearjunk xs"] by (simp add: map_of_clearjunk)
qed

lemma memory_client_laws: "qdrant_laws memory_client memory_view memory_order memory_cond"
  unfolding qdrant_laws_def
proof (intro conjI)
  show "opening_laws memory_client memory_view"
    by (auto simp: opening_laws_def memory_client_def memory_view_def)
  show "writing_laws memory_client memory_view memory_cond"
    by (auto simp: writing_laws_def memory_client_def points_memory point_writes_def upserted_def memory_rows_def
        map_of_filter_clearjunk removed_def split: option.splits)
  show "condition_semantics memory_cond"
    by (simp add: condition_semantics_def memory_cond_def)
  have dom: "set (memory_order w) = dom (map_of (memory_rows w))" for w
    by (simp add: memory_order_def dom_map_of_conv_image_fst)
  have known: "map_of (memory_rows w) k \<noteq> None" if "k \<in> set (take n (from_offset off (memory_order w)))"
    for k n off w
    using that from_offset_subset [of off "memory_order w"] dom [of w] by (auto dest: in_set_takeD)
  have found: "k \<in> set (map fst (memory_rows w)) \<longleftrightarrow> map_of (memory_rows w) k \<noteq> None" for k w
    by (simp add: map_of_eq_None_iff)
  show "reading_laws memory_client memory_view memory_order"
    unfolding reading_laws_def
  proof (intro conjI allI impI)
    fix w
    show "distinct (memory_order w)" by (simp add: memory_order_def)
    show "set (memory_order w) = dom (points memory_view w)" by (simp add: points_memory dom)
  next
    fix fs n off w r w' page nxt
    assume run: "qc_scroll memory_client None fs n off w = (r, w')" and r: "r = Inr (page, nxt)"
    then show "let rest = from_offset off (memory_order w) in map fst page = take n rest
        \<and> nxt = (case drop n rest of [] \<Rightarrow> None | k # _ \<Rightarrow> Some k)"
      by (auto simp: memory_client_def Let_def comp_def)
    show "\<forall>(k, p) \<in> set page. \<exists>q. points memory_view w k = Some q \<and> pl_source_file p = pl_source_file q
        \<and> pl_commit_hash p = pl_commit_hash q"
      using run r by (auto simp: memory_client_def Let_def points_memory dest!: known)
  qed (auto simp: memory_client_def points_memory found Let_def simp del: set_map)
qed

lemma qdrant_store_honours_contract_witness:
  "reopenable_store (QdrantVectorStore memory_client \<lparr>qs_url = ''u'', qs_collection = ''c'', qs_dimensions = 2\<rparr>)
     (qdrant_docs memory_view) (qdrant_inv memory_view)"
  using qdrant_store_honours_contract [OF memory_client_laws] by blast

subsection \<open>Point ids\<close>

text \<open>
  A Qdrant server accepts unsigned integers and UUIDs as point ids; a string is parsed as a UUID,
  whose textual forms have 32, 36, 38 or 45 characters. A request with any other id is rejected as a
  whole. The pipeline's ids are the first 16 characters of a hash.
\<close>

definition rejects_other_ids :: "'w qdrant_client \<Rightarrow> 'w points_view \<Rightarrow> bool" where
  "rejects_other_ids qc pts \<longleftrightarrow> (\<forall>news w r w'. qc_upsert qc news w = (r, w') \<longrightarrow>
     (\<exists>p \<in> set news. length (qp_id p) \<notin> {32, 36, 38, 45}) \<longrightarrow> isl r \<and> pts w' = pts w)"

text \<open>
  C29. No document of the pipeline can be uploaded to a Qdrant server: the ids it gives are 16
  characters long, the server rejects the first batch, and the upload of any documents fails and
  leaves the collection as it was.
\<close>

theorem qdrant_rejects_content_hashes:
  assumes server: "rejects_other_ids qc pts" and ids: "\<forall>d \<in> set ds. length (docId d) = 16" and ne: "ds \<noteq> []"
    and run: "qdrant_upsert qc ds w = (r, w')"
  shows "isl r \<and> qdrant_docs pts w' = qdrant_docs pts w"
proof -
  let ?b = "take UPSERT_BATCH_SIZE ds"
  obtain r1 w1 where first: "qc_upsert qc (map point_of ?b) w = (r1, w1)" by force
  have "?b \<noteq> []" using ne by (simp add: UPSERT_BATCH_SIZE_def)
  then obtain d rest where b: "?b = d # rest" by (cases ?b) auto
  then have "d \<in> set ds" by (metis in_set_takeD list.set_intros(1))
  then have "\<exists>p \<in> set (map point_of ?b). length (qp_id p) \<notin> {32, 36, 38, 45}"
    using ids by (simp add: b point_of_def)
  then have "isl r1 \<and> pts w1 = pts w"
    by (rule mp [OF mp [OF spec [OF spec [OF spec [OF spec [OF server [unfolded rejects_other_ids_def]]]]] first]])
  moreover from this obtain e where "r1 = Inl e" by (cases r1) auto
  moreover have "and_then (qc_upsert qc (map point_of ?b)) (\<lambda>_. qdrant_upsert qc (drop UPSERT_BATCH_SIZE ds)) w = (r, w')"
    using run ne by (subst (asm) qdrant_upsert.simps) simp
  ultimately have "r = Inl e \<and> pts w' = pts w" using first by (simp add: and_then_def)
  then show ?thesis using qdrant_docs_same [of pts w' w] by simp
qed

definition strict_client :: "memory_points qdrant_client" where
  "strict_client = memory_client\<lparr>qc_upsert := (\<lambda>news w.
     if \<exists>p \<in> set news. length (qp_id p) \<notin> {32, 36, 38, 45} then (Inl (Err EError ''Bad Request''), w)
     else qc_upsert memory_client news w)\<rparr>"

definition sample_document :: vector_document where
  "sample_document = \<lparr>docId = ''0123456789abcdef'', docDenseText = js ''t'', docSparseText = js ''t'',
     docDenseTextHash = ''0123456789abcdef'', docSparseTextGeneratorId = [], docMetadataGeneratorId = [],
     docMetadata = [], docTags = None, docDenseVector = [], docSourceFile = ''a.ts'', docCommitHash = ''c'',
     docCollection = None\<rparr>"

lemma qdrant_rejects_content_hashes_witness:
  "isl (fst (qdrant_upsert strict_client [sample_document] (Some [])))"
proof -
  obtain r w' where run: "qdrant_upsert strict_client [sample_document] (Some []) = (r, w')" by force
  have "rejects_other_ids strict_client memory_view" by (auto simp: rejects_other_ids_def strict_client_def)
  from qdrant_rejects_content_hashes [OF this _ _ run]
  have "isl r" by (simp add: sample_document_def)
  then show ?thesis by (simp add: run)
qed

subsection \<open>Results of a search\<close>

lemma applyLabelFilter_spec:
  assumes "applyLabelFilter tagFilter rs = Inr xs" and "r \<in> set xs"
  shows "r \<in> set rs \<and> (\<forall>tags. tagFilter = Some tags \<longrightarrow> tags \<noteq> [] \<longrightarrow> tagged_with tags r)"
proof -
  have xs: "xs = filter (\<lambda>r. label_filter tagFilter r = Inr True) rs"
    using filter_results_spec assms(1) by (simp add: applyLabelFilter_def)
  have "tagged_with tags r" if "tagFilter = Some tags" "tags \<noteq> []" for tags
  proof -
    have "\<not> falsy (get_prop ''tags'' (sr_metadata r))
        \<and> some_label (the (get_prop ''tags'' (sr_metadata r))) tags = Inr True"
      using assms(2) that unfolding xs by (auto simp: label_filter_def Let_def split: if_splits)
    then show ?thesis
      using some_label_True by (cases "get_prop ''tags'' (sr_metadata r)") (auto simp: tagged_with_def falsy_def)
  qed
  then show ?thesis using assms(2) xs by simp
qed

text \<open>Every search returns at most \<open>topK\<close> results, with a tag filter only tagged ones.\<close>

lemma qdrant_search_respects_tags:
  assumes run: "qdrant_search qc q topK opts w = (Inr rs, w')"
  shows "length rs \<le> topK
    \<and> (\<forall>r \<in> set rs. \<forall>tags. so_tagFilter opts = Some tags \<longrightarrow> tags \<noteq> [] \<longrightarrow> tagged_with tags r)"
proof -
  obtain xs ys where ys: "applyLabelFilter (so_tagFilter opts) xs = Inr ys" "rs = take topK ys"
    using run unfolding qdrant_search_def Let_def
    by (auto simp: result_bind_Inr split: if_splits elim!: and_thenE)
  then show ?thesis using applyLabelFilter_spec [OF ys(1)] by (auto dest: in_set_takeD)
qed

text \<open>The store keeps metadata and texts but not the document's own tags: a hit carries tags only
  when they are part of the metadata.\<close>

lemma stored_hit_metadata:
  "sr_metadata (payloadToResult ((docId d, qp_payload (point_of d)), score)) = docMetadata d"
  by (simp add: payloadToResult_def point_of_def payload_metadata_def)

end
