(* ===== verification/PostgresStore.thy ===== *)
theory PostgresStore
  imports QdrantStore PipelineSync "HOL-Library.Multiset"
begin

section \<open>The PostgreSQL store\<close>

text \<open>
  \<open>src/packages/virage-store-postgres/src/store.ts\<close>: the class \<open>PostgresVectorStore\<close>. The libraries
  \<open>pg\<close> and \<open>pgvector\<close> and the server behind them are a record of functions over the server's state
  \<open>'w\<close>, one for each statement the code sends; what the code relies on is \<open>pg_laws\<close>. Conditions
  keep the types the statements give their operands, since the server checks them: \<open>id\<close> is an
  integer column, and its comparison with texts is refused. Hence the store cannot say which chunks it
  has, and a run that processes a file with chunks fails (\<open>postgres_run_fails\<close>). Releasing a
  connection and logging are left out.
\<close>

subsection \<open>Statements\<close>

datatype pg_type = PgInteger | PgText | PgVector nat | PgJsonb | PgTimestamptz | PgTsvector

type_synonym pg_columns = "(string \<times> pg_type) list"

text \<open>\<open>c = ANY($n::t[])\<close>, \<open>c != ALL($n::t[])\<close> and \<open>c = $n\<close>; the type of a parameter is given by a cast
  or inferred.\<close>

datatype pg_cond =
    EqAny string "pg_type option" "string list"
  | NeAll string "pg_type option" "string list"
  | EqParam string string

record pg_hit =
  ph_id :: nat
  ph_dense_text :: jstext
  ph_sparse_text :: jstext
  ph_metadata :: json_obj
  ph_source_file :: string
  ph_score :: rat
  ph_ingested_at :: "int option"

record 'w pg_client =
  pg_connect :: "'w \<Rightarrow> unit result \<times> 'w"
  pg_registerTypes :: "'w \<Rightarrow> unit result \<times> 'w"
  pg_createExtension :: "'w \<Rightarrow> unit result \<times> 'w"
  pg_columnsNamed :: "string list \<Rightarrow> 'w \<Rightarrow> string list result \<times> 'w"
  pg_dropTable :: "'w \<Rightarrow> unit result \<times> 'w"
  pg_createTable :: "pg_columns \<Rightarrow> 'w \<Rightarrow> unit result \<times> 'w"
  pg_addColumn :: "string \<times> pg_type \<Rightarrow> 'w \<Rightarrow> unit result \<times> 'w"
  pg_createIndex :: "string \<Rightarrow> 'w \<Rightarrow> unit result \<times> 'w"
  pg_insert :: "vector_document \<Rightarrow> 'w \<Rightarrow> unit result \<times> 'w"
  pg_delete :: "pg_cond list \<Rightarrow> 'w \<Rightarrow> unit result \<times> 'w"
  pg_selectIds :: "pg_cond \<Rightarrow> 'w \<Rightarrow> string list result \<times> 'w"
  pg_selectVersions :: "'w \<Rightarrow> (string \<times> string) list result \<times> 'w"
  pg_nearest :: "jsnum list \<Rightarrow> nat \<Rightarrow> 'w \<Rightarrow> pg_hit list result \<times> 'w"
  pg_fullText :: "jstext \<Rightarrow> nat \<Rightarrow> 'w \<Rightarrow> pg_hit list result \<times> 'w"

subsection \<open>Options and indexes\<close>

record pg_options =
  po_connectionString :: string
  po_table :: "string option"
  po_dimensions :: "nat option"
  po_ssl :: "bool option"
  po_indexType :: "string option"
  po_m :: "nat option"
  po_efConstruction :: "nat option"
  po_lists :: "nat option"

record pg_config =
  pc_table :: string
  pc_dimensions :: nat
  pc_ssl :: bool
  pc_indexType :: string
  pc_m :: "nat option"
  pc_efConstruction :: "nat option"
  pc_lists :: "nat option"

definition new_pg_config :: "pg_options \<Rightarrow> pg_config result" where
  "new_pg_config opts =
     (if po_connectionString opts = []
      then Inl (Err EError ''PostgresVectorStore: connectionString is required'')
      else Inr \<lparr>pc_table = nullish (po_table opts) ''documents'',
                pc_dimensions = nullish (po_dimensions opts) 1536, pc_ssl = nullish (po_ssl opts) False,
                pc_indexType = nullish (po_indexType opts) ''ivfflat'', pc_m = po_m opts,
                pc_efConstruction = po_efConstruction opts, pc_lists = po_lists opts\<rparr>)"

definition buildIndexSQL :: "pg_config \<Rightarrow> string" where
  "buildIndexSQL cfg =
     (let idxName = pc_table cfg @ ''_dense_vector_idx'';
          start = ''CREATE INDEX IF NOT EXISTS '' @ idxName @ '' ON '' @ pc_table cfg
      in if pc_indexType cfg = ''hnsw''
         then start @ '' USING hnsw (dense_vector vector_cosine_ops) WITH (m = ''
                @ show_nat (nullish (pc_m cfg) 16) @ '', ef_construction = ''
                @ show_nat (nullish (pc_efConstruction cfg) 64) @ '')''
         else start @ '' USING ivfflat (dense_vector vector_cosine_ops) WITH (lists = ''
                @ show_nat (nullish (pc_lists cfg) 100) @ '')'')"

definition tsv_index_SQL :: "pg_config \<Rightarrow> string" where
  "tsv_index_SQL cfg = ''CREATE INDEX IF NOT EXISTS '' @ pc_table cfg @ ''_tsv_idx ON '' @ pc_table cfg
     @ '' USING gin(sparse_text_tsv)''"

definition table_columns :: "pg_config \<Rightarrow> pg_columns" where
  "table_columns cfg =
     [(''id'', PgInteger), (''dense_text'', PgText), (''sparse_text'', PgText),
      (''sparse_text_generator_id'', PgText), (''metadata_generator_id'', PgText), (''dense_text_hash'', PgText),
      (''dense_vector'', PgVector (pc_dimensions cfg)), (''metadata'', PgJsonb), (''source_file'', PgText),
      (''commit_hash'', PgText), (''ingested_at'', PgTimestamptz)]"

subsection \<open>Operations\<close>

definition pg_initialize :: "'w pg_client \<Rightarrow> pg_config \<Rightarrow> 'w \<Rightarrow> unit result \<times> 'w" where
  "pg_initialize pg cfg =
     and_then (pg_connect pg) (\<lambda>_. and_then (pg_registerTypes pg) (\<lambda>_. and_then (pg_createExtension pg) (\<lambda>_.
       and_then (pg_columnsNamed pg [''content'', ''context_text'']) (\<lambda>cols.
         and_then (if length cols > 0 then pg_dropTable pg else give ()) (\<lambda>_.
           and_then (pg_createTable pg (table_columns cfg)) (\<lambda>_.
             and_then (pg_addColumn pg (''sparse_text_tsv'', PgTsvector)) (\<lambda>_.
               and_then (pg_createIndex pg (tsv_index_SQL cfg)) (\<lambda>_.
                 pg_createIndex pg (buildIndexSQL cfg)))))))))"

fun insert_each :: "'w pg_client \<Rightarrow> vector_document list \<Rightarrow> 'w \<Rightarrow> unit result \<times> 'w" where
  "insert_each pg [] = give ()"
| "insert_each pg (d # ds) = and_then (pg_insert pg d) (\<lambda>_. insert_each pg ds)"

definition pg_upsert :: "'w pg_client \<Rightarrow> vector_document list \<Rightarrow> 'w \<Rightarrow> unit result \<times> 'w" where
  "pg_upsert pg docs =
     (if length docs = 0 then give ()
      else and_then (pg_connect pg) (\<lambda>_. and_then (pg_registerTypes pg) (\<lambda>_. insert_each pg docs)))"

definition pg_deleteBySourceFile :: "'w pg_client \<Rightarrow> string list \<Rightarrow> 'w \<Rightarrow> unit result \<times> 'w" where
  "pg_deleteBySourceFile pg files =
     (if length files = 0 then give () else pg_delete pg [EqAny ''source_file'' None files])"

definition pg_existingHashes :: "'w pg_client \<Rightarrow> string list \<Rightarrow> 'w \<Rightarrow> string list result \<times> 'w" where
  "pg_existingHashes pg hashes =
     (if length hashes = 0 then give [] else pg_selectIds pg (EqAny ''id'' (Some PgText) hashes))"

definition pg_deleteOrphanedChunks ::
  "'w pg_client \<Rightarrow> string \<Rightarrow> string list \<Rightarrow> 'w \<Rightarrow> unit result \<times> 'w" where
  "pg_deleteOrphanedChunks pg f keepHashes =
     (if length keepHashes = 0 then pg_deleteBySourceFile pg [f]
      else pg_delete pg [EqParam ''source_file'' f, NeAll ''id'' (Some PgText) keepHashes])"

definition pg_getCurrentState :: "'w pg_client \<Rightarrow> 'w \<Rightarrow> (string \<times> string) list result \<times> 'w" where
  "pg_getCurrentState pg = and_then (pg_selectVersions pg) (\<lambda>rows. give (map_set_all rows []))"

definition PostgresVectorStore :: "'w pg_client \<Rightarrow> pg_config \<Rightarrow> 'w vector_store" where
  "PostgresVectorStore pg cfg =
     \<lparr>storeName = ''postgres'', st_initialize = pg_initialize pg cfg, st_upsert = pg_upsert pg,
      st_deleteBySourceFile = pg_deleteBySourceFile pg, st_getCurrentState = pg_getCurrentState pg,
      st_existingHashes = Some (pg_existingHashes pg),
      st_deleteOrphanedChunks = Some (pg_deleteOrphanedChunks pg), st_writeMeta = None\<rparr>"

subsection \<open>Search\<close>

record pg_search_options = lance_search_options +
  so_alpha :: "rat option"
  so_beta :: "rat option"

text \<open>\<open>Math.exp\<close> is a parameter: the results depend on it only through the order it gives them. A row
  is scored by its similarity and its age in units of thirty days.\<close>

definition recency_score :: "(rat \<Rightarrow> rat) \<Rightarrow> int \<Rightarrow> int option \<Rightarrow> rat" where
  "recency_score mexp now ingested =
     (case ingested of None \<Rightarrow> 0 | Some t \<Rightarrow> mexp (- (of_int (now - t) / (1000 * 60 * 60 * 24 * 30))))"

definition composite_score :: "(rat \<Rightarrow> rat) \<Rightarrow> int \<Rightarrow> rat \<Rightarrow> rat \<Rightarrow> pg_hit \<Rightarrow> rat" where
  "composite_score mexp now alpha beta h =
     ph_score h * alpha + recency_score mexp now (ph_ingested_at h) * beta"

definition result_of_hit :: "pg_hit \<Rightarrow> search_result" where
  "result_of_hit h =
     \<lparr>sr_id = show_nat (ph_id h), sr_denseText = ph_dense_text h, sr_sparseText = ph_sparse_text h,
      sr_metadata = ph_metadata h, sr_similarity = ph_score h, sr_sourceFile = Some (ph_source_file h),
      sr_ingestedAt = ph_ingested_at h, sr_sparseTextGeneratorId = None, sr_metadataGeneratorId = None\<rparr>"

definition by_composite :: "(rat \<Rightarrow> rat) \<Rightarrow> int \<Rightarrow> rat \<Rightarrow> rat \<Rightarrow> pg_hit list \<Rightarrow> pg_hit list" where
  "by_composite mexp now alpha beta hits = sort_key (\<lambda>h. - composite_score mexp now alpha beta h) hits"

text \<open>A full-text query that fails counts as one without results.\<close>

definition run_fts_query :: "'w pg_client \<Rightarrow> jstext \<Rightarrow> nat \<Rightarrow> 'w \<Rightarrow> search_result list \<times> 'w" where
  "run_fts_query pg text fetchLimit w =
     (case pg_fullText pg text fetchLimit w of
        (Inl _, w') \<Rightarrow> ([], w')
      | (Inr rows, w') \<Rightarrow> (map (\<lambda>h. result_of_hit (h\<lparr>ph_ingested_at := None\<rparr>)) rows, w'))"

definition pg_search ::
  "(rat \<Rightarrow> rat) \<Rightarrow> int \<Rightarrow> 'w pg_client \<Rightarrow> jsnum list \<Rightarrow> nat \<Rightarrow> pg_search_options \<Rightarrow> 'w
   \<Rightarrow> search_result list result \<times> 'w" where
  "pg_search mexp now pg q topK opts =
     (let alpha = nullish (so_alpha opts) (85 / 100); beta = nullish (so_beta opts) (15 / 100);
          queryText = nullish (so_queryText opts) []; useHybrid = so_hybrid opts \<and> queryText \<noteq> [];
          tagFilter = so_tagFilter opts; fetchLimit = topK * 2;
          ranked = by_composite mexp now alpha beta
      in and_then (pg_connect pg) (\<lambda>_. and_then (pg_registerTypes pg) (\<lambda>_ w.
           (case pg_nearest pg q fetchLimit w of (vectorRaw, w1) \<Rightarrow>
              if \<not> useHybrid
              then (result_bind vectorRaw (\<lambda>hits.
                      applyLabelFilter tagFilter (map result_of_hit (take topK (ranked hits)))), w1)
              else (case run_fts_query pg queryText fetchLimit w1 of (ftsResults, w2) \<Rightarrow>
                      (result_bind vectorRaw (\<lambda>hits.
                         applyLabelFilter tagFilter
                           (rrfMerge (map result_of_hit (ranked hits)) ftsResults topK
                              (nullish (so_hybridAlpha opts) (6 / 10)))), w2))))))"

subsection \<open>What the store relies on\<close>

text \<open>
  \<open>cols\<close> and \<open>rows\<close> read the columns and the rows of the store's table out of the server's state;
  \<open>cols\<close> is \<open>None\<close> when the table does not exist.
\<close>

record pg_row =
  pr_id :: nat
  pr_dense_text_hash :: string
  pr_dense_text :: jstext
  pr_source_file :: string
  pr_commit_hash :: string

definition pg_row_of :: "nat \<Rightarrow> vector_document \<Rightarrow> pg_row" where
  "pg_row_of i d = \<lparr>pr_id = i, pr_dense_text_hash = docDenseTextHash d, pr_dense_text = docDenseText d,
     pr_source_file = docSourceFile d, pr_commit_hash = docCommitHash d\<rparr>"

text \<open>A comparison is accepted if the column exists and the parameter has its type, by a cast or by
  inference: there is no comparison of an integer with a text.\<close>

fun well_typed :: "pg_columns \<Rightarrow> pg_cond \<Rightarrow> bool" where
  "well_typed cols (EqAny c t vs) = (case map_of cols c of None \<Rightarrow> False | Some t' \<Rightarrow> t = None \<or> t = Some t')"
| "well_typed cols (NeAll c t vs) = (case map_of cols c of None \<Rightarrow> False | Some t' \<Rightarrow> t = None \<or> t = Some t')"
| "well_typed cols (EqParam c v) = (map_of cols c \<noteq> None)"

definition preserves :: "('w \<Rightarrow> bool) \<Rightarrow> ('w \<Rightarrow> 'a \<times> 'w) \<Rightarrow> bool" where
  "preserves P f \<longleftrightarrow> (\<forall>w. P w \<longrightarrow> P (snd (f w)))"

text \<open>Statements other than \<open>DROP\<close>, \<open>CREATE\<close> and \<open>ALTER TABLE\<close> keep the columns; \<open>CREATE TABLE IF NOT EXISTS\<close>
  keeps those of a table that exists.\<close>

definition schema_laws :: "'w pg_client \<Rightarrow> ('w \<Rightarrow> pg_columns option) \<Rightarrow> bool" where
  "schema_laws pg cols \<longleftrightarrow>
     (\<forall>w. cols (snd (pg_connect pg w)) = cols w) \<and> (\<forall>w. cols (snd (pg_registerTypes pg w)) = cols w)
     \<and> (\<forall>w. cols (snd (pg_createExtension pg w)) = cols w) \<and> (\<forall>n w. cols (snd (pg_columnsNamed pg n w)) = cols w)
     \<and> (\<forall>q w. cols (snd (pg_createIndex pg q w)) = cols w) \<and> (\<forall>d w. cols (snd (pg_insert pg d w)) = cols w)
     \<and> (\<forall>c w. cols (snd (pg_delete pg c w)) = cols w) \<and> (\<forall>c w. cols (snd (pg_selectIds pg c w)) = cols w)
     \<and> (\<forall>w. cols (snd (pg_selectVersions pg w)) = cols w)
     \<and> (\<forall>w. cols (snd (pg_dropTable pg w)) \<in> {None, cols w})
     \<and> (\<forall>cs w. cols (snd (pg_createTable pg cs w)) = cols w
          \<or> cols w = None \<and> cols (snd (pg_createTable pg cs w)) = Some cs)
     \<and> (\<forall>c w. cols (snd (pg_addColumn pg c w)) \<in> {cols w, map_option (\<lambda>cs. cs @ [c]) (cols w)})"

definition typing_law :: "'w pg_client \<Rightarrow> ('w \<Rightarrow> pg_columns option) \<Rightarrow> bool" where
  "typing_law pg cols \<longleftrightarrow>
     (\<forall>c w. \<not> isl (fst (pg_selectIds pg c w)) \<longrightarrow> (\<exists>cs. cols w = Some cs \<and> well_typed cs c))
     \<and> (\<forall>ps w. \<not> isl (fst (pg_delete pg ps w)) \<longrightarrow> (\<exists>cs. cols w = Some cs \<and> list_all (well_typed cs) ps))"

text \<open>The generated \<open>id\<close> is the only unique column, so \<open>ON CONFLICT DO NOTHING\<close> never applies.\<close>

definition row_laws :: "'w pg_client \<Rightarrow> ('w \<Rightarrow> pg_row multiset) \<Rightarrow> bool" where
  "row_laws pg rows \<longleftrightarrow>
     (\<forall>w. rows (snd (pg_connect pg w)) = rows w) \<and> (\<forall>w. rows (snd (pg_registerTypes pg w)) = rows w)
     \<and> (\<forall>d w r w'. pg_insert pg d w = (r, w') \<longrightarrow>
          (if isl r then rows w' = rows w
           else \<exists>i. i \<notin> pr_id ` set_mset (rows w) \<and> rows w' = add_mset (pg_row_of i d) (rows w)))"

definition pg_laws ::
  "'w pg_client \<Rightarrow> ('w \<Rightarrow> pg_columns option) \<Rightarrow> ('w \<Rightarrow> pg_row multiset) \<Rightarrow> bool" where
  "pg_laws pg cols rows \<longleftrightarrow> schema_laws pg cols \<and> typing_law pg cols \<and> row_laws pg rows"

text \<open>The table, if it exists, is one this class created.\<close>

definition integer_ids :: "('w \<Rightarrow> pg_columns option) \<Rightarrow> 'w \<Rightarrow> bool" where
  "integer_ids cols w \<longleftrightarrow> (\<forall>cs. cols w = Some cs \<longrightarrow> map_of cs ''id'' = Some PgInteger)"

subsection \<open>The columns stay\<close>

named_theorems preserved \<open>Operations that keep the type of the id column\<close>

lemma preserves_give [preserved]: "preserves P (give x)"
  by (simp add: preserves_def give_def)

lemma preserves_and_then [preserved]:
  assumes "preserves P m" and "\<And>x. preserves P (f x)"
  shows "preserves P (and_then m f)"
  unfolding preserves_def
proof (intro allI impI)
  fix w
  assume w: "P w"
  obtain r w1 where m: "m w = (r, w1)" by (cases "m w")
  have "P w1" using assms(1) w m unfolding preserves_def by (metis snd_conv)
  then show "P (snd (and_then m f w))"
    using assms(2) m by (cases r) (simp_all add: and_then_def preserves_def)
qed

lemma preserves_If [preserved]: "preserves P f \<Longrightarrow> preserves P g \<Longrightarrow> preserves P (if b then f else g)"
  by simp

lemma schema_preserved [preserved]:
  assumes "schema_laws pg cols"
  shows "preserves (integer_ids cols) (pg_connect pg)" "preserves (integer_ids cols) (pg_registerTypes pg)"
    "preserves (integer_ids cols) (pg_createExtension pg)" "preserves (integer_ids cols) (pg_columnsNamed pg n)"
    "preserves (integer_ids cols) (pg_createIndex pg q)" "preserves (integer_ids cols) (pg_insert pg d)"
    "preserves (integer_ids cols) (pg_delete pg c)" "preserves (integer_ids cols) (pg_selectIds pg e)"
    "preserves (integer_ids cols) (pg_selectVersions pg)"
  using assms by (simp_all add: schema_laws_def preserves_def integer_ids_def)

lemma drop_preserved [preserved]:
  assumes "schema_laws pg cols"
  shows "preserves (integer_ids cols) (pg_dropTable pg)"
  unfolding preserves_def
proof (intro allI impI)
  fix w
  assume w: "integer_ids cols w"
  have "cols (snd (pg_dropTable pg w)) \<in> {None, cols w}" using assms by (simp add: schema_laws_def)
  then show "integer_ids cols (snd (pg_dropTable pg w))" using w by (auto simp: integer_ids_def)
qed

lemma create_preserved [preserved]:
  assumes "schema_laws pg cols"
  shows "preserves (integer_ids cols) (pg_createTable pg (table_columns cfg))"
  unfolding preserves_def
proof (intro allI impI)
  fix w
  assume w: "integer_ids cols w"
  let ?c = "cols (snd (pg_createTable pg (table_columns cfg) w))"
  have "?c = cols w \<or> ?c = Some (table_columns cfg)" using assms by (auto simp: schema_laws_def)
  moreover have "map_of (table_columns cfg) ''id'' = Some PgInteger" by (simp add: table_columns_def)
  ultimately show "integer_ids cols (snd (pg_createTable pg (table_columns cfg) w))"
    using w by (auto simp: integer_ids_def)
qed

lemma add_column_preserved [preserved]:
  assumes "schema_laws pg cols"
  shows "preserves (integer_ids cols) (pg_addColumn pg c)"
  unfolding preserves_def
proof (intro allI impI)
  fix w
  assume w: "integer_ids cols w"
  have "cols (snd (pg_addColumn pg c w)) \<in> {cols w, map_option (\<lambda>cs. cs @ [c]) (cols w)}"
    using assms unfolding schema_laws_def by blast
  then show "integer_ids cols (snd (pg_addColumn pg c w))"
    using w by (auto simp: integer_ids_def)
qed

lemma insert_each_preserved [preserved]:
  "schema_laws pg cols \<Longrightarrow> preserves (integer_ids cols) (insert_each pg ds)"
  by (induction ds) (auto intro!: preserved)

lemma operations_preserved:
  assumes "schema_laws pg cols"
  shows "preserves (integer_ids cols) (pg_initialize pg cfg)" "preserves (integer_ids cols) (pg_upsert pg ds)"
    "preserves (integer_ids cols) (pg_deleteBySourceFile pg fs)"
    "preserves (integer_ids cols) (pg_existingHashes pg hs)" "preserves (integer_ids cols) (pg_getCurrentState pg)"
  unfolding pg_initialize_def pg_upsert_def pg_deleteBySourceFile_def pg_existingHashes_def pg_getCurrentState_def
  by (intro preserved assms)+

lemma existing_hashes_refused:
  assumes "pg_laws pg cols rows" and "integer_ids cols w" and "hs \<noteq> []"
  shows "isl (fst (pg_existingHashes pg hs w))"
proof (rule ccontr)
  assume "\<not> isl (fst (pg_existingHashes pg hs w))"
  then have ok: "\<not> isl (fst (pg_selectIds pg (EqAny ''id'' (Some PgText) hs) w))"
    using assms(3) by (simp add: pg_existingHashes_def)
  have "typing_law pg cols" using assms(1) by (simp add: pg_laws_def)
  then obtain cs where "cols w = Some cs" "well_typed cs (EqAny ''id'' (Some PgText) hs)"
    using ok unfolding typing_law_def by blast
  then show False using assms(2) by (simp add: integer_ids_def)
qed

subsection \<open>A run with a store that cannot look up ids\<close>

definition refuses_lookups :: "'s vector_store \<Rightarrow> ('s \<Rightarrow> bool) \<Rightarrow> bool" where
  "refuses_lookups st P \<longleftrightarrow>
     preserves P (st_initialize st) \<and> preserves P (st_getCurrentState st)
     \<and> (\<forall>ds. preserves P (st_upsert st ds)) \<and> (\<forall>fs. preserves P (st_deleteBySourceFile st fs))
     \<and> (\<exists>ex. st_existingHashes st = Some ex \<and> (\<forall>hs. preserves P (ex hs))
          \<and> (\<forall>hs w. P w \<longrightarrow> hs \<noteq> [] \<longrightarrow> isl (fst (ex hs w))))"

lemma preservesD: "preserves P f \<Longrightarrow> P w \<Longrightarrow> f w = (r, w') \<Longrightarrow> P w'"
  unfolding preserves_def by (metis snd_conv)

lemma preserved_retries:
  assumes "preserves P f" and "P w" and "withRetry opts f w = (r, w', ws)"
  shows "P w'"
  by (rule withRetry_invariant [where P = P and Q = "\<lambda>_. P", OF _ _ assms(2,3)]) (auto dest: preservesD [OF assms(1)])

lemma prepareUpdate_preserved:
  assumes "refuses_lookups st P" and "P s" and "prepareUpdate st opts pick db del todo force s = (r, s')"
  shows "P s'"
proof -
  obtain r1 s1 where i: "st_initialize st s = (r1, s1)" by (cases "st_initialize st s")
  have p1: "P s1" using assms(1,2) i by (auto simp: refuses_lookups_def dest: preservesD)
  have d: "preserves P (st_deleteBySourceFile st fs)" for fs using assms(1) by (simp add: refuses_lookups_def)
  show ?thesis
    using assms(3) i p1 preserved_retries [OF d p1]
    by (auto simp: prepareUpdate_def Let_def split: sum.splits prod.splits if_splits)
qed

lemma upsertBatch_preserved:
  assumes "refuses_lookups st P" and "P s" and "upsertBatch st opts cs (db, s) = (r, db', s')"
  shows "P s'"
proof -
  have d: "preserves P (st_upsert st ds)" for ds using assms(1) by (simp add: refuses_lookups_def)
  show ?thesis
    using assms(2,3) preserved_retries [OF d assms(2)]
    by (auto simp: upsertBatch_def upload_batch_def split: sum.splits prod.splits if_splits)
qed

text \<open>The first batch of hashes is never empty, so a file with chunks stops the chain.\<close>

lemma lookup_needs_no_chunks:
  assumes st: "refuses_lookups (env_store env) P" and pos: "0 < minEmbedBatch opts" and "P s"
    and run: "existing_set env opts False f hs db s = Some (r, s')"
  shows "P s' \<and> (\<not> isl r \<longrightarrow> hs = [])"
proof -
  obtain ex where ex: "st_existingHashes (env_store env) = Some ex" "\<And>hs. preserves P (ex hs)"
    "\<And>hs w. P w \<Longrightarrow> hs \<noteq> [] \<Longrightarrow> isl (fst (ex hs w))"
    using st by (auto simp: refuses_lookups_def)
  obtain bs where bs: "batchArray hs (minEmbedBatch opts * 2) = Some bs" "concat bs = hs" "\<forall>b \<in> set bs. b \<noteq> []"
    using batch_from_pos [of "minEmbedBatch opts * 2" hs 0] pos by (auto simp: batchArray_def)
  have chk: "check_slices ex bs s = (r, s')" using run ex(1) bs(1) by (simp add: existing_set_def)
  show ?thesis
  proof (cases bs)
    case Nil
    then show ?thesis using chk bs(2) assms(3) by simp
  next
    case (Cons b bs')
    obtain r1 s1 where one: "ex b s = (r1, s1)" by (cases "ex b s")
    have "isl r1" using ex(3) [OF assms(3), of b] bs(3) Cons one by simp
    then have "isl r" "s' = s1" using chk Cons one by (auto simp: isl_def)
    then show ?thesis using preservesD [OF ex(2) assms(3) one] by simp
  qed
qed

lemma stream_needs_no_chunks:
  assumes st: "refuses_lookups (env_store env) P" and pos: "0 < minEmbedBatch opts" "0 < minUploadBatch opts"
    and "P (p_store p)" and run: "stream env opts False m cur files p = Some (r, p')" and "\<not> isl r"
  shows "\<forall>f \<in> set (schedule env files). chunks_of_file env cur f = []"
proof -
  let ?T = "\<lambda>F b q. P (p_store q) \<and> (b \<longrightarrow> (\<forall>f \<in> F. chunks_of_file env cur f = []))"
  have flush: "flush_closed env opts m (?T F)" for F
    unfolding flush_closed_def by (auto dest: upsertBatch_preserved [OF st])
  have stage: "stage_closed env opts False cur (set (schedule env files)) ?T"
    unfolding stage_closed_def
  proof (intro allI impI)
    fix F f and q :: "('a, 'b) pipe" and r1 s1
    assume t: "?T F True q" and ex: "existing_set env opts False f (map denseTextHash (chunks_of_file env cur f))
        (p_db (staged_file env cur f q)) (p_store q) = Some (r1, s1)"
    have "P s1 \<and> (\<not> isl r1 \<longrightarrow> map denseTextHash (chunks_of_file env cur f) = [])"
      by (rule lookup_needs_no_chunks [OF st pos(1) conjunct1 [OF t] ex])
    then show "case r1 of
           Inl e \<Rightarrow> ?T (insert f F) False (staged_file env cur f q\<lparr>p_store := s1\<rparr>)
         | Inr existing \<Rightarrow> ?T (insert f F) True
             (queue_chunks (chunks_of_file env cur f)
                (filter (\<lambda>c. denseTextHash c \<notin> set existing) (chunks_of_file env cur f))
                (staged_file env cur f q\<lparr>p_store := s1\<rparr>))"
      using t by (cases r1) (auto simp: queue_chunks_def)
  qed
  obtain r2 p2 where "stream env opts False m cur files p = Some (r2, p2)"
    "?T (set (schedule env files)) (\<not> isl r2) p2"
    by (rule stream_rule [where T = ?T, OF pos flush stage]) (use assms(4) in auto)
  then show ?thesis using run assms(6) by simp
qed

lemma run_needs_no_chunks:
  assumes st: "refuses_lookups (env_store env) P" and pos: "0 < minEmbedBatch opts" "0 < minUploadBatch opts"
    and "P s" and force: "check_model (env_provider env) (opt_force opts) db = (False, db1)"
    and sched: "\<And>fs. mset (schedule env fs) = mset fs"
    and opened: "st_initialize (env_store env) s = (Inr (), s1)" "st_getCurrentState (env_store env) s1 = (Inr raw, s2)"
    and run: "run env opts cur db s w = Some (r, db', s', w')"
    and f: "f \<in> set (toProcess (changes (make_plan (env_cwd env) False cur db1 raw)))"
    and chunks: "chunks_of_file env cur f \<noteq> []"
  shows "isl r"
proof -
  let ?plan = "make_plan (env_cwd env) False cur db1 raw"
  have p2: "P s2"
    using st assms(4) opened by (auto simp: refuses_lookups_def dest: preservesD)
  have "\<not> nothing_to_do False ?plan" using f by (auto simp: nothing_to_do_def)
  then have cases: "isl r \<or> execute_plan env opts False cur (getMeta db) ?plan db1 s2 w = Some (r, db', s', w')"
    using run by (auto simp: run_def force opened Let_def split: if_splits)
  show ?thesis
  proof (cases rule: execute_plan_cases [of env opts False ?plan db1 s2 cur "getMeta db" w])
    case (streamed s3 w1)
    let ?m = "pipeline_meta env (getMeta db) \<lfloor>env_clock env w1 0\<rfloor>"
    let ?p = "start_pipe ?plan (fold deleteBySourceFile (toDelete (changes ?plan)) db1) s3 w1"
    have "P (p_store ?p)"
      using streamed(1) p2 prepareUpdate_preserved [OF st p2]
      by (auto simp: prepare_def start_pipe_def split: if_splits)
    note none = stream_needs_no_chunks [OF st pos this]
    have fs: "f \<in> set (schedule env (toProcess (changes ?plan)))" using f sched by (metis mset_eq_setD)
    show ?thesis
    proof (cases "isl r")
      case False
      then obtain r2 p2 where str: "stream env opts False ?m cur (toProcess (changes ?plan)) ?p = Some (r2, p2)"
        and con: "conclude env opts False ?plan (r2, p2) = (r, db', s', w')"
        using cases streamed(3) by auto
      have "\<not> isl r2" using con False by (cases r2) (auto simp: conclude_def)
      then show ?thesis using none [OF str] fs chunks by blast
    qed
  qed (use cases in auto)
qed

text \<open>
  C30. A run that is not forced and that finds a changed file with at least one chunk fails with a
  PostgreSQL store, whatever the server holds: before it embeds the chunks of a file the pipeline
  asks the store which of their hashes it has, the store compares these texts with its integer ids,
  and the server refuses the statement.
\<close>

theorem postgres_run_fails:
  assumes laws: "pg_laws pg cols rows" and env: "env_store env = PostgresVectorStore pg cfg"
    and "integer_ids cols s" and pos: "0 < minEmbedBatch opts" "0 < minUploadBatch opts"
    and force: "check_model (env_provider env) (opt_force opts) db = (False, db1)"
    and sched: "\<And>fs. mset (schedule env fs) = mset fs"
    and opened: "pg_initialize pg cfg s = (Inr (), s1)" "pg_getCurrentState pg s1 = (Inr raw, s2)"
    and run: "run env opts cur db s w = Some (r, db', s', w')"
    and changed: "f \<in> set (toProcess (changes (make_plan (env_cwd env) False cur db1 raw)))"
    and chunks: "chunks_of_file env cur f \<noteq> []"
  shows "isl r"
proof -
  have schema: "schema_laws pg cols" using laws by (simp add: pg_laws_def)
  have "refuses_lookups (env_store env) (integer_ids cols)"
    using operations_preserved [OF schema] existing_hashes_refused [OF laws]
    by (simp add: refuses_lookups_def env PostgresVectorStore_def)
  note fails = run_needs_no_chunks [OF this pos assms(3) force sched _ _ run]
  show ?thesis
    by (rule fails [where ?s1.0 = s1 and ?s2.0 = s2, OF _ _ changed chunks])
      (simp_all add: env PostgresVectorStore_def opened)
qed

text \<open>A server in memory: columns and rows, and the checks of types.\<close>

record memory_pg =
  mp_columns :: "pg_columns option"
  mp_rows :: "pg_row list"

definition fresh_id :: "memory_pg \<Rightarrow> nat" where
  "fresh_id w = Suc (sum_list (map pr_id (mp_rows w)))"

lemma fresh_id_new: "fresh_id w \<notin> pr_id ` set (mp_rows w)"
proof
  assume "fresh_id w \<in> pr_id ` set (mp_rows w)"
  then have "fresh_id w \<le> sum_list (map pr_id (mp_rows w))" by (intro member_le_sum_list) auto
  then show False by (simp add: fresh_id_def)
qed

definition memory_cols :: "memory_pg \<Rightarrow> pg_columns option" where
  "memory_cols w = mp_columns w"

definition memory_rowset :: "memory_pg \<Rightarrow> pg_row multiset" where
  "memory_rowset w = mset (mp_rows w)"

fun memory_holds :: "pg_cond \<Rightarrow> pg_row \<Rightarrow> bool" where
  "memory_holds (EqAny c t vs) r = (pr_source_file r \<in> set vs)"
| "memory_holds (NeAll c t vs) r = (show_nat (pr_id r) \<notin> set vs)"
| "memory_holds (EqParam c v) r = (pr_source_file r = v)"

definition memory_accepts :: "pg_cond list \<Rightarrow> memory_pg \<Rightarrow> bool" where
  "memory_accepts cs w = (case mp_columns w of None \<Rightarrow> False | Some cols \<Rightarrow> list_all (well_typed cols) cs)"

definition memory_pg_client :: "memory_pg pg_client" where
  "memory_pg_client =
     \<lparr>pg_connect = give (), pg_registerTypes = give (), pg_createExtension = give (),
      pg_columnsNamed = (\<lambda>ns. give []), pg_dropTable = (\<lambda>w. (Inr (), w\<lparr>mp_columns := None, mp_rows := []\<rparr>)),
      pg_createTable = (\<lambda>cs w. (Inr (), if mp_columns w = None then w\<lparr>mp_columns := Some cs\<rparr> else w)),
      pg_addColumn = (\<lambda>c. give ()), pg_createIndex = (\<lambda>q. give ()),
      pg_insert = (\<lambda>d w. if mp_columns w = None then (Inl (Err EError ''no table''), w)
        else (Inr (), w\<lparr>mp_rows := mp_rows w @ [pg_row_of (fresh_id w) d]\<rparr>)),
      pg_delete = (\<lambda>cs w. if memory_accepts cs w
        then (Inr (), w\<lparr>mp_rows := filter (\<lambda>r. \<not> list_all (\<lambda>c. memory_holds c r) cs) (mp_rows w)\<rparr>)
        else (Inl (Err EError ''operator does not exist''), w)),
      pg_selectIds = (\<lambda>c w. if memory_accepts [c] w
        then (Inr (map (show_nat \<circ> pr_id) (filter (memory_holds c) (mp_rows w))), w)
        else (Inl (Err EError ''operator does not exist''), w)),
      pg_selectVersions = (\<lambda>w. (Inr (map (\<lambda>r. (pr_source_file r, pr_commit_hash r)) (mp_rows w)), w)),
      pg_nearest = (\<lambda>q n. give []), pg_fullText = (\<lambda>t n. give [])\<rparr>"

lemma memory_pg_laws: "pg_laws memory_pg_client memory_cols memory_rowset"
  unfolding pg_laws_def
proof (intro conjI)
  show "schema_laws memory_pg_client memory_cols"
    by (auto simp: schema_laws_def memory_pg_client_def memory_cols_def give_def)
  show "typing_law memory_pg_client memory_cols"
    by (auto simp: typing_law_def memory_pg_client_def memory_cols_def memory_accepts_def split: option.splits if_splits)
  show "row_laws memory_pg_client memory_rowset"
    using fresh_id_new by (auto simp: row_laws_def memory_pg_client_def memory_rowset_def give_def)
qed

text \<open>A repository with one file of one chunk, and an empty server.\<close>

definition sample_pg_config :: pg_config where
  "sample_pg_config = \<lparr>pc_table = ''documents'', pc_dimensions = 2, pc_ssl = False, pc_indexType = ''hnsw'',
     pc_m = None, pc_efConstruction = None, pc_lists = None\<rparr>"

definition pg_sample_env :: "(memory_pg, unit) pipeline_env" where
  "pg_sample_env =
     \<lparr>env_provider = sample_provider, env_store = PostgresVectorStore memory_pg_client sample_pg_config,
      env_sha = (\<lambda>_. ''x''), env_matcher = (\<lambda>_ _ _ _. False),
      env_runner = (\<lambda>e p k. Inr [\<lparr>denseText = js ''t'', sparseText = js ''t'', denseTextHash = ''h-'' @ p,
         sparseTextGeneratorId = ''s'', metadataGeneratorId = ''m'', metadata = [], sourceFile = [],
         commitHash = [], content = None\<rparr>]),
      env_clock = (\<lambda>_ _. 0), env_cwd = ''/r'', env_pick = hd, schedule = rev\<rparr>"

definition pg_empty :: memory_pg where
  "pg_empty = \<lparr>mp_columns = None, mp_rows = []\<rparr>"

lemma postgres_run_fails_witness:
  "case run pg_sample_env sample_options (sample_tree ''r1'') empty_db pg_empty () of
     Some (r, _) \<Rightarrow> isl r | None \<Rightarrow> False"
proof -
  have pos: "0 < minEmbedBatch sample_options" "0 < minUploadBatch sample_options"
    by (simp_all add: minEmbedBatch_def minUploadBatch_def sample_options_def)
  have "run pg_sample_env sample_options (sample_tree ''r1'') empty_db pg_empty () \<noteq> None" by code_simp
  then obtain r db' s' w' where run: "run pg_sample_env sample_options (sample_tree ''r1'') empty_db pg_empty ()
      = Some (r, db', s', w')" by auto
  let ?s1 = "pg_empty\<lparr>mp_columns := Some (table_columns sample_pg_config)\<rparr>"
  have force: "check_model (env_provider pg_sample_env) (opt_force sample_options) empty_db = (False, empty_db)"
    by code_simp
  have opened: "pg_initialize memory_pg_client sample_pg_config pg_empty = (Inr (), ?s1)"
    "pg_getCurrentState memory_pg_client ?s1 = (Inr [], ?s1)"
    by (simp_all add: pg_initialize_def pg_getCurrentState_def memory_pg_client_def and_then_def give_def pg_empty_def)
  have "''a'' \<in> set (toProcess (changes (make_plan (env_cwd pg_sample_env) False (sample_tree ''r1'') empty_db [])))"
    by code_simp
  moreover have "chunks_of_file pg_sample_env (sample_tree ''r1'') ''a'' \<noteq> []" by code_simp
  moreover have "integer_ids memory_cols pg_empty" by (simp add: integer_ids_def memory_cols_def pg_empty_def)
  moreover have "env_store pg_sample_env = PostgresVectorStore memory_pg_client sample_pg_config"
    "mset (schedule pg_sample_env fs) = mset fs" for fs by (simp_all add: pg_sample_env_def)
  ultimately have "isl r"
    using postgres_run_fails [OF memory_pg_laws _ _ pos force _ opened run] by blast
  then show ?thesis by (simp add: run)
qed

subsection \<open>Repeated uploads\<close>

lemma unnumbered_row [simp]: "pr_id_update (\<lambda>_. 0) (pg_row_of i d) = pg_row_of 0 d"
  by (simp add: pg_row_of_def)

text \<open>A successful upload adds one row for each document, whether or not the table has it already.\<close>

lemma insert_each_appends:
  assumes "row_laws pg rows" and "insert_each pg ds w = (Inr (), w')"
  shows "\<exists>new. rows w' = rows w + new
    \<and> image_mset (pr_id_update (\<lambda>_. 0)) new = mset (map (pg_row_of 0) ds)"
  using assms(2)
proof (induction ds arbitrary: w)
  case Nil
  then show ?case by (auto simp: give_def)
next
  case (Cons d ds)
  obtain w1 where one: "pg_insert pg d w = (Inr (), w1)" and rest: "insert_each pg ds w1 = (Inr (), w')"
    using Cons.prems by (auto elim!: and_thenE)
  obtain i where i: "rows w1 = add_mset (pg_row_of i d) (rows w)"
    using assms(1) one unfolding row_laws_def by (metis sum.disc(2))
  obtain new where new: "rows w' = rows w1 + new"
    "image_mset (pr_id_update (\<lambda>_. 0)) new = mset (map (pg_row_of 0) ds)"
    using Cons.IH [OF rest] by blast
  then have "rows w' = rows w + add_mset (pg_row_of i d) new" using i by simp
  then show ?case using new(2)
    by (intro exI [of _ "add_mset (pg_row_of i d) new"]) simp
qed

text \<open>Without the extension the types cannot be registered, and \<open>initialize\<close> registers them before
  it creates the extension.\<close>

lemma extension_never_created:
  assumes "\<And>w. \<not> ext w \<Longrightarrow> isl (fst (pg_registerTypes pg w)) \<and> \<not> ext (snd (pg_registerTypes pg w))"
    and "\<And>w. ext (snd (pg_connect pg w)) = ext w" and "\<not> ext w" and "pg_initialize pg cfg w = (r, w')"
  shows "isl r \<and> \<not> ext w'"
proof -
  obtain r1 w1 where one: "pg_connect pg w = (r1, w1)" by (cases "pg_connect pg w")
  obtain r2 w2 where two: "pg_registerTypes pg w1 = (r2, w2)" by (cases "pg_registerTypes pg w1")
  have "\<not> ext w1" using assms(2) [of w] assms(3) one by simp
  then have "isl r2 \<and> \<not> ext w2" using assms(1) [of w1] two by simp
  then show ?thesis
    using assms(4) one two \<open>\<not> ext w1\<close> by (cases r1; cases r2) (auto simp: pg_initialize_def and_then_def)
qed

subsection \<open>Results of a search\<close>

lemma filter_results_length: "filter_results P rs = Inr xs \<Longrightarrow> length xs \<le> length rs"
  using filter_results_spec [of P rs xs] by simp

text \<open>Every search returns at most \<open>topK\<close> results, with a tag filter only tagged ones.\<close>

lemma pg_search_respects_tags:
  assumes run: "pg_search mexp now pg q topK opts w = (Inr rs, w')"
  shows "length rs \<le> topK
    \<and> (\<forall>r \<in> set rs. \<forall>tags. so_tagFilter opts = Some tags \<longrightarrow> tags \<noteq> [] \<longrightarrow> tagged_with tags r)"
proof -
  obtain xs where xs: "applyLabelFilter (so_tagFilter opts) xs = Inr rs" "length xs \<le> topK"
    using run unfolding pg_search_def Let_def
    by (auto simp: result_bind_Inr rrfMerge_length min.coboundedI1 split: if_splits prod.splits elim!: and_thenE)
  then have "length rs \<le> topK" using filter_results_length by (fastforce simp: applyLabelFilter_def)
  then show ?thesis using applyLabelFilter_spec [OF xs(1)] by blast
qed

text \<open>Without a hybrid query the results come by falling composite score.\<close>

lemma by_composite_sorted:
  "mset (by_composite mexp now a b hs) = mset hs
    \<and> sorted (map (\<lambda>h. - composite_score mexp now a b h) (by_composite mexp now a b hs))"
  by (simp add: by_composite_def)

end
