(* ===== verification/AstChunker.thy ===== *)
theory AstChunker
  imports Interfaces Utils
begin

section \<open>The AST chunker\<close>

text \<open>
  \<open>src/packages/virage-chunker-ce-ast/src\<close>: the walk over a document tree (\<open>ast-walker.ts\<close>), its
  outline (\<open>outline.ts\<close>) and the windows of text made from it (\<open>chunker.ts\<close>). Texts are sequences
  of UTF-16 code units, as \<open>length\<close> and \<open>slice\<close> count them. A missing \<open>children\<close> array is the
  empty list, which the code treats alike everywhere. The digest of SHA-256 is a parameter.
\<close>

subsection \<open>Document trees\<close>

datatype doc_node_type = Document | Section | Heading | Paragraph | Table | TableRow | TableCell
  | ListNode | ListItem | CodeNode | Formula | ImageNode | LinkNode | Footnote | Caption | Abstract | MetadataNode

record doc_attrs =
  da_headingLevel :: "nat option"
  da_byteStart :: nat
  da_byteEnd :: nat
  da_lineStart :: "nat option"
  da_lineEnd :: "nat option"
  da_pageNumber :: "nat option"
  da_citation :: "jstext option"
  da_lang :: "jstext option"
  da_codeLanguage :: "jstext option"
  da_imports :: "jstext list option"

datatype doc_node = DocNode (dn_type: doc_node_type) (dn_text: "jstext option") (dn_attrs: doc_attrs)
  (dn_children: "doc_node list")

text \<open>An optional text that is neither absent nor empty.\<close>

definition truthy :: "jstext option \<Rightarrow> bool" where
  "truthy t = (case t of None \<Rightarrow> False | Some s \<Rightarrow> s \<noteq> [])"

record text_segment =
  seg_text :: jstext
  seg_type :: doc_node_type
  seg_attrs :: doc_attrs
  seg_breadcrumb :: "jstext list"

definition enter_heading :: "doc_node_type \<Rightarrow> jstext option \<Rightarrow> doc_attrs \<Rightarrow> jstext list \<Rightarrow> jstext list" where
  "enter_heading t text attrs breadcrumb =
     (if t = Heading \<and> truthy text
      then take (nullish (da_headingLevel attrs) 1 - 1) breadcrumb @ [the text] else breadcrumb)"

definition emitted :: "doc_node_type \<Rightarrow> jstext option \<Rightarrow> doc_attrs \<Rightarrow> jstext list \<Rightarrow> text_segment list" where
  "emitted t text attrs breadcrumb =
     (if truthy text \<and> t \<noteq> Heading \<and> t \<noteq> ImageNode \<and> t \<noteq> LinkNode
      then [\<lparr>seg_text = the text, seg_type = t, seg_attrs = attrs, seg_breadcrumb = breadcrumb\<rparr>] else [])"

text \<open>The state of the walk: the segments so far and the breadcrumb.\<close>

fun visit :: "doc_node \<Rightarrow> text_segment list \<times> jstext list \<Rightarrow> text_segment list \<times> jstext list"
  and visit_all :: "doc_node list \<Rightarrow> text_segment list \<times> jstext list \<Rightarrow> text_segment list \<times> jstext list" where
  "visit (DocNode t text attrs children) (segments, breadcrumb) =
     (let b = enter_heading t text attrs breadcrumb
      in visit_all children (segments @ emitted t text attrs b, b))"
| "visit_all [] st = st"
| "visit_all (c # cs) st = visit_all cs (visit c st)"

definition walkDocNode :: "doc_node \<Rightarrow> text_segment list" where
  "walkDocNode root' = fst (visit root' ([], []))"

definition section_title :: "doc_node \<Rightarrow> jstext list" where
  "section_title child =
     (if dn_type child = Heading \<and> da_headingLevel (dn_attrs child) = Some 1 \<and> truthy (dn_text child)
      then [the (dn_text child)]
      else if dn_type child = Section
      then (case find (\<lambda>n. dn_type n = Heading \<and> truthy (dn_text n)) (dn_children child) of
              None \<Rightarrow> [] | Some h \<Rightarrow> [the (dn_text h)])
      else [])"

definition extractOutline :: "doc_node \<Rightarrow> jstext list" where
  "extractOutline root' = concat (map section_title (dn_children root'))"

fun countAstNodes :: "doc_node \<Rightarrow> nat" where
  "countAstNodes (DocNode t text attrs children) = foldl (\<lambda>n c. n + countAstNodes c) 1 children"

fun countAstNodesInBounds :: "nat \<Rightarrow> nat \<Rightarrow> doc_node \<Rightarrow> nat" where
  "countAstNodesInBounds start stop (DocNode t text attrs children) =
     foldl (\<lambda>n c. n + countAstNodesInBounds start stop c)
       (if da_byteStart attrs \<ge> start \<and> da_byteEnd attrs \<le> stop then 1 else 0) children"

definition extractImports :: "doc_node \<Rightarrow> jstext list" where
  "extractImports root' = nullish (da_imports (dn_attrs root')) []"

fun extractFqnForChunk :: "nat \<Rightarrow> nat \<Rightarrow> doc_node \<Rightarrow> jstext option" where
  "extractFqnForChunk start stop (DocNode t text attrs children) =
     foldl (\<lambda>res c. let fqn = extractFqnForChunk start stop c in if truthy fqn then fqn else res)
       (if t = Section \<and> truthy (da_citation attrs) \<and> da_byteStart attrs \<le> start \<and> da_byteEnd attrs \<ge> stop
        then da_citation attrs else None) children"

subsection \<open>Options and pieces\<close>

record walk_options =
  wo_sourceFile :: string
  wo_sourceFormat :: string
  wo_commitHash :: string
  wo_strategy :: string
  wo_sparseTextGeneratorId :: string
  wo_metadataGeneratorId :: string
  wo_maxTokens :: "nat option"
  wo_minTokens :: "nat option"
  wo_overlap :: "rat option"
  wo_recursive :: "bool option"
  wo_adaptiveSize :: "bool option"

definition CHARS_PER_TOKEN :: nat where
  "CHARS_PER_TOKEN = 4"

definition estimateTokens :: "jstext \<Rightarrow> nat" where
  "estimateTokens text = (length text + CHARS_PER_TOKEN - 1) div CHARS_PER_TOKEN"

definition ast_makeDenseText :: "jstext list \<Rightarrow> jstext \<Rightarrow> jstext" where
  "ast_makeDenseText breadcrumb rawContent =
     (if length breadcrumb > 0 then join_with [0x20, 0x203A, 0x20] breadcrumb @ js ''. '' else []) @ rawContent"

definition ast_computeDenseTextHash :: "(jstext \<Rightarrow> string) \<Rightarrow> jstext \<Rightarrow> string" where
  "ast_computeDenseTextHash sha256 text = take 16 (sha256 text)"

text \<open>The loop of \<open>splitOversized\<close>: with \<open>maxChars\<close> 0 it never ends.\<close>

definition piece_of :: "text_segment \<Rightarrow> nat \<Rightarrow> nat \<Rightarrow> text_segment" where
  "piece_of seg maxChars pos =
     (let text = take maxChars (drop pos (seg_text seg))
      in seg\<lparr>seg_text := text,
             seg_attrs := (seg_attrs seg)\<lparr>da_byteStart := da_byteStart (seg_attrs seg) + pos,
                                          da_byteEnd := da_byteStart (seg_attrs seg) + pos + length text\<rparr>\<rparr>)"

partial_function (option) split_loop :: "text_segment \<Rightarrow> nat \<Rightarrow> nat \<Rightarrow> text_segment list option" where
  "split_loop seg maxChars pos =
     (if pos < length (seg_text seg)
      then Option.bind (split_loop seg maxChars (pos + maxChars)) (\<lambda>parts. Some (piece_of seg maxChars pos # parts))
      else Some [])"

declare split_loop.simps [code]

definition splitOversized :: "text_segment \<Rightarrow> nat \<Rightarrow> text_segment list option" where
  "splitOversized seg maxTokens =
     (let maxChars = maxTokens * CHARS_PER_TOKEN
      in if length (seg_text seg) \<le> maxChars then Some [seg] else split_loop seg maxChars 0)"

fun split_all :: "text_segment list \<Rightarrow> nat \<Rightarrow> text_segment list option" where
  "split_all [] maxTokens = Some []"
| "split_all (s # ss) maxTokens =
     Option.bind (splitOversized s maxTokens) (\<lambda>ps. map_option (\<lambda>qs. ps @ qs) (split_all ss maxTokens))"

subsection \<open>Windows\<close>

record window =
  w_texts :: "jstext list"
  w_byteStart :: nat
  w_byteEnd :: nat
  w_lineStart :: "nat option"
  w_lineEnd :: "nat option"
  w_pageStart :: "nat option"
  w_pageEnd :: "nat option"
  w_citation :: "jstext option"
  w_breadcrumb :: "jstext list"
  w_lang :: "jstext option"
  w_codeLanguage :: "jstext option"
  w_truncated :: bool

definition open_window :: "text_segment \<Rightarrow> window" where
  "open_window seg =
     \<lparr>w_texts = [], w_byteStart = da_byteStart (seg_attrs seg), w_byteEnd = da_byteEnd (seg_attrs seg),
      w_lineStart = None, w_lineEnd = None, w_pageStart = None, w_pageEnd = None, w_citation = None,
      w_breadcrumb = seg_breadcrumb seg, w_lang = None, w_codeLanguage = None, w_truncated = False\<rparr>"

definition or_else :: "'a option \<Rightarrow> 'a option \<Rightarrow> 'a option" where
  "or_else a b = (case a of None \<Rightarrow> b | Some x \<Rightarrow> Some x)"

definition truthy_or :: "jstext option \<Rightarrow> jstext option \<Rightarrow> jstext option" where
  "truthy_or a b = (if \<not> truthy a \<and> truthy b then b else a)"

definition add_segment :: "window \<Rightarrow> text_segment \<Rightarrow> window" where
  "add_segment win seg =
     (let at' = seg_attrs seg
      in win\<lparr>w_texts := w_texts win @ [seg_text seg], w_byteEnd := da_byteEnd at',
             w_lineStart := or_else (w_lineStart win) (da_lineStart at'),
             w_lineEnd := or_else (da_lineEnd at') (w_lineEnd win),
             w_pageStart := or_else (w_pageStart win) (da_pageNumber at'),
             w_pageEnd := or_else (da_pageNumber at') (w_pageEnd win),
             w_citation := or_else (w_citation win) (da_citation at'),
             w_lang := truthy_or (w_lang win) (da_lang at'),
             w_codeLanguage := truthy_or (w_codeLanguage win) (da_codeLanguage at')\<rparr>)"

definition cut_segment :: "nat \<Rightarrow> window \<Rightarrow> text_segment \<Rightarrow> window" where
  "cut_segment maxTokens win seg =
     win\<lparr>w_texts := w_texts win @ [take (maxTokens * CHARS_PER_TOKEN) (seg_text seg)],
         w_byteEnd := da_byteEnd (seg_attrs seg), w_truncated := True\<rparr>"

definition effectiveMax :: "nat \<Rightarrow> bool \<Rightarrow> text_segment \<Rightarrow> nat" where
  "effectiveMax maxTokens adaptiveSize seg =
     (if adaptiveSize \<and> (seg_type seg = CodeNode \<or> seg_type seg = TableCell)
      then (maxTokens + 1) div 2 else maxTokens)"

text \<open>The inner loop from the segments left at \<open>idx\<close>: the window, its tokens and the new \<open>idx\<close>.\<close>

fun fill_window :: "nat \<Rightarrow> bool \<Rightarrow> text_segment list \<Rightarrow> window \<Rightarrow> nat \<Rightarrow> nat \<Rightarrow> window \<times> nat \<times> nat" where
  "fill_window maxTokens adaptive [] win currentTokens idx = (win, currentTokens, idx)"
| "fill_window maxTokens adaptive (seg # segs) win currentTokens idx =
     (let segTokens = estimateTokens (seg_text seg)
      in if currentTokens > 0 \<and> seg_breadcrumb seg \<noteq> w_breadcrumb win then (win, currentTokens, idx)
         else if currentTokens > 0 \<and> currentTokens + segTokens > effectiveMax maxTokens adaptive seg
         then (win, currentTokens, idx)
         else if segTokens > maxTokens then (cut_segment maxTokens win seg, currentTokens, idx + 1)
         else fill_window maxTokens adaptive segs (add_segment win seg) (currentTokens + segTokens) (idx + 1))"

text \<open>The walk backwards for the overlap: the value of \<open>back\<close> when the loop ends.\<close>

fun walk_back :: "text_segment list \<Rightarrow> nat \<Rightarrow> rat \<Rightarrow> nat \<Rightarrow> nat \<Rightarrow> nat" where
  "walk_back segments startIdx target accumulated 0 = 0"
| "walk_back segments startIdx target accumulated (Suc k) =
     (if Suc k > startIdx \<and> of_nat accumulated < target
      then walk_back segments startIdx target (accumulated + estimateTokens (seg_text (segments ! Suc k))) k
      else Suc k)"

definition next_start :: "text_segment list \<Rightarrow> rat \<Rightarrow> nat \<Rightarrow> nat \<Rightarrow> nat \<Rightarrow> nat" where
  "next_start segments overlap startIdx currentTokens idx =
     (if overlap > 0 \<and> idx > startIdx + 1
      then max (startIdx + 1) (walk_back segments startIdx (of_nat currentTokens * overlap) 0 (idx - 1) + 1)
      else idx)"

lemma fill_window_idx: "idx \<le> snd (snd (fill_window m a segs win t idx))"
proof (induction segs arbitrary: win t idx)
  case (Cons seg segs)
  have "idx \<le> snd (snd (fill_window m a segs w u (Suc idx)))" for w u
    using Cons.IH [of "Suc idx" w u] by simp
  then show ?case by (simp add: Let_def)
qed simp

lemma fill_window_progress:
  "segs \<noteq> [] \<Longrightarrow> idx < snd (snd (fill_window m a segs win 0 idx))"
  using fill_window_idx [of "idx + 1" m a] by (cases segs) (auto simp: Let_def Suc_le_eq)

lemma next_start_progress: "startIdx < idx \<Longrightarrow> startIdx < next_start segments overlap startIdx currentTokens idx"
  by (simp add: next_start_def less_Suc_eq_le)

function build_windows :: "nat \<Rightarrow> bool \<Rightarrow> rat \<Rightarrow> text_segment list \<Rightarrow> nat \<Rightarrow> window list" where
  "build_windows maxTokens adaptive overlap segments startIdx =
     (if startIdx < length segments
      then (case fill_window maxTokens adaptive (drop startIdx segments)
                   (open_window (segments ! startIdx)) 0 startIdx of
              (win, currentTokens, idx) \<Rightarrow>
                if length (w_texts win) > 0
                then win # build_windows maxTokens adaptive overlap segments
                             (next_start segments overlap startIdx currentTokens idx)
                else build_windows maxTokens adaptive overlap segments (startIdx + 1))
      else [])"
  by pat_completeness auto

termination
proof (relation "measure (\<lambda>(m, a, ov, segs, s). length segs - s)", goal_cases)
  case 1
  show ?case by simp
next
  case (2 m a ov segs s win y tokens idx)
  have "drop s segs \<noteq> []" using 2(1) by simp
  from fill_window_progress [OF this] have "s < idx" using 2(2,3) by (metis snd_conv)
  then show ?case using 2(1) next_start_progress [of s idx segs ov tokens] by simp
next
  case 3
  then show ?case by simp
qed

declare build_windows.simps [simp del]

definition merge_trailing :: "nat \<Rightarrow> window list \<Rightarrow> window list" where
  "merge_trailing minTokens windows =
     (if length windows > 1
      then (let lst = last windows; prev = last (butlast windows)
            in if estimateTokens (join_with (js [CHR 0x0A, CHR 0x0A]) (w_texts lst)) < minTokens
                  \<and> w_breadcrumb lst = w_breadcrumb prev
               then butlast (butlast windows) @
                 [prev\<lparr>w_texts := w_texts prev @ w_texts lst, w_byteEnd := w_byteEnd lst,
                       w_lineEnd := w_lineEnd lst, w_pageEnd := w_pageEnd lst\<rparr>]
               else windows)
      else windows)"

definition raw_content :: "window \<Rightarrow> jstext" where
  "raw_content win = join_with (js [CHR 0x0A, CHR 0x0A]) (w_texts win)"

record chunk_meta =
  cm_breadcrumb :: "jstext list"
  cm_byteStart :: nat
  cm_byteEnd :: nat
  cm_lineStart :: "nat option"
  cm_lineEnd :: "nat option"
  cm_pageStart :: "nat option"
  cm_pageEnd :: "nat option"
  cm_citation :: "jstext option"
  cm_lang :: "jstext option"
  cm_codeLanguage :: "jstext option"
  cm_chunkIndex :: nat
  cm_totalChunks :: nat
  cm_estimatedTokens :: nat
  cm_sectionTitle :: "jstext option"
  cm_headingLevel :: "nat option"
  cm_documentOutline :: "jstext list"
  cm_truncated :: "bool option"
  cm_astNodeCount :: nat
  cm_astNodeCountInBounds :: nat
  cm_imports :: "jstext list option"
  cm_fqn :: "jstext option"
  cm_siblingPrev :: "string option"
  cm_siblingNext :: "string option"
  cm_siblingIds :: "string list option"

record artifact_set =
  as_denseText :: jstext
  as_sparseText :: jstext
  as_denseTextHash :: string
  as_sparseTextGeneratorId :: string
  as_metadataGeneratorId :: string
  as_metadata :: chunk_meta
  as_sourceFile :: string
  as_commitHash :: string

definition last_option :: "'a list \<Rightarrow> 'a option" where
  "last_option xs = (if xs = [] then None else Some (last xs))"

definition make_artifact ::
  "(jstext \<Rightarrow> string) \<Rightarrow> doc_node \<Rightarrow> walk_options \<Rightarrow> nat \<Rightarrow> nat \<Rightarrow> window \<Rightarrow> artifact_set" where
  "make_artifact sha256 root' opts totalChunks i win =
     (let dense = ast_makeDenseText (w_breadcrumb win) (raw_content win);
          imports = extractImports root'
      in \<lparr>as_denseText = dense, as_sparseText = raw_content win,
          as_denseTextHash = ast_computeDenseTextHash sha256 dense,
          as_sparseTextGeneratorId = wo_sparseTextGeneratorId opts,
          as_metadataGeneratorId = wo_metadataGeneratorId opts,
          as_metadata =
            \<lparr>cm_breadcrumb = w_breadcrumb win, cm_byteStart = w_byteStart win, cm_byteEnd = w_byteEnd win,
             cm_lineStart = w_lineStart win, cm_lineEnd = w_lineEnd win, cm_pageStart = w_pageStart win,
             cm_pageEnd = w_pageEnd win, cm_citation = w_citation win, cm_lang = w_lang win,
             cm_codeLanguage = w_codeLanguage win, cm_chunkIndex = i, cm_totalChunks = totalChunks,
             cm_estimatedTokens = estimateTokens (raw_content win),
             cm_sectionTitle = last_option (w_breadcrumb win),
             cm_headingLevel = (if length (w_breadcrumb win) > 0 then Some (length (w_breadcrumb win)) else None),
             cm_documentOutline = extractOutline root',
             cm_truncated = (if w_truncated win then Some True else None),
             cm_astNodeCount = countAstNodes root',
             cm_astNodeCountInBounds = countAstNodesInBounds (w_byteStart win) (w_byteEnd win) root',
             cm_imports = (if length imports > 0 then Some imports else None),
             cm_fqn = extractFqnForChunk (w_byteStart win) (w_byteEnd win) root',
             cm_siblingPrev = None, cm_siblingNext = None, cm_siblingIds = None\<rparr>,
          as_sourceFile = wo_sourceFile opts, as_commitHash = wo_commitHash opts\<rparr>)"

text \<open>The hashes are fixed before the loop, so each artifact can be linked on its own.\<close>

definition link_siblings :: "artifact_set list \<Rightarrow> artifact_set list" where
  "link_siblings artifacts =
     map (\<lambda>i. let a = artifacts ! i;
                  prev = (if i > 0 then Some (as_denseTextHash (artifacts ! (i - 1))) else None);
                  nxt = (if i + 1 < length artifacts then Some (as_denseTextHash (artifacts ! (i + 1))) else None);
                  ids = (case prev of None \<Rightarrow> [] | Some h \<Rightarrow> [h]) @ (case nxt of None \<Rightarrow> [] | Some h \<Rightarrow> [h])
              in a\<lparr>as_metadata := (as_metadata a)\<lparr>cm_siblingPrev := prev, cm_siblingNext := nxt,
                     cm_siblingIds := (if length ids > 0 then Some ids else None)\<rparr>\<rparr>)
       [0..<length artifacts]"

definition walk_windows :: "doc_node \<Rightarrow> walk_options \<Rightarrow> window list option" where
  "walk_windows root' opts =
     (let maxTokens = nullish (wo_maxTokens opts) 512;
          minTokens = nullish (wo_minTokens opts) (maxTokens div 4);
          overlap = min (max (nullish (wo_overlap opts) 0) 0) (9 / 10);
          rawSegments = walkDocNode root'
      in map_option (\<lambda>segments. merge_trailing minTokens
             (build_windows maxTokens (nullish (wo_adaptiveSize opts) False) overlap segments 0))
           (if nullish (wo_recursive opts) False then split_all rawSegments maxTokens else Some rawSegments))"

text \<open>\<open>None\<close> when the split of an oversized segment never ends.\<close>

definition walkToChunks ::
  "(jstext \<Rightarrow> string) \<Rightarrow> doc_node \<Rightarrow> walk_options \<Rightarrow> artifact_set list option" where
  "walkToChunks sha256 root' opts =
     (if length (walkDocNode root') = 0 then Some []
      else map_option (\<lambda>windows. link_siblings (map (\<lambda>(i, win). make_artifact sha256 root' opts (length windows) i win)
             (enumerate 0 windows))) (walk_windows root' opts))"

subsection \<open>Segments and pieces\<close>

lemma estimateTokens_le: "estimateTokens t \<le> m \<longleftrightarrow> length t \<le> 4 * m"
  unfolding estimateTokens_def CHARS_PER_TOKEN_def by linarith

lemma estimateTokens_pos: "t \<noteq> [] \<Longrightarrow> 0 < estimateTokens t"
  by (cases t) (simp_all add: estimateTokens_def CHARS_PER_TOKEN_def)

lemma length_le_tokens: "length t \<le> 4 * estimateTokens t"
  unfolding estimateTokens_def CHARS_PER_TOKEN_def by linarith

abbreviation texts_ok :: "text_segment list \<Rightarrow> bool" where
  "texts_ok segs \<equiv> \<forall>s \<in> set segs. seg_text s \<noteq> []"

lemma emitted_ok: "texts_ok (emitted t text attrs b)"
  by (auto simp: emitted_def truthy_def split: option.splits)

lemma visit_ok:
  "texts_ok (fst st) \<Longrightarrow> texts_ok (fst (visit n st))"
  "texts_ok (fst st) \<Longrightarrow> texts_ok (fst (visit_all ns st))"
proof (induction n st and ns st rule: visit_visit_all.induct)
  case (1 t tx attrs children segments breadcrumb)
  have "texts_ok (segments @ emitted t tx attrs (enter_heading t tx attrs breadcrumb))"
    using 1(2) emitted_ok by auto
  then show ?case using 1(1) by (simp add: Let_def)
qed simp_all

lemma walkDocNode_ok: "texts_ok (walkDocNode root')"
  unfolding walkDocNode_def by (rule visit_ok) simp

lemma split_loop_spec:
  assumes "0 < maxChars"
  shows "\<exists>parts. split_loop seg maxChars pos = Some parts
    \<and> concat (map seg_text parts) = drop pos (seg_text seg)
    \<and> (\<forall>p \<in> set parts. seg_text p \<noteq> [] \<and> length (seg_text p) \<le> maxChars)"
proof (induction "length (seg_text seg) - pos" arbitrary: pos rule: less_induct)
  case less
  show ?case
  proof (cases "pos < length (seg_text seg)")
    case False
    then show ?thesis by (simp add: split_loop.simps)
  next
    case True
    then have "length (seg_text seg) - (pos + maxChars) < length (seg_text seg) - pos" using assms by simp
    from less [OF this] obtain parts where parts: "split_loop seg maxChars (pos + maxChars) = Some parts"
      "concat (map seg_text parts) = drop (pos + maxChars) (seg_text seg)"
      "\<forall>p \<in> set parts. seg_text p \<noteq> [] \<and> length (seg_text p) \<le> maxChars" by blast
    have "seg_text (piece_of seg maxChars pos) = take maxChars (drop pos (seg_text seg))"
      by (simp add: piece_of_def Let_def)
    moreover have "take maxChars (drop pos (seg_text seg)) @ drop (pos + maxChars) (seg_text seg) = drop pos (seg_text seg)"
      by (metis add.commute append_take_drop_id drop_drop)
    ultimately show ?thesis using parts True assms by (simp add: split_loop.simps [of seg maxChars pos])
  qed
qed

lemma splitOversized_spec:
  assumes "0 < m" and "seg_text seg \<noteq> []"
  shows "\<exists>parts. splitOversized seg m = Some parts \<and> concat (map seg_text parts) = seg_text seg
    \<and> (\<forall>p \<in> set parts. seg_text p \<noteq> [] \<and> estimateTokens (seg_text p) \<le> m)"
proof (cases "length (seg_text seg) \<le> m * CHARS_PER_TOKEN")
  case True
  then show ?thesis using assms(2)
    by (simp add: splitOversized_def estimateTokens_le CHARS_PER_TOKEN_def mult.commute)
next
  case False
  have "0 < m * CHARS_PER_TOKEN" using assms(1) by (simp add: CHARS_PER_TOKEN_def)
  from split_loop_spec [OF this, of seg 0] False show ?thesis
    by (simp add: splitOversized_def estimateTokens_le CHARS_PER_TOKEN_def mult.commute)
qed

lemma split_all_spec:
  assumes "0 < m" and "texts_ok segs"
  shows "\<exists>ps. split_all segs m = Some ps \<and> concat (map seg_text ps) = concat (map seg_text segs)
    \<and> (\<forall>p \<in> set ps. seg_text p \<noteq> [] \<and> estimateTokens (seg_text p) \<le> m)
    \<and> (\<forall>s \<in> set segs. \<exists>qs. concat qs = seg_text s \<and> set qs \<subseteq> seg_text ` set ps)"
  using assms(2)
proof (induction segs)
  case (Cons s ss)
  obtain qs where qs: "split_all ss m = Some qs" "concat (map seg_text qs) = concat (map seg_text ss)"
    "\<forall>p \<in> set qs. seg_text p \<noteq> [] \<and> estimateTokens (seg_text p) \<le> m"
    "\<forall>s \<in> set ss. \<exists>rs. concat rs = seg_text s \<and> set rs \<subseteq> seg_text ` set qs"
    using Cons by auto
  have "seg_text s \<noteq> []" using Cons.prems by simp
  from splitOversized_spec [OF assms(1) this] obtain ps where ps: "splitOversized s m = Some ps"
    "concat (map seg_text ps) = seg_text s"
    "\<forall>p \<in> set ps. seg_text p \<noteq> [] \<and> estimateTokens (seg_text p) \<le> m" by blast
  have "\<exists>rs. concat rs = seg_text x \<and> set rs \<subseteq> seg_text ` set (ps @ qs)" if "x \<in> set (s # ss)" for x
  proof (cases "x = s")
    case True
    then show ?thesis using ps(2) by (intro exI [of _ "map seg_text ps"]) auto
  next
    case False
    then have "x \<in> set ss" using that by simp
    with qs(4) obtain rs where "concat rs = seg_text x" "set rs \<subseteq> seg_text ` set qs" by blast
    then show ?thesis by auto
  qed
  then show ?case using qs(1-3) ps by (intro exI [of _ "ps @ qs"]) auto
qed simp

text \<open>A token limit of 0 never returns on a document with text.\<close>

lemma split_loop_zero:
  assumes "split_loop seg mc pos = Some parts"
  shows "mc = 0 \<longrightarrow> length (seg_text seg) \<le> pos"
proof (rule split_loop.raw_induct [OF _ assms], intro impI)
  fix f seg mc pos parts
  assume IH: "\<And>seg mc pos parts. f seg mc pos = Some parts \<Longrightarrow> mc = 0 \<longrightarrow> length (seg_text seg) \<le> pos"
    and run: "(if pos < length (seg_text seg)
      then Option.bind (f seg mc (pos + mc)) (\<lambda>parts. Some (piece_of seg mc pos # parts)) else Some []) = Some parts"
    and zero: "mc = 0"
  show "length (seg_text seg) \<le> pos"
  proof (cases "pos < length (seg_text seg)")
    case True
    then obtain ps where "f seg mc (pos + mc) = Some ps" using run by (auto simp: bind_eq_Some_conv)
    from IH [OF this] zero show ?thesis by simp
  qed simp
qed

lemma split_all_zero: "texts_ok segs \<Longrightarrow> split_all segs 0 = Some ps \<Longrightarrow> ps = []"
proof (cases segs)
  case (Cons s ss)
  assume ok: "texts_ok segs" and run: "split_all segs 0 = Some ps"
  then obtain parts where "splitOversized s 0 = Some parts" using Cons by (auto simp: bind_eq_Some_conv)
  then have "length (seg_text s) \<le> 0"
    using split_loop_zero [of s 0 0] by (auto simp: splitOversized_def Let_def split: if_splits)
  then show ?thesis using ok Cons by simp
qed simp

subsection \<open>One window\<close>

abbreviation tokens_of :: "text_segment list \<Rightarrow> nat" where
  "tokens_of segs \<equiv> sum_list (map (\<lambda>s. estimateTokens (seg_text s)) segs)"

lemma effectiveMax_le: "effectiveMax m a seg \<le> m"
  by (auto simp: effectiveMax_def)

lemma add_segment_simps [simp]:
  "w_texts (add_segment win seg) = w_texts win @ [seg_text seg]"
  "w_breadcrumb (add_segment win seg) = w_breadcrumb win"
  "w_truncated (add_segment win seg) = w_truncated win"
  by (simp_all add: add_segment_def Let_def)

text \<open>What the inner loop makes of the segments ahead: either it takes a run of them whole, within
  the limit and from one section, or it cuts a single one.\<close>

definition took_run ::
  "nat \<Rightarrow> text_segment list \<Rightarrow> window \<Rightarrow> nat \<Rightarrow> window \<Rightarrow> nat \<Rightarrow> nat \<Rightarrow> bool" where
  "took_run m segs win t w t' k \<longleftrightarrow> k \<le> length segs \<and> w_texts w = w_texts win @ map seg_text (take k segs)
     \<and> w_breadcrumb w = w_breadcrumb win \<and> w_truncated w = w_truncated win
     \<and> t' = t + tokens_of (take k segs) \<and> t' \<le> m
     \<and> (\<forall>s \<in> set (take k segs). seg_breadcrumb s = w_breadcrumb win)"

lemma fill_window_run:
  assumes "fill_window m a segs win t idx = (w, t', n)" and "texts_ok segs" and "0 < t" and "t \<le> m"
  shows "\<exists>k. n = idx + k \<and> took_run m segs win t w t' k"
  using assms
proof (induction segs arbitrary: win t idx)
  case Nil
  then show ?case by (simp add: took_run_def)
next
  case (Cons seg segs)
  let ?n = "estimateTokens (seg_text seg)"
  show ?case
  proof (cases "seg_breadcrumb seg \<noteq> w_breadcrumb win \<or> t + ?n > effectiveMax m a seg")
    case True
    then have "w = win" "t' = t" "n = idx" using Cons.prems(1,3) by (auto simp: Let_def split: if_splits)
    then show ?thesis using Cons.prems(4) by (intro exI [of _ 0]) (simp add: took_run_def)
  next
    case False
    then have fit: "t + ?n \<le> m" using effectiveMax_le [of m a seg] by linarith
    then have step: "fill_window m a segs (add_segment win seg) (t + ?n) (idx + 1) = (w, t', n)"
      using Cons.prems(1) False by (simp add: Let_def)
    obtain k where "n = idx + 1 + k" "took_run m segs (add_segment win seg) (t + ?n) w t' k"
      using Cons.IH [OF step _ _ fit] Cons.prems(2,3) by auto
    then show ?thesis using False by (intro exI [of _ "Suc k"]) (auto simp: took_run_def)
  qed
qed

lemma fill_window_spec:
  assumes run: "fill_window m a (seg # segs) (open_window seg) 0 idx = (w, t', n)" and ok: "texts_ok (seg # segs)"
  shows "(estimateTokens (seg_text seg) > m \<and> w = cut_segment m (open_window seg) seg \<and> n = idx + 1)
    \<or> (\<exists>k > 0. n = idx + k \<and> took_run m (seg # segs) (open_window seg) 0 w t' k)"
proof (cases "estimateTokens (seg_text seg) > m")
  case True
  then show ?thesis using run by (simp add: Let_def)
next
  case False
  let ?n = "estimateTokens (seg_text seg)"
  have pos: "0 < ?n" using ok estimateTokens_pos by simp
  have "fill_window m a segs (add_segment (open_window seg) seg) ?n (idx + 1) = (w, t', n)"
    using run False by (simp add: Let_def)
  from fill_window_run [OF this _ pos] obtain k where "n = idx + 1 + k"
    "took_run m segs (add_segment (open_window seg) seg) ?n w t' k" using ok False by auto
  then have "n = idx + Suc k \<and> took_run m (seg # segs) (open_window seg) 0 w t' (Suc k)"
    by (auto simp: took_run_def open_window_def)
  then show ?thesis by blast
qed

subsection \<open>All windows\<close>

definition slice :: "nat \<Rightarrow> nat \<Rightarrow> 'a list \<Rightarrow> 'a list" where
  "slice s e xs = take (e - s) (drop s xs)"

text \<open>The window over the segments from \<open>s\<close> up to \<open>e\<close>.\<close>

definition window_over :: "nat \<Rightarrow> text_segment list \<Rightarrow> nat \<times> nat \<Rightarrow> window \<Rightarrow> bool" where
  "window_over m segs r w = (case r of (s, e) \<Rightarrow>
     s < e \<and> e \<le> length segs \<and> w_breadcrumb w = seg_breadcrumb (segs ! s)
     \<and> (w_texts w = map seg_text (slice s e segs) \<and> tokens_of (slice s e segs) \<le> m
        \<or> m < estimateTokens (seg_text (segs ! s)) \<and> w_texts w = [take (m * CHARS_PER_TOKEN) (seg_text (segs ! s))]))"

text \<open>Consecutive ranges leave no gap; without overlap each starts where the one before ends.\<close>

fun covers :: "bool \<Rightarrow> nat \<Rightarrow> nat \<Rightarrow> (nat \<times> nat) list \<Rightarrow> bool" where
  "covers exact n start [] = (n \<le> start)"
| "covers exact n start ((s, e) # rs) = (s = start \<and> s < e \<and> e \<le> n
     \<and> (\<exists>nxt > s. nxt \<le> e \<and> (exact \<longrightarrow> nxt = e) \<and> covers exact n nxt rs))"

lemma walk_back_le: "walk_back segments s target acc k \<le> k"
  by (induction k arbitrary: acc) (auto intro: le_SucI)

lemma next_start_bounds:
  assumes "s < idx"
  shows "s < next_start segments ov s t idx" "next_start segments ov s t idx \<le> idx"
    "\<not> ov > 0 \<Longrightarrow> next_start segments ov s t idx = idx"
proof -
  show "s < next_start segments ov s t idx" using assms by (rule next_start_progress)
  have "walk_back segments s (of_nat t * ov) 0 (idx - 1) + 1 \<le> idx"
    using walk_back_le [of segments s "of_nat t * ov" 0 "idx - 1"] assms by linarith
  then show "next_start segments ov s t idx \<le> idx" using assms unfolding next_start_def by (auto simp: max_def)
  show "\<not> ov > 0 \<Longrightarrow> next_start segments ov s t idx = idx" by (simp add: next_start_def)
qed

lemma fill_window_over:
  assumes ok: "texts_ok segs" and s: "s < length segs"
    and run: "fill_window m a (drop s segs) (open_window (segs ! s)) 0 s = (w, t, idx)"
  shows "window_over m segs (s, idx) w" "w_texts w \<noteq> []"
proof -
  have d: "drop s segs = segs ! s # drop (Suc s) segs" using s by (rule Cons_nth_drop_Suc [symmetric])
  have ok': "texts_ok (segs ! s # drop (Suc s) segs)" using ok by (simp flip: d) (meson in_set_dropD)
  from fill_window_spec [OF run [unfolded d] ok']
  have "window_over m segs (s, idx) w \<and> w_texts w \<noteq> []"
  proof
    assume cut: "estimateTokens (seg_text (segs ! s)) > m \<and> w = cut_segment m (open_window (segs ! s)) (segs ! s) \<and> idx = s + 1"
    then show ?thesis using s by (simp add: window_over_def cut_segment_def open_window_def)
  next
    assume "\<exists>k > 0. idx = s + k \<and> took_run m (segs ! s # drop (Suc s) segs) (open_window (segs ! s)) 0 w t k"
    then obtain k where k: "k > 0" "idx = s + k" "took_run m (drop s segs) (open_window (segs ! s)) 0 w t k"
      by (auto simp: d)
    then show ?thesis using s by (auto simp: window_over_def slice_def took_run_def open_window_def)
  qed
  then show "window_over m segs (s, idx) w" "w_texts w \<noteq> []" by simp_all
qed

lemma build_windows_covers:
  assumes ok: "texts_ok segs"
  shows "\<exists>rs. covers (\<not> ov > 0) (length segs) start rs
    \<and> list_all2 (window_over m segs) rs (build_windows m a ov segs start)"
proof (induction "length segs - start" arbitrary: start rule: less_induct)
  case less
  show ?case
  proof (cases "start < length segs")
    case False
    then show ?thesis by (intro exI [of _ "[]"]) (simp add: build_windows.simps)
  next
    case True
    obtain w t idx where run: "fill_window m a (drop start segs) (open_window (segs ! start)) 0 start = (w, t, idx)"
      by (cases "fill_window m a (drop start segs) (open_window (segs ! start)) 0 start")
    note over = fill_window_over [OF ok True run]
    let ?nxt = "next_start segs ov start t idx"
    have lt: "start < idx" "idx \<le> length segs" using over(1) by (simp_all add: window_over_def)
    note nxt = next_start_bounds [OF lt(1), where segments = segs and ov = ov and t = t]
    have "length segs - ?nxt < length segs - start" using nxt(1) True by linarith
    note smaller = less [OF this]
    obtain rs where rs: "covers (\<not> ov > 0) (length segs) ?nxt rs"
      "list_all2 (window_over m segs) rs (build_windows m a ov segs ?nxt)"
      using smaller by blast
    have "build_windows m a ov segs start = w # build_windows m a ov segs ?nxt"
      using True run over(2) by (subst build_windows.simps) simp
    moreover have "covers (\<not> ov > 0) (length segs) start ((start, idx) # rs)"
      using lt nxt rs(1) by auto
    ultimately show ?thesis using over(1) rs(2) by (intro exI [of _ "(start, idx) # rs"]) simp
  qed
qed

lemma slice_append_drop: "s \<le> e \<Longrightarrow> slice s e xs @ drop e xs = drop s xs"
proof -
  assume "s \<le> e"
  then have "drop e xs = drop (e - s) (drop s xs)" by simp
  then show ?thesis by (simp add: slice_def del: drop_drop)
qed

lemma covers_concat:
  "covers True (length xs) start rs \<Longrightarrow> concat (map (\<lambda>(s, e). slice s e xs) rs) = drop start xs"
proof (induction rs arbitrary: start)
  case Nil
  then show ?case by simp
next
  case (Cons r rs)
  obtain s e where r: "r = (s, e)" by force
  have "s = start" "s < e" "concat (map (\<lambda>(s, e). slice s e xs) rs) = drop e xs"
    using Cons by (auto simp: r)
  then show ?case using slice_append_drop [of s e xs] by (simp add: r)
qed

lemma covers_all:
  "covers exact (length xs) start rs \<Longrightarrow> set (drop start xs) \<subseteq> set (concat (map (\<lambda>(s, e). slice s e xs) rs))"
proof (induction rs arbitrary: start)
  case Nil
  then show ?case by simp
next
  case (Cons r rs)
  obtain s e where r: "r = (s, e)" by force
  obtain nxt where nxt: "s = start" "s < e" "e \<le> length xs" "nxt \<le> e" "covers exact (length xs) nxt rs"
    using Cons.prems by (auto simp: r)
  have "slice s e xs @ drop e xs = drop s xs" using nxt(2) by (simp add: slice_append_drop)
  moreover have "set (drop e xs) \<subseteq> set (drop nxt xs)" using nxt(4) by (rule set_drop_subset_set_drop)
  ultimately have "set (drop start xs) \<subseteq> set (slice s e xs) \<union> set (drop nxt xs)"
    using nxt(1) by (metis (no_types, lifting) Un_mono order_refl set_append)
  then show ?case using Cons.IH [OF nxt(5)] by (auto simp: r)
qed

lemma two_at_end: "length ws > 1 \<Longrightarrow> \<exists>us p l. ws = us @ [p, l]"
  by (cases ws rule: rev_cases; cases "butlast ws" rule: rev_cases) auto

lemma merge_trailing_two:
  "merge_trailing mt (us @ [p, l]) =
     (if estimateTokens (raw_content l) < mt \<and> w_breadcrumb l = w_breadcrumb p
      then us @ [p\<lparr>w_texts := w_texts p @ w_texts l, w_byteEnd := w_byteEnd l,
                   w_lineEnd := w_lineEnd l, w_pageEnd := w_pageEnd l\<rparr>]
      else us @ [p, l])"
  by (simp add: merge_trailing_def raw_content_def Let_def butlast_append)

lemma merge_trailing_cases:
  obtains "merge_trailing mt ws = ws"
  | us p l where "ws = us @ [p, l]" "estimateTokens (raw_content l) < mt" "w_breadcrumb l = w_breadcrumb p"
      "merge_trailing mt ws = us @ [p\<lparr>w_texts := w_texts p @ w_texts l, w_byteEnd := w_byteEnd l,
                   w_lineEnd := w_lineEnd l, w_pageEnd := w_pageEnd l\<rparr>]"
proof (cases "length ws > 1")
  case True
  then obtain us p l where ws: "ws = us @ [p, l]" using two_at_end by blast
  then show ?thesis using that merge_trailing_two [of mt us p l] by (cases "estimateTokens (raw_content l) < mt \<and> w_breadcrumb l = w_breadcrumb p") auto
next
  case False
  then show ?thesis using that(1) by (simp add: merge_trailing_def)
qed

lemma merge_trailing_texts: "concat (map w_texts (merge_trailing mt ws)) = concat (map w_texts ws)"
  by (rule merge_trailing_cases [of mt ws]) simp_all

subsection \<open>The artifacts\<close>

lemma length_link_siblings [simp]: "length (link_siblings as') = length as'"
  by (simp add: link_siblings_def)

lemma link_siblings_nth:
  assumes "i < length as'"
  shows "as_sparseText (link_siblings as' ! i) = as_sparseText (as' ! i)"
    "as_denseText (link_siblings as' ! i) = as_denseText (as' ! i)"
    "as_denseTextHash (link_siblings as' ! i) = as_denseTextHash (as' ! i)"
    "cm_estimatedTokens (as_metadata (link_siblings as' ! i)) = cm_estimatedTokens (as_metadata (as' ! i))"
    "cm_breadcrumb (as_metadata (link_siblings as' ! i)) = cm_breadcrumb (as_metadata (as' ! i))"
    "cm_chunkIndex (as_metadata (link_siblings as' ! i)) = cm_chunkIndex (as_metadata (as' ! i))"
    "cm_totalChunks (as_metadata (link_siblings as' ! i)) = cm_totalChunks (as_metadata (as' ! i))"
    "cm_siblingPrev (as_metadata (link_siblings as' ! i)) = (if i > 0 then Some (as_denseTextHash (as' ! (i - 1))) else None)"
    "cm_siblingNext (as_metadata (link_siblings as' ! i)) =
       (if i + 1 < length as' then Some (as_denseTextHash (as' ! (i + 1))) else None)"
  using assms by (simp_all add: link_siblings_def Let_def)

lemma walkToChunks_Some:
  assumes "walkToChunks sha256 root' opts = Some arts" and "walkDocNode root' \<noteq> []"
  obtains ws where "walk_windows root' opts = Some ws"
    and "arts = link_siblings (map (\<lambda>(i, win). make_artifact sha256 root' opts (length ws) i win) (enumerate 0 ws))"
  using assms by (auto simp: walkToChunks_def)

lemma sparse_texts:
  "map as_sparseText (link_siblings (map (\<lambda>(i, win). make_artifact sha256 root' opts n i win) (enumerate 0 ws)))
     = map raw_content ws"
  by (rule nth_equalityI) (simp_all add: link_siblings_nth nth_enumerate_eq make_artifact_def Let_def)

lemma not_cut:
  assumes "window_over m segs (s, e) w" and "\<forall>p \<in> set segs. estimateTokens (seg_text p) \<le> m"
  shows "w_texts w = map seg_text (slice s e segs)"
  using assms nth_mem [of s segs] by (fastforce simp: window_over_def)

lemma windows_texts:
  assumes "list_all2 (window_over m segs) rs ws" and "\<forall>p \<in> set segs. estimateTokens (seg_text p) \<le> m"
  shows "concat (map w_texts ws) = map seg_text (concat (map (\<lambda>(s, e). slice s e segs) rs))"
  using assms(1)
proof (induction rule: list_all2_induct)
  case (Cons r rs w ws)
  then show ?case using not_cut [OF _ assms(2)] by (cases r) simp
qed simp

text \<open>
  C31. With recursive splitting and a positive token limit the chunker always returns, and it loses
  no text: each chunk's text is a run of pieces joined by blank lines, and every segment of the
  document is a concatenation of pieces that occur in the chunks. Without overlap the pieces of all
  chunks, in order, are exactly the document's text, nothing lost or repeated.
\<close>

theorem chunks_lose_no_text:
  assumes rec: "wo_recursive opts = Some True" and m: "wo_maxTokens opts \<noteq> Some 0"
  shows "\<exists>arts groups. walkToChunks sha256 root' opts = Some arts
    \<and> map as_sparseText arts = map (join_with (js [CHR 0x0A, CHR 0x0A])) groups
    \<and> (\<forall>seg \<in> set (walkDocNode root'). \<exists>ps. concat ps = seg_text seg \<and> set ps \<subseteq> set (concat groups))
    \<and> (nullish (wo_overlap opts) 0 \<le> 0 \<longrightarrow>
         concat (concat groups) = concat (map seg_text (walkDocNode root')))"
proof (cases "walkDocNode root' = []")
  case True
  then show ?thesis by (intro exI [of _ "[]"]) (simp add: walkToChunks_def)
next
  case False
  define mt where "mt = nullish (wo_minTokens opts) (nullish (wo_maxTokens opts) 512 div 4)"
  define ov where "ov = min (max (nullish (wo_overlap opts) 0) 0) (9 / 10)"
  define mx where "mx = nullish (wo_maxTokens opts) 512"
  have "0 < mx" using m by (cases "wo_maxTokens opts") (simp_all add: mx_def)
  from split_all_spec [OF this walkDocNode_ok] obtain ps where ps: "split_all (walkDocNode root') mx = Some ps"
    "concat (map seg_text ps) = concat (map seg_text (walkDocNode root'))"
    "\<forall>p \<in> set ps. seg_text p \<noteq> [] \<and> estimateTokens (seg_text p) \<le> mx"
    "\<forall>s \<in> set (walkDocNode root'). \<exists>qs. concat qs = seg_text s \<and> set qs \<subseteq> seg_text ` set ps" by blast
  define bs where "bs = build_windows mx (nullish (wo_adaptiveSize opts) False) ov ps 0"
  define ws where "ws = merge_trailing mt bs"
  have win: "walk_windows root' opts = Some ws"
    using rec ps(1) by (simp add: walk_windows_def Let_def ws_def bs_def mt_def ov_def mx_def)
  obtain rs where rs: "covers (\<not> ov > 0) (length ps) 0 rs" "list_all2 (window_over mx ps) rs bs"
    using build_windows_covers [of ps ov 0 mx] ps(3) unfolding bs_def by blast
  have texts: "concat (map w_texts ws) = map seg_text (concat (map (\<lambda>(s, e). slice s e ps) rs))"
    using windows_texts [OF rs(2)] ps(3) by (simp add: ws_def merge_trailing_texts)
  have all: "seg_text ` set ps \<subseteq> set (concat (map w_texts ws))"
    using covers_all [OF rs(1)] unfolding texts by auto
  have exact: "concat (concat (map w_texts ws)) = concat (map seg_text (walkDocNode root'))"
    if "nullish (wo_overlap opts) 0 \<le> 0"
  proof -
    have "\<not> ov > 0" using that by (simp add: ov_def)
    then have "concat (map (\<lambda>(s, e). slice s e ps) rs) = ps" using covers_concat [of ps 0 rs] rs(1) by simp
    then show ?thesis using texts ps(2) by simp
  qed
  have pieces: "\<exists>qs. concat qs = seg_text seg \<and> set qs \<subseteq> set (concat (map w_texts ws))"
    if "seg \<in> set (walkDocNode root')" for seg
    using ps(4) that all by (meson subset_trans)
  have out: "walkToChunks sha256 root' opts = Some (link_siblings
      (map (\<lambda>(i, win). make_artifact sha256 root' opts (length ws) i win) (enumerate 0 ws)))"
    using False win by (simp add: walkToChunks_def)
  have sparse: "map as_sparseText (link_siblings
      (map (\<lambda>(i, win). make_artifact sha256 root' opts (length ws) i win) (enumerate 0 ws)))
      = map (join_with (js [CHR 0x0A, CHR 0x0A])) (map w_texts ws)"
    unfolding sparse_texts by (simp only: map_map comp_def raw_content_def [abs_def])
  show ?thesis
    unfolding out option.inject using pieces exact sparse by blast
qed

definition sample_attrs :: doc_attrs where
  "sample_attrs = \<lparr>da_headingLevel = None, da_byteStart = 0, da_byteEnd = 9, da_lineStart = None, da_lineEnd = None,
     da_pageNumber = None, da_citation = None, da_lang = None, da_codeLanguage = None, da_imports = None\<rparr>"

definition sample_doc :: doc_node where
  "sample_doc = DocNode Document None sample_attrs
     [DocNode Heading (Some (js ''T'')) sample_attrs [],
      DocNode Paragraph (Some (js ''abcdefg'')) sample_attrs [], DocNode Paragraph (Some (js ''hi'')) sample_attrs []]"

definition sample_walk_options :: walk_options where
  "sample_walk_options = \<lparr>wo_sourceFile = ''f'', wo_sourceFormat = ''md'', wo_commitHash = ''c'', wo_strategy = ''s'',
     wo_sparseTextGeneratorId = [], wo_metadataGeneratorId = [], wo_maxTokens = Some 1, wo_minTokens = Some 0,
     wo_overlap = None, wo_recursive = Some True, wo_adaptiveSize = None\<rparr>"

lemma chunks_lose_no_text_witness:
  "\<exists>arts groups. walkToChunks (\<lambda>_. ''h'') sample_doc sample_walk_options = Some arts
     \<and> map as_sparseText arts = map (join_with (js [CHR 0x0A, CHR 0x0A])) groups
     \<and> concat (concat groups) = js ''abcdefghi''"
proof -
  have "wo_recursive sample_walk_options = Some True" "wo_maxTokens sample_walk_options \<noteq> Some 0"
    "nullish (wo_overlap sample_walk_options) 0 \<le> (0 :: rat)" by (simp_all add: sample_walk_options_def)
  moreover have "concat (map seg_text (walkDocNode sample_doc)) = js ''abcdefghi''"
    by (simp add: walkDocNode_def sample_doc_def emitted_def truthy_def Let_def)
  ultimately show ?thesis
    using chunks_lose_no_text [of sample_walk_options "\<lambda>_. ''h''" sample_doc] by metis
qed

subsection \<open>The size of a chunk\<close>

lemma length_join: "ws \<noteq> [] \<Longrightarrow> length (join_with d ws) + length d = sum_list (map (\<lambda>w. length w + length d) ws)"
proof (induction d ws rule: join_with.induct)
  case (3 d w v ws)
  then show ?case by simp
qed simp_all

lemma length_sep [simp]: "length (js [CHR 0x0A, CHR 0x0A]) = 2"
  by (simp only: length_js) simp

lemma window_size:
  assumes "window_over m segs r w" and ok: "texts_ok segs"
  shows "w_texts w \<noteq> []" "length (raw_content w) \<le> 6 * m - 2"
proof -
  obtain s e where r: "r = (s, e)" by force
  have se: "s < e" "e \<le> length segs" using assms(1) by (simp_all add: window_over_def r)
  let ?x = "slice s e segs"
  have ne: "?x \<noteq> []" using se by (simp add: slice_def)
  have sub: "set ?x \<subseteq> set segs" unfolding slice_def by (meson in_set_dropD in_set_takeD subsetI)
  consider (whole) "w_texts w = map seg_text ?x" "tokens_of ?x \<le> m"
    | (cut) t where "w_texts w = [t]" "length t \<le> m * 4" "m < estimateTokens (seg_text (segs ! s))"
    using assms(1) by (auto simp: window_over_def r CHARS_PER_TOKEN_def)
  then have "w_texts w \<noteq> [] \<and> length (raw_content w) \<le> 6 * m - 2"
  proof cases
    case whole
    have "sum_list (map (\<lambda>p. length (seg_text p) + 2) ?x) \<le> sum_list (map (\<lambda>p. 6 * estimateTokens (seg_text p)) ?x)"
    proof (rule sum_list_mono)
      fix p
      assume "p \<in> set ?x"
      then have "0 < estimateTokens (seg_text p)" using sub ok estimateTokens_pos by blast
      then show "length (seg_text p) + 2 \<le> 6 * estimateTokens (seg_text p)"
        using length_le_tokens [of "seg_text p"] by linarith
    qed
    also have "\<dots> = 6 * tokens_of ?x" by (simp add: sum_list_const_mult)
    finally have "sum_list (map (\<lambda>t. length t + 2) (map seg_text ?x)) \<le> 6 * m" using whole(2) by (simp add: comp_def)
    moreover have "length (raw_content w) + 2 = sum_list (map (\<lambda>t. length t + 2) (map seg_text ?x))"
      unfolding raw_content_def whole(1)
      using length_join [of "map seg_text ?x" "js [CHR 0x0A, CHR 0x0A]"] ne by (simp only: length_sep) simp
    ultimately show ?thesis using whole(1) ne by simp
  next
    case cut
    have "length (raw_content w) = length t" by (simp add: raw_content_def cut(1))
    then show ?thesis using cut by (cases m) simp_all
  qed
  then show "w_texts w \<noteq> []" "length (raw_content w) \<le> 6 * m - 2" by simp_all
qed

lemma length_raw_append:
  assumes "w_texts p \<noteq> []" and "w_texts l \<noteq> []" and "w_texts q = w_texts p @ w_texts l"
  shows "length (raw_content q) = length (raw_content p) + 2 + length (raw_content l)"
proof -
  have "length (raw_content q) + 2 = (length (raw_content p) + 2) + (length (raw_content l) + 2)"
    unfolding raw_content_def assms(3)
    using length_join [of "w_texts p" "js [CHR 0x0A, CHR 0x0A]"] length_join [of "w_texts l" "js [CHR 0x0A, CHR 0x0A]"]
      length_join [of "w_texts p @ w_texts l" "js [CHR 0x0A, CHR 0x0A]"] assms(1,2) by simp
  then show ?thesis by simp
qed

lemma merged_size:
  assumes "\<forall>w \<in> set ws. w_texts w \<noteq> [] \<and> length (raw_content w) \<le> 6 * m - 2"
  shows "\<forall>w \<in> set (merge_trailing mt ws). 2 * estimateTokens (raw_content w) \<le> 3 * m + 2 * mt"
    "\<forall>w \<in> set (butlast (merge_trailing mt ws)). 2 * estimateTokens (raw_content w) \<le> 3 * m"
proof -
  have small: "2 * estimateTokens (raw_content w) \<le> 3 * m" if "w \<in> set ws" for w
  proof -
    have "length (raw_content w) \<le> 6 * m - 2" using assms that by blast
    then show ?thesis unfolding estimateTokens_def CHARS_PER_TOKEN_def by presburger
  qed
  have "(\<forall>w \<in> set (merge_trailing mt ws). 2 * estimateTokens (raw_content w) \<le> 3 * m + 2 * mt)
    \<and> (\<forall>w \<in> set (butlast (merge_trailing mt ws)). 2 * estimateTokens (raw_content w) \<le> 3 * m)"
  proof (rule merge_trailing_cases [of mt ws])
    assume "merge_trailing mt ws = ws"
    then show ?thesis using small by (auto dest!: in_set_butlastD intro: trans_le_add1)
  next
    fix us :: "window list" and p l :: window
    let ?q = "p\<lparr>w_texts := w_texts p @ w_texts l, w_byteEnd := w_byteEnd l, w_lineEnd := w_lineEnd l, w_pageEnd := w_pageEnd l\<rparr>"
    assume ws: "ws = us @ [p, l]" and short: "estimateTokens (raw_content l) < mt" and out: "merge_trailing mt ws = us @ [?q]"
    have "length (raw_content ?q) = length (raw_content p) + 2 + length (raw_content l)"
      using assms ws by (intro length_raw_append) auto
    moreover have "length (raw_content p) \<le> 6 * m - 2" using assms ws by auto
    moreover have "length (raw_content l) + 4 \<le> 4 * mt" using length_le_tokens [of "raw_content l"] short by linarith
    ultimately have "length (raw_content ?q) + 2 \<le> 6 * m + 4 * mt" by (cases m) simp_all
    then have "4 * estimateTokens (raw_content ?q) \<le> 6 * m + 4 * mt + 1"
      unfolding estimateTokens_def CHARS_PER_TOKEN_def by linarith
    then have "2 * estimateTokens (raw_content ?q) \<le> 3 * m + 2 * mt" by linarith
    moreover have "2 * estimateTokens (raw_content w) \<le> 3 * m" if "w \<in> set us" for w using small ws that by simp
    moreover have "set (us @ [?q]) = insert ?q (set us)" "butlast (us @ [?q]) = us" by simp_all
    ultimately show ?thesis unfolding out by (metis insertE trans_le_add1)
  qed
  then show "\<forall>w \<in> set (merge_trailing mt ws). 2 * estimateTokens (raw_content w) \<le> 3 * m + 2 * mt"
    "\<forall>w \<in> set (butlast (merge_trailing mt ws)). 2 * estimateTokens (raw_content w) \<le> 3 * m" by blast+
qed

lemma windows_of_walk:
  assumes "walk_windows root' opts = Some ws"
  obtains segs rs bs mt where "texts_ok segs" and "ws = merge_trailing mt bs"
    and "list_all2 (window_over (nullish (wo_maxTokens opts) 512) segs) rs bs"
    and "mt = nullish (wo_minTokens opts) (nullish (wo_maxTokens opts) 512 div 4)"
proof -
  define m where "m = nullish (wo_maxTokens opts) 512"
  define ov where "ov = min (max (nullish (wo_overlap opts) 0) 0) (9 / 10 :: rat)"
  obtain segs where segs: "(if nullish (wo_recursive opts) False then split_all (walkDocNode root') m
      else Some (walkDocNode root')) = Some segs"
    and ws: "ws = merge_trailing (nullish (wo_minTokens opts) (m div 4))
      (build_windows m (nullish (wo_adaptiveSize opts) False) ov segs 0)"
    using assms unfolding walk_windows_def Let_def m_def [symmetric] ov_def [symmetric] by (auto split: if_splits)
  have ok: "texts_ok segs"
  proof (cases "nullish (wo_recursive opts) False")
    case False
    then show ?thesis using segs walkDocNode_ok [of root'] by simp
  next
    case True
    then have split: "split_all (walkDocNode root') m = Some segs" using segs by simp
    show ?thesis
    proof (cases "m = 0")
      case False
      then show ?thesis using split_all_spec [OF _ walkDocNode_ok, of m root'] split by auto
    next
      case True
      then show ?thesis using split split_all_zero [OF walkDocNode_ok] by force
    qed
  qed
  obtain rs where "list_all2 (window_over m segs) rs (build_windows m (nullish (wo_adaptiveSize opts) False) ov segs 0)"
    using build_windows_covers [OF ok, of ov 0 m] by blast
  with that [OF ok ws [folded m_def]] show ?thesis by (simp add: m_def)
qed

text \<open>
  C32. The size of a chunk: whatever the options, its estimated tokens are at most one and a half
  times the token limit, plus the minimum for the last chunk, which may have absorbed a short one
  (the separators between its pieces and that merge are not counted by the limit).
\<close>

theorem chunk_size_bounded:
  assumes "walkToChunks sha256 root' opts = Some arts"
  defines "m \<equiv> nullish (wo_maxTokens opts) 512"
  shows "(\<forall>a \<in> set arts. 2 * cm_estimatedTokens (as_metadata a) \<le> 3 * m + 2 * nullish (wo_minTokens opts) (m div 4))
    \<and> (\<forall>a \<in> set (butlast arts). 2 * cm_estimatedTokens (as_metadata a) \<le> 3 * m)"
proof (cases "walkDocNode root' = []")
  case True
  then show ?thesis using assms(1) by (simp add: walkToChunks_def)
next
  case False
  obtain ws where ws: "walk_windows root' opts = Some ws"
    and arts: "arts = link_siblings (map (\<lambda>(i, win). make_artifact sha256 root' opts (length ws) i win) (enumerate 0 ws))"
    using walkToChunks_Some [OF assms(1) False] .
  obtain segs rs bs mt where b: "texts_ok segs" "ws = merge_trailing mt bs" "list_all2 (window_over m segs) rs bs"
    and mt: "mt = nullish (wo_minTokens opts) (m div 4)"
    using windows_of_walk [OF ws] unfolding m_def by metis
  have "\<forall>w \<in> set bs. w_texts w \<noteq> [] \<and> length (raw_content w) \<le> 6 * m - 2"
    using b(3) window_size [OF _ b(1)] by (induction rule: list_all2_induct) auto
  note sizes = merged_size [OF this, of mt, folded b(2)]
  have tokens: "map (\<lambda>a. cm_estimatedTokens (as_metadata a)) arts = map (\<lambda>w. estimateTokens (raw_content w)) ws"
    unfolding arts by (rule nth_equalityI) (simp_all add: link_siblings_nth nth_enumerate_eq make_artifact_def Let_def)
  have all: "set (map (\<lambda>a. cm_estimatedTokens (as_metadata a)) arts) = set (map (\<lambda>w. estimateTokens (raw_content w)) ws)"
    by (simp only: tokens)
  have most: "set (map (\<lambda>a. cm_estimatedTokens (as_metadata a)) (butlast arts))
      = set (map (\<lambda>w. estimateTokens (raw_content w)) (butlast ws))"
    using tokens by (simp only: map_butlast)
  show ?thesis
  proof (intro conjI ballI)
    fix a
    assume "a \<in> set arts"
    then have "cm_estimatedTokens (as_metadata a) \<in> (\<lambda>w. estimateTokens (raw_content w)) ` set ws"
      using all by (metis image_eqI list.set_map)
    then show "2 * cm_estimatedTokens (as_metadata a) \<le> 3 * m + 2 * nullish (wo_minTokens opts) (m div 4)"
      using sizes(1) mt by auto
  next
    fix a
    assume "a \<in> set (butlast arts)"
    then have "cm_estimatedTokens (as_metadata a) \<in> (\<lambda>w. estimateTokens (raw_content w)) ` set (butlast ws)"
      using most by (metis image_eqI list.set_map)
    then show "2 * cm_estimatedTokens (as_metadata a) \<le> 3 * m" using sizes(2) by auto
  qed
qed

lemma chunk_size_bounded_witness:
  "\<exists>arts. walkToChunks (\<lambda>_. ''h'') sample_doc sample_walk_options = Some arts
     \<and> arts \<noteq> [] \<and> (\<forall>a \<in> set (butlast arts). 2 * cm_estimatedTokens (as_metadata a) \<le> 3)"
proof -
  have "walkToChunks (\<lambda>_. ''h'') sample_doc sample_walk_options \<noteq> None
    \<and> walkToChunks (\<lambda>_. ''h'') sample_doc sample_walk_options \<noteq> Some []" by code_simp
  then obtain arts where a: "walkToChunks (\<lambda>_. ''h'') sample_doc sample_walk_options = Some arts" "arts \<noteq> []"
    by (cases "walkToChunks (\<lambda>_. ''h'') sample_doc sample_walk_options") auto
  from chunk_size_bounded [OF a(1)] have "\<forall>a \<in> set (butlast arts). 2 * cm_estimatedTokens (as_metadata a) \<le> 3"
    by (simp add: sample_walk_options_def)
  with a show ?thesis by blast
qed

text \<open>
  C33. The artifacts of a document are well-formed: each knows its position and their number, its
  embedding text is its breadcrumb and its raw text, its hash is that of the embedding text, and its
  sibling links are the hashes of the chunks before and after it, of whatever section these are.
\<close>

theorem artifacts_well_formed:
  assumes "walkToChunks sha256 root' opts = Some arts" and "i < length arts"
  defines "a \<equiv> arts ! i"
  shows "cm_chunkIndex (as_metadata a) = i \<and> cm_totalChunks (as_metadata a) = length arts
    \<and> as_denseText a = ast_makeDenseText (cm_breadcrumb (as_metadata a)) (as_sparseText a)
    \<and> as_denseTextHash a = take 16 (sha256 (as_denseText a))
    \<and> cm_siblingPrev (as_metadata a) = (if i = 0 then None else Some (as_denseTextHash (arts ! (i - 1))))
    \<and> cm_siblingNext (as_metadata a) = (if i + 1 = length arts then None else Some (as_denseTextHash (arts ! (i + 1))))"
proof -
  have "walkDocNode root' \<noteq> []" using assms(1,2) by (auto simp: walkToChunks_def split: if_splits)
  then obtain ws where arts: "arts = link_siblings (map (\<lambda>(i, win). make_artifact sha256 root' opts (length ws) i win) (enumerate 0 ws))"
    using walkToChunks_Some [OF assms(1)] by blast
  have i: "i < length ws" "length arts = length ws" using assms(2) unfolding arts by simp_all
  then show ?thesis
    unfolding a_def arts
    by (simp add: link_siblings_nth nth_enumerate_eq make_artifact_def Let_def ast_computeDenseTextHash_def)
qed

lemma artifacts_well_formed_witness:
  "\<exists>arts. walkToChunks (\<lambda>_. ''h'') sample_doc sample_walk_options = Some arts
     \<and> length arts = 3 \<and> cm_siblingPrev (as_metadata (arts ! 1)) = Some ''h''"
proof -
  let ?r = "walkToChunks (\<lambda>_. ''h'') sample_doc sample_walk_options"
  have "map_option (\<lambda>arts. (length arts, map as_denseTextHash arts)) ?r = Some (3, [''h'', ''h'', ''h''])" by code_simp
  then obtain arts where a: "?r = Some arts" "length arts = 3" "map as_denseTextHash arts = [''h'', ''h'', ''h'']"
    by (cases ?r) auto
  have "as_denseTextHash (arts ! 0) = ''h''" using a(3) by (metis length_map nth_Cons_0 nth_map a(2) zero_less_numeral)
  with artifacts_well_formed [OF a(1), of 1] a(2) have "cm_siblingPrev (as_metadata (arts ! 1)) = Some ''h''" by simp
  with a show ?thesis by blast
qed

text \<open>The separators are not counted: three full pieces of one token each make a chunk of four tokens
  under a limit of three.\<close>

definition three_pieces :: doc_node where
  "three_pieces = DocNode Document None sample_attrs
     (replicate 3 (DocNode Paragraph (Some (js ''abcd'')) sample_attrs []))"

lemma limit_exceeded_by_separators:
  "map_option (map (\<lambda>a. cm_estimatedTokens (as_metadata a)))
     (walkToChunks (\<lambda>_. ''h'') three_pieces (sample_walk_options\<lparr>wo_maxTokens := Some 3\<rparr>)) = Some [4]"
  by code_simp

end
