(* ===== verification/CheckboxNav.thy ===== *)
theory CheckboxNav
  imports Prelude
begin

section \<open>The keyboard-driven prompts\<close>

text \<open>
  \<open>src/packages/virage-cli/src/cli/checkbox-nav.ts\<close>: the multiple-choice prompt
  (\<open>checkboxWithBack\<close>) and the single-choice prompt (\<open>selectWithBack\<close>) as state machines.
  The state is what the \<open>useState\<close> hooks hold; a step handles one key press. The tests for keys
  (\<open>isUpKey\<close> and so on), the pagination of the list and the sequence that hides the cursor belong
  to \<open>@inquirer/core\<close> and \<open>@inquirer/ansi\<close> and are parameters.

  The position is an \<open>option\<close>: \<^const>\<open>None\<close> stands for \<open>NaN\<close>, which an arrow key yields on an
  empty list. A label that is the empty text does not disable its item, as in the code.
\<close>

subsection \<open>Items\<close>

record 'v nitem =
  nvalue :: 'v
  nname :: jstext
  nshort :: jstext
  nchecked :: bool
  ndisabled :: "jstext option"

datatype 'v item = SeparatorItem jstext | ChoiceItem "'v nitem"

datatype disabled_setting = DisabledFlag bool | DisabledLabel jstext

record 'v checkbox_choice =
  ch_name :: "jstext option"
  ch_value :: 'v
  ch_checked :: "bool option"
  ch_disabled :: "disabled_setting option"

datatype 'v choice = SeparatorChoice jstext | CheckboxChoice "'v checkbox_choice"

definition disabled_label :: "jstext option \<Rightarrow> bool" where
  "disabled_label l = (case l of None \<Rightarrow> False | Some t \<Rightarrow> t \<noteq> [])"

fun isSelectable :: "'v item \<Rightarrow> bool" where
  "isSelectable (SeparatorItem s) = False"
| "isSelectable (ChoiceItem n) = (\<not> disabled_label (ndisabled n))"

fun isNavigable :: "'v item \<Rightarrow> bool" where
  "isNavigable (SeparatorItem s) = False"
| "isNavigable (ChoiceItem n) = True"

fun isChecked :: "'v item \<Rightarrow> bool" where
  "isChecked (SeparatorItem s) = False"
| "isChecked (ChoiceItem n) = nchecked n"

definition set_checked :: "bool \<Rightarrow> 'v item \<Rightarrow> 'v item" where
  "set_checked b x =
     (case x of SeparatorItem s \<Rightarrow> x | ChoiceItem n \<Rightarrow> ChoiceItem (n\<lparr>nchecked := b\<rparr>))"

definition toggle :: "'v item \<Rightarrow> 'v item" where
  "toggle x = (if isSelectable x then set_checked (\<not> isChecked x) x else x)"

definition checkAll :: "bool \<Rightarrow> 'v item \<Rightarrow> 'v item" where
  "checkAll b x = (if isSelectable x then set_checked b x else x)"

fun normalize_disabled :: "disabled_setting option \<Rightarrow> jstext option" where
  "normalize_disabled None = None"
| "normalize_disabled (Some (DisabledFlag True)) = Some (js ''(disabled)'')"
| "normalize_disabled (Some (DisabledFlag False)) = None"
| "normalize_disabled (Some (DisabledLabel l)) = Some l"

text \<open>\<open>show_value\<close> is \<open>String(\<dots>)\<close> at the type of the values.\<close>

fun normalizeChoice :: "('v \<Rightarrow> jstext) \<Rightarrow> 'v choice \<Rightarrow> 'v item" where
  "normalizeChoice show_value (SeparatorChoice s) = SeparatorItem s"
| "normalizeChoice show_value (CheckboxChoice c) =
     (let name = (case ch_name c of Some n \<Rightarrow> n | None \<Rightarrow> show_value (ch_value c))
      in ChoiceItem \<lparr>nvalue = ch_value c, nname = name, nshort = name,
           nchecked = (case ch_checked c of Some b \<Rightarrow> b | None \<Rightarrow> False),
           ndisabled = normalize_disabled (ch_disabled c)\<rparr>)"

definition normalizeChoices :: "('v \<Rightarrow> jstext) \<Rightarrow> 'v choice list \<Rightarrow> 'v item list" where
  "normalizeChoices show_value choices = map (normalizeChoice show_value) choices"

text \<open>\<open>findIndex\<close>, with \<^const>\<open>None\<close> for -1, and the loop that looks for the last navigable item.\<close>

fun find_index :: "('a \<Rightarrow> bool) \<Rightarrow> 'a list \<Rightarrow> nat option" where
  "find_index P [] = None"
| "find_index P (x # xs) = (if P x then Some 0 else map_option Suc (find_index P xs))"

fun last_navigable_below :: "'v item list \<Rightarrow> nat \<Rightarrow> nat" where
  "last_navigable_below items 0 = 0"
| "last_navigable_below items (Suc i) =
     (if isNavigable (items ! i) then i else last_navigable_below items i)"

definition findLastNavigable :: "'v item list \<Rightarrow> nat" where
  "findLastNavigable items = last_navigable_below items (length items)"

definition item_bounds :: "'v item list \<Rightarrow> nat \<times> nat" where
  "item_bounds items =
     ((case find_index isNavigable items of None \<Rightarrow> 0 | Some i \<Rightarrow> i), findLastNavigable items)"

subsection \<open>State and keys\<close>

record 'v checkbox =
  cb_done :: bool
  cb_items :: "'v item list"
  cb_active :: "nat option"
  cb_error :: "jstext option"

definition checkbox_start :: "('v \<Rightarrow> jstext) \<Rightarrow> 'v choice list \<Rightarrow> 'v checkbox" where
  "checkbox_start show_value choices =
     (let items = normalizeChoices show_value choices
      in \<lparr>cb_done = False, cb_items = items, cb_active = Some (fst (item_bounds items)), cb_error = None\<rparr>)"

record keypress =
  key_name :: string
  key_ctrl :: bool

record key_tests =
  isBackspaceKey :: "keypress \<Rightarrow> bool"
  isEnterKey :: "keypress \<Rightarrow> bool"
  isUpKey :: "keypress \<Rightarrow> bool"
  isDownKey :: "keypress \<Rightarrow> bool"
  isSpaceKey :: "keypress \<Rightarrow> bool"
  isNumberKey :: "keypress \<Rightarrow> bool"

datatype 'a answer = Back | Answer 'a

datatype ('s, 'a) prompt = Running 's | Answered 's 'a | Exited

definition item_at :: "'a list \<Rightarrow> nat option \<Rightarrow> 'a option" where
  "item_at xs p = (case p of None \<Rightarrow> None | Some i \<Rightarrow> if i < length xs then Some (xs ! i) else None)"

text \<open>A missing item is not a separator, hence navigable; \<open>NaN\<close> differs from itself.\<close>

definition stops_at :: "'v item list \<Rightarrow> nat option \<Rightarrow> nat option \<Rightarrow> bool" where
  "stops_at items active p =
     ((case item_at items p of None \<Rightarrow> True | Some x \<Rightarrow> isNavigable x) \<or> (p \<noteq> None \<and> p = active))"

definition shift_index :: "nat \<Rightarrow> int \<Rightarrow> nat option \<Rightarrow> nat option" where
  "shift_index n offset p =
     (case p of None \<Rightarrow> None
      | Some i \<Rightarrow> if n = 0 then None else Some (nat ((int i + offset + int n) mod int n)))"

partial_function (option) navigate ::
  "'v item list \<Rightarrow> int \<Rightarrow> nat option \<Rightarrow> nat option \<Rightarrow> nat option option" where
  "navigate items offset active p =
     (let q = shift_index (length items) offset p
      in if stops_at items active q then Some q else navigate items offset active q)"

text \<open>
  The position of a number key: the search counts the items that are not separators. The names
  \<open>isNumberKey\<close> accepts are digits.
\<close>

definition digits_value :: "string \<Rightarrow> int" where
  "digits_value s = foldl (\<lambda>n c. 10 * n + (of_char c - 48)) 0 s"

fun nth_choice_from :: "'v item list \<Rightarrow> int \<Rightarrow> int \<Rightarrow> nat option" where
  "nth_choice_from [] idx selIdx = None"
| "nth_choice_from (x # xs) idx selIdx =
     (if \<not> isNavigable x then map_option Suc (nth_choice_from xs idx selIdx)
      else if selIdx + 1 = idx then Some 0
      else map_option Suc (nth_choice_from xs idx (selIdx + 1)))"

definition toggle_at :: "nat option \<Rightarrow> 'v item list \<Rightarrow> 'v item list" where
  "toggle_at p items = map (\<lambda>(i, x). if Some i = p then toggle x else x) (enumerate 0 items)"

definition checked_values :: "'v item list \<Rightarrow> 'v list" where
  "checked_values items =
     concat (map (\<lambda>x. case x of SeparatorItem s \<Rightarrow> [] | ChoiceItem n \<Rightarrow> [nvalue n]) (filter isChecked items))"

definition DISABLED_ERROR :: jstext where
  "DISABLED_ERROR = js ''This option is disabled and cannot be toggled.''"

definition press_space :: "'v checkbox \<Rightarrow> 'v checkbox" where
  "press_space s =
     (case item_at (cb_items s) (cb_active s) of
        None \<Rightarrow> s
      | Some (SeparatorItem t) \<Rightarrow> s
      | Some (ChoiceItem n) \<Rightarrow>
          if disabled_label (ndisabled n) then s\<lparr>cb_error := Some DISABLED_ERROR\<rparr>
          else s\<lparr>cb_error := None, cb_items := toggle_at (cb_active s) (cb_items s)\<rparr>)"

definition press_number :: "string \<Rightarrow> 'v checkbox \<Rightarrow> 'v checkbox" where
  "press_number name s =
     (let pos = nth_choice_from (cb_items s) (digits_value name - 1) (- 1)
      in case item_at (cb_items s) pos of
           None \<Rightarrow> s
         | Some x \<Rightarrow>
             if isSelectable x then s\<lparr>cb_active := pos, cb_items := toggle_at pos (cb_items s)\<rparr> else s)"

definition checkbox_key :: "key_tests \<Rightarrow> keypress \<Rightarrow> 'v checkbox \<Rightarrow> ('v checkbox, 'v list answer) prompt option" where
  "checkbox_key t k s =
     (if isBackspaceKey t k then Some (Answered (s\<lparr>cb_done := True\<rparr>) Back)
      else if key_ctrl k \<and> key_name k = ''x'' then Some Exited
      else if isEnterKey t k then
        Some (Answered (s\<lparr>cb_done := True\<rparr>) (Answer (checked_values (cb_items s))))
      else if isUpKey t k \<or> isDownKey t k then
        Option.bind (navigate (cb_items s) (if isUpKey t k then - 1 else 1) (cb_active s) (cb_active s))
          (\<lambda>next. Some (Running (s\<lparr>cb_error := None, cb_active := next\<rparr>)))
      else if isSpaceKey t k then Some (Running (press_space s))
      else if key_name k = ''a'' then
        (let selectAll = list_ex (\<lambda>x. isSelectable x \<and> \<not> isChecked x) (cb_items s)
         in Some (Running (s\<lparr>cb_items := map (checkAll selectAll) (cb_items s)\<rparr>)))
      else if key_name k = ''i'' then Some (Running (s\<lparr>cb_items := map toggle (cb_items s)\<rparr>))
      else if isNumberKey t k then Some (Running (press_number (key_name k) s))
      else Some (Running s))"

text \<open>One key press, and the prompts a start state can become. A settled prompt takes no keys.\<close>

inductive checkbox_step ::
  "key_tests \<Rightarrow> ('v checkbox, 'v list answer) prompt \<Rightarrow> keypress \<Rightarrow> ('v checkbox, 'v list answer) prompt \<Rightarrow> bool"
  for t where
  press: "checkbox_key t k s = Some p \<Longrightarrow> checkbox_step t (Running s) k p"

inductive checkbox_run ::
  "key_tests \<Rightarrow> 'v checkbox \<Rightarrow> keypress list \<Rightarrow> ('v checkbox, 'v list answer) prompt \<Rightarrow> bool"
  for t s0 where
  start: "checkbox_run t s0 [] (Running s0)"
| step: "checkbox_run t s0 ks p \<Longrightarrow> checkbox_step t p k q \<Longrightarrow> checkbox_run t s0 (ks @ [k]) q"

inductive_cases checkbox_stepE: "checkbox_step t p k q"
inductive_simps checkbox_step_iff: "checkbox_step t (Running s) k q"
inductive_simps checkbox_step_settled: "checkbox_step t (Answered s a) k q" "checkbox_step t Exited k q"

subsection \<open>What the prompt shows\<close>

definition ansi :: "string \<Rightarrow> jstext \<Rightarrow> jstext" where
  "ansi code s = 27 # js ''['' @ js code @ js ''m'' @ s @ 27 # js ''[0m''"

definition bold_text :: "jstext \<Rightarrow> jstext" where "bold_text = ansi ''1''"
definition dim_text :: "jstext \<Rightarrow> jstext" where "dim_text = ansi ''2''"
definition green_text :: "jstext \<Rightarrow> jstext" where "green_text = ansi ''32''"
definition cyan_text :: "jstext \<Rightarrow> jstext" where "cyan_text = ansi ''36''"
definition red_text :: "jstext \<Rightarrow> jstext" where "red_text = ansi ''31''"

definition formatHelpTip :: "(jstext \<times> jstext) list \<Rightarrow> jstext" where
  "formatHelpTip keys =
     join_with (dim_text [32, 0x2022, 32]) (map (\<lambda>(k, a). bold_text k @ [32] @ dim_text a) keys)"

definition HELP_KEYS :: "(jstext \<times> jstext) list" where
  "HELP_KEYS =
     [([0x2191, 0x2193], js ''navigate''), (js ''space'', js ''select''), (js ''a'', js ''all''),
      (js ''i'', js ''invert''), ([0x23CE], js ''submit''), ([0x232B], js ''back''), (0x2303 # js ''x'', js ''exit'')]"

definition SELECT_HELP_KEYS :: "(jstext \<times> jstext) list" where
  "SELECT_HELP_KEYS =
     [([0x2191, 0x2193], js ''navigate''), ([0x23CE], js ''confirm''), ([0x232B], js ''back''), (0x2303 # js ''x'', js ''exit'')]"

fun renderItem :: "'v item \<Rightarrow> bool \<Rightarrow> jstext" where
  "renderItem (SeparatorItem s) isActive = 32 # s"
| "renderItem (ChoiceItem n) isActive =
     (let cursor = (if isActive then cyan_text [0x276F] else [32]) in
      if disabled_label (ndisabled n) then
        (let lbl = (case ndisabled n of Some l \<Rightarrow> l | None \<Rightarrow> js ''(disabled)'');
             icon = (if nchecked n then dim_text [0x25C9] else dim_text (js ''-''))
         in dim_text (cursor @ icon @ [32] @ nname n @ [32] @ lbl))
      else
        (let icon = (if nchecked n then green_text [0x25CF] else [0x25CB]);
             name = (if isActive then cyan_text (nname n) else nname n)
         in cursor @ icon @ [32] @ name))"

definition trim_end :: "jstext \<Rightarrow> jstext" where
  "trim_end s = List.rev (dropWhile js_space (List.rev s))"

definition short_names :: "'v item list \<Rightarrow> jstext list" where
  "short_names items =
     concat (map (\<lambda>x. case x of SeparatorItem s \<Rightarrow> [] | ChoiceItem n \<Rightarrow> [nshort n]) (filter isChecked items))"

text \<open>\<open>paginate\<close> is \<open>usePagination\<close>: items, position, page size, \<open>loop\<close> and the function that renders one.\<close>

definition render_checkbox ::
  "('v item list \<Rightarrow> nat option \<Rightarrow> nat \<Rightarrow> bool \<Rightarrow> ('v item \<Rightarrow> bool \<Rightarrow> jstext) \<Rightarrow> jstext) \<Rightarrow> jstext \<Rightarrow>
   jstext \<Rightarrow> nat option \<Rightarrow> 'v checkbox \<Rightarrow> jstext" where
  "render_checkbox paginate cursorHide title pageSize s =
     (let msg = bold_text title in
      if cb_done s then
        (let names = join_with (js '', '') (short_names (cb_items s));
             answer = dim_text (if names = [] then js ''(none)'' else names)
         in green_text [0x2714] @ [32] @ msg @ [32] @ answer)
      else
        (let page = paginate (cb_items s) (cb_active s) (case pageSize of Some n \<Rightarrow> n | None \<Rightarrow> 7) True renderItem;
             parts = [js ''? '' @ msg, page,
               (case cb_error s of None \<Rightarrow> [] | Some e \<Rightarrow> if e = [] then [] else red_text (js ''>> '' @ e)),
               formatHelpTip HELP_KEYS]
         in trim_end (join_with [10] (filter (\<lambda>x. x \<noteq> []) parts)) @ cursorHide))"

subsection \<open>The single-choice prompt\<close>

record 'v select_choice =
  sc_name :: jstext
  sc_value :: 'v

record select_state =
  sel_done :: bool
  sel_active :: "nat option"

text \<open>\<open>Math.max(0, \<dots>)\<close> turns a default that is not among the choices into the first one.\<close>

definition default_index :: "'v select_choice list \<Rightarrow> 'v option \<Rightarrow> nat" where
  "default_index choices dflt =
     (case dflt of None \<Rightarrow> 0
      | Some v \<Rightarrow> (case find_index (\<lambda>c. sc_value c = v) choices of None \<Rightarrow> 0 | Some i \<Rightarrow> i))"

definition select_start :: "'v select_choice list \<Rightarrow> 'v option \<Rightarrow> select_state" where
  "select_start choices dflt = \<lparr>sel_done = False, sel_active = Some (default_index choices dflt)\<rparr>"

text \<open>Confirming without a choice reads \<open>value\<close> of \<open>undefined\<close>, which throws.\<close>

definition select_key ::
  "key_tests \<Rightarrow> 'v select_choice list \<Rightarrow> keypress \<Rightarrow> select_state \<Rightarrow> js_error + (select_state, 'v answer) prompt" where
  "select_key t choices k s =
     (if isBackspaceKey t k then Inr (Answered (s\<lparr>sel_done := True\<rparr>) Back)
      else if key_ctrl k \<and> key_name k = ''x'' then Inr Exited
      else if isEnterKey t k then
        (case item_at choices (sel_active s) of
           None \<Rightarrow> Inl (Err EError ''TypeError: Cannot read properties of undefined (reading 'value')'')
         | Some c \<Rightarrow> Inr (Answered (s\<lparr>sel_done := True\<rparr>) (Answer (sc_value c))))
      else if isUpKey t k \<or> isDownKey t k then
        Inr (Running (s\<lparr>sel_active :=
          shift_index (length choices) (if isUpKey t k then - 1 else 1) (sel_active s)\<rparr>))
      else Inr (Running s))"

definition renderSelectItem :: "'v item \<Rightarrow> bool \<Rightarrow> jstext" where
  "renderSelectItem x isActive =
     (case x of
        SeparatorItem s \<Rightarrow> (if isActive then cyan_text [0x276F] else [32]) @ [32]
      | ChoiceItem n \<Rightarrow>
          (if isActive then cyan_text [0x276F] else [32]) @ [32]
            @ (if isActive then cyan_text (nname n) else nname n))"

definition select_items :: "'v select_choice list \<Rightarrow> 'v item list" where
  "select_items choices =
     map (\<lambda>c. ChoiceItem \<lparr>nvalue = sc_value c, nname = sc_name c, nshort = sc_name c, nchecked = False,
       ndisabled = None\<rparr>) choices"

definition render_select ::
  "('v item list \<Rightarrow> nat option \<Rightarrow> nat \<Rightarrow> bool \<Rightarrow> ('v item \<Rightarrow> bool \<Rightarrow> jstext) \<Rightarrow> jstext) \<Rightarrow> jstext \<Rightarrow>
   jstext \<Rightarrow> nat option \<Rightarrow> 'v select_choice list \<Rightarrow> select_state \<Rightarrow> jstext" where
  "render_select paginate cursorHide title pageSize choices s =
     (let msg = bold_text title in
      if sel_done s then
        green_text [0x2714] @ [32] @ msg @ [32]
          @ dim_text (case item_at choices (sel_active s) of None \<Rightarrow> [] | Some c \<Rightarrow> sc_name c)
      else
        (let page = paginate (select_items choices) (sel_active s)
               (case pageSize of Some n \<Rightarrow> n | None \<Rightarrow> 7) True renderSelectItem
         in trim_end (join_with [10] (filter (\<lambda>x. x \<noteq> []) [js ''? '' @ msg, page, formatHelpTip SELECT_HELP_KEYS]))
              @ cursorHide))"

subsection \<open>Moving the cursor\<close>

text \<open>Steps left from \<open>p\<close> to \<open>i\<close> when moving by \<open>offset\<close> around \<open>n\<close> places.\<close>

definition steps_to :: "nat \<Rightarrow> int \<Rightarrow> nat \<Rightarrow> nat \<Rightarrow> nat" where
  "steps_to n offset i p = nat ((offset * (int i - int p)) mod int n)"

lemma shift_index_Some:
  assumes "p < n"
  shows "\<exists>q < n. shift_index n offset (Some p) = Some q"
  using assms by (auto simp: shift_index_def nat_less_iff)

lemma steps_to_shift:
  assumes "shift_index n offset (Some p) = Some q" and "p < n" and "offset = 1 \<or> offset = - 1"
    and "steps_to n offset i p = Suc d"
  shows "steps_to n offset i q = d"
proof -
  have n: "0 < n" using assms(2) by simp
  have q: "int q = (int p + offset + int n) mod int n"
    using assms(1) n by (auto simp: shift_index_def split: if_splits)
  have one: "offset * offset = 1" using assms(3) by auto
  have "(offset * (int i - int q)) mod int n = (offset * (int i - (int p + offset + int n))) mod int n"
    unfolding q by (metis mod_diff_right_eq mod_mult_right_eq)
  also have "offset * (int i - (int p + offset + int n)) = (offset * (int i - int p) - 1) + (- offset) * int n"
    using one by (simp add: algebra_simps)
  also have "\<dots> mod int n = (offset * (int i - int p) - 1) mod int n" by (rule mod_mult_self1)
  also have "\<dots> = ((offset * (int i - int p)) mod int n - 1) mod int n" by (simp add: mod_diff_left_eq)
  also have "(offset * (int i - int p)) mod int n = int (Suc d)"
    using assms(4) n by (simp add: steps_to_def)
  finally have m: "(offset * (int i - int q)) mod int n = int d mod int n" by simp
  have "(offset * (int i - int p)) mod int n = int (Suc d)"
    using assms(4) n by (simp add: steps_to_def)
  then have "int (Suc d) < int n"
    using n pos_mod_bound [of "int n" "offset * (int i - int p)"] by linarith
  then have "int d mod int n = int d" by simp
  then show ?thesis using m by (simp add: steps_to_def)
qed

lemma steps_to_0:
  assumes "steps_to n offset i p = 0" and "p < n" and "i < n" and "offset = 1 \<or> offset = - 1"
  shows "p = i"
proof -
  have n: "0 < int n" using assms(2) by simp
  have "(offset * (int i - int p)) mod int n = 0"
    using assms(1) pos_mod_sign [OF n, of "offset * (int i - int p)"] by (simp add: steps_to_def)
  then have "int n dvd offset * (int i - int p)" by (rule mod_0_imp_dvd)
  then have dvd: "int n dvd int i - int p"
    using assms(4) by (auto simp: dvd_diff_commute)
  have "\<bar>int i - int p\<bar> < int n" using assms(2,3) by simp
  then show ?thesis using dvd zdvd_not_zless [of "\<bar>int i - int p\<bar>" "int n"] by force
qed

definition cursor_place :: "'v item list \<Rightarrow> nat \<Rightarrow> nat \<Rightarrow> bool" where
  "cursor_place items a j = (isNavigable (items ! j) \<or> j = a)"

lemma stops_at_place:
  "j < length items \<Longrightarrow> stops_at items (Some a) (Some j) = cursor_place items a j"
  by (simp add: stops_at_def item_at_def cursor_place_def)

lemma navigate_towards:
  assumes "steps_to (length items) offset i p = Suc d" and "p < length items" and "i < length items"
    and "offset = 1 \<or> offset = - 1" and "cursor_place items a i"
  shows "\<exists>j < length items. navigate items offset (Some a) (Some p) = Some (Some j)
      \<and> cursor_place items a j \<and> steps_to (length items) offset i j \<le> d"
  using assms(1,2)
proof (induction d arbitrary: p)
  case 0
  obtain q where q: "q < length items" "shift_index (length items) offset (Some p) = Some q"
    using shift_index_Some [OF 0(2)] by blast
  have z: "steps_to (length items) offset i q = 0"
    by (rule steps_to_shift [OF q(2) 0(2) assms(4) 0(1)])
  have "q = i" by (rule steps_to_0 [OF z q(1) assms(3,4)])
  then have "navigate items offset (Some a) (Some p) = Some (Some q)"
    using q assms(5) by (subst navigate.simps) (simp add: Let_def stops_at_place)
  then show ?case using q(1) z \<open>q = i\<close> assms(5) by auto
next
  case (Suc d)
  obtain q where q: "q < length items" "shift_index (length items) offset (Some p) = Some q"
    using shift_index_Some [OF Suc(3)] by blast
  have z: "steps_to (length items) offset i q = Suc d"
    by (rule steps_to_shift [OF q(2) Suc(3) assms(4) Suc(2)])
  show ?case
  proof (cases "cursor_place items a q")
    case True
    then have "navigate items offset (Some a) (Some p) = Some (Some q)"
      using q by (subst navigate.simps) (simp add: Let_def stops_at_place)
    then show ?thesis using q(1) z True by auto
  next
    case False
    then have go: "navigate items offset (Some a) (Some p) = navigate items offset (Some a) (Some q)"
      using q by (subst navigate.simps) (simp add: Let_def stops_at_place)
    show ?thesis using Suc.IH [OF z q(1)] go by (metis le_SucI)
  qed
qed

lemma navigate_returns:
  assumes "a < length items" and "offset = 1 \<or> offset = - 1"
  shows "\<exists>j < length items. navigate items offset (Some a) (Some a) = Some (Some j) \<and> cursor_place items a j"
proof -
  obtain q where q: "q < length items" "shift_index (length items) offset (Some a) = Some q"
    using shift_index_Some [OF assms(1)] by blast
  show ?thesis
  proof (cases "cursor_place items a q")
    case True
    then have "navigate items offset (Some a) (Some a) = Some (Some q)"
      using q by (subst navigate.simps) (simp add: Let_def stops_at_place)
    then show ?thesis using q(1) True by auto
  next
    case False
    then have go: "navigate items offset (Some a) (Some a) = navigate items offset (Some a) (Some q)"
      using q by (subst navigate.simps) (simp add: Let_def stops_at_place)
    have "q \<noteq> a" using False by (auto simp: cursor_place_def)
    then obtain d where "steps_to (length items) offset a q = Suc d"
      using steps_to_0 [OF _ q(1) assms(1,2)] by (metis not0_implies_Suc)
    from navigate_towards [OF this q(1) assms(1,2), of a] show ?thesis
      using go by (auto simp: cursor_place_def)
  qed
qed

lemma navigate_empty: "navigate [] offset p q = Some None"
  by (subst navigate.simps) (simp add: shift_index_def stops_at_def item_at_def split: option.splits)

subsection \<open>What the prompt keeps\<close>

definition item_evolves :: "'v item \<Rightarrow> 'v item \<Rightarrow> bool" where
  "item_evolves x y = (y = set_checked (isChecked y) x \<and> (isSelectable x \<or> y = x))"

lemma set_checked_simps [simp]:
  "isNavigable (set_checked b x) = isNavigable x"
  "isSelectable (set_checked b x) = isSelectable x"
  "set_checked b (set_checked c x) = set_checked b x"
  "set_checked (isChecked x) x = x"
  "isChecked (set_checked b x) = (isNavigable x \<and> b)"
  by (cases x; simp add: set_checked_def)+

lemma selectable_navigable: "isSelectable x \<Longrightarrow> isNavigable x"
  by (cases x) simp_all

lemma item_evolves_refl [simp]: "item_evolves x x"
  by (simp add: item_evolves_def)

lemma item_evolves_navigable: "item_evolves x y \<Longrightarrow> isNavigable y = isNavigable x"
  unfolding item_evolves_def by (metis set_checked_simps(1))

lemma item_evolves_selectable: "item_evolves x y \<Longrightarrow> isSelectable y = isSelectable x"
  unfolding item_evolves_def by (metis set_checked_simps(2))

lemma item_evolves_set:
  assumes "item_evolves x y" and "isSelectable y"
  shows "item_evolves x (set_checked b y)"
proof -
  have x: "isSelectable x" using item_evolves_selectable [OF assms(1)] assms(2) by simp
  have "y = set_checked (isChecked y) x" using assms(1) by (simp add: item_evolves_def)
  then have "set_checked b y = set_checked b x" by (metis set_checked_simps(3))
  then show ?thesis using x selectable_navigable [OF x] by (simp add: item_evolves_def)
qed

lemma item_evolves_changes:
  assumes "item_evolves x y"
  shows "item_evolves x (toggle y)" and "item_evolves x (checkAll b y)"
  using assms item_evolves_set [OF assms] by (simp_all add: toggle_def checkAll_def)

lemma toggle_at_eq:
  "toggle_at p items
    = (case p of None \<Rightarrow> items | Some i \<Rightarrow> if i < length items then items[i := toggle (items ! i)] else items)"
  by (rule nth_equalityI)
    (auto simp: toggle_at_def nth_enumerate_eq nth_list_update split: option.splits)

definition items_evolve :: "'v item list \<Rightarrow> 'v item list \<Rightarrow> bool" where
  "items_evolve xs ys = list_all2 item_evolves xs ys"

lemma items_evolve_length: "items_evolve xs ys \<Longrightarrow> length ys = length xs"
  unfolding items_evolve_def by (drule list_all2_lengthD) simp

lemma items_evolve_nth: "items_evolve xs ys \<Longrightarrow> i < length xs \<Longrightarrow> item_evolves (xs ! i) (ys ! i)"
  by (simp add: items_evolve_def list_all2_nthD)

lemma items_evolve_refl: "items_evolve xs xs"
  by (simp add: items_evolve_def list.rel_refl)

lemma items_evolve_map:
  assumes "items_evolve xs ys" and "\<And>x y. item_evolves x y \<Longrightarrow> item_evolves x (f y)"
  shows "items_evolve xs (map f ys)"
  using assms unfolding items_evolve_def by (simp add: list_all2_conv_all_nth)

lemma items_evolve_toggle_at:
  assumes "items_evolve xs ys"
  shows "items_evolve xs (toggle_at p ys)"
  using assms
  by (auto simp: items_evolve_def toggle_at_eq list_all2_conv_all_nth nth_list_update
      item_evolves_changes(1) split: option.splits)

definition cursor_ok :: "'v item list \<Rightarrow> nat option \<Rightarrow> bool" where
  "cursor_ok items p =
     (items = [] \<or>
      (case p of None \<Rightarrow> False
       | Some a \<Rightarrow> a < length items \<and> (list_ex isNavigable items \<longrightarrow> isNavigable (items ! a))))"

definition checkbox_ok :: "'v item list \<Rightarrow> 'v checkbox \<Rightarrow> bool" where
  "checkbox_ok items s =
     (items_evolve items (cb_items s) \<and> cursor_ok items (cb_active s) \<and> \<not> cb_done s
      \<and> cb_error s \<in> {None, Some DISABLED_ERROR})"

lemma find_index_SomeD: "find_index P xs = Some i \<Longrightarrow> i < length xs \<and> P (xs ! i)"
  by (induction xs arbitrary: i) (auto split: if_splits)

lemma find_index_None: "find_index P xs = None \<Longrightarrow> \<not> list_ex P xs"
  by (induction xs) (auto split: if_splits)

lemma checkbox_start_ok: "checkbox_ok (normalizeChoices show choices) (checkbox_start show choices)"
  using find_index_SomeD [of isNavigable "normalizeChoices show choices"]
    find_index_None [of isNavigable "normalizeChoices show choices"]
  by (auto simp: checkbox_ok_def checkbox_start_def Let_def items_evolve_refl item_bounds_def cursor_ok_def
      split: option.splits)

lemma navigate_cursor_ok:
  assumes "items_evolve items ys" and "cursor_ok items p" and "offset = 1 \<or> offset = - 1"
  shows "\<exists>q. navigate ys offset p p = Some q \<and> cursor_ok items q"
proof (cases "items = []")
  case True
  then show ?thesis using assms(1) by (simp add: items_evolve_def navigate_empty cursor_ok_def)
next
  case False
  then obtain a where a: "p = Some a" "a < length items" "list_ex isNavigable items \<longrightarrow> isNavigable (items ! a)"
    using assms(2) by (auto simp: cursor_ok_def split: option.splits)
  have len: "length ys = length items" by (rule items_evolve_length [OF assms(1)])
  obtain j where j: "j < length items" "navigate ys offset (Some a) (Some a) = Some (Some j)" "cursor_place ys a j"
    using navigate_returns [of a ys offset] a(2) assms(3) len by auto
  have "isNavigable (ys ! j) = isNavigable (items ! j)"
    by (rule item_evolves_navigable [OF items_evolve_nth [OF assms(1) j(1)]])
  then have "list_ex isNavigable items \<longrightarrow> isNavigable (items ! j)"
    using j(3) a(3) by (auto simp: cursor_place_def)
  then show ?thesis using j a(1) by (auto simp: cursor_ok_def)
qed

lemma press_space_ok: "checkbox_ok items s \<Longrightarrow> checkbox_ok items (press_space s)"
  by (auto simp: press_space_def checkbox_ok_def items_evolve_toggle_at split: option.splits item.splits)

lemma press_number_ok:
  assumes "checkbox_ok items s"
  shows "checkbox_ok items (press_number name s)"
proof -
  define pos where "pos = nth_choice_from (cb_items s) (digits_value name - 1) (- 1)"
  have ev: "items_evolve items (cb_items s)" using assms by (simp add: checkbox_ok_def)
  have "cursor_ok items pos" if x: "item_at (cb_items s) pos = Some x" "isSelectable x" for x
  proof -
    obtain i where i: "pos = Some i" "i < length (cb_items s)" "x = cb_items s ! i"
      using x(1) by (auto simp: item_at_def split: option.splits if_splits)
    have l: "i < length items" using i(2) items_evolve_length [OF ev] by simp
    have "isNavigable (items ! i)"
      using item_evolves_navigable [OF items_evolve_nth [OF ev l]] selectable_navigable [OF x(2)] i(3) by simp
    then show ?thesis using i l by (simp add: cursor_ok_def)
  qed
  then show ?thesis
    using assms unfolding press_number_def Let_def pos_def [symmetric]
    by (auto simp: checkbox_ok_def items_evolve_toggle_at split: option.splits)
qed

text \<open>What a key does to a prompt in good order.\<close>

definition prompt_ok :: "'v item list \<Rightarrow> ('v checkbox, 'v list answer) prompt \<Rightarrow> bool" where
  "prompt_ok items p =
     (case p of
        Running s \<Rightarrow> checkbox_ok items s
      | Answered s a \<Rightarrow> cb_done s \<and> items_evolve items (cb_items s)
          \<and> (a = Back \<or> a = Answer (checked_values (cb_items s)))
      | Exited \<Rightarrow> True)"

lemma checkbox_key_ok:
  assumes ok: "checkbox_ok items s"
  shows "\<exists>p. checkbox_key t k s = Some p \<and> prompt_ok items p"
proof -
  have ev: "items_evolve items (cb_items s)" and cur: "cursor_ok items (cb_active s)"
    using ok by (simp_all add: checkbox_ok_def)
  obtain q where "navigate (cb_items s) (if isUpKey t k then - 1 else 1) (cb_active s) (cb_active s) = Some q"
      "cursor_ok items q"
  proof -
    have "(if isUpKey t k then - 1 else 1) = (1 :: int) \<or> (if isUpKey t k then - 1 else 1) = (- 1 :: int)"
      by simp
    from navigate_cursor_ok [OF ev cur this] show thesis using that by blast
  qed
  moreover have "items_evolve items (map (checkAll b) (cb_items s))" for b
    by (rule items_evolve_map [OF ev]) (rule item_evolves_changes)
  moreover have "items_evolve items (map toggle (cb_items s))"
    by (rule items_evolve_map [OF ev]) (rule item_evolves_changes)
  ultimately show ?thesis
    using ok press_space_ok [OF ok] press_number_ok [OF ok]
    by (auto simp: checkbox_key_def prompt_ok_def checkbox_ok_def Let_def)
qed

lemma checkbox_run_ok:
  "checkbox_run t s0 ks p \<Longrightarrow> checkbox_ok items s0 \<Longrightarrow> prompt_ok items p"
proof (induction rule: checkbox_run.induct)
  case start
  then show ?case by (simp add: prompt_ok_def)
next
  case (step ks p k q)
  from step.hyps(2) obtain s where s: "p = Running s" "checkbox_key t k s = Some q"
    by (rule checkbox_stepE)
  then have "checkbox_ok items s" using step.IH step.prems by (simp add: prompt_ok_def)
  from checkbox_key_ok [OF this, of t k] s(2) show ?case by simp
qed

subsection \<open>Every selection can be made\<close>

text \<open>
  Keys as a keyboard has them: an arrow, a space and a return key that the tests tell apart and
  that neither leave the prompt nor end the process.
\<close>

definition usable_keys :: "key_tests \<Rightarrow> keypress \<Rightarrow> keypress \<Rightarrow> keypress \<Rightarrow> bool" where
  "usable_keys t down space enter =
     (list_all (\<lambda>k. \<not> isBackspaceKey t k \<and> \<not> (key_ctrl k \<and> key_name k = ''x'')) [down, space, enter]
      \<and> isEnterKey t enter \<and> \<not> isEnterKey t down \<and> \<not> isEnterKey t space
      \<and> isDownKey t down \<and> \<not> isUpKey t down \<and> \<not> isDownKey t space \<and> \<not> isUpKey t space
      \<and> isSpaceKey t space)"

lemma usable_down:
  assumes "usable_keys t down space enter" and "navigate (cb_items s) 1 (cb_active s) (cb_active s) = Some q"
  shows "checkbox_step t (Running s) down (Running (s\<lparr>cb_error := None, cb_active := q\<rparr>))"
  using assms by (simp add: checkbox_step_iff checkbox_key_def usable_keys_def)

lemma usable_space:
  "usable_keys t down space enter \<Longrightarrow> checkbox_step t (Running s) space (Running (press_space s))"
  by (simp add: checkbox_step_iff checkbox_key_def usable_keys_def)

lemma usable_enter:
  "usable_keys t down space enter
    \<Longrightarrow> checkbox_step t (Running s) enter
          (Answered (s\<lparr>cb_done := True\<rparr>) (Answer (checked_values (cb_items s))))"
  by (simp add: checkbox_step_iff checkbox_key_def usable_keys_def)

lemma run_ok:
  "checkbox_run t (checkbox_start show choices) ks (Running s)
    \<Longrightarrow> checkbox_ok (normalizeChoices show choices) s"
  using checkbox_run_ok [OF _ checkbox_start_ok] by (fastforce simp: prompt_ok_def)

lemma go_to:
  assumes keys: "usable_keys t down space enter"
    and i: "i < length (normalizeChoices show choices)" "isNavigable (normalizeChoices show choices ! i)"
    and run: "checkbox_run t (checkbox_start show choices) ks (Running s)"
  shows "\<exists>more r. checkbox_run t (checkbox_start show choices) (ks @ more) (Running r)
      \<and> cb_items r = cb_items s \<and> cb_active r = Some i"
proof -
  define n where "n = length (normalizeChoices show choices)"
  have "\<exists>more r. checkbox_run t (checkbox_start show choices) (ks @ more) (Running r)
      \<and> cb_items r = cb_items s \<and> cb_active r = Some i"
    if "checkbox_run t (checkbox_start show choices) ks (Running s)" "cb_active s = Some a" "a < n"
      "steps_to n 1 i a = d" for d ks s a
    using that
  proof (induction d arbitrary: ks s a rule: less_induct)
    case (less d)
    have ok: "checkbox_ok (normalizeChoices show choices) s" by (rule run_ok [OF less(2)])
    then have ev: "items_evolve (normalizeChoices show choices) (cb_items s)" by (simp add: checkbox_ok_def)
    have len: "length (cb_items s) = n" using items_evolve_length [OF ev] by (simp add: n_def)
    show ?case
    proof (cases d)
      case 0
      then have "a = i" using steps_to_0 [of n 1 i a] less i(1) by (simp add: n_def)
      then show ?thesis using less(2,3) by (intro exI [of _ "[]"] exI [of _ s]) simp
    next
      case (Suc m)
      have place: "cursor_place (cb_items s) a i"
        using item_evolves_navigable [OF items_evolve_nth [OF ev i(1)]] i(2) by (simp add: cursor_place_def)
      obtain j where j: "j < n" "navigate (cb_items s) 1 (Some a) (Some a) = Some (Some j)" "steps_to n 1 i j \<le> m"
        using navigate_towards [of "cb_items s" 1 i a m a] less(4,5) Suc len i(1) place by (auto simp: n_def)
      define r where "r = s\<lparr>cb_error := None, cb_active := Some j\<rparr>"
      have "checkbox_step t (Running s) down (Running r)"
        using usable_down [OF keys, of s "Some j"] j(2) less(3) by (simp add: r_def)
      from checkbox_run.step [OF less(2) this]
      have go: "checkbox_run t (checkbox_start show choices) (ks @ [down]) (Running r)" .
      have "steps_to n 1 i j < d" using j(3) Suc by simp
      from less.IH [OF this go _ j(1) refl] show ?thesis
        by (force simp: r_def)
    qed
  qed
  moreover have "checkbox_ok (normalizeChoices show choices) s" by (rule run_ok [OF run])
  then have "\<exists>a. cb_active s = Some a \<and> a < n"
    using i(1) by (auto simp: checkbox_ok_def cursor_ok_def n_def split: option.splits)
  ultimately show ?thesis using run by blast
qed

lemma switch_one:
  assumes keys: "usable_keys t down space enter"
    and i: "i < length (normalizeChoices show choices)" "isSelectable (normalizeChoices show choices ! i)"
    and run: "checkbox_run t (checkbox_start show choices) ks (Running s)"
  shows "\<exists>more r. checkbox_run t (checkbox_start show choices) (ks @ more) (Running r)
      \<and> cb_items r = (cb_items s)[i := set_checked w (cb_items s ! i)]"
proof -
  have "checkbox_ok (normalizeChoices show choices) s" by (rule run_ok [OF run])
  then have ev: "items_evolve (normalizeChoices show choices) (cb_items s)" by (simp add: checkbox_ok_def)
  have len: "i < length (cb_items s)" using i(1) items_evolve_length [OF ev] by simp
  have sel: "isSelectable (cb_items s ! i)"
    using item_evolves_selectable [OF items_evolve_nth [OF ev i(1)]] i(2) by simp
  show ?thesis
  proof (cases "isChecked (cb_items s ! i) = w")
    case True
    then have "cb_items s = (cb_items s)[i := set_checked w (cb_items s ! i)]"
      using set_checked_simps(4) [of "cb_items s ! i"] by (simp add: list_update_id)
    then show ?thesis using run by (intro exI [of _ "[]"] exI [of _ s]) simp
  next
    case False
    obtain more r where r: "checkbox_run t (checkbox_start show choices) (ks @ more) (Running r)"
        "cb_items r = cb_items s" "cb_active r = Some i"
      using go_to [OF keys i(1) selectable_navigable [OF i(2)] run] by blast
    obtain n where n: "cb_items s ! i = ChoiceItem n" "\<not> disabled_label (ndisabled n)"
      using sel by (cases "cb_items s ! i") auto
    have "press_space r = r\<lparr>cb_error := None, cb_items := toggle_at (Some i) (cb_items s)\<rparr>"
      using r(2,3) len n by (simp add: press_space_def item_at_def)
    moreover have "toggle (cb_items s ! i) = set_checked w (cb_items s ! i)"
      using sel False by (simp add: toggle_def)
    ultimately have "cb_items (press_space r) = (cb_items s)[i := set_checked w (cb_items s ! i)]"
      using len by (simp add: toggle_at_eq)
    moreover have "checkbox_run t (checkbox_start show choices) ((ks @ more) @ [space]) (Running (press_space r))"
      by (rule checkbox_run.step [OF r(1) usable_space [OF keys]])
    ultimately show ?thesis by auto
  qed
qed

text \<open>The list with the wanted boxes checked; a disabled entry stays as it was configured.\<close>

definition wanted_items :: "'v item list \<Rightarrow> bool list \<Rightarrow> 'v item list" where
  "wanted_items items want = map2 (\<lambda>x w. if isSelectable x then set_checked w x else x) items want"

lemma switch_prefix:
  assumes keys: "usable_keys t down space enter"
    and run: "checkbox_run t (checkbox_start show choices) ks (Running s)"
    and items: "items = normalizeChoices show choices" and m: "m \<le> length items"
  shows "\<exists>more r. checkbox_run t (checkbox_start show choices) (ks @ more) (Running r)
      \<and> (\<forall>i < m. isSelectable (items ! i) \<longrightarrow> isChecked (cb_items r ! i) = want ! i)"
  using m
proof (induction m)
  case 0
  show ?case using run by (intro exI [of _ "[]"] exI [of _ s]) simp
next
  case (Suc m)
  then obtain more r where r: "checkbox_run t (checkbox_start show choices) (ks @ more) (Running r)"
      "\<forall>i < m. isSelectable (items ! i) \<longrightarrow> isChecked (cb_items r ! i) = want ! i"
    by auto
  show ?case
  proof (cases "isSelectable (items ! m)")
    case False
    then show ?thesis using r by (metis less_antisym)
  next
    case True
    have ml: "m < length items" using Suc.prems by simp
    have ev: "items_evolve items (cb_items r)" using run_ok [OF r(1)] items by (simp add: checkbox_ok_def)
    have nav: "isNavigable (cb_items r ! m)"
      using item_evolves_navigable [OF items_evolve_nth [OF ev ml]] selectable_navigable [OF True] by simp
    obtain more' r' where r': "checkbox_run t (checkbox_start show choices) ((ks @ more) @ more') (Running r')"
        "cb_items r' = (cb_items r)[m := set_checked (want ! m) (cb_items r ! m)]"
      using switch_one [OF keys _ _ r(1), of m "want ! m"] ml True items by blast
    have "isChecked (cb_items r' ! i) = want ! i" if "i < Suc m" "isSelectable (items ! i)" for i
      using that r(2) r'(2) nav ml items_evolve_length [OF ev]
      by (cases "i = m") auto
    then show ?thesis using r'(1) by auto
  qed
qed

lemma evolved_items_wanted:
  assumes ev: "items_evolve items ys" and len: "length want = length items"
    and all: "\<forall>i < length items. isSelectable (items ! i) \<longrightarrow> isChecked (ys ! i) = want ! i"
  shows "ys = wanted_items items want"
proof (rule nth_equalityI)
  show "length ys = length (wanted_items items want)"
    using items_evolve_length [OF ev] len by (simp add: wanted_items_def)
  fix i
  assume "i < length ys"
  then have i: "i < length items" using items_evolve_length [OF ev] by simp
  have "item_evolves (items ! i) (ys ! i)" by (rule items_evolve_nth [OF ev i])
  then show "ys ! i = wanted_items items want ! i"
    using all i len by (cases "isSelectable (items ! i)") (auto simp: wanted_items_def item_evolves_def)
qed

subsection \<open>The properties of the checkbox prompt\<close>

text \<open>C34. Whatever keys are pressed, the prompt stays in order: the list keeps its length and order,
  separators and disabled entries stay as configured (a disabled entry that was configured as
  checked stays checked), only the boxes of the other entries change, the cursor rests on an entry
  that is not a separator whenever there is one, every key is handled (the loop that skips
  separators ends, on the list of separators only and on the empty one too), and the answer is the
  values of the checked entries in list order.\<close>

theorem checkbox_stays_in_order:
  assumes "checkbox_run t (checkbox_start show choices) ks p"
  defines "items \<equiv> normalizeChoices show choices"
  shows "case p of
      Running s \<Rightarrow>
        list_all2 item_evolves items (cb_items s)
        \<and> cursor_ok items (cb_active s)
        \<and> (\<forall>k. \<exists>q. checkbox_step t p k q)
    | Answered s a \<Rightarrow>
        list_all2 item_evolves items (cb_items s)
        \<and> (a = Back \<or> a = Answer (checked_values (cb_items s)))
        \<and> (\<forall>k q. \<not> checkbox_step t p k q)
    | Exited \<Rightarrow> (\<forall>k q. \<not> checkbox_step t p k q)"
proof (cases p)
  case (Running s)
  then have ok: "checkbox_ok items s" using run_ok assms(1) unfolding items_def by blast
  have "\<exists>q. checkbox_step t p k q" for k
    using checkbox_key_ok [OF ok, of t k] Running by (auto simp: checkbox_step_iff)
  then show ?thesis using ok Running by (simp add: checkbox_ok_def items_evolve_def)
next
  case (Answered s a)
  then have "prompt_ok items (Answered s a)"
    using checkbox_run_ok [OF assms(1) checkbox_start_ok] by (simp add: items_def)
  then show ?thesis using Answered by (simp add: prompt_ok_def items_evolve_def checkbox_step_settled)
next
  case Exited
  then show ?thesis by (simp add: checkbox_step_settled)
qed

text \<open>C35. Any selection can be made: from whatever state the keys pressed so far have led to, and
  for every choice of boxes, some further keys (arrows, spaces and a return) settle the prompt with
  exactly the values of the entries to check, in list order; entries that are disabled count as
  they were configured.\<close>

theorem checkbox_any_selection_reachable:
  assumes "usable_keys t down space enter"
    and "checkbox_run t (checkbox_start show choices) ks (Running s)"
    and "length want = length choices"
  defines "items \<equiv> normalizeChoices show choices"
  shows "\<exists>more r. checkbox_run t (checkbox_start show choices) (ks @ more)
      (Answered r (Answer (checked_values (wanted_items items want))))"
proof -
  have len: "length want = length items" using assms(3) by (simp add: items_def normalizeChoices_def)
  obtain more r where r: "checkbox_run t (checkbox_start show choices) (ks @ more) (Running r)"
      "\<forall>i < length items. isSelectable (items ! i) \<longrightarrow> isChecked (cb_items r ! i) = want ! i"
    using switch_prefix [OF assms(1,2), of items "length items" want] by (auto simp: items_def)
  have "items_evolve items (cb_items r)" using run_ok [OF r(1)] by (simp add: checkbox_ok_def items_def)
  from evolved_items_wanted [OF this len r(2)] have "cb_items r = wanted_items items want" .
  with checkbox_run.step [OF r(1) usable_enter [OF assms(1)]] show ?thesis by auto
qed

text \<open>The keys of a terminal, as \<open>@inquirer/core\<close> tests them.\<close>

definition terminal_keys :: key_tests where
  "terminal_keys =
     \<lparr>isBackspaceKey = (\<lambda>k. key_name k = ''backspace''),
      isEnterKey = (\<lambda>k. key_name k = ''enter'' \<or> key_name k = ''return''),
      isUpKey = (\<lambda>k. key_name k = ''up''), isDownKey = (\<lambda>k. key_name k = ''down''),
      isSpaceKey = (\<lambda>k. key_name k = ''space''),
      isNumberKey = (\<lambda>k. key_name k \<in> {''0'', ''1'', ''2'', ''3'', ''4'', ''5'', ''6'', ''7'', ''8'', ''9''})\<rparr>"

definition plain_key :: "string \<Rightarrow> keypress" where
  "plain_key name = \<lparr>key_name = name, key_ctrl = False\<rparr>"

definition example_choices :: "nat choice list" where
  "example_choices =
     [SeparatorChoice (js ''Stores''),
      CheckboxChoice \<lparr>ch_name = Some (js ''lance''), ch_value = 1, ch_checked = None, ch_disabled = None\<rparr>,
      CheckboxChoice \<lparr>ch_name = Some (js ''qdrant''), ch_value = 2, ch_checked = Some True,
        ch_disabled = Some (DisabledFlag True)\<rparr>,
      CheckboxChoice \<lparr>ch_name = Some (js ''chroma''), ch_value = 3, ch_checked = Some True, ch_disabled = None\<rparr>]"

lemmas checkbox_eval = checkbox_key_def terminal_keys_def plain_key_def Let_def press_space_def
  press_number_def item_at_def toggle_def set_checked_def disabled_label_def checked_values_def
  toggle_at_def checkbox_start_def normalizeChoices_def example_choices_def item_bounds_def

lemma terminal_keys_usable:
  "usable_keys terminal_keys (plain_key ''down'') (plain_key ''space'') (plain_key ''return'')"
  by (simp add: usable_keys_def terminal_keys_def plain_key_def)

lemma example_start:
  "checkbox_start (\<lambda>_. []) example_choices =
     \<lparr>cb_done = False,
      cb_items = [SeparatorItem (js ''Stores''),
        ChoiceItem \<lparr>nvalue = 1, nname = js ''lance'', nshort = js ''lance'', nchecked = False, ndisabled = None\<rparr>,
        ChoiceItem \<lparr>nvalue = 2, nname = js ''qdrant'', nshort = js ''qdrant'', nchecked = True,
          ndisabled = Some (js ''(disabled)'')\<rparr>,
        ChoiceItem \<lparr>nvalue = 3, nname = js ''chroma'', nshort = js ''chroma'', nchecked = True, ndisabled = None\<rparr>],
      cb_active = Some 1, cb_error = None\<rparr>"
  by (simp add: checkbox_eval)

lemma example_run:
  "\<exists>s. checkbox_run terminal_keys (checkbox_start (\<lambda>_. []) example_choices)
      [plain_key ''space'', plain_key ''3''] (Running s) \<and> checked_values (cb_items s) = [1, 2]"
proof -
  have "checkbox_run t s0 [] (Running s0)" for t and s0 :: "nat checkbox" by (rule checkbox_run.start)
  from checkbox_run.step [OF this checkbox_step.press, of terminal_keys "plain_key ''space''"
      "checkbox_start (\<lambda>_. []) example_choices"]
  obtain r where r: "checkbox_run terminal_keys (checkbox_start (\<lambda>_. []) example_choices)
      [plain_key ''space''] (Running r)"
      "r = press_space (checkbox_start (\<lambda>_. []) example_choices)"
    by (auto simp: checkbox_key_def terminal_keys_def plain_key_def)
  have "checkbox_key terminal_keys (plain_key ''3'') r = Some (Running (press_number ''3'' r))"
    by (simp add: checkbox_key_def terminal_keys_def plain_key_def)
  from checkbox_run.step [OF r(1) checkbox_step.press [OF this]]
  have "checkbox_run terminal_keys (checkbox_start (\<lambda>_. []) example_choices)
      [plain_key ''space'', plain_key ''3''] (Running (press_number ''3'' r))"
    by simp
  moreover have "checked_values (cb_items (press_number ''3'' r)) = [1, 2]"
    unfolding r(2) example_start by (simp add: checkbox_eval digits_value_def)
  ultimately show ?thesis by blast
qed

theorem checkbox_stays_in_order_witness:
  "\<exists>s. checkbox_run terminal_keys (checkbox_start (\<lambda>_. []) example_choices)
        [plain_key ''space'', plain_key ''3''] (Running s)
     \<and> list_all2 item_evolves (normalizeChoices (\<lambda>_. []) example_choices) (cb_items s)
     \<and> checked_values (cb_items s) = [1, 2]"
  using example_run checkbox_stays_in_order [of terminal_keys "\<lambda>_. []" example_choices
      "[plain_key ''space'', plain_key ''3'']"]
  by fastforce

theorem checkbox_any_selection_reachable_witness:
  "\<exists>more r. checkbox_run terminal_keys (checkbox_start (\<lambda>_. []) example_choices)
      ([plain_key ''space'', plain_key ''3''] @ more) (Answered r (Answer [2, 3]))"
proof -
  obtain s where s: "checkbox_run terminal_keys (checkbox_start (\<lambda>_. []) example_choices)
      [plain_key ''space'', plain_key ''3''] (Running s)"
    using example_run by blast
  have "checked_values (wanted_items (normalizeChoices (\<lambda>_. []) example_choices) [False, False, False, True]) = [2, 3]"
    by (simp add: checkbox_eval wanted_items_def)
  with checkbox_any_selection_reachable [OF terminal_keys_usable s, of "[False, False, False, True]"]
  show ?thesis by (simp add: example_choices_def)
qed

subsection \<open>The single-choice prompt never throws on a non-empty list\<close>

definition select_ok :: "'v select_choice list \<Rightarrow> select_state \<Rightarrow> bool" where
  "select_ok choices s =
     (case sel_active s of None \<Rightarrow> False | Some a \<Rightarrow> a < length choices)"

lemma select_start_ok:
  assumes "choices \<noteq> []"
  shows "select_ok choices (select_start choices dflt)"
  using assms find_index_SomeD
  by (fastforce simp: select_ok_def select_start_def default_index_def split: option.splits)

lemma select_start_default:
  assumes "i < length choices" and "distinct (map sc_value choices)"
  shows "select_start choices (Some (sc_value (choices ! i))) = \<lparr>sel_done = False, sel_active = Some i\<rparr>"
proof -
  have "find_index (\<lambda>c. sc_value c = sc_value (choices ! i)) choices = Some i"
    using assms by (induction choices arbitrary: i) (auto simp: nth_Cons split: nat.splits)
  then show ?thesis by (simp add: select_start_def default_index_def)
qed

lemma select_key_ok:
  assumes "select_ok choices s"
  shows "\<exists>p. select_key t choices k s = Inr p
      \<and> (case p of Running r \<Rightarrow> select_ok choices r
         | Answered r a \<Rightarrow> a = Back \<or> (\<exists>c \<in> set choices. a = Answer (sc_value c))
         | Exited \<Rightarrow> True)"
proof -
  obtain a where a: "sel_active s = Some a" "a < length choices"
    using assms by (auto simp: select_ok_def split: option.splits)
  have "select_ok choices (s\<lparr>sel_active := shift_index (length choices) off (Some a)\<rparr>)" for off
    using shift_index_Some [OF a(2), of off] by (auto simp: select_ok_def)
  then show ?thesis using assms a nth_mem [OF a(2)] by (auto simp: select_key_def item_at_def)
qed

lemma select_throws_without_choices:
  assumes "isEnterKey t k" and "\<not> isBackspaceKey t k" and "\<not> key_ctrl k"
  shows "select_key t [] k (select_start [] dflt)
    = Inl (Err EError ''TypeError: Cannot read properties of undefined (reading 'value')'')"
  using assms by (simp add: select_key_def item_at_def select_start_def)

end
