(* ===== verification/ProgressRenderer.thy ===== *)
theory ProgressRenderer
  imports Formatting Utils
begin

section \<open>The progress display of the command line\<close>

text \<open>
  \<open>src/packages/virage-cli/src/progress/progress-bar.ts\<close>: the class \<open>PipelineRenderer\<close>, which
  redraws a block of lines at the bottom of the terminal and prints log messages above it. The
  fields of the object are a record, an operation returns the new object and what it writes to
  standard output. What it writes is a list of texts and of the control sequences the code uses, so
  that \<open>\x1b[3A\<close> is \<open>Up 3\<close>. \<open>String.repeat\<close> of a negative count is an error. Times are
  milliseconds, quotients are exact. A terminal (\<open>feed\<close>) gives the meaning of the output.
\<close>

subsection \<open>Texts\<close>

definition uchar :: "nat \<Rightarrow> 16 word" where
  "uchar n = of_nat n"

definition full_block :: "16 word" where "full_block = uchar 0x2588"
definition light_shade :: "16 word" where "light_shade = uchar 0x2591"
definition em_dash :: jstext where "em_dash = [uchar 0x2014]"
definition ellipsis :: jstext where "ellipsis = [uchar 0x2026]"
definition box_vertical :: jstext where "box_vertical = [uchar 0x2502]"
definition box_horizontal :: "16 word" where "box_horizontal = uchar 0x2500"
definition space :: "16 word" where "space = uchar 32"

text \<open>The escape sequences of \<open>src/packages/virage-cli/src/ansi.ts\<close> that set colours.\<close>

definition sgr :: "string \<Rightarrow> jstext" where
  "sgr code = uchar 27 # js (''['' @ code @ ''m'')"

definition reset :: jstext where "reset = sgr ''0''"
definition bold :: jstext where "bold = sgr ''1''"
definition dim :: jstext where "dim = sgr ''2''"
definition green :: jstext where "green = sgr ''32''"
definition yellow :: jstext where "yellow = sgr ''33''"
definition cyan :: jstext where "cyan = sgr ''36''"
definition gray :: jstext where "gray = sgr ''90''"

definition spinner_frames :: "jstext list" where
  "spinner_frames = map (\<lambda>n. [uchar n])
     [0x280B, 0x2819, 0x2839, 0x2838, 0x283C, 0x2834, 0x2826, 0x2827, 0x2807, 0x280F]"

definition BAR_WIDTH :: nat where "BAR_WIDTH = 36"
definition PIPELINE_BAR_WIDTH :: nat where "PIPELINE_BAR_WIDTH = 28"
definition LABEL_WIDTH :: nat where "LABEL_WIDTH = 13"
definition DONE_WIDTH :: nat where "DONE_WIDTH = 14"

definition repeat_text :: "16 word \<Rightarrow> int \<Rightarrow> jstext result" where
  "repeat_text c n = (if n < 0 then Inl (Err EError ''Invalid count value'') else Inr (replicate (nat n) c))"

text \<open>\<open>seconds % 60\<close> of a fraction.\<close>

definition frac_mod :: "rat \<Rightarrow> nat \<Rightarrow> rat" where
  "frac_mod x n = x - of_int \<lfloor>x / of_nat n\<rfloor> * of_nat n"

definition fmtTime :: "rat \<Rightarrow> string" where
  "fmtTime seconds =
     (if seconds = 0 then ''0s''
      else if seconds \<le> 0 then ''?''
      else if seconds > 3600
      then show_int \<lfloor>seconds / 3600\<rfloor> @ ''h'' @ show_int \<lfloor>frac_mod seconds 3600 / 60\<rfloor> @ ''m''
      else if seconds > 60
      then show_int \<lfloor>seconds / 60\<rfloor> @ ''m'' @ show_int (math_round (frac_mod seconds 60)) @ ''s''
      else show_int (math_round seconds) @ ''s'')"

definition calcEtaMs :: "nat \<Rightarrow> nat \<Rightarrow> rat \<Rightarrow> rat option" where
  "calcEtaMs val tot elapsedMs =
     (if val = 0 \<or> tot = 0 \<or> elapsedMs \<le> 0 then None
      else if val \<ge> tot then Some 0
      else Some (of_nat (tot - val) / of_nat val * elapsedMs))"

definition centerInWidth :: "jstext \<Rightarrow> nat \<Rightarrow> 16 word \<Rightarrow> jstext" where
  "centerInWidth t width fill =
     (let pad = width - length t; left = pad div 2
      in replicate left fill @ t @ replicate (pad - left) fill)"

definition renderBar :: "nat \<Rightarrow> nat \<Rightarrow> nat \<Rightarrow> jstext" where
  "renderBar val tot width =
     (let fillCount = (if tot = 0 then width else min width (val * width div tot))
      in cyan @ replicate fillCount full_block @ reset @ gray @ replicate (width - fillCount) light_shade @ reset)"

definition fmtSpeed :: "nat \<Rightarrow> nat \<Rightarrow> jstext" where
  "fmtSpeed bytes ms =
     (if ms = 0 then em_dash
      else let bytesPerSec = of_nat bytes / of_nat ms * 1000
           in if bytesPerSec \<ge> 1000000 then js (to_fixed 1 (bytesPerSec / 1000000) @ '' MB/s'')
              else js (to_fixed 0 (bytesPerSec / 1000) @ '' KB/s''))"

definition renderPct :: "nat \<Rightarrow> nat \<Rightarrow> jstext" where
  "renderPct val tot =
     (let pct = (if tot = 0 then 100 else min 100 (val * 100 div tot))
      in (if pct \<ge> 100 then green else yellow) @ pad_start 3 space (js (show_nat pct)) @ js ''%'' @ reset)"

subsection \<open>The object\<close>

datatype render_phase = Idle | Scanning | ModelLoading | Pipeline

record bar_state =
  bar_value :: nat
  bar_total :: nat

record phase_stats =
  ps_count :: nat
  ps_bytes :: nat
  ps_ms :: nat

record renderer =
  rphase :: render_phase
  logBuffer :: "jstext list"
  ephemeralLines :: nat
  lastPhaseStr :: jstext
  startTime :: nat
  tickCount :: nat
  timer :: bool
  dirty :: bool
  restoreCursor :: bool
  scanDone :: nat
  scanTotal :: nat
  modelName :: jstext
  modelLoaded :: nat
  modelTotal :: nat
  chunkBar :: bar_state
  embedBar :: bar_state
  uploadBar :: bar_state
  filesDone :: nat
  filesTotal :: nat
  embedSkipped :: nat
  chunkingStats :: "phase_stats option"
  embeddingStats :: "phase_stats option"
  chunkPhaseT0 :: nat
  embedPhaseT0 :: nat

text \<open>The process: whether standard output is a terminal, its width when known, and the time.\<close>

record tty_env =
  isTTY :: bool
  columns :: "nat option"
  now :: nat

datatype tty_out = Write jstext | Up nat | EraseBelow | EraseToEol | CarriageReturn | Newline | HideCursor | ShowCursor

definition term_columns :: "tty_env \<Rightarrow> nat" where
  "term_columns env = nullish (columns env) 80"

definition new_renderer :: "tty_env \<Rightarrow> renderer \<times> tty_out list" where
  "new_renderer env =
     (\<lparr>rphase = Idle, logBuffer = [], ephemeralLines = 0, lastPhaseStr = [], startTime = now env, tickCount = 0,
       timer = True, dirty = False, restoreCursor = isTTY env, scanDone = 0, scanTotal = 0, modelName = [],
       modelLoaded = 0, modelTotal = 0, chunkBar = \<lparr>bar_value = 0, bar_total = 0\<rparr>,
       embedBar = \<lparr>bar_value = 0, bar_total = 0\<rparr>, uploadBar = \<lparr>bar_value = 0, bar_total = 0\<rparr>, filesDone = 0,
       filesTotal = 0, embedSkipped = 0, chunkingStats = None, embeddingStats = None, chunkPhaseT0 = 0,
       embedPhaseT0 = 0\<rparr>, if isTTY env then [HideCursor] else [])"

subsection \<open>The lines of a phase\<close>

definition spinner :: "renderer \<Rightarrow> jstext" where
  "spinner r = spinner_frames ! (tickCount r mod length spinner_frames)"

definition buildScanning :: "renderer \<Rightarrow> jstext list result" where
  "buildScanning r =
     (let tot = scanTotal r; done' = scanDone r;
          fillCount = (if tot > 0 then done' * 20 div tot else 0);
          pct = (if tot > 0 then done' * 100 div tot else 0);
          counter = (if tot > 0 then js (show_nat done' @ ''/'' @ show_nat tot @ '' files'')
                     else js ''discovering files...'')
      in result_bind (repeat_text light_shade (20 - int fillCount)) (\<lambda>rest.
           Inr [cyan @ spinner r @ reset @ js '' '' @ bold @ js ''Scanning'' @ reset @ js ''  [''
                @ cyan @ replicate fillCount full_block @ gray @ rest @ reset @ js ''] ''
                @ pad_start 3 space (js (show_nat pct)) @ js ''%  '' @ dim @ counter @ reset]))"

definition buildModel :: "renderer \<Rightarrow> jstext list result" where
  "buildModel r =
     (let name = bold @ modelName r @ reset;
          label = yellow @ spinner r @ reset @ js '' '' @ bold @ js ''Loading model'' @ reset @ js '' '' @ name
      in if modelTotal r > 0
         then let pct = min 100 (modelLoaded r * 100 div modelTotal r);
                  fillCount = modelLoaded r * BAR_WIDTH div modelTotal r
              in result_bind (repeat_text light_shade (int BAR_WIDTH - int fillCount)) (\<lambda>rest.
                   Inr [label @ js ''  '' @ js ''['' @ yellow @ replicate fillCount full_block @ gray @ rest @ reset
                        @ js '']'' @ js '' '' @ yellow @ pad_start 3 space (js (show_nat pct)) @ js ''%'' @ reset])
         else Inr [label])"

text \<open>\<open>liveChunkRate\<close> and \<open>liveEmbedRate\<close>: the final figure, once known, or the one so far.\<close>

definition liveRate ::
  "(rat \<Rightarrow> string) \<Rightarrow> phase_stats option \<Rightarrow> nat \<Rightarrow> nat \<Rightarrow> nat \<Rightarrow> jstext" where
  "liveRate fmt stats t0 val time =
     (case stats of
        Some st \<Rightarrow> (let secs = of_nat (ps_ms st) / 1000
                    in if secs > 0 then js (fmt (of_nat (ps_count st) / secs)) else em_dash)
      | None \<Rightarrow>
          if t0 = 0 \<or> val = 0 then em_dash
          else let secs = of_int (int time - int t0) / 1000
               in if secs > 1 then js (fmt (of_nat val / secs)) else ellipsis)"

definition files_per_sec :: "rat \<Rightarrow> string" where
  "files_per_sec x = to_fixed 1 x @ '' files/s''"

definition chunks_per_sec :: "rat \<Rightarrow> string" where
  "chunks_per_sec x = show_int (math_round x) @ '' chunks/s''"

definition liveChunkRate :: "renderer \<Rightarrow> nat \<Rightarrow> jstext" where
  "liveChunkRate r time = liveRate files_per_sec (chunkingStats r) (chunkPhaseT0 r) (bar_value (chunkBar r)) time"

definition liveEmbedRate :: "renderer \<Rightarrow> nat \<Rightarrow> jstext" where
  "liveEmbedRate r time = liveRate chunks_per_sec (embeddingStats r) (embedPhaseT0 r) (bar_value (embedBar r)) time"

definition separator :: jstext where
  "separator = js '' '' @ dim @ box_vertical @ reset @ js '' ''"

definition header_line :: jstext where
  "header_line =
     bold @ pad_end LABEL_WIDTH space (js ''Operation'') @ reset @ separator
     @ js ''['' @ dim @ centerInWidth (js '' Progress '') PIPELINE_BAR_WIDTH box_horizontal @ reset @ js '']     ''
     @ separator @ dim @ pad_end DONE_WIDTH space (js ''Done'') @ reset @ separator @ dim @ js ''Rate'' @ reset"

definition count_of :: "nat \<Rightarrow> nat \<Rightarrow> string \<Rightarrow> string \<Rightarrow> jstext" where
  "count_of done' tot suffix partial_suffix =
     (if tot > 0
      then if done' \<ge> tot then js (show_nat done' @ suffix)
           else js (show_nat done' @ ''/'' @ show_nat tot @ partial_suffix)
      else if done' > 0 then js (show_nat done' @ suffix) else em_dash)"

definition chunkCount :: "renderer \<Rightarrow> jstext" where
  "chunkCount r = count_of (bar_value (chunkBar r)) (bar_total (chunkBar r)) '' files'' '' files''"

definition embedCount :: "renderer \<Rightarrow> jstext" where
  "embedCount r =
     (let done' = bar_value (embedBar r); tot = bar_total (embedBar r)
      in if done' = 0 \<and> embedSkipped r > 0 \<and> tot \<le> 1 then js (show_nat (embedSkipped r) @ '' cached'')
         else if done' = 0 \<and> tot \<le> 1 then em_dash
         else count_of done' tot '' chunks'' [])"

definition uploadCount :: "renderer \<Rightarrow> jstext" where
  "uploadCount r = count_of (bar_value (uploadBar r)) (bar_total (uploadBar r)) '' docs'' []"

definition clamp_rate :: "tty_env \<Rightarrow> jstext \<Rightarrow> jstext" where
  "clamp_rate env rate =
     (let maxRateLen = nat (max 4 (int (term_columns env) - 71))
      in if length rate > maxRateLen then take (maxRateLen - 1) rate @ ellipsis else rate)"

definition buildBarRow :: "tty_env \<Rightarrow> jstext \<Rightarrow> bar_state \<Rightarrow> jstext \<Rightarrow> jstext \<Rightarrow> jstext" where
  "buildBarRow env label b count rate =
     bold @ label @ reset @ separator
     @ (js ''['' @ renderBar (bar_value b) (bar_total b) PIPELINE_BAR_WIDTH @ js ''] ''
        @ renderPct (bar_value b) (bar_total b))
     @ separator @ pad_end DONE_WIDTH space count @ separator @ clamp_rate env rate"

definition calcPipelineEta :: "renderer \<Rightarrow> rat \<Rightarrow> rat option" where
  "calcPipelineEta r elapsedMs =
     (if bar_value (uploadBar r) > 0 then calcEtaMs (bar_value (uploadBar r)) (bar_total (uploadBar r)) elapsedMs
      else if bar_value (embedBar r) > 0 then calcEtaMs (bar_value (embedBar r)) (bar_total (embedBar r)) elapsedMs
      else if bar_value (chunkBar r) > 0 then calcEtaMs (bar_value (chunkBar r)) (bar_total (chunkBar r)) elapsedMs
      else None)"

definition footer_separator :: jstext where
  "footer_separator = js ''  '' @ dim @ box_vertical @ reset @ js ''  ''"

definition elapsed_row :: "renderer \<Rightarrow> rat \<Rightarrow> jstext" where
  "elapsed_row r elapsed =
     dim @ js ''Elapsed:'' @ reset @ js '' '' @ js (fmtTime (elapsed / 1000))
     @ (case calcPipelineEta r elapsed of
          None \<Rightarrow> footer_separator @ dim @ js ''ETA:'' @ reset @ js '' '' @ ellipsis
        | Some etaMs \<Rightarrow>
            if etaMs > 0 then footer_separator @ dim @ js ''ETA:'' @ reset @ js '' '' @ js (fmtTime (etaMs / 1000))
            else [])"

text \<open>A part of the summary of the throughput: only for a phase that did something.\<close>

definition throughput_part :: "string \<Rightarrow> (rat \<Rightarrow> string) \<Rightarrow> phase_stats option \<Rightarrow> jstext list" where
  "throughput_part label fmt stats =
     (case stats of
        None \<Rightarrow> []
      | Some st \<Rightarrow>
          if ps_count st > 0
          then [dim @ js label @ reset @ js '' ''
                @ (let secs = of_nat (ps_ms st) / 1000
                   in if secs > 0 then js (fmt (of_nat (ps_count st) / secs)) else em_dash)
                @ js ''  '' @ fmtSpeed (ps_bytes st) (ps_ms st)]
          else [])"

definition buildPipeline :: "tty_env \<Rightarrow> renderer \<Rightarrow> jstext list" where
  "buildPipeline env r =
     (let elapsed = of_int (int (now env) - int (startTime r));
          rows = [buildBarRow env (pad_end LABEL_WIDTH space (js ''Chunking'')) (chunkBar r) (chunkCount r)
                    (liveChunkRate r (now env)),
                  buildBarRow env (pad_end LABEL_WIDTH space (js ''Embedding'')) (embedBar r) (embedCount r)
                    (liveEmbedRate r (now env)),
                  buildBarRow env (pad_end LABEL_WIDTH space (js ''Uploading'')) (uploadBar r) (uploadCount r) em_dash];
          parts = throughput_part ''Chunking:'' files_per_sec (chunkingStats r)
                  @ throughput_part ''Embedding:'' chunks_per_sec (embeddingStats r)
      in [header_line] @ rows @ [elapsed_row r elapsed]
         @ (if length parts > 0 then [join_with footer_separator parts] else []))"

definition buildPhase :: "tty_env \<Rightarrow> renderer \<Rightarrow> jstext list result" where
  "buildPhase env r =
     (case rphase r of Scanning \<Rightarrow> buildScanning r | ModelLoading \<Rightarrow> buildModel r
      | Pipeline \<Rightarrow> Inr (buildPipeline env r) | Idle \<Rightarrow> Inr [])"

subsection \<open>Rendering\<close>

text \<open>\<open>line.replace(/\x1b\[[0-9;]*m/g, "")\<close>\<close>

definition sgr_char :: "16 word \<Rightarrow> bool" where
  "sgr_char c \<longleftrightarrow> (48 \<le> unat c \<and> unat c \<le> 57) \<or> unat c = 59"

definition after_sgr :: "jstext \<Rightarrow> jstext option" where
  "after_sgr t =
     (case t of
        e # b # rest \<Rightarrow>
          if e = uchar 27 \<and> b = uchar 91
          then (case dropWhile sgr_char rest of
                  m # rest' \<Rightarrow> if m = uchar 109 then Some rest' else None
                | [] \<Rightarrow> None)
          else None
      | _ \<Rightarrow> None)"

lemma after_sgr_suffix: "after_sgr t = Some s \<Longrightarrow> \<exists>p. p \<noteq> [] \<and> t = p @ s"
proof -
  assume "after_sgr t = Some s"
  then obtain e b rest m where t: "t = e # b # rest" and rest: "dropWhile sgr_char rest = m # s"
    by (auto simp: after_sgr_def split: list.splits if_splits)
  have "rest = takeWhile sgr_char rest @ dropWhile sgr_char rest" by simp
  then have "t = (e # b # takeWhile sgr_char rest @ [m]) @ s" unfolding rest t by simp
  then show ?thesis by blast
qed

lemma after_sgr_shorter: "after_sgr t = Some s \<Longrightarrow> length s < length t"
  using after_sgr_suffix [of t s] by auto

function strip_ansi :: "jstext \<Rightarrow> jstext" where
  "strip_ansi t =
     (case after_sgr t of
        Some rest \<Rightarrow> strip_ansi rest
      | None \<Rightarrow> (case t of [] \<Rightarrow> [] | c # cs \<Rightarrow> c # strip_ansi cs))"
  by auto
termination by (relation "measure length") (auto dest: after_sgr_shorter)

declare strip_ansi.simps [simp del]

definition newline_char :: "16 word" where
  "newline_char = uchar 10"

text \<open>\<open>msg.endsWith("\n") ? msg.slice(0, -1) : msg\<close>\<close>

definition chomp :: "jstext \<Rightarrow> jstext" where
  "chomp msg = (if msg \<noteq> [] \<and> last msg = newline_char then butlast msg else msg)"

definition log_output :: "jstext list \<Rightarrow> tty_out list" where
  "log_output msgs = concat (map (\<lambda>m. [Write (chomp m), Newline]) msgs)"

definition physical_rows :: "nat \<Rightarrow> jstext list \<Rightarrow> nat" where
  "physical_rows cols phaseLines =
     sum_list (map (\<lambda>line. max 1 (nat \<lceil>of_nat (length (strip_ansi line)) / (of_nat cols :: rat)\<rceil>)) phaseLines)"

definition single_line :: "renderer \<Rightarrow> bool" where
  "single_line r \<longleftrightarrow> rphase r = Scanning \<or> rphase r = ModelLoading"

definition render_single :: "renderer \<Rightarrow> jstext list \<Rightarrow> renderer \<times> tty_out list" where
  "render_single r phaseLines =
     (let newPhaseStr = (case phaseLines of [] \<Rightarrow> [] | l # _ \<Rightarrow> l); hasLogs = length (logBuffer r) > 0
      in if \<not> hasLogs \<and> newPhaseStr = lastPhaseStr r then (r, [])
         else (r\<lparr>lastPhaseStr := newPhaseStr, logBuffer := [], ephemeralLines := if newPhaseStr \<noteq> [] then 1 else 0\<rparr>,
               if hasLogs
               then [CarriageReturn, EraseToEol] @ log_output (logBuffer r)
                    @ (if newPhaseStr \<noteq> [] then [Write newPhaseStr, EraseToEol] else [])
               else [CarriageReturn, Write newPhaseStr, EraseToEol]))"

definition render_block :: "tty_env \<Rightarrow> renderer \<Rightarrow> jstext list \<Rightarrow> renderer \<times> tty_out list" where
  "render_block env r phaseLines =
     (let newPhaseStr = join_with [newline_char] phaseLines; hasLogs = length (logBuffer r) > 0
      in if \<not> hasLogs \<and> newPhaseStr = lastPhaseStr r then (r, [])
         else (r\<lparr>lastPhaseStr := newPhaseStr, logBuffer := [],
                 ephemeralLines := physical_rows (term_columns env) phaseLines\<rparr>,
               (if ephemeralLines r > 0 then [Up (ephemeralLines r), EraseBelow] else [])
               @ log_output (logBuffer r) @ concat (map (\<lambda>l. [Write l, Newline]) phaseLines)))"

definition doRender :: "tty_env \<Rightarrow> renderer \<Rightarrow> (renderer \<times> tty_out list) result" where
  "doRender env r =
     (if \<not> isTTY env then Inr (r\<lparr>logBuffer := []\<rparr>, map Write (logBuffer r))
      else result_bind (buildPhase env r) (\<lambda>phaseLines.
             Inr (if single_line r then render_single r phaseLines else render_block env r phaseLines)))"

subsection \<open>The operations\<close>

text \<open>The callback of the timer.\<close>

definition tick :: "tty_env \<Rightarrow> renderer \<Rightarrow> (renderer \<times> tty_out list) result" where
  "tick env r =
     (let r1 = r\<lparr>tickCount := tickCount r + 1\<rparr>;
          needsAnim = single_line r1;
          needsFooter = (rphase r1 = Pipeline \<and> tickCount r1 mod 12 = 0)
      in if dirty r1 \<or> needsAnim \<or> needsFooter then doRender env (r1\<lparr>dirty := False\<rparr>) else Inr (r1, []))"

definition log_message :: "jstext \<Rightarrow> renderer \<Rightarrow> renderer" where
  "log_message msg r = r\<lparr>logBuffer := logBuffer r @ [msg], dirty := True\<rparr>"

definition startScanning :: "nat \<Rightarrow> renderer \<Rightarrow> renderer" where
  "startScanning tot r =
     r\<lparr>scanTotal := tot, rphase := if rphase r = Idle then Scanning else rphase r, dirty := True\<rparr>"

definition updateScanning :: "nat \<Rightarrow> nat \<Rightarrow> renderer \<Rightarrow> renderer" where
  "updateScanning done' tot r = r\<lparr>scanDone := done', scanTotal := tot, dirty := True\<rparr>"

definition startModelLoading :: "jstext \<Rightarrow> renderer \<Rightarrow> renderer \<times> tty_out list" where
  "startModelLoading model r =
     (let leave = (rphase r = Scanning \<and> ephemeralLines r > 0)
      in (r\<lparr>ephemeralLines := if leave then 0 else ephemeralLines r, modelName := model, rphase := ModelLoading,
            dirty := True\<rparr>, if leave then [Newline] else []))"

definition updateModelProgress :: "nat \<Rightarrow> nat \<Rightarrow> renderer \<Rightarrow> renderer" where
  "updateModelProgress loaded tot r = r\<lparr>modelLoaded := loaded, modelTotal := tot, dirty := True\<rparr>"

definition startPipeline :: "tty_env \<Rightarrow> renderer \<Rightarrow> (renderer \<times> tty_out list) result" where
  "startPipeline env r =
     result_bind (if rphase r = ModelLoading \<and> modelTotal r > 0
                  then doRender env (r\<lparr>modelLoaded := modelTotal r\<rparr>) else Inr (r, [])) (\<lambda>(r1, out1).
       Inr (r1\<lparr>rphase := Pipeline, ephemeralLines := 0, dirty := True\<rparr>,
            out1 @ (if single_line r1 \<and> ephemeralLines r1 > 0 then [Newline] else [])))"

definition updateChunk :: "tty_env \<Rightarrow> nat \<Rightarrow> nat \<Rightarrow> renderer \<Rightarrow> renderer" where
  "updateChunk env val tot r =
     r\<lparr>chunkPhaseT0 := if chunkPhaseT0 r = 0 \<and> val > 0 then now env else chunkPhaseT0 r,
       chunkBar := \<lparr>bar_value = max (bar_value (chunkBar r)) val, bar_total = tot\<rparr>, dirty := True\<rparr>"

definition updateEmbed :: "tty_env \<Rightarrow> nat \<Rightarrow> nat \<Rightarrow> renderer \<Rightarrow> renderer" where
  "updateEmbed env val tot r =
     r\<lparr>embedPhaseT0 := if embedPhaseT0 r = 0 \<and> val > 0 then now env else embedPhaseT0 r,
       embedBar := \<lparr>bar_value = max (bar_value (embedBar r)) val,
                    bar_total = max (bar_total (embedBar r)) tot\<rparr>, dirty := True\<rparr>"

definition updateUpload :: "nat \<Rightarrow> nat \<Rightarrow> renderer \<Rightarrow> renderer" where
  "updateUpload val tot r =
     r\<lparr>uploadBar := \<lparr>bar_value = max (bar_value (uploadBar r)) val,
                     bar_total = max (bar_total (uploadBar r)) tot\<rparr>, dirty := True\<rparr>"

definition updateFileIndexed :: "nat \<Rightarrow> nat \<Rightarrow> renderer \<Rightarrow> renderer" where
  "updateFileIndexed done' tot r = r\<lparr>filesDone := done', filesTotal := tot, dirty := True\<rparr>"

definition updateSkipped :: "nat \<Rightarrow> renderer \<Rightarrow> renderer" where
  "updateSkipped skipped r = r\<lparr>embedSkipped := skipped, dirty := True\<rparr>"

definition setChunkingStats :: "nat \<Rightarrow> nat \<Rightarrow> nat \<Rightarrow> renderer \<Rightarrow> renderer" where
  "setChunkingStats files bytes ms r =
     r\<lparr>chunkingStats := Some \<lparr>ps_count = files, ps_bytes = bytes, ps_ms = ms\<rparr>, dirty := True\<rparr>"

definition setEmbeddingStats :: "nat \<Rightarrow> nat \<Rightarrow> nat \<Rightarrow> renderer \<Rightarrow> renderer" where
  "setEmbeddingStats chunks bytes ms r =
     r\<lparr>embeddingStats := Some \<lparr>ps_count = chunks, ps_bytes = bytes, ps_ms = ms\<rparr>, dirty := True\<rparr>"

definition stop :: "tty_env \<Rightarrow> renderer \<Rightarrow> (renderer \<times> tty_out list) result" where
  "stop env r =
     (let r1 = r\<lparr>timer := False\<rparr>;
          finish = (\<lambda>(r', out). Inr (r'\<lparr>restoreCursor := False\<rparr>,
            out @ (if restoreCursor r' \<and> isTTY env then [ShowCursor] else [])))
      in if single_line r1
         then finish (r1, if ephemeralLines r1 > 0 then [Newline] else [])
         else if isTTY env
         then let erase = (if ephemeralLines r1 > 0 then [Up (ephemeralLines r1), EraseBelow] else []);
                  r2 = r1\<lparr>ephemeralLines := 0, lastPhaseStr := []\<rparr>
              in result_bind (doRender env r2) (\<lambda>(r3, out). finish (r3, erase @ out))
         else result_bind (buildPhase env r1) (\<lambda>phaseLines.
                finish (r1\<lparr>logBuffer := []\<rparr>,
                  map Write (logBuffer r1) @ concat (map (\<lambda>l. [Write l, Newline]) phaseLines))))"

subsection \<open>The terminal\<close>

text \<open>
  The screen of a terminal of a given width, without limit upwards: the rows above the cursor's row,
  the cursor's column, and the cursor's row with those below it (none when the cursor is on a fresh
  row). A character that does not fit starts a new row. Texts contain no other control characters
  than line feeds and colours.
\<close>

record screen =
  above :: "jstext list"
  column :: nat
  lower :: "jstext list"

definition cursor_row :: "screen \<Rightarrow> jstext" where
  "cursor_row s = (case lower s of [] \<Rightarrow> [] | r # _ \<Rightarrow> r)"

definition line_feed :: "screen \<Rightarrow> screen" where
  "line_feed s = \<lparr>above = above s @ [cursor_row s], column = 0, lower = tl (lower s)\<rparr>"

definition put :: "nat \<Rightarrow> screen \<Rightarrow> 16 word \<Rightarrow> screen" where
  "put W s c =
     (if c = newline_char then line_feed s
      else let s1 = (if column s < W then s else line_feed s)
           in s1\<lparr>column := column s1 + 1,
                 lower := (take (column s1) (cursor_row s1) @ c # drop (column s1 + 1) (cursor_row s1)) # tl (lower s1)\<rparr>)"

definition feed :: "nat \<Rightarrow> tty_out \<Rightarrow> screen \<Rightarrow> screen" where
  "feed W out s =
     (case out of
        Write t \<Rightarrow> foldl (put W) s (strip_ansi t)
      | Newline \<Rightarrow> line_feed s
      | Up n \<Rightarrow> (let k = length (above s) - n in s\<lparr>above := take k (above s), lower := drop k (above s) @ lower s\<rparr>)
      | EraseBelow \<Rightarrow> (let row = take (column s) (cursor_row s) in s\<lparr>lower := if row = [] then [] else [row]\<rparr>)
      | EraseToEol \<Rightarrow> s\<lparr>lower := take (column s) (cursor_row s) # tl (lower s)\<rparr>
      | CarriageReturn \<Rightarrow> s\<lparr>column := 0\<rparr>
      | HideCursor \<Rightarrow> s
      | ShowCursor \<Rightarrow> s)"

definition feed_all :: "nat \<Rightarrow> tty_out list \<Rightarrow> screen \<Rightarrow> screen" where
  "feed_all W outs s = fold (feed W) outs s"

lemma feed_all_append: "feed_all W (xs @ ys) s = feed_all W ys (feed_all W xs s)"
  by (simp add: feed_all_def)

lemma feed_all_Nil [simp]: "feed_all W [] s = s"
  by (simp add: feed_all_def)

lemma feed_all_Cons [simp]: "feed_all W (x # xs) s = feed_all W xs (feed W x s)"
  by (simp add: feed_all_def)

text \<open>The rows a text without line feeds takes, and those of any text.\<close>

definition add_char :: "nat \<Rightarrow> jstext list \<Rightarrow> 16 word \<Rightarrow> jstext list" where
  "add_char W rows c =
     (if length (last rows) < W then butlast rows @ [last rows @ [c]] else rows @ [[c]])"

definition wrap :: "nat \<Rightarrow> jstext \<Rightarrow> jstext list" where
  "wrap W t = foldl (add_char W) [[]] t"

definition rows_of :: "nat \<Rightarrow> jstext \<Rightarrow> jstext list" where
  "rows_of W t = concat (map (wrap W) (split_on newline_char t))"

definition fresh :: "jstext list \<Rightarrow> screen" where
  "fresh A = \<lparr>above = A, column = 0, lower = []\<rparr>"

text \<open>The cursor stands behind the last of the given rows.\<close>

definition shows_rows :: "screen \<Rightarrow> jstext list \<Rightarrow> jstext list \<Rightarrow> bool" where
  "shows_rows s A rows \<longleftrightarrow> rows \<noteq> [] \<and> above s = A @ butlast rows \<and> cursor_row s = last rows
     \<and> column s = length (last rows) \<and> tl (lower s) = []"

lemma shows_fresh: "shows_rows (fresh A) A [[]]"
  by (simp add: shows_rows_def fresh_def cursor_row_def)

lemma line_feed_shows: "shows_rows s A rows \<Longrightarrow> line_feed s = fresh (A @ rows)"
  by (simp add: shows_rows_def line_feed_def fresh_def)

lemma add_char_ne [simp]: "add_char W rows c \<noteq> []"
  by (simp add: add_char_def)

lemma put_shows:
  assumes "shows_rows s A rows" and "c \<noteq> newline_char"
  shows "shows_rows (put W s c) A (add_char W rows c)"
proof (cases "length (last rows) < W")
  case True
  then show ?thesis using assms
    by (simp add: shows_rows_def put_def add_char_def Let_def cursor_row_def)
next
  case False
  then have "put W s c = (line_feed s)\<lparr>column := 1, lower := [[c]]\<rparr>" using assms
    by (simp add: shows_rows_def put_def Let_def cursor_row_def line_feed_def)
  moreover have "line_feed s = fresh (A @ rows)" by (rule line_feed_shows [OF assms(1)])
  ultimately show ?thesis using False
    by (simp add: shows_rows_def add_char_def fresh_def cursor_row_def)
qed

lemma puts_shows:
  "shows_rows s A rows \<Longrightarrow> newline_char \<notin> set t \<Longrightarrow>
   shows_rows (foldl (put W) s t) A (foldl (add_char W) rows t)"
proof (induction t arbitrary: s rows)
  case (Cons c t)
  then have "shows_rows (put W s c) A (add_char W rows c)" by (intro put_shows) auto
  then show ?case using Cons by simp
qed simp

lemma write_line:
  "line_feed (foldl (put W) (fresh A) t) = fresh (A @ rows_of W t)"
proof -
  have "line_feed (foldl (put W) (fresh A) (join_with [newline_char] ws)) = fresh (A @ concat (map (wrap W) ws))"
    if "ws \<noteq> []" "\<forall>w \<in> set ws. newline_char \<notin> set w" for ws
    using that
  proof (induction "[newline_char]" ws arbitrary: A rule: join_with.induct)
    case (2 w)
    then show ?case using line_feed_shows [OF puts_shows [OF shows_fresh]] by (simp add: wrap_def)
  next
    case (3 w v ws)
    have "put W (foldl (put W) (fresh A) w) newline_char = fresh (A @ wrap W w)"
      using 3(3) line_feed_shows [OF puts_shows [OF shows_fresh]] by (simp add: put_def wrap_def)
    then show ?case using 3 by simp
  qed simp
  from this [of "split_on newline_char t"] split_on_no_sep show ?thesis by (fastforce simp: rows_of_def)
qed

lemma feed_line: "feed_all W [Write t, Newline] (fresh A) = fresh (A @ rows_of W (strip_ansi t))"
  by (simp add: feed_def write_line)

lemma feed_lines:
  "feed_all W (concat (map (\<lambda>l. [Write (f l), Newline]) ls)) (fresh A)
     = fresh (A @ concat (map (\<lambda>l. rows_of W (strip_ansi (f l))) ls))"
proof (induction ls arbitrary: A)
  case (Cons l ls)
  have "feed_all W ([Write (f l), Newline] @ concat (map (\<lambda>l. [Write (f l), Newline]) ls)) (fresh A)
      = feed_all W (concat (map (\<lambda>l. [Write (f l), Newline]) ls)) (fresh (A @ rows_of W (strip_ansi (f l))))"
    unfolding feed_all_append feed_line by (rule refl)
  then show ?case by (simp add: Cons.IH)
qed (simp add: fresh_def)

lemma erase_block: "feed_all W [Up (length B), EraseBelow] (fresh (A @ B)) = fresh A"
  by (simp add: feed_def fresh_def Let_def cursor_row_def)

subsection \<open>Counting rows\<close>

lemma wrap_shape:
  assumes "0 < W"
  shows "v \<noteq> [] \<Longrightarrow> \<exists>k. length (wrap W v) = k + 1 \<and> length v = k * W + length (last (wrap W v))
    \<and> 1 \<le> length (last (wrap W v)) \<and> length (last (wrap W v)) \<le> W"
proof (induction v rule: rev_induct)
  case (snoc c v)
  have step: "wrap W (v @ [c]) = add_char W (wrap W v) c" by (simp add: wrap_def)
  show ?case
  proof (cases "v = []")
    case True
    then show ?thesis using assms by (simp add: wrap_def add_char_def)
  next
    case False
    then obtain k where k: "length (wrap W v) = k + 1" "length v = k * W + length (last (wrap W v))"
      "1 \<le> length (last (wrap W v))" "length (last (wrap W v)) \<le> W" using snoc.IH by blast
    show ?thesis
    proof (cases "length (last (wrap W v)) < W")
      case True
      then show ?thesis using k unfolding step by (simp add: add_char_def)
    next
      case False
      then have full: "length (last (wrap W v)) = W" using k(4) by simp
      then show ?thesis unfolding step using k(1,2) assms
        by (intro exI [of _ "k + 1"]) (simp add: add_char_def)
    qed
  qed
qed simp

lemma length_wrap:
  assumes "0 < W"
  shows "length (wrap W v) = max 1 (nat \<lceil>of_nat (length v) / (of_nat W :: rat)\<rceil>)"
proof (cases "v = []")
  case True
  then show ?thesis by (simp add: wrap_def)
next
  case False
  then obtain k l where k: "length (wrap W v) = k + 1" "length v = k * W + l" "1 \<le> l" "l \<le> W"
    using wrap_shape [OF assms] by blast
  have "of_nat (length v) / (of_nat W :: rat) = of_nat k + of_nat l / of_nat W"
    using assms by (simp add: k(2) add_divide_distrib)
  moreover have "0 < of_nat l / (of_nat W :: rat)" "of_nat l / (of_nat W :: rat) \<le> 1"
    using k(3,4) assms by (simp_all add: field_simps)
  ultimately have "\<lceil>of_nat (length v) / (of_nat W :: rat)\<rceil> = int k + 1"
    by (intro ceiling_unique) simp_all
  then show ?thesis by (simp add: k(1))
qed

text \<open>A text on one line: no character of it is a line feed.\<close>

definition one_line :: "jstext \<Rightarrow> bool" where
  "one_line t \<longleftrightarrow> newline_char \<notin> set t"

named_theorems one_line_intros \<open>Texts on one line\<close>

lemma one_line_Nil [one_line_intros]: "one_line []"
  by (simp add: one_line_def)

lemma one_line_Cons [one_line_intros]: "c \<noteq> newline_char \<Longrightarrow> one_line t \<Longrightarrow> one_line (c # t)"
  by (simp add: one_line_def)

lemma one_line_append [one_line_intros]: "one_line s \<Longrightarrow> one_line t \<Longrightarrow> one_line (s @ t)"
  by (simp add: one_line_def)

lemma one_line_replicate [one_line_intros]: "c \<noteq> newline_char \<Longrightarrow> one_line (replicate n c)"
  by (simp add: one_line_def)

lemma one_line_take [one_line_intros]: "one_line t \<Longrightarrow> one_line (take n t)"
  by (auto simp: one_line_def dest: in_set_takeD)

lemma one_line_If [one_line_intros]: "one_line s \<Longrightarrow> one_line t \<Longrightarrow> one_line (if b then s else t)"
  by simp

lemma one_line_pad [one_line_intros]:
  "c \<noteq> newline_char \<Longrightarrow> one_line t \<Longrightarrow> one_line (pad_start n c t)"
  "c \<noteq> newline_char \<Longrightarrow> one_line t \<Longrightarrow> one_line (pad_end n c t)"
  by (simp_all add: pad_start_def pad_end_def one_line_def)

lemma newline_char_js: "newline_char = of_nat (of_char (CHR 0x0A))"
  by (simp add: newline_char_def uchar_def)

lemma one_line_js: "one_line (js s) \<longleftrightarrow> CHR 0x0A \<notin> set s"
  unfolding one_line_def newline_char_js js_def set_map image_iff of_char_word_inj by blast

lemma one_line_jsI [one_line_intros]: "CHR 0x0A \<notin> set s \<Longrightarrow> one_line (js s)"
  by (rule iffD2 [OF one_line_js])

lemma digit_not_newline: "d < 10 \<Longrightarrow> digit d \<noteq> CHR 0x0A"
proof
  assume "d < 10" and "digit d = CHR 0x0A"
  then have "(of_char (char_of (48 + d)) :: nat) = of_char (CHR 0x0A)" by (simp only: digit_def)
  then show False using \<open>d < 10\<close> by simp
qed

lemma show_nat_line [simp]: "CHR 0x0A \<notin> set (show_nat n)"
  using show_nat_digits digit_not_newline by metis

lemma show_int_line [simp]: "CHR 0x0A \<notin> set (show_int i)"
  by (simp add: show_int_def)

lemma to_fixed_line [simp]: "CHR 0x0A \<notin> set (to_fixed k x)"
  by (simp add: to_fixed_def Let_def)

lemma fmtTime_line [simp]: "CHR 0x0A \<notin> set (fmtTime s)"
  by (simp add: fmtTime_def)

lemma uchars_not_newline [one_line_intros]:
  "full_block \<noteq> newline_char" "light_shade \<noteq> newline_char" "box_horizontal \<noteq> newline_char" "space \<noteq> newline_char"
  by (simp_all add: full_block_def light_shade_def box_horizontal_def space_def newline_char_def uchar_def)

lemma one_line_sgr [one_line_intros]:
  "one_line reset" "one_line bold" "one_line dim" "one_line green" "one_line yellow" "one_line cyan" "one_line gray"
  "one_line em_dash" "one_line ellipsis" "one_line box_vertical"
  by (simp_all add: one_line_def reset_def bold_def dim_def green_def yellow_def cyan_def gray_def sgr_def
      em_dash_def ellipsis_def box_vertical_def newline_char_def uchar_def)

lemma one_line_join [one_line_intros]:
  "one_line d \<Longrightarrow> (\<And>w. w \<in> set ws \<Longrightarrow> one_line w) \<Longrightarrow> one_line (join_with d ws)"
proof (induction d ws rule: join_with.induct)
  case (3 d w v ws)
  then show ?case by (simp add: one_line_append)
qed (simp_all add: one_line_def)

lemma one_line_separators [one_line_intros]: "one_line separator" "one_line footer_separator"
  unfolding separator_def footer_separator_def by (intro one_line_intros; simp)+

lemma one_line_renderBar [one_line_intros]: "one_line (renderBar val tot width)"
  unfolding renderBar_def Let_def by (intro one_line_intros)

lemma one_line_renderPct [one_line_intros]: "one_line (renderPct val tot)"
  unfolding renderPct_def Let_def by (intro one_line_intros; simp)

lemma one_line_fmtSpeed [one_line_intros]: "one_line (fmtSpeed bytes ms)"
  unfolding fmtSpeed_def Let_def by (intro one_line_intros; simp)

lemma one_line_rates [one_line_intros]: "one_line (liveChunkRate r t)" "one_line (liveEmbedRate r t)"
  unfolding liveChunkRate_def liveEmbedRate_def liveRate_def Let_def
  by (cases "chunkingStats r"; cases "embeddingStats r"; simp only: option.case;
      intro one_line_intros; simp add: files_per_sec_def chunks_per_sec_def)+

lemma one_line_counts [one_line_intros]: "one_line (chunkCount r)" "one_line (embedCount r)" "one_line (uploadCount r)"
  unfolding chunkCount_def embedCount_def uploadCount_def count_of_def Let_def
  by (intro one_line_intros; simp)+

lemma one_line_header: "one_line header_line"
  unfolding header_line_def centerInWidth_def Let_def by (intro one_line_intros; simp)

lemma one_line_clamp [one_line_intros]: "one_line t \<Longrightarrow> one_line (clamp_rate env t)"
  unfolding clamp_rate_def Let_def by (intro one_line_intros)

lemma one_line_row [one_line_intros]:
  "one_line l \<Longrightarrow> one_line c \<Longrightarrow> one_line t \<Longrightarrow> one_line (buildBarRow env l b c t)"
  unfolding buildBarRow_def by (intro one_line_intros; simp)

lemma one_line_elapsed: "one_line (elapsed_row r e)"
  unfolding elapsed_row_def
  by (cases "calcPipelineEta r e"; simp only: option.case; intro one_line_intros; simp)

lemma one_line_part:
  assumes "CHR 0x0A \<notin> set label" and "\<And>x. CHR 0x0A \<notin> set (fmt x)" and "l \<in> set (throughput_part label fmt st)"
  shows "one_line l"
proof (cases st)
  case (Some p)
  have "one_line (dim @ js label @ reset @ js '' ''
      @ (let secs = of_nat (ps_ms p) / 1000 in if secs > 0 then js (fmt (of_nat (ps_count p) / secs)) else em_dash)
      @ js ''  '' @ fmtSpeed (ps_bytes p) (ps_ms p))"
    unfolding Let_def by (intro one_line_intros assms; simp)
  then show ?thesis using assms(3) Some by (simp add: throughput_part_def split: if_splits)
qed (use assms(3) in \<open>simp add: throughput_part_def\<close>)

lemma pipeline_lines: "l \<in> set (buildPipeline env r) \<Longrightarrow> one_line l"
proof -
  have label: "one_line (pad_end LABEL_WIDTH space (js s))" if "CHR 0x0A \<notin> set s" for s
    using that by (intro one_line_intros) simp_all
  have rows: "one_line (buildBarRow env (pad_end LABEL_WIDTH space (js s)) b c t)"
    if "CHR 0x0A \<notin> set s" "one_line c" "one_line t" for s b c t
    by (intro one_line_row label that)
  have parts: "one_line (join_with footer_separator
      (throughput_part ''Chunking:'' files_per_sec a @ throughput_part ''Embedding:'' chunks_per_sec b))" for a b
    by (intro one_line_join one_line_separators)
      (auto simp: files_per_sec_def chunks_per_sec_def dest!: one_line_part [rotated -1])
  show "l \<in> set (buildPipeline env r) \<Longrightarrow> one_line l"
    unfolding buildPipeline_def Let_def
    by (auto simp: one_line_header one_line_elapsed one_line_counts one_line_rates one_line_sgr parts
        simp del: js_Cons intro!: rows split: if_splits)
qed

lemma strip_ansi_subset: "set (strip_ansi t) \<subseteq> set t"
proof (induction t rule: strip_ansi.induct)
  case (1 t)
  have sub: "set s \<subseteq> set t" if "after_sgr t = Some s" for s
    using after_sgr_suffix [OF that] by auto
  show ?case
  proof (cases "after_sgr t")
    case None
    show ?thesis
    proof (cases t)
      case Nil
      then show ?thesis using None by (subst strip_ansi.simps) simp
    next
      case (Cons c cs)
      then have "set (strip_ansi cs) \<subseteq> set cs" using 1(1) [OF None Cons] by simp
      moreover have "strip_ansi t = c # strip_ansi cs" using None Cons by (subst strip_ansi.simps) simp
      ultimately show ?thesis using Cons by auto
    qed
  next
    case (Some s)
    then have "strip_ansi t = strip_ansi s" by (subst strip_ansi.simps) simp
    then show ?thesis using 1(2) [OF Some] sub [OF Some] by simp
  qed
qed

lemma split_on_none: "d \<notin> set xs \<Longrightarrow> split_on d xs = [xs]"
  by (induction xs) auto

text \<open>The rows the code counts for its lines are the rows they take.\<close>

lemma physical_rows_correct:
  assumes "0 < W" and "\<forall>l \<in> set ls. one_line l"
  shows "physical_rows W ls = length (concat (map (\<lambda>l. rows_of W (strip_ansi l)) ls))"
  using assms(2)
proof (induction ls)
  case (Cons l ls)
  have "newline_char \<notin> set (strip_ansi l)" using Cons.prems strip_ansi_subset [of l] by (auto simp: one_line_def)
  then have "split_on newline_char (strip_ansi l) = [strip_ansi l]" by (rule split_on_none)
  then have "rows_of W (strip_ansi l) = wrap W (strip_ansi l)" by (simp add: rows_of_def)
  then show ?case using Cons by (simp add: physical_rows_def length_wrap [OF assms(1)])
qed (simp add: physical_rows_def)

subsection \<open>The display never garbles the terminal\<close>

text \<open>What may happen during the pipeline phase, each at its time.\<close>

datatype display_event =
    Log jstext
  | ChunkProgress nat nat
  | EmbedProgress nat nat
  | UploadProgress nat nat
  | FileIndexed nat nat
  | Skipped nat
  | ChunkingDone nat nat nat
  | EmbeddingDone nat nat nat
  | Tick

definition display_step :: "tty_env \<Rightarrow> display_event \<Rightarrow> renderer \<Rightarrow> (renderer \<times> tty_out list) result" where
  "display_step env ev r =
     (case ev of
        Log m \<Rightarrow> Inr (log_message m r, [])
      | ChunkProgress v t \<Rightarrow> Inr (updateChunk env v t r, [])
      | EmbedProgress v t \<Rightarrow> Inr (updateEmbed env v t r, [])
      | UploadProgress v t \<Rightarrow> Inr (updateUpload v t r, [])
      | FileIndexed d t \<Rightarrow> Inr (updateFileIndexed d t r, [])
      | Skipped n \<Rightarrow> Inr (updateSkipped n r, [])
      | ChunkingDone f b ms \<Rightarrow> Inr (setChunkingStats f b ms r, [])
      | EmbeddingDone c b ms \<Rightarrow> Inr (setEmbeddingStats c b ms r, [])
      | Tick \<Rightarrow> tick env r)"

fun run_display ::
  "tty_env \<Rightarrow> (nat \<times> display_event) list \<Rightarrow> renderer \<Rightarrow> (renderer \<times> tty_out list) result" where
  "run_display env [] r = Inr (r, [])"
| "run_display env ((t, ev) # evs) r =
     result_bind (display_step (env\<lparr>now := t\<rparr>) ev r) (\<lambda>(r1, out1).
       result_bind (run_display env evs r1) (\<lambda>(r2, out2). Inr (r2, out1 @ out2)))"

definition logged :: "(nat \<times> display_event) list \<Rightarrow> jstext list" where
  "logged evs = concat (map (\<lambda>(t, ev). case ev of Log m \<Rightarrow> [m] | _ \<Rightarrow> []) evs)"

definition log_rows :: "nat \<Rightarrow> jstext list \<Rightarrow> jstext list" where
  "log_rows W msgs = concat (map (\<lambda>m. rows_of W (strip_ansi (chomp m))) msgs)"

definition line_rows :: "nat \<Rightarrow> jstext list \<Rightarrow> jstext list" where
  "line_rows W ls = concat (map (\<lambda>l. rows_of W (strip_ansi l)) ls)"

text \<open>The invariant: above the cursor stand the messages printed so far, then the block, whose number
  of rows the object knows; the other messages wait in the buffer.\<close>

definition display_inv ::
  "nat \<Rightarrow> jstext list \<Rightarrow> jstext list \<Rightarrow> renderer \<Rightarrow> screen \<Rightarrow> bool" where
  "display_inv W A msgs r s \<longleftrightarrow> rphase r = Pipeline \<and> (\<exists>printed block. msgs = printed @ logBuffer r
     \<and> ephemeralLines r = length block \<and> s = fresh (A @ log_rows W printed @ block))"

lemma log_rows_append: "log_rows W (a @ b) = log_rows W a @ log_rows W b"
  by (simp add: log_rows_def)

lemma feed_log_output: "feed_all W (log_output msgs) (fresh A) = fresh (A @ log_rows W msgs)"
  unfolding log_output_def log_rows_def by (rule feed_lines)

lemma feed_erase:
  "n = length B \<Longrightarrow> feed_all W (if n > 0 then [Up n, EraseBelow] else []) (fresh (A @ B)) = fresh A"
  using erase_block [of W B A] by (cases "B = []") simp_all

lemma render_block_drawn:
  assumes W: "0 < term_columns env" and inv: "display_inv (term_columns env) A msgs r s"
    and draw: "logBuffer r \<noteq> [] \<or> join_with [newline_char] (buildPipeline env r) \<noteq> lastPhaseStr r"
    and run: "render_block env r (buildPipeline env r) = (r', out)"
  shows "feed_all (term_columns env) out s
      = fresh (A @ log_rows (term_columns env) msgs @ line_rows (term_columns env) (buildPipeline env r))"
    and "r' = r\<lparr>lastPhaseStr := join_with [newline_char] (buildPipeline env r), logBuffer := [],
      ephemeralLines := length (line_rows (term_columns env) (buildPipeline env r))\<rparr>"
proof -
  let ?W = "term_columns env" and ?ls = "buildPipeline env r"
  obtain printed block where m: "msgs = printed @ logBuffer r" and e: "ephemeralLines r = length block"
    and s: "s = fresh (A @ log_rows ?W printed @ block)" using inv by (auto simp: display_inv_def)
  have rows: "physical_rows ?W ?ls = length (line_rows ?W ?ls)"
    unfolding line_rows_def by (rule physical_rows_correct [OF W]) (blast intro: pipeline_lines)
  have out: "out = (if ephemeralLines r > 0 then [Up (ephemeralLines r), EraseBelow] else [])
      @ log_output (logBuffer r) @ concat (map (\<lambda>l. [Write l, Newline]) ?ls)"
    and r': "r' = r\<lparr>lastPhaseStr := join_with [newline_char] ?ls, logBuffer := [], ephemeralLines := physical_rows ?W ?ls\<rparr>"
    using run draw by (auto simp: render_block_def Let_def)
  show "r' = r\<lparr>lastPhaseStr := join_with [newline_char] ?ls, logBuffer := [], ephemeralLines := length (line_rows ?W ?ls)\<rparr>"
    using r' rows by simp
  have "feed_all ?W (if ephemeralLines r > 0 then [Up (ephemeralLines r), EraseBelow] else []) s
      = fresh (A @ log_rows ?W printed)"
    unfolding s using feed_erase [of "ephemeralLines r" block ?W "A @ log_rows ?W printed"] e by simp
  then show "feed_all ?W out s = fresh (A @ log_rows ?W msgs @ line_rows ?W ?ls)"
    unfolding out feed_all_append feed_lines [where f = "\<lambda>l. l"]
    by (simp only: feed_log_output feed_lines [where f = "\<lambda>l. l"] m log_rows_append line_rows_def append.assoc)
qed

lemma doRender_step:
  assumes tty: "isTTY env" and W: "0 < term_columns env" and inv: "display_inv (term_columns env) A msgs r s"
  shows "\<exists>r' out. doRender env r = Inr (r', out) \<and> display_inv (term_columns env) A msgs r' (feed_all (term_columns env) out s)"
proof -
  let ?W = "term_columns env" and ?ls = "buildPipeline env r"
  obtain r' out where run: "render_block env r ?ls = (r', out)" by force
  have ph: "rphase r = Pipeline" using inv by (simp add: display_inv_def)
  have "doRender env r = Inr (r', out)"
    using tty ph run by (simp add: doRender_def buildPhase_def single_line_def)
  moreover have "display_inv ?W A msgs r' (feed_all ?W out s)"
  proof (cases "logBuffer r \<noteq> [] \<or> join_with [newline_char] ?ls \<noteq> lastPhaseStr r")
    case True
    note drawn = render_block_drawn [OF W inv True run]
    show ?thesis unfolding drawn display_inv_def using ph
      by (intro conjI exI [of _ msgs] exI [of _ "line_rows ?W ?ls"]) simp_all
  next
    case False
    then have "r' = r \<and> out = []" using run by (simp add: render_block_def Let_def)
    then show ?thesis using inv by simp
  qed
  ultimately show ?thesis by blast
qed

lemma display_inv_fields:
  "rphase r' = rphase r \<Longrightarrow> logBuffer r' = logBuffer r \<Longrightarrow> ephemeralLines r' = ephemeralLines r \<Longrightarrow>
   display_inv W A msgs r' s = display_inv W A msgs r s"
  by (simp add: display_inv_def)

lemma display_step_inv:
  assumes tty: "isTTY env" and W: "0 < term_columns env" and inv: "display_inv (term_columns env) A msgs r s"
  shows "\<exists>r' out. display_step env ev r = Inr (r', out)
    \<and> display_inv (term_columns env) A (msgs @ logged [(t, ev)]) r' (feed_all (term_columns env) out s)"
proof (cases ev)
  case (Log m)
  then show ?thesis using inv by (auto simp: display_step_def log_message_def display_inv_def logged_def)
next
  case Tick
  define r1 where "r1 = r\<lparr>tickCount := tickCount r + 1\<rparr>"
  have inv1: "display_inv (term_columns env) A msgs r1 s"
    using inv display_inv_fields [of r1 r] by (simp add: r1_def)
  have inv2: "display_inv (term_columns env) A msgs (r1\<lparr>dirty := False\<rparr>) s"
    using inv display_inv_fields [of "r1\<lparr>dirty := False\<rparr>" r] by (simp add: r1_def)
  have "display_step env ev r = (if dirty r1 \<or> single_line r1 \<or> rphase r1 = Pipeline \<and> tickCount r1 mod 12 = 0
      then doRender env (r1\<lparr>dirty := False\<rparr>) else Inr (r1, []))"
    unfolding Tick display_step_def tick_def Let_def r1_def [symmetric] by simp
  moreover have "logged [(t, ev)] = []" by (simp add: Tick logged_def)
  ultimately show ?thesis using doRender_step [OF tty W inv2] inv1 by simp
qed (use inv in \<open>auto simp: display_step_def logged_def updateChunk_def updateEmbed_def updateUpload_def
    updateFileIndexed_def updateSkipped_def setChunkingStats_def setEmbeddingStats_def display_inv_def\<close>)

lemma term_columns_now [simp]: "term_columns (env\<lparr>now := t\<rparr>) = term_columns env"
  by (simp add: term_columns_def)

lemma run_display_inv:
  assumes tty: "isTTY env" and W: "0 < term_columns env"
  shows "display_inv (term_columns env) A msgs r s \<Longrightarrow>
    \<exists>r' out. run_display env evs r = Inr (r', out)
      \<and> display_inv (term_columns env) A (msgs @ logged evs) r' (feed_all (term_columns env) out s)"
proof (induction evs arbitrary: msgs r s)
  case Nil
  then show ?case by (simp add: logged_def)
next
  case (Cons e evs)
  obtain t ev where e: "e = (t, ev)" by force
  obtain r1 out1 where step: "display_step (env\<lparr>now := t\<rparr>) ev r = Inr (r1, out1)"
    and inv1: "display_inv (term_columns env) A (msgs @ logged [(t, ev)]) r1 (feed_all (term_columns env) out1 s)"
    using display_step_inv [of "env\<lparr>now := t\<rparr>" A msgs r s ev t] tty W Cons.prems by auto
  obtain r2 out2 where rest: "run_display env evs r1 = Inr (r2, out2)"
    and inv2: "display_inv (term_columns env) A ((msgs @ logged [(t, ev)]) @ logged evs) r2
      (feed_all (term_columns env) out2 (feed_all (term_columns env) out1 s))"
    using Cons.IH [OF inv1] by blast
  have "logged [(t, ev)] @ logged evs = logged (e # evs)" by (simp add: e logged_def)
  then show ?case using step rest inv2 by (simp add: e feed_all_append)
qed

lemma pipeline_block_ne: "join_with [newline_char] (buildPipeline env r) \<noteq> []"
  by (simp add: buildPipeline_def Let_def header_line_def bold_def sgr_def)

lemma pipeline_ignores_block:
  "buildPipeline env (r\<lparr>timer := a, ephemeralLines := b, lastPhaseStr := c\<rparr>) = buildPipeline env r"
proof -
  let ?r = "r\<lparr>timer := a, ephemeralLines := b, lastPhaseStr := c\<rparr>"
  have "chunkCount ?r = chunkCount r" "uploadCount ?r = uploadCount r" "embedCount ?r = embedCount r"
    "liveChunkRate ?r (now env) = liveChunkRate r (now env)" "liveEmbedRate ?r (now env) = liveEmbedRate r (now env)"
    "elapsed_row ?r e = elapsed_row r e" for e
    by (simp_all add: chunkCount_def uploadCount_def embedCount_def liveChunkRate_def liveEmbedRate_def
        elapsed_row_def calcPipelineEta_def Let_def)
  then show ?thesis unfolding buildPipeline_def by simp
qed

lemma stop_draws:
  assumes tty: "isTTY env" and W: "0 < term_columns env" and inv: "display_inv (term_columns env) A msgs r s"
  shows "\<exists>r' out. stop env r = Inr (r', out) \<and> feed_all (term_columns env) out s
    = fresh (A @ log_rows (term_columns env) msgs @ line_rows (term_columns env) (buildPipeline env r))"
proof -
  let ?W = "term_columns env"
  define r2 where "r2 = r\<lparr>timer := False, ephemeralLines := 0, lastPhaseStr := []\<rparr>"
  obtain printed block where m: "msgs = printed @ logBuffer r" and e: "ephemeralLines r = length block"
    and s: "s = fresh (A @ log_rows ?W printed @ block)" and ph: "rphase r = Pipeline"
    using inv by (auto simp: display_inv_def)
  define erase where "erase = (if ephemeralLines r > 0 then [Up (ephemeralLines r), EraseBelow] else [])"
  have erased: "feed_all ?W erase s = fresh (A @ log_rows ?W printed)"
    unfolding s erase_def using feed_erase [of "ephemeralLines r" block ?W "A @ log_rows ?W printed"] e by simp
  have inv2: "display_inv ?W A msgs r2 (fresh (A @ log_rows ?W printed))"
    using m ph by (simp add: display_inv_def r2_def)
  have same: "buildPipeline env r2 = buildPipeline env r"
    unfolding r2_def by (rule pipeline_ignores_block)
  have "logBuffer r2 \<noteq> [] \<or> join_with [newline_char] (buildPipeline env r2) \<noteq> lastPhaseStr r2"
    using pipeline_block_ne by (simp add: r2_def)
  note draw = this
  obtain r3 out where run: "render_block env r2 (buildPipeline env r2) = (r3, out)" by force
  note drawn = render_block_drawn(1) [OF W inv2 draw run]
  have "doRender env r2 = Inr (r3, out)"
    using tty ph run by (simp add: doRender_def buildPhase_def single_line_def r2_def)
  moreover have "r\<lparr>timer := False\<rparr>\<lparr>ephemeralLines := 0, lastPhaseStr := []\<rparr> = r2" by (simp add: r2_def)
  ultimately have "stop env r = Inr (r3\<lparr>restoreCursor := False\<rparr>,
      (erase @ out) @ (if restoreCursor r3 \<and> isTTY env then [ShowCursor] else []))"
    using tty ph unfolding stop_def Let_def by (simp add: single_line_def erase_def)
  moreover have "feed_all ?W ((erase @ out) @ (if restoreCursor r3 \<and> isTTY env then [ShowCursor] else [])) s
      = fresh (A @ log_rows ?W msgs @ line_rows ?W (buildPipeline env r))"
    unfolding feed_all_append erased drawn same by (simp add: feed_def)
  ultimately show ?thesis by blast
qed

text \<open>
  C36. The display never garbles the terminal: whatever log messages, progress reports, statistics and
  timer ticks arrive, and however long the lines are, once the display stops the terminal shows
  what it showed before, then every log message exactly once and in order, then the final table,
  and nothing else; no call raises an error.
\<close>

theorem display_leaves_logs_and_table:
  assumes tty: "isTTY env" and width: "0 < term_columns env"
    and start: "rphase r = Pipeline" "ephemeralLines r = 0"
  shows "\<exists>r1 out1 r2 out2. run_display env evs r = Inr (r1, out1) \<and> stop (env\<lparr>now := t\<rparr>) r1 = Inr (r2, out2)
    \<and> feed_all (term_columns env) (out1 @ out2) (fresh A)
      = fresh (A @ log_rows (term_columns env) (logBuffer r @ logged evs)
               @ line_rows (term_columns env) (buildPipeline (env\<lparr>now := t\<rparr>) r1))"
proof -
  have "display_inv (term_columns env) A (logBuffer r) r (fresh A)"
    using start by (simp add: display_inv_def log_rows_def)
  from run_display_inv [OF tty width this]
  obtain r1 out1 where run: "run_display env evs r = Inr (r1, out1)"
    and inv: "display_inv (term_columns env) A (logBuffer r @ logged evs) r1 (feed_all (term_columns env) out1 (fresh A))"
    by blast
  have "isTTY (env\<lparr>now := t\<rparr>)" "0 < term_columns (env\<lparr>now := t\<rparr>)" using tty width by simp_all
  from stop_draws [OF this, of A "logBuffer r @ logged evs" r1] inv run show ?thesis
    by (auto simp: feed_all_append)
qed

definition sample_env :: tty_env where
  "sample_env = \<lparr>isTTY = True, columns = Some 40, now = 1000\<rparr>"

definition sample_renderer :: renderer where
  "sample_renderer = (fst (new_renderer sample_env))\<lparr>rphase := Pipeline\<rparr>"

lemma display_leaves_logs_and_table_witness:
  "\<exists>r1 out1 r2 out2.
     run_display sample_env [(1080, ChunkProgress 1 4), (1160, Tick), (1200, Log (js ''hello'')), (1240, Tick)] sample_renderer
       = Inr (r1, out1)
     \<and> stop (sample_env\<lparr>now := 1300\<rparr>) r1 = Inr (r2, out2)
     \<and> feed_all 40 (out1 @ out2) (fresh [])
       = fresh (log_rows 40 [js ''hello''] @ line_rows 40 (buildPipeline (sample_env\<lparr>now := 1300\<rparr>) r1))"
  using display_leaves_logs_and_table [of sample_env sample_renderer
      "[(1080, ChunkProgress 1 4), (1160, Tick), (1200, Log (js ''hello'')), (1240, Tick)]" 1300 "[]"]
  by (simp add: sample_env_def sample_renderer_def new_renderer_def logged_def term_columns_def nullish_def
      del: js_Cons)

subsection \<open>The other phases\<close>

text \<open>The percentage of the model display is cut at 100, its bar is not: a model that loads more than
  announced ends the display with an error. The scanning display has the same weakness.\<close>

lemma buildModel_overshoot:
  assumes "0 < modelTotal r" and "modelTotal r * 37 \<le> modelLoaded r * 36"
  shows "\<exists>e. buildModel r = Inl e"
proof -
  have "37 * modelTotal r div modelTotal r \<le> modelLoaded r * 36 div modelTotal r"
    using assms(2) by (intro div_le_mono) (simp add: mult.commute)
  then have "37 \<le> modelLoaded r * BAR_WIDTH div modelTotal r" using assms(1) by (simp add: BAR_WIDTH_def)
  then show ?thesis using assms(1) by (simp add: buildModel_def Let_def repeat_text_def BAR_WIDTH_def)
qed

lemma buildModel_returns: "modelLoaded r \<le> modelTotal r \<Longrightarrow> \<exists>ls. buildModel r = Inr ls"
proof (cases "modelTotal r = 0")
  case False
  assume "modelLoaded r \<le> modelTotal r"
  then have "modelLoaded r * BAR_WIDTH div modelTotal r \<le> modelTotal r * BAR_WIDTH div modelTotal r"
    by (intro div_le_mono mult_le_mono1)
  also have "\<dots> = BAR_WIDTH" using False by simp
  finally show ?thesis by (simp add: buildModel_def Let_def repeat_text_def)
qed (simp add: buildModel_def Let_def)

text \<open>Stopping in these phases drops the messages that wait in the buffer.\<close>

lemma stop_drops_logs:
  assumes "single_line r" and "stop env r = Inr (r', out)"
  shows "Write t \<notin> set out \<and> logBuffer r' = logBuffer r"
  using assms by (auto simp: stop_def Let_def single_line_def split: if_splits)

text \<open>A minute of seconds that is rounded up: 119.6 seconds are printed as \<open>1m60s\<close>.\<close>

lemma fmtTime_rounds_up: "fmtTime (1196 / 10) = ''1m60s''"
proof -
  have f: "\<lfloor>(299 :: rat) / 150\<rfloor> = 1" "\<lfloor>(601 :: rat) / 10\<rfloor> = 60" by (rule floor_unique; simp)+
  have "show_int 1 = ''1''" "show_int 60 = ''60''" by (code_simp)+
  then show ?thesis by (simp add: fmtTime_def frac_mod_def math_round_def f)
qed

text \<open>A bar is as wide as asked for, whatever the progress.\<close>

lemma renderBar_width:
  "length (filter (\<lambda>c. c = full_block \<or> c = light_shade) (renderBar val tot width)) = width"
proof -
  have "filter (\<lambda>c. c = full_block \<or> c = light_shade) (sgr s) = []" if "s \<in> {''36'', ''0'', ''90''}" for s
    using that by (auto simp: sgr_def full_block_def light_shade_def uchar_def)
  then have "filter (\<lambda>c. c = full_block \<or> c = light_shade) cyan = []"
    "filter (\<lambda>c. c = full_block \<or> c = light_shade) reset = []"
    "filter (\<lambda>c. c = full_block \<or> c = light_shade) gray = []"
    by (simp_all add: cyan_def reset_def gray_def)
  then show ?thesis by (simp add: renderBar_def Let_def)
qed

subsection \<open>The wrappers kept for older callers\<close>

text \<open>\<open>createProgressBar\<close>: a label with the current count, redrawn by a timer.\<close>

record simple_bar =
  sb_label :: jstext
  sb_current :: nat
  sb_total :: nat

definition simple_tick :: "tty_env \<Rightarrow> simple_bar \<Rightarrow> tty_out list" where
  "simple_tick env b =
     (if isTTY env
      then [CarriageReturn, Write (sb_label b @ js ('' '' @ show_nat (sb_current b) @ ''/'' @ show_nat (sb_total b)))]
      else [])"

definition simple_update :: "nat \<Rightarrow> simple_bar \<Rightarrow> simple_bar" where
  "simple_update current b = b\<lparr>sb_current := current\<rparr>"

definition simple_setTotal :: "nat \<Rightarrow> simple_bar \<Rightarrow> simple_bar" where
  "simple_setTotal newTotal b = b\<lparr>sb_total := newTotal\<rparr>"

definition simple_stop :: "tty_env \<Rightarrow> jstext option \<Rightarrow> tty_out list" where
  "simple_stop env finalMessage =
     (if isTTY env then [Newline] else [])
     @ (case finalMessage of None \<Rightarrow> [] | Some m \<Rightarrow> if m \<noteq> [] then [Write m, Newline] else [])"

text \<open>\<open>createMultiProgressBars\<close>: the bars keep their own counts and forward them to a renderer.\<close>

record multi_bars =
  mb_chunk :: bar_state
  mb_embed :: bar_state
  mb_upload :: bar_state
  mb_renderer :: renderer

definition createMultiProgressBars :: "tty_env \<Rightarrow> (multi_bars \<times> tty_out list) result" where
  "createMultiProgressBars env =
     (let (r, out) = new_renderer env; z = \<lparr>bar_value = 0, bar_total = 0\<rparr>
      in result_bind (startPipeline env r) (\<lambda>(r1, out1).
           Inr (\<lparr>mb_chunk = z, mb_embed = z, mb_upload = z, mb_renderer = r1\<rparr>, out @ out1)))"

definition multi_chunk_update :: "tty_env \<Rightarrow> nat \<Rightarrow> multi_bars \<Rightarrow> multi_bars" where
  "multi_chunk_update env v m =
     m\<lparr>mb_chunk := (mb_chunk m)\<lparr>bar_value := v\<rparr>,
       mb_renderer := updateChunk env v (bar_total (mb_chunk m)) (mb_renderer m)\<rparr>"

definition multi_chunk_setTotal :: "tty_env \<Rightarrow> nat \<Rightarrow> multi_bars \<Rightarrow> multi_bars" where
  "multi_chunk_setTotal env t m =
     m\<lparr>mb_chunk := (mb_chunk m)\<lparr>bar_total := t\<rparr>,
       mb_renderer := updateChunk env (bar_value (mb_chunk m)) t (mb_renderer m)\<rparr>"

definition multi_embed_update :: "tty_env \<Rightarrow> nat \<Rightarrow> multi_bars \<Rightarrow> multi_bars" where
  "multi_embed_update env v m =
     m\<lparr>mb_embed := (mb_embed m)\<lparr>bar_value := v\<rparr>,
       mb_renderer := updateEmbed env v (bar_total (mb_embed m)) (mb_renderer m)\<rparr>"

definition multi_embed_setTotal :: "tty_env \<Rightarrow> nat \<Rightarrow> multi_bars \<Rightarrow> multi_bars" where
  "multi_embed_setTotal env t m =
     m\<lparr>mb_embed := (mb_embed m)\<lparr>bar_total := t\<rparr>,
       mb_renderer := updateEmbed env (bar_value (mb_embed m)) t (mb_renderer m)\<rparr>"

definition multi_upload_update :: "nat \<Rightarrow> multi_bars \<Rightarrow> multi_bars" where
  "multi_upload_update v m =
     m\<lparr>mb_upload := (mb_upload m)\<lparr>bar_value := v\<rparr>,
       mb_renderer := updateUpload v (bar_total (mb_upload m)) (mb_renderer m)\<rparr>"

definition multi_upload_setTotal :: "nat \<Rightarrow> multi_bars \<Rightarrow> multi_bars" where
  "multi_upload_setTotal t m =
     m\<lparr>mb_upload := (mb_upload m)\<lparr>bar_total := t\<rparr>,
       mb_renderer := updateUpload (bar_value (mb_upload m)) t (mb_renderer m)\<rparr>"

text \<open>A bar of the renderer never moves backwards, even when its caller reports a smaller count.\<close>

lemma bars_never_decrease:
  "bar_value (chunkBar r) \<le> bar_value (chunkBar (updateChunk env v t r))"
  "bar_value (embedBar r) \<le> bar_value (embedBar (updateEmbed env v t r))"
  "bar_value (uploadBar r) \<le> bar_value (uploadBar (updateUpload v t r))"
  by (simp_all add: updateChunk_def updateEmbed_def updateUpload_def)

end
