(* ===== verification/OpenAiEmbedder.thy ===== *)
theory OpenAiEmbedder
  imports Float32 Telemetry
begin

unbundle bit_operations_syntax

section \<open>The embedding provider for OpenAI-compatible services and its cache\<close>

text \<open>
  \<open>src/packages/virage-embedder-openai/src\<close>: the cache of \<open>semantic-cache.ts\<close>, the provider of
  \<open>embedder.ts\<close> and the figures of \<open>embedding-metrics.ts\<close>. The HTTP client (\<open>openai\<close>) and the
  optional package \<open>better-sqlite3\<close> are parameters: \<open>create\<close> answers a request and changes
  the outside world \<open>'w\<close>; a \<open>sqlite_driver\<close> opens a file and runs the two statements of the cache.
  A package that is not installed is a driver that opens nothing.

  The lookups of \<open>embedBatch\<close> run concurrently. Each looks into memory before it first waits, so
  all memory lookups come first; then the lookups in the database file follow in order; then the
  semantic lookups. Logging is left out.
\<close>

type_synonym vec = "jsnum list"

subsection \<open>The hash of a text\<close>

text \<open>
  Shifts and exclusive or coerce to 32 bits; the sum of two 32-bit numbers is exact before it is
  coerced again, so the whole computation is modulo \<open>2 ^ 32\<close>.
\<close>

definition hash_step :: "32 word \<Rightarrow> 16 word \<Rightarrow> 32 word" where
  "hash_step h c = (push_bit 5 h + h) XOR ucast c"

definition hash_word :: "jstext \<Rightarrow> 32 word" where
  "hash_word t = foldl hash_step 5381 t"

definition base36_digit :: "nat \<Rightarrow> char" where
  "base36_digit n = (if n < 10 then char_of (48 + n) else char_of (87 + n))"

fun to_base36 :: "nat \<Rightarrow> string" where
  "to_base36 n = (if n < 36 then [base36_digit n] else to_base36 (n div 36) @ [base36_digit (n mod 36)])"

declare to_base36.simps [simp del]

definition hashText :: "jstext \<Rightarrow> string" where
  "hashText t = to_base36 (unat (hash_word t))"

subsection \<open>Configuration and state of the cache\<close>

datatype cache_strategy = ExactStrategy | SemanticStrategy

datatype cache_persistence = MemoryOnly | SqliteFile

record cache_options =
  co_strategy :: cache_strategy
  co_similarityThreshold :: "real option"
  co_maxSizeMB :: "rat option"
  co_persistence :: "cache_persistence option"
  co_sqlitePath :: "string option"

record cache_config =
  cc_strategy :: cache_strategy
  cc_similarityThreshold :: real
  cc_maxSizeMB :: rat
  cc_persistence :: cache_persistence
  cc_sqlitePath :: string

definition or_default :: "'a option \<Rightarrow> 'a \<Rightarrow> 'a" where
  "or_default x d = (case x of None \<Rightarrow> d | Some v \<Rightarrow> v)"

record 'd sqlite_driver =
  sq_open :: "string \<Rightarrow> 'd option"
  sq_get :: "'d \<Rightarrow> string \<Rightarrow> js_error + vec option"
  sq_run :: "'d \<Rightarrow> string \<Rightarrow> vec \<Rightarrow> js_error + 'd"

record 'd semantic_cache =
  sc_config :: cache_config
  sc_lru :: "(string \<times> vec) list"
  sc_semantic :: "(vec \<times> string) list"
  sc_db :: "'d option"
  sc_dbReady :: bool

definition new_cache :: "cache_options \<Rightarrow> 'd semantic_cache" where
  "new_cache opts =
     \<lparr>sc_config =
        \<lparr>cc_strategy = co_strategy opts,
         cc_similarityThreshold = or_default (co_similarityThreshold opts) (95 / 100),
         cc_maxSizeMB = or_default (co_maxSizeMB opts) 500,
         cc_persistence = or_default (co_persistence opts) MemoryOnly,
         cc_sqlitePath = or_default (co_sqlitePath opts) ''.rag-embedding-cache.db''\<rparr>,
      sc_lru = [], sc_semantic = [], sc_db = None, sc_dbReady = False\<rparr>"

subsection \<open>Storing\<close>

definition maxEntries :: "rat \<Rightarrow> string \<Rightarrow> vec \<Rightarrow> int" where
  "maxEntries mb key e = \<lfloor>(mb * 1024 * 1024) / (of_nat (length e) * 4 + of_nat (length key) * 2)\<rfloor>"

definition lruPut :: "string \<Rightarrow> vec \<Rightarrow> 'd semantic_cache \<Rightarrow> 'd semantic_cache" where
  "lruPut key e c =
     (let kept = (if int (length (sc_lru c)) \<ge> maxEntries (cc_maxSizeMB (sc_config c)) key e
                  then tl (sc_lru c) else sc_lru c)
      in c\<lparr>sc_lru := filter (\<lambda>kv. fst kv \<noteq> key) kept @ [(key, e)]\<rparr>)"

definition initDb :: "'d sqlite_driver \<Rightarrow> 'd semantic_cache \<Rightarrow> 'd semantic_cache" where
  "initDb drv c =
     (if sc_dbReady c then c
      else c\<lparr>sc_db := sq_open drv (cc_sqlitePath (sc_config c)), sc_dbReady := True\<rparr>)"

definition dbGet :: "'d sqlite_driver \<Rightarrow> string \<Rightarrow> 'd semantic_cache \<Rightarrow> vec option \<times> 'd semantic_cache" where
  "dbGet drv key c =
     (let c' = initDb drv c in
      ((case sc_db c' of None \<Rightarrow> None
        | Some d \<Rightarrow> (case sq_get drv d key of Inl e \<Rightarrow> None | Inr row \<Rightarrow> row)), c'))"

definition dbSet :: "'d sqlite_driver \<Rightarrow> string \<Rightarrow> vec \<Rightarrow> 'd semantic_cache \<Rightarrow> 'd semantic_cache" where
  "dbSet drv key e c =
     (let c' = initDb drv c in
      case sc_db c' of None \<Rightarrow> c'
      | Some d \<Rightarrow> (case sq_run drv d key (vectorToBlob e) of Inl err \<Rightarrow> c' | Inr d' \<Rightarrow> c'\<lparr>sc_db := Some d'\<rparr>))"

definition cache_set :: "'d sqlite_driver \<Rightarrow> jstext \<Rightarrow> vec \<Rightarrow> 'd semantic_cache \<Rightarrow> 'd semantic_cache" where
  "cache_set drv t e c =
     (let key = hashText t;
          c1 = lruPut key e c;
          c2 = (if cc_strategy (sc_config c1) = SemanticStrategy
                then c1\<lparr>sc_semantic := sc_semantic c1 @ [(e, key)]\<rparr> else c1)
      in if cc_persistence (sc_config c2) = SqliteFile then dbSet drv key e c2 else c2)"

subsection \<open>Looking up\<close>

text \<open>
  \<open>cosine\<close> works on reals. A component that is missing or not finite makes a similarity \<open>NaN\<close>
  (\<^const>\<open>None\<close>), unless one of the vectors has norm 0.
\<close>

definition cosine :: "real list \<Rightarrow> real list \<Rightarrow> real" where
  "cosine a b =
     (let (d, normA, normB) = cosine_sums a b
      in if normA = 0 \<or> normB = 0 then 0 else d / (sqrt normA * sqrt normB))"

fun finite_value :: "jsnum \<Rightarrow> real option" where
  "finite_value (Fin x) = Some (of_rat x)"
| "finite_value _ = None"

definition finite_values :: "vec \<Rightarrow> real list option" where
  "finite_values v = those (map finite_value v)"

definition is_zero :: "real list option \<Rightarrow> bool" where
  "is_zero v = (case v of None \<Rightarrow> False | Some xs \<Rightarrow> list_all (\<lambda>x. x = 0) xs)"

definition vec_similarity :: "vec \<Rightarrow> vec \<Rightarrow> real option" where
  "vec_similarity a b =
     (let va = finite_values a;
          vb = (if length b < length a then None else finite_values (take (length a) b))
      in if is_zero va \<or> is_zero vb then Some 0
         else (case (va, vb) of (Some xs, Some ys) \<Rightarrow> Some (cosine xs ys) | _ \<Rightarrow> None))"

fun best_match :: "vec \<Rightarrow> (vec \<times> string) list \<Rightarrow> real \<Rightarrow> vec option \<Rightarrow> real \<times> vec option" where
  "best_match q [] bestSim bestEmb = (bestSim, bestEmb)"
| "best_match q ((e, k) # rest) bestSim bestEmb =
     (case vec_similarity q e of
        None \<Rightarrow> best_match q rest bestSim bestEmb
      | Some sim \<Rightarrow> if sim > bestSim then best_match q rest sim (Some e)
                   else best_match q rest bestSim bestEmb)"

definition memory_hit :: "'d semantic_cache \<Rightarrow> jstext \<Rightarrow> vec option" where
  "memory_hit c t = map_of (sc_lru c) (hashText t)"

definition file_hit :: "'d sqlite_driver \<Rightarrow> jstext \<Rightarrow> 'd semantic_cache \<Rightarrow> vec option \<times> 'd semantic_cache" where
  "file_hit drv t c =
     (if cc_persistence (sc_config c) = SqliteFile then
        (case dbGet drv (hashText t) c of
           (None, c') \<Rightarrow> (None, c')
         | (Some e, c') \<Rightarrow> (Some e, lruPut (hashText t) e c'))
      else (None, c))"

definition semantic_hit ::
  "(jstext \<Rightarrow> 'w \<Rightarrow> vec result \<times> 'w) \<Rightarrow> 'd semantic_cache \<Rightarrow> jstext \<Rightarrow> 'w \<Rightarrow> vec option result \<times> 'w" where
  "semantic_hit embedText c t w =
     (if cc_strategy (sc_config c) = SemanticStrategy \<and> sc_semantic c \<noteq> [] then
        (case embedText t w of
           (Inl e, w') \<Rightarrow> (Inl e, w')
         | (Inr q, w') \<Rightarrow>
             (let (bestSim, bestEmb) = best_match q (sc_semantic c) (- 1) None
              in (Inr (if bestSim \<ge> cc_similarityThreshold (sc_config c) then bestEmb else None), w')))
      else (Inr None, w))"

definition cache_get ::
  "'d sqlite_driver \<Rightarrow> (jstext \<Rightarrow> 'w \<Rightarrow> vec result \<times> 'w) \<Rightarrow> jstext \<Rightarrow> 'd semantic_cache \<Rightarrow> 'w
   \<Rightarrow> vec option result \<times> 'd semantic_cache \<times> 'w" where
  "cache_get drv embedText t c w =
     (case memory_hit c t of
        Some e \<Rightarrow> (Inr (Some e), c, w)
      | None \<Rightarrow>
          (case file_hit drv t c of
             (Some e, c') \<Rightarrow> (Inr (Some e), c', w)
           | (None, c') \<Rightarrow> (case semantic_hit embedText c' t w of (r, w') \<Rightarrow> (r, c', w'))))"

subsection \<open>The provider\<close>

datatype embed_input = OneText jstext | ManyTexts "jstext list"

record embed_request =
  rq_model :: string
  rq_input :: embed_input
  rq_dimensions :: "nat option"

record embedder_config =
  oc_model :: string
  oc_dimensions :: "nat option"
  oc_baseURL :: "string option"
  oc_cache :: "cache_options option"

record 'd openai_embedder =
  oe_name :: string
  oe_dimensions :: nat
  oe_model :: string
  oe_cache :: "'d semantic_cache option"

text \<open>\<open>hostname\<close> is the URL parser's.\<close>

definition new_openai_embedder :: "(string \<Rightarrow> string) \<Rightarrow> embedder_config \<Rightarrow> 'd openai_embedder" where
  "new_openai_embedder hostname opts =
     \<lparr>oe_name = (case oc_baseURL opts of None \<Rightarrow> ''openai''
        | Some u \<Rightarrow> if u = [] then ''openai'' else ''openai-compatible:'' @ hostname u),
      oe_dimensions = or_default (oc_dimensions opts) 1536, oe_model = oc_model opts,
      oe_cache = map_option new_cache (oc_cache opts)\<rparr>"

type_synonym 'w client = "embed_request \<Rightarrow> 'w \<Rightarrow> vec list result \<times> 'w"

definition embed_request_for :: "'d openai_embedder \<Rightarrow> embed_input \<Rightarrow> embed_request" where
  "embed_request_for em i =
     \<lparr>rq_model = oe_model em, rq_input = i,
      rq_dimensions = (if oe_dimensions em \<noteq> 1536 then Some (oe_dimensions em) else None)\<rparr>"

definition undefined_read :: "string \<Rightarrow> js_error" where
  "undefined_read field = Err EError (''TypeError: Cannot read properties of undefined (reading '' @ field @ '')'')"

definition embedDirect :: "'w client \<Rightarrow> 'd openai_embedder \<Rightarrow> jstext \<Rightarrow> 'w \<Rightarrow> vec result \<times> 'w" where
  "embedDirect create em t w =
     (case create (embed_request_for em (OneText t)) w of
        (Inl e, w') \<Rightarrow> (Inl e, w')
      | (Inr [], w') \<Rightarrow> (Inl (undefined_read ''embedding''), w')
      | (Inr (e # es), w') \<Rightarrow> (Inr e, w'))"

definition embedBatchDirect :: "'w client \<Rightarrow> 'd openai_embedder \<Rightarrow> jstext list \<Rightarrow> 'w \<Rightarrow> vec list result \<times> 'w" where
  "embedBatchDirect create em ts w = create (embed_request_for em (ManyTexts ts)) w"

definition openai_embed ::
  "'d sqlite_driver \<Rightarrow> 'w client \<Rightarrow> jstext \<Rightarrow> 'd openai_embedder \<Rightarrow> 'w
   \<Rightarrow> vec result \<times> 'd openai_embedder \<times> 'w" where
  "openai_embed drv create t em w =
     (case oe_cache em of
        None \<Rightarrow> (case embedDirect create em t w of (r, w') \<Rightarrow> (r, em, w'))
      | Some c \<Rightarrow>
          (case cache_get drv (embedDirect create em) t c w of
             (Inl e, c1, w1) \<Rightarrow> (Inl e, em\<lparr>oe_cache := Some c1\<rparr>, w1)
           | (Inr (Some hit), c1, w1) \<Rightarrow> (Inr hit, em\<lparr>oe_cache := Some c1\<rparr>, w1)
           | (Inr None, c1, w1) \<Rightarrow>
               (case embedDirect create em t w1 of
                  (Inl e, w2) \<Rightarrow> (Inl e, em\<lparr>oe_cache := Some c1\<rparr>, w2)
                | (Inr v, w2) \<Rightarrow> (Inr v, em\<lparr>oe_cache := Some (cache_set drv t v c1)\<rparr>, w2))))"

fun file_hits ::
  "'d sqlite_driver \<Rightarrow> (jstext \<times> vec option) list \<Rightarrow> 'd semantic_cache
   \<Rightarrow> (jstext \<times> vec option) list \<times> 'd semantic_cache" where
  "file_hits drv [] c = ([], c)"
| "file_hits drv ((t, Some e) # rs) c = (case file_hits drv rs c of (hs, c') \<Rightarrow> ((t, Some e) # hs, c'))"
| "file_hits drv ((t, None) # rs) c =
     (case file_hit drv t c of (h, c1) \<Rightarrow> (case file_hits drv rs c1 of (hs, c2) \<Rightarrow> ((t, h) # hs, c2)))"

text \<open>All lookups run; the first failure rejects the call.\<close>

fun semantic_hits ::
  "(jstext \<Rightarrow> 'w \<Rightarrow> vec result \<times> 'w) \<Rightarrow> 'd semantic_cache \<Rightarrow> (jstext \<times> vec option) list \<Rightarrow> 'w
   \<Rightarrow> (jstext \<times> vec option) list result \<times> 'w" where
  "semantic_hits embedText c [] w = (Inr [], w)"
| "semantic_hits embedText c ((t, Some e) # rs) w =
     (case semantic_hits embedText c rs w of (r, w') \<Rightarrow> (result_bind r (\<lambda>hs. Inr ((t, Some e) # hs)), w'))"
| "semantic_hits embedText c ((t, None) # rs) w =
     (case semantic_hit embedText c t w of (h, w1) \<Rightarrow>
        (case semantic_hits embedText c rs w1 of (r, w2) \<Rightarrow>
           (result_bind h (\<lambda>e. result_bind r (\<lambda>hs. Inr ((t, e) # hs))), w2)))"

text \<open>The misses take the embeddings of the batch request in order; a missing one throws in \<open>set\<close>.\<close>

fun fill_misses ::
  "'d sqlite_driver \<Rightarrow> (jstext \<times> vec option) list \<Rightarrow> vec list \<Rightarrow> 'd semantic_cache
   \<Rightarrow> vec list result \<times> 'd semantic_cache" where
  "fill_misses drv [] vs c = (Inr [], c)"
| "fill_misses drv ((t, Some e) # rs) vs c =
     (case fill_misses drv rs vs c of (r, c') \<Rightarrow> (result_bind r (\<lambda>es. Inr (e # es)), c'))"
| "fill_misses drv ((t, None) # rs) [] c = (Inl (undefined_read ''length''), c)"
| "fill_misses drv ((t, None) # rs) (v # vs) c =
     (case fill_misses drv rs vs (cache_set drv t v c) of (r, c') \<Rightarrow>
        (result_bind r (\<lambda>es. Inr (v # es)), c'))"

definition miss_texts :: "(jstext \<times> vec option) list \<Rightarrow> jstext list" where
  "miss_texts rs = map fst (filter (\<lambda>r. snd r = None) rs)"

definition openai_embedBatch ::
  "'d sqlite_driver \<Rightarrow> 'w client \<Rightarrow> jstext list \<Rightarrow> 'd openai_embedder \<Rightarrow> 'w
   \<Rightarrow> vec list result \<times> 'd openai_embedder \<times> 'w" where
  "openai_embedBatch drv create ts em w =
     (case oe_cache em of
        None \<Rightarrow> (case embedBatchDirect create em ts w of (r, w') \<Rightarrow> (r, em, w'))
      | Some c \<Rightarrow>
          (let found = map (\<lambda>t. (t, memory_hit c t)) ts;
               (found', c1) = file_hits drv found c;
               em1 = em\<lparr>oe_cache := Some c1\<rparr>
           in case semantic_hits (embedDirect create em) c1 found' w of
                (Inl e, w1) \<Rightarrow> (Inl e, em1, w1)
              | (Inr rs, w1) \<Rightarrow>
                  if miss_texts rs = [] then (Inr (map (the \<circ> snd) rs), em1, w1)
                  else (case embedBatchDirect create em (miss_texts rs) w1 of
                          (Inl e, w2) \<Rightarrow> (Inl e, em1, w2)
                        | (Inr vs, w2) \<Rightarrow>
                            (case fill_misses drv rs vs c1 of (r, c2) \<Rightarrow> (r, em\<lparr>oe_cache := Some c2\<rparr>, w2)))))"

definition healthCheck ::
  "'d sqlite_driver \<Rightarrow> 'w client \<Rightarrow> 'd openai_embedder \<Rightarrow> 'w \<Rightarrow> bool \<times> 'd openai_embedder \<times> 'w" where
  "healthCheck drv create em w =
     (case openai_embed drv create (js ''health check'') em w of (r, em', w') \<Rightarrow> (\<not> isl r, em', w'))"

subsection \<open>Figures on embeddings\<close>

text \<open>
  Vectors of one length, as reals. \<^const>\<open>None\<close> is \<open>Infinity\<close>. The random numbers are a
  function of the draw, in [0, 1).
\<close>

fun l2sq :: "real list \<Rightarrow> real list \<Rightarrow> real" where
  "l2sq (x # xs) (y # ys) = (x - y) ^ 2 + l2sq xs ys"
| "l2sq _ _ = 0"

definition below_distance :: "real \<Rightarrow> real option \<Rightarrow> bool" where
  "below_distance d m = (case m of None \<Rightarrow> True | Some x \<Rightarrow> d < x)"

definition nearest_step :: "real option \<times> real option \<Rightarrow> real \<Rightarrow> real option \<times> real option" where
  "nearest_step m d =
     (if below_distance d (fst m) then (Some d, fst m)
      else if below_distance d (snd m) then (fst m, Some d) else m)"

definition two_nearest :: "real list list \<Rightarrow> nat \<Rightarrow> real option \<times> real option" where
  "two_nearest es i =
     foldl nearest_step (None, None)
       (map (\<lambda>j. l2sq (es ! i) (es ! j)) (filter (\<lambda>j. j \<noteq> i) [0..<length es]))"

definition log_ratios :: "real list list \<Rightarrow> real list" where
  "log_ratios es =
     concat (map (\<lambda>i. case two_nearest es i of
         (Some d1, Some d2) \<Rightarrow> if d1 > 0 \<and> d2 > 0 \<and> d1 < d2 then [ln (sqrt d1 / sqrt d2)] else []
       | _ \<Rightarrow> []) [0..<length es])"

definition first_length :: "'a list list \<Rightarrow> nat" where
  "first_length es = (case es of [] \<Rightarrow> 0 | e # _ \<Rightarrow> length e)"

definition computeIntrinsicDimension :: "real list list \<Rightarrow> real" where
  "computeIntrinsicDimension es =
     (if length es < 3 then of_nat (first_length es)
      else let ls = log_ratios es
           in if ls = [] then of_nat (first_length es) else - of_nat (length ls) / sum_list ls)"

definition random_pair :: "(nat \<Rightarrow> real) \<Rightarrow> nat \<Rightarrow> nat \<Rightarrow> nat \<times> nat" where
  "random_pair rnd n i =
     (let a = nat \<lfloor>rnd (2 * i) * of_nat n\<rfloor>; b = nat \<lfloor>rnd (2 * i + 1) * of_nat (n - 1)\<rfloor>
      in (a, if b \<ge> a then b + 1 else b))"

definition computeAvgCosineSimRandomPairs :: "(nat \<Rightarrow> real) \<Rightarrow> real list list \<Rightarrow> nat \<Rightarrow> real" where
  "computeAvgCosineSimRandomPairs rnd es sampleSize =
     (let n = length es in
      if n < 2 then 0
      else let pairs = min sampleSize (n * (n - 1) div 2)
           in sum_list (map (\<lambda>i. case random_pair rnd n i of (a, b) \<Rightarrow> cosine (es ! a) (es ! b)) [0..<pairs])
                / of_nat pairs)"

definition norm_of :: "real list \<Rightarrow> real" where
  "norm_of e = sqrt (sum_list (map (\<lambda>v. v * v) e))"

definition detectOutliers :: "real list list \<Rightarrow> real" where
  "detectOutliers es =
     (if length es < 2 then 0
      else let norms = map norm_of es;
               mean = sum_list norms / of_nat (length norms);
               variance = sum_list (map (\<lambda>v. (v - mean) ^ 2) norms) / of_nat (length norms);
               std = sqrt variance
           in if std = 0 then 0
              else of_nat (length (filter (\<lambda>n. \<bar>n - mean\<bar> / std > 25 / 10) norms)) / of_nat (length norms))"

record embedding_metrics =
  em_intrinsicDimension :: real
  em_avgCosineSimRandomPairs :: real
  em_outlierFraction :: real

definition computeEmbeddingMetrics :: "(nat \<Rightarrow> real) \<Rightarrow> real list list \<Rightarrow> embedding_metrics" where
  "computeEmbeddingMetrics rnd es =
     \<lparr>em_intrinsicDimension = computeIntrinsicDimension es,
      em_avgCosineSimRandomPairs = computeAvgCosineSimRandomPairs rnd es 500,
      em_outlierFraction = detectOutliers es\<rparr>"

subsection \<open>Calls of the provider\<close>

datatype provider_call = EmbedCall jstext | EmbedBatchCall "jstext list"

fun call_texts :: "provider_call \<Rightarrow> jstext list" where
  "call_texts (EmbedCall t) = [t]"
| "call_texts (EmbedBatchCall ts) = ts"

fun run_call ::
  "'d sqlite_driver \<Rightarrow> 'w client \<Rightarrow> provider_call \<Rightarrow> 'd openai_embedder \<Rightarrow> 'w
   \<Rightarrow> vec list result \<times> 'd openai_embedder \<times> 'w" where
  "run_call drv create (EmbedCall t) em w =
     (case openai_embed drv create t em w of (r, em', w') \<Rightarrow> (result_bind r (\<lambda>e. Inr [e]), em', w'))"
| "run_call drv create (EmbedBatchCall ts) em w = openai_embedBatch drv create ts em w"

fun run_calls ::
  "'d sqlite_driver \<Rightarrow> 'w client \<Rightarrow> provider_call list \<Rightarrow> 'd openai_embedder \<Rightarrow> 'w
   \<Rightarrow> vec list result list \<times> 'd openai_embedder \<times> 'w" where
  "run_calls drv create [] em w = ([], em, w)"
| "run_calls drv create (q # qs) em w =
     (case run_call drv create q em w of (r, em1, w1) \<Rightarrow>
        (case run_calls drv create qs em1 w1 of (rs, em2, w2) \<Rightarrow> (r # rs, em2, w2)))"

text \<open>The service answers each text with a vector that satisfies \<open>Q\<close>, or fails.\<close>

definition api_answers :: "(jstext \<Rightarrow> vec \<Rightarrow> bool) \<Rightarrow> 'w client \<Rightarrow> bool" where
  "api_answers Q create =
     (\<forall>req w. case fst (create req w) of
        Inl e \<Rightarrow> True
      | Inr es \<Rightarrow> list_all2 Q (case rq_input req of OneText t \<Rightarrow> [t] | ManyTexts ts \<Rightarrow> ts) es)"

definition answers_with :: "(jstext \<Rightarrow> vec \<Rightarrow> bool) \<Rightarrow> jstext list \<Rightarrow> vec list result \<Rightarrow> bool" where
  "answers_with A ts r = (case r of Inl e \<Rightarrow> True | Inr es \<Rightarrow> list_all2 A ts es)"

text \<open>
  What an invariant \<open>I\<close> of the cache has to provide: it survives storing an answer of the service
  for a text of \<open>T\<close> and looking into the file, and every hit satisfies \<open>A\<close>.
\<close>

definition cache_invariant ::
  "'d sqlite_driver \<Rightarrow> 'w client \<Rightarrow> (jstext \<Rightarrow> vec \<Rightarrow> bool) \<Rightarrow> (jstext \<Rightarrow> vec \<Rightarrow> bool) \<Rightarrow> jstext set
   \<Rightarrow> ('d semantic_cache \<Rightarrow> bool) \<Rightarrow> bool" where
  "cache_invariant drv create Q A T I =
     ((\<forall>t v. Q t v \<longrightarrow> A t v)
      \<and> (\<forall>c t v. I c \<longrightarrow> t \<in> T \<longrightarrow> Q t v \<longrightarrow> I (cache_set drv t v c))
      \<and> (\<forall>c t. I c \<longrightarrow> t \<in> T \<longrightarrow> I (snd (file_hit drv t c)))
      \<and> (\<forall>c t e. I c \<longrightarrow> t \<in> T \<longrightarrow> fst (file_hit drv t c) = Some e \<longrightarrow> A t e)
      \<and> (\<forall>c t e. I c \<longrightarrow> t \<in> T \<longrightarrow> memory_hit c t = Some e \<longrightarrow> A t e)
      \<and> (\<forall>(em :: 'd openai_embedder) c t w e. I c \<longrightarrow> t \<in> T \<longrightarrow> fst (semantic_hit (embedDirect create em) c t w) = Inr (Some e) \<longrightarrow> A t e))"

lemma cache_invariantD:
  fixes drv :: "'d sqlite_driver"
  assumes "cache_invariant drv create Q A T I"
  shows "Q t v \<Longrightarrow> A t v"
    and "I c \<Longrightarrow> t \<in> T \<Longrightarrow> Q t v \<Longrightarrow> I (cache_set drv t v c)"
    and "I c \<Longrightarrow> t \<in> T \<Longrightarrow> I (snd (file_hit drv t c))"
    and "I c \<Longrightarrow> t \<in> T \<Longrightarrow> fst (file_hit drv t c) = Some e \<Longrightarrow> A t e"
    and "I c \<Longrightarrow> t \<in> T \<Longrightarrow> memory_hit c t = Some e \<Longrightarrow> A t e"
    and "I c \<Longrightarrow> t \<in> T \<Longrightarrow> fst (semantic_hit (embedDirect create (em :: 'd openai_embedder)) c t w) = Inr (Some e)
      \<Longrightarrow> A t e"
  using assms unfolding cache_invariant_def by blast+

definition hits_ok :: "(jstext \<Rightarrow> vec \<Rightarrow> bool) \<Rightarrow> jstext set \<Rightarrow> (jstext \<times> vec option) list \<Rightarrow> bool" where
  "hits_ok A T rs = list_all (\<lambda>(t, h). t \<in> T \<and> (case h of None \<Rightarrow> True | Some e \<Rightarrow> A t e)) rs"

lemma hits_ok_simps [simp]:
  "hits_ok A T []"
  "hits_ok A T ((t, Some e) # rs) = (t \<in> T \<and> A t e \<and> hits_ok A T rs)"
  "hits_ok A T ((t, None) # rs) = (t \<in> T \<and> hits_ok A T rs)"
  by (simp_all add: hits_ok_def)

lemma file_hits_ok:
  assumes inv: "cache_invariant drv create Q A T I"
  shows "I c \<Longrightarrow> hits_ok A T rs
    \<Longrightarrow> I (snd (file_hits drv rs c)) \<and> map fst (fst (file_hits drv rs c)) = map fst rs
      \<and> hits_ok A T (fst (file_hits drv rs c))"
proof (induction rs arbitrary: c)
  case (Cons r rs)
  obtain t h where r: "r = (t, h)" by (cases r)
  show ?case
  proof (cases h)
    case (Some e)
    then show ?thesis using Cons.IH [of c] Cons.prems r by (auto split: prod.splits)
  next
    case None
    obtain x c1 where one: "file_hit drv t c = (x, c1)" by (cases "file_hit drv t c")
    have t: "t \<in> T" using Cons.prems(2) r None by simp
    have "I c1" "x = Some e \<Longrightarrow> A t e" for e
      using cache_invariantD(3,4) [OF inv Cons.prems(1) t] one by auto
    with Cons.IH [of c1] Cons.prems t r None one show ?thesis
      by (cases x) (auto split: prod.splits)
  qed
qed simp

lemma semantic_hits_ok:
  fixes drv :: "'d sqlite_driver" and em :: "'d openai_embedder"
  assumes inv: "cache_invariant drv create Q A T I" and I: "I c"
  shows "hits_ok A T rs \<Longrightarrow> semantic_hits (embedDirect create em) c rs w = (Inr hs, w')
    \<Longrightarrow> map fst hs = map fst rs \<and> hits_ok A T hs"
proof (induction rs arbitrary: w w' hs)
  case (Cons r rs)
  obtain t h where r: "r = (t, h)" by (cases r)
  show ?case
  proof (cases h)
    case (Some e)
    obtain q w1 where rest: "semantic_hits (embedDirect create em) c rs w = (q, w1)"
      by (cases "semantic_hits (embedDirect create em) c rs w")
    then obtain hs2 where q: "q = Inr hs2" "hs = (t, Some e) # hs2"
      using Cons.prems(2) r Some by (cases q) auto
    show ?thesis using Cons.IH [of w hs2 w1] Cons.prems(1) rest q r Some by simp
  next
    case None
    obtain x w1 where one: "semantic_hit (embedDirect create em) c t w = (x, w1)"
      by (cases "semantic_hit (embedDirect create em) c t w")
    obtain q w2 where rest: "semantic_hits (embedDirect create em) c rs w1 = (q, w2)"
      by (cases "semantic_hits (embedDirect create em) c rs w1")
    obtain e hs2 where q: "x = Inr e" "q = Inr hs2" "hs = (t, e) # hs2"
      using Cons.prems(2) r None one rest by (cases x; cases q) auto
    have t: "t \<in> T" using Cons.prems(1) r None by simp
    have "A t v" if "e = Some v" for v
      using cache_invariantD(6) [OF inv I t, where em = em and w = w and e = v] one q(1) that by simp
    with Cons.IH [of w1 hs2 w2] Cons.prems(1) rest q r None t show ?thesis
      by (cases e) auto
  qed
qed simp

lemma miss_texts_simps [simp]:
  "miss_texts [] = []"
  "miss_texts ((t, Some e) # rs) = miss_texts rs"
  "miss_texts ((t, None) # rs) = t # miss_texts rs"
  by (simp_all add: miss_texts_def)

lemma fill_misses_ok:
  assumes inv: "cache_invariant drv create Q A T I"
  shows "I c \<Longrightarrow> hits_ok A T rs \<Longrightarrow> list_all2 Q (miss_texts rs) vs
    \<Longrightarrow> I (snd (fill_misses drv rs vs c)) \<and> \<not> isl (fst (fill_misses drv rs vs c))
      \<and> answers_with A (map fst rs) (fst (fill_misses drv rs vs c))"
proof (induction rs arbitrary: c vs)
  case (Cons r rs)
  obtain t h where r: "r = (t, h)" by (cases r)
  show ?case
  proof (cases h)
    case (Some e)
    have "I (snd (fill_misses drv rs vs c)) \<and> \<not> isl (fst (fill_misses drv rs vs c))
        \<and> answers_with A (map fst rs) (fst (fill_misses drv rs vs c))"
      by (rule Cons.IH) (use Cons.prems r Some in simp_all)
    then show ?thesis using Cons.prems r Some
      by (auto simp: answers_with_def split: prod.splits sum.splits)
  next
    case None
    then obtain v vs2 where vs: "vs = v # vs2" "Q t v" "list_all2 Q (miss_texts rs) vs2"
      using Cons.prems(3) r by (auto simp: list_all2_Cons1)
    have t: "t \<in> T" using Cons.prems(2) r None by simp
    have "I (cache_set drv t v c)" by (rule cache_invariantD(2) [OF inv Cons.prems(1) t vs(2)])
    then have "I (snd (fill_misses drv rs vs2 (cache_set drv t v c)))
        \<and> \<not> isl (fst (fill_misses drv rs vs2 (cache_set drv t v c)))
        \<and> answers_with A (map fst rs) (fst (fill_misses drv rs vs2 (cache_set drv t v c)))"
      by (rule Cons.IH) (use Cons.prems r None vs(3) in simp_all)
    then show ?thesis using cache_invariantD(1) [OF inv vs(2)] r None vs(1)
      by (auto simp: answers_with_def split: prod.splits sum.splits)
  qed
qed (simp add: answers_with_def)

lemma api_answers_one:
  assumes "api_answers Q create" and "embedDirect create em t w = (Inr v, w')"
  shows "Q t v"
proof -
  obtain r w1 where c: "create (embed_request_for em (OneText t)) w = (r, w1)"
    by (cases "create (embed_request_for em (OneText t)) w")
  obtain e es where r: "r = Inr (e # es)" "v = e"
    using assms(2) c by (auto simp: embedDirect_def split: sum.splits list.splits)
  have "case fst (create (embed_request_for em (OneText t)) w) of Inl e \<Rightarrow> True
    | Inr es \<Rightarrow> list_all2 Q (case rq_input (embed_request_for em (OneText t)) of OneText t \<Rightarrow> [t] | ManyTexts ts \<Rightarrow> ts) es"
    using assms(1) unfolding api_answers_def by blast
  then show ?thesis using c r by (simp add: embed_request_for_def)
qed

lemma api_answers_many:
  assumes "api_answers Q create" and "embedBatchDirect create em ts w = (Inr vs, w')"
  shows "list_all2 Q ts vs"
proof -
  have "case fst (create (embed_request_for em (ManyTexts ts)) w) of Inl e \<Rightarrow> True
    | Inr es \<Rightarrow> list_all2 Q (case rq_input (embed_request_for em (ManyTexts ts)) of OneText t \<Rightarrow> [t] | ManyTexts ts \<Rightarrow> ts) es"
    using assms(1) unfolding api_answers_def by blast
  then show ?thesis using assms(2) by (simp add: embed_request_for_def embedBatchDirect_def)
qed

definition cache_ok :: "('d semantic_cache \<Rightarrow> bool) \<Rightarrow> 'd openai_embedder \<Rightarrow> bool" where
  "cache_ok I em = (case oe_cache em of None \<Rightarrow> False | Some c \<Rightarrow> I c)"

lemma openai_embed_ok:
  assumes inv: "cache_invariant drv create Q A T I" and api: "api_answers Q create"
    and ok: "cache_ok I em" and t: "t \<in> T"
    and run: "openai_embed drv create t em w = (r, em', w')"
  shows "cache_ok I em' \<and> (case r of Inl e \<Rightarrow> True | Inr v \<Rightarrow> A t v)"
proof -
  obtain c where c: "oe_cache em = Some c" "I c"
    using ok by (auto simp: cache_ok_def split: option.splits)
  obtain x c1 where f: "file_hit drv t c = (x, c1)" by (cases "file_hit drv t c")
  have c1: "I c1" "x = Some e \<Longrightarrow> A t e" for e
    using cache_invariantD(3,4) [OF inv c(2) t] f by auto
  obtain s w1 where s: "semantic_hit (embedDirect create em) c1 t w = (s, w1)"
    by (cases "semantic_hit (embedDirect create em) c1 t w")
  have hit: "A t e" if "s = Inr (Some e)" for e
    using cache_invariantD(6) [OF inv c1(1) t, where em = em and w = w and e = e] s that by simp
  have set: "I (cache_set drv t v c1)" "A t v" if "embedDirect create em t u = (Inr v, u')" for u u' v
    using cache_invariantD(2) [OF inv c1(1) t] cache_invariantD(1) [OF inv] api_answers_one [OF api that] by auto
  show ?thesis
    using run c f s c1 hit set cache_invariantD(5) [OF inv c(2) t]
    by (auto simp: openai_embed_def cache_get_def cache_ok_def split: option.splits sum.splits prod.splits)
qed

lemma no_misses_answers:
  assumes "hits_ok A T rs" and "miss_texts rs = []"
  shows "list_all2 A (map fst rs) (map (the \<circ> snd) rs)"
  using assms
proof (induction rs)
  case (Cons r rs)
  then show ?case by (cases r; cases "snd r") auto
qed simp

lemma openai_embedBatch_ok:
  assumes inv: "cache_invariant drv create Q A T I" and api: "api_answers Q create"
    and ok: "cache_ok I em" and ts: "set ts \<subseteq> T"
    and run: "openai_embedBatch drv create ts em w = (r, em', w')"
  shows "cache_ok I em' \<and> answers_with A ts r"
proof -
  obtain c where c: "oe_cache em = Some c" "I c"
    using ok by (auto simp: cache_ok_def split: option.splits)
  define found where "found = map (\<lambda>t. (t, memory_hit c t)) ts"
  have found: "hits_ok A T found" "map fst found = ts"
    using ts cache_invariantD(5) [OF inv c(2)]
    by (auto simp: found_def hits_ok_def list_all_iff comp_def split: option.splits)
  obtain hs c1 where f: "file_hits drv found c = (hs, c1)" by (cases "file_hits drv found c")
  have hs: "I c1" "map fst hs = ts" "hits_ok A T hs"
    using file_hits_ok [OF inv c(2) found(1)] f found(2) by auto
  obtain q w1 where s: "semantic_hits (embedDirect create em) c1 hs w = (q, w1)"
    by (cases "semantic_hits (embedDirect create em) c1 hs w")
  show ?thesis
  proof (cases q)
    case (Inl e)
    then show ?thesis
      using run c hs(1) f s by (auto simp: openai_embedBatch_def found_def [symmetric] cache_ok_def answers_with_def)
  next
    case (Inr rs)
    have rs: "map fst rs = ts" "hits_ok A T rs"
      using semantic_hits_ok [OF inv hs(1,3)] s Inr hs(2) by auto
    obtain b w2 where b: "embedBatchDirect create em (miss_texts rs) w1 = (b, w2)"
      by (cases "embedBatchDirect create em (miss_texts rs) w1")
    have filled: "I (snd (fill_misses drv rs vs c1)) \<and> answers_with A ts (fst (fill_misses drv rs vs c1))"
      if "b = Inr vs" for vs
      using fill_misses_ok [OF inv hs(1) rs(2) api_answers_many [OF api b [unfolded that]]] rs(1) by simp
    show ?thesis
      using run c hs(1) f s Inr b filled no_misses_answers [OF rs(2)] rs(1)
      by (auto simp: openai_embedBatch_def found_def [symmetric] cache_ok_def answers_with_def Let_def
          split: if_splits sum.splits prod.splits)
  qed
qed

lemma run_calls_ok:
  assumes inv: "cache_invariant drv create Q A T I" and api: "api_answers Q create"
  shows "cache_ok I em \<Longrightarrow> \<forall>q \<in> set qs. set (call_texts q) \<subseteq> T \<Longrightarrow> run_calls drv create qs em w = (rs, em', w')
    \<Longrightarrow> cache_ok I em' \<and> list_all2 (answers_with A) (map call_texts qs) rs"
proof (induction qs arbitrary: em w rs)
  case (Cons q qs)
  obtain r em1 w1 where one: "run_call drv create q em w = (r, em1, w1)" by (metis prod_cases3)
  obtain rs2 where rest: "run_calls drv create qs em1 w1 = (rs2, em', w')" "rs = r # rs2"
    using Cons.prems(3) one by (auto split: prod.splits)
  have "cache_ok I em1 \<and> answers_with A (call_texts q) r"
  proof (cases q)
    case (EmbedCall t)
    obtain x em2 w2 where e: "openai_embed drv create t em w = (x, em2, w2)" by (metis prod_cases3)
    have "t \<in> T" using Cons.prems(2) EmbedCall by simp
    from openai_embed_ok [OF inv api Cons.prems(1) this e] show ?thesis
      using one e EmbedCall by (auto simp: answers_with_def split: sum.splits)
  next
    case (EmbedBatchCall ts)
    then show ?thesis using openai_embedBatch_ok [OF inv api Cons.prems(1), of ts w r em1 w1] Cons.prems(2) one by simp
  qed
  then show ?case using Cons.IH [OF _ _ rest(1)] Cons.prems(2) rest(2) by simp
qed simp

subsection \<open>The exact cache is invisible\<close>

text \<open>
  A cached vector stands for the vector of the text up to what the persistence loses: nothing in
  memory, the rounding to 32-bit floats in the file.
\<close>

definition agrees :: "cache_persistence \<Rightarrow> vec \<Rightarrow> vec \<Rightarrow> bool" where
  "agrees p e v = (case p of MemoryOnly \<Rightarrow> e = v | SqliteFile \<Rightarrow> vectorToBlob e = vectorToBlob v)"

lemma agrees_refl [simp]: "agrees p v v"
  by (simp add: agrees_def split: cache_persistence.splits)

lemma agrees_blob: "agrees SqliteFile (vectorToBlob v) v"
  by (simp add: agrees_def vectorToBlob_def)

definition vector_of_hash :: "cache_persistence \<Rightarrow> (jstext \<Rightarrow> vec) \<Rightarrow> jstext set \<Rightarrow> string \<Rightarrow> vec \<Rightarrow> bool" where
  "vector_of_hash p emb T k e = (\<exists>t \<in> T. hashText t = k \<and> agrees p e (emb t))"

lemma vector_of_hashD:
  assumes "vector_of_hash p emb T (hashText t) e" and "inj_on hashText T" and "t \<in> T"
  shows "agrees p e (emb t)"
  using assms by (auto simp: vector_of_hash_def dest: inj_onD)

text \<open>What \<open>better-sqlite3\<close> is documented to do: a row changes only by the statement that writes it.\<close>

definition sqlite_keeps_rows :: "'d sqlite_driver \<Rightarrow> bool" where
  "sqlite_keeps_rows drv =
     (\<forall>d k b d' k' v. sq_run drv d k b = Inr d' \<longrightarrow> sq_get drv d' k' = Inr (Some v)
        \<longrightarrow> (k' = k \<and> v = b) \<or> sq_get drv d k' = Inr (Some v))"

definition file_rows_ok :: "'d sqlite_driver \<Rightarrow> (jstext \<Rightarrow> vec) \<Rightarrow> jstext set \<Rightarrow> 'd \<Rightarrow> bool" where
  "file_rows_ok drv emb T d =
     (\<forall>k v. sq_get drv d k = Inr (Some v) \<longrightarrow> vector_of_hash SqliteFile emb T k v)"

definition exact_cache_ok ::
  "'d sqlite_driver \<Rightarrow> (jstext \<Rightarrow> vec) \<Rightarrow> jstext set \<Rightarrow> cache_config \<Rightarrow> 'd semantic_cache \<Rightarrow> bool" where
  "exact_cache_ok drv emb T cfg c =
     (sc_config c = cfg \<and> cc_strategy cfg = ExactStrategy
      \<and> (\<forall>(k, e) \<in> set (sc_lru c). vector_of_hash (cc_persistence cfg) emb T k e)
      \<and> (case sc_db c of None \<Rightarrow> True | Some d \<Rightarrow> file_rows_ok drv emb T d))"

lemma lruPut_fields [simp]:
  "sc_config (lruPut k e c) = sc_config c" "sc_semantic (lruPut k e c) = sc_semantic c"
  "sc_db (lruPut k e c) = sc_db c" "sc_dbReady (lruPut k e c) = sc_dbReady c"
  by (simp_all add: lruPut_def Let_def)

lemma set_lruPut: "set (sc_lru (lruPut k e c)) \<subseteq> insert (k, e) (set (sc_lru c))"
  using set_filter [of "\<lambda>kv. fst kv \<noteq> k"] list.set_sel(2)
  by (cases "sc_lru c") (auto simp: lruPut_def Let_def)

lemma exact_lruPut:
  assumes "exact_cache_ok drv emb T cfg c" and "vector_of_hash (cc_persistence cfg) emb T k e"
  shows "exact_cache_ok drv emb T cfg (lruPut k e c)"
  using assms set_lruPut [of k e c] unfolding exact_cache_ok_def by auto

definition sound_file :: "'d sqlite_driver \<Rightarrow> (jstext \<Rightarrow> vec) \<Rightarrow> jstext set \<Rightarrow> string \<Rightarrow> bool" where
  "sound_file drv emb T path =
     (case sq_open drv path of None \<Rightarrow> True | Some d \<Rightarrow> file_rows_ok drv emb T d)"

lemma exact_initDb:
  assumes "exact_cache_ok drv emb T cfg c" and "sound_file drv emb T (cc_sqlitePath cfg)"
  shows "exact_cache_ok drv emb T cfg (initDb drv c)"
  using assms by (auto simp: exact_cache_ok_def initDb_def sound_file_def split: option.splits)

lemma exact_dbSet:
  assumes "exact_cache_ok drv emb T cfg c" and "sound_file drv emb T (cc_sqlitePath cfg)"
    and "sqlite_keeps_rows drv" and "t \<in> T"
  shows "exact_cache_ok drv emb T cfg (dbSet drv (hashText t) (emb t) c)"
proof -
  have ok: "exact_cache_ok drv emb T cfg (initDb drv c)" by (rule exact_initDb [OF assms(1,2)])
  show ?thesis
  proof (cases "sc_db (initDb drv c)")
    case None
    then show ?thesis using ok by (simp add: dbSet_def Let_def)
  next
    case (Some d)
    show ?thesis
    proof (cases "sq_run drv d (hashText t) (vectorToBlob (emb t))")
      case (Inl e)
      then show ?thesis using ok Some by (simp add: dbSet_def Let_def)
    next
      case (Inr d')
      have "file_rows_ok drv emb T d" using ok Some by (simp add: exact_cache_ok_def)
      moreover have "vector_of_hash SqliteFile emb T (hashText t) (vectorToBlob (emb t))"
        using assms(4) agrees_blob by (auto simp: vector_of_hash_def)
      ultimately have "file_rows_ok drv emb T d'"
        using assms(3) Inr unfolding sqlite_keeps_rows_def file_rows_ok_def by blast
      then show ?thesis using ok Some Inr by (simp add: dbSet_def Let_def exact_cache_ok_def)
    qed
  qed
qed

lemma exact_cache_invariant:
  assumes inj: "inj_on hashText T" and sound: "sound_file drv emb T (cc_sqlitePath cfg)"
    and law: "sqlite_keeps_rows drv"
  shows "cache_invariant drv create (\<lambda>t v. v = emb t) (\<lambda>t e. agrees (cc_persistence cfg) e (emb t)) T
    (exact_cache_ok drv emb T cfg)"
proof -
  have set: "exact_cache_ok drv emb T cfg (cache_set drv t v c)"
    if "exact_cache_ok drv emb T cfg c" "t \<in> T" "v = emb t" for c t v
  proof -
    have "vector_of_hash (cc_persistence cfg) emb T (hashText t) v"
      using that by (auto simp: vector_of_hash_def)
    then have ok: "exact_cache_ok drv emb T cfg (lruPut (hashText t) v c)" by (rule exact_lruPut [OF that(1)])
    have "sc_config c = cfg" "cc_strategy cfg = ExactStrategy"
      using that(1) by (simp_all add: exact_cache_ok_def)
    then show ?thesis
      using ok exact_dbSet [OF ok sound law that(2)] that(3) by (simp add: cache_set_def Let_def)
  qed
  have hit: "exact_cache_ok drv emb T cfg (snd (file_hit drv t c))
      \<and> (\<forall>e. fst (file_hit drv t c) = Some e \<longrightarrow> agrees (cc_persistence cfg) e (emb t))"
    if "exact_cache_ok drv emb T cfg c" "t \<in> T" for c t
  proof (cases "cc_persistence cfg")
    case MemoryOnly
    then show ?thesis using that(1) by (simp add: file_hit_def exact_cache_ok_def)
  next
    case SqliteFile
    have cfg: "sc_config c = cfg" using that(1) by (simp add: exact_cache_ok_def)
    have ok: "exact_cache_ok drv emb T cfg (initDb drv c)" by (rule exact_initDb [OF that(1) sound])
    obtain r c1 where g: "dbGet drv (hashText t) c = (r, c1)" by (cases "dbGet drv (hashText t) c")
    have c1: "c1 = initDb drv c" using g by (simp add: dbGet_def Let_def)
    have found: "vector_of_hash SqliteFile emb T (hashText t) e" if "r = Some e" for e
      using g that ok by (auto simp: dbGet_def Let_def exact_cache_ok_def file_rows_ok_def split: option.splits sum.splits)
    show ?thesis
      using g c1 ok found cfg SqliteFile exact_lruPut [OF ok] vector_of_hashD [OF found inj that(2)]
      by (cases r) (simp_all add: file_hit_def)
  qed
  have mem: "agrees (cc_persistence cfg) e (emb t)"
    if "exact_cache_ok drv emb T cfg c" "t \<in> T" "memory_hit c t = Some e" for c t e
    using that map_of_SomeD [of "sc_lru c" "hashText t" e] vector_of_hashD [OF _ inj that(2)]
    by (auto simp: memory_hit_def exact_cache_ok_def)
  have sem: "\<not> fst (semantic_hit (embedDirect create em) c t w) = Inr (Some e)"
    if "exact_cache_ok drv emb T cfg c" for em :: "'a openai_embedder" and c t w e
    using that by (simp add: semantic_hit_def exact_cache_ok_def)
  show ?thesis
    unfolding cache_invariant_def using set hit mem sem by auto
qed

subsection \<open>A service that always answers\<close>

definition api_total :: "'w client \<Rightarrow> bool" where
  "api_total create = (\<forall>req w. \<not> isl (fst (create req w)))"

lemma embedDirect_total:
  assumes "api_total create" and "api_answers Q create"
  shows "\<not> isl (fst (embedDirect create em t w))"
proof -
  obtain es w' where c: "create (embed_request_for em (OneText t)) w = (Inr es, w')"
    using assms(1) unfolding api_total_def by (metis returnedE)
  have "case fst (create (embed_request_for em (OneText t)) w) of Inl e \<Rightarrow> True
    | Inr es \<Rightarrow> list_all2 Q (case rq_input (embed_request_for em (OneText t)) of OneText t \<Rightarrow> [t] | ManyTexts ts \<Rightarrow> ts) es"
    using assms(2) unfolding api_answers_def by blast
  then have "list_all2 Q [t] es" using c by (simp add: embed_request_for_def)
  then show ?thesis using c by (auto simp: embedDirect_def list_all2_Cons1)
qed

lemma semantic_hit_total:
  assumes "api_total create" and "api_answers Q create"
  shows "\<not> isl (fst (semantic_hit (embedDirect create em) c t w))"
  using embedDirect_total [OF assms, of em t w]
  by (auto simp: semantic_hit_def split: sum.splits prod.splits)

lemma semantic_hits_total:
  assumes "api_total create" and "api_answers Q create"
  shows "\<not> isl (fst (semantic_hits (embedDirect create em) c rs w))"
proof (induction rs arbitrary: w)
  case (Cons r rs)
  obtain t h where r: "r = (t, h)" by (cases r)
  show ?case
  proof (cases h)
    case (Some e)
    obtain hs w1 where rest: "semantic_hits (embedDirect create em) c rs w = (Inr hs, w1)"
      using Cons.IH [of w] by (rule returnedE)
    show ?thesis by (simp add: r Some rest)
  next
    case None
    obtain x w1 where one: "semantic_hit (embedDirect create em) c t w = (Inr x, w1)"
      using semantic_hit_total [OF assms, of em c t w] by (rule returnedE)
    obtain hs w2 where rest: "semantic_hits (embedDirect create em) c rs w1 = (Inr hs, w2)"
      using Cons.IH [of w1] by (rule returnedE)
    show ?thesis by (simp add: r None one rest)
  qed
qed simp

lemma openai_embed_total:
  assumes "api_total create" and "api_answers Q create"
  shows "\<not> isl (fst (openai_embed drv create t em w))"
proof -
  show ?thesis
  proof (cases "oe_cache em")
    case None
    obtain v w1 where "embedDirect create em t w = (Inr v, w1)"
      using embedDirect_total [OF assms, of em t w] by (rule returnedE)
    then show ?thesis using None by (simp add: openai_embed_def)
  next
    case (Some c)
    obtain x c1 where f: "file_hit drv t c = (x, c1)" by (cases "file_hit drv t c")
    obtain s w1 where h: "semantic_hit (embedDirect create em) c1 t w = (Inr s, w1)"
      using semantic_hit_total [OF assms, of em c1 t w] by (rule returnedE)
    obtain v w2 where d: "embedDirect create em t w1 = (Inr v, w2)"
      using embedDirect_total [OF assms, of em t w1] by (rule returnedE)
    show ?thesis
      by (cases "memory_hit c t"; cases x; cases s) (simp_all add: openai_embed_def cache_get_def Some f h d)
  qed
qed

lemma openai_embedBatch_total:
  assumes tot: "api_total create" and api: "api_answers Q create"
    and inv: "cache_invariant drv create Q A T I" and ok: "cache_ok I em" and ts: "set ts \<subseteq> T"
  shows "\<not> isl (fst (openai_embedBatch drv create ts em w))"
proof -
  obtain c where c: "oe_cache em = Some c" "I c"
    using ok by (auto simp: cache_ok_def split: option.splits)
  define found where "found = map (\<lambda>t. (t, memory_hit c t)) ts"
  have found: "hits_ok A T found"
    using ts cache_invariantD(5) [OF inv c(2)]
    by (auto simp: found_def hits_ok_def list_all_iff split: option.splits)
  obtain hs c1 where f: "file_hits drv found c = (hs, c1)" by (cases "file_hits drv found c")
  have hs: "I c1" "hits_ok A T hs" using file_hits_ok [OF inv c(2) found] f by auto
  obtain rs w1 where s: "semantic_hits (embedDirect create em) c1 hs w = (Inr rs, w1)"
    using semantic_hits_total [OF tot api, of em c1 hs w] by (rule returnedE)
  have rs: "hits_ok A T rs" using semantic_hits_ok [OF inv hs s] by simp
  obtain vs w2 where b: "embedBatchDirect create em (miss_texts rs) w1 = (Inr vs, w2)"
    using tot unfolding api_total_def embedBatchDirect_def by (metis returnedE)
  obtain es c2 where filled: "fill_misses drv rs vs c1 = (Inr es, c2)"
    using fill_misses_ok [OF inv hs(1) rs api_answers_many [OF api b]] by (metis returnedE)
  show ?thesis
    using c f s b filled
    by (auto simp: openai_embedBatch_def found_def [symmetric] Let_def)
qed

lemma run_calls_total:
  assumes tot: "api_total create" and api: "api_answers Q create"
    and inv: "cache_invariant drv create Q A T I"
  shows "cache_ok I em \<Longrightarrow> \<forall>q \<in> set qs. set (call_texts q) \<subseteq> T
    \<Longrightarrow> list_all (\<lambda>r. \<not> isl r) (fst (run_calls drv create qs em w))"
proof (induction qs arbitrary: em w)
  case (Cons q qs)
  obtain r em1 w1 where one: "run_call drv create q em w = (r, em1, w1)" by (metis prod_cases3)
  have q: "\<not> isl r \<and> cache_ok I em1"
  proof (cases q)
    case (EmbedCall t)
    obtain x em2 w2 where e: "openai_embed drv create t em w = (x, em2, w2)" by (metis prod_cases3)
    have "t \<in> T" using Cons.prems(2) EmbedCall by simp
    from openai_embed_ok [OF inv api Cons.prems(1) this e] openai_embed_total [OF tot api, of drv t em w]
    show ?thesis using one e EmbedCall by (cases x) auto
  next
    case (EmbedBatchCall ts)
    then show ?thesis
      using openai_embedBatch_ok [OF inv api Cons.prems(1), of ts w r em1 w1]
        openai_embedBatch_total [OF tot api inv Cons.prems(1), of ts w] Cons.prems(2) one by simp
  qed
  obtain rs em2 w2 where rest: "run_calls drv create qs em1 w1 = (rs, em2, w2)" by (metis prod_cases3)
  show ?case using q Cons.IH [of em1 w1] Cons.prems(2) one rest by simp
qed simp

subsection \<open>The properties of the cached provider\<close>


text \<open>A service that answers with the length of the text, and counts the requests.\<close>

definition length_service :: "nat client" where
  "length_service req w =
     (Inr (map (\<lambda>t. [Fin (of_nat (length t))]) (case rq_input req of OneText t \<Rightarrow> [t] | ManyTexts ts \<Rightarrow> ts)), w + 1)"

definition no_sqlite :: "unit sqlite_driver" where
  "no_sqlite = \<lparr>sq_open = (\<lambda>_. None), sq_get = (\<lambda>_ _. Inr None), sq_run = (\<lambda>d _ _. Inr d)\<rparr>"

definition exact_options :: cache_options where
  "exact_options =
     \<lparr>co_strategy = ExactStrategy, co_similarityThreshold = None, co_maxSizeMB = None,
      co_persistence = None, co_sqlitePath = None\<rparr>"

definition exact_embedder_config :: embedder_config where
  "exact_embedder_config =
     \<lparr>oc_model = ''m'', oc_dimensions = None, oc_baseURL = None, oc_cache = Some exact_options\<rparr>"

definition sample_calls :: "provider_call list" where
  "sample_calls = [EmbedCall (js ''a''), EmbedBatchCall [js ''bb'', js ''a'', js ''bb''], EmbedCall (js ''bb'')]"

lemma length_service_answers:
  "api_answers (\<lambda>t v. v = [Fin (of_nat (length t))]) length_service" "api_total length_service"
  by (auto simp: api_answers_def length_service_def api_total_def list.rel_map intro: list.rel_refl)

lemma hashes_of_a_b: "inj_on hashText {js ''a'', js ''bb''}"
  by (simp add: hashText_def hash_word_def hash_step_def to_base36.simps base36_digit_def)


text \<open>
  Texts of equal hash share a vector: after \<open>"ad "\<close> was embedded, \<open>"afb"\<close> gets its vector without
  a request.
\<close>

lemma colliding_texts: "hashText (js ''ad '') = hashText (js ''afb'')"
  by (simp add: hashText_def hash_word_def hash_step_def)

lemma memory_hit_answers:
  assumes "oe_cache em = Some c" and "memory_hit c t = Some e"
  shows "openai_embed drv create t em w = (Inr e, em\<lparr>oe_cache := Some c\<rparr>, w)"
  using assms by (simp add: openai_embed_def cache_get_def)

lemma memory_hit_after_put: "memory_hit (lruPut (hashText s) e c) s = Some e"
  by (auto simp: memory_hit_def lruPut_def Let_def map_of_append map_add_def split: option.splits dest: map_of_SomeD)

lemma colliding_texts_share_a_vector:
  assumes "oe_cache em = Some c" and "cc_persistence (sc_config c) = MemoryOnly"
    and "cc_strategy (sc_config c) = ExactStrategy"
  shows "fst (openai_embed drv create (js ''afb'') (em\<lparr>oe_cache := Some (cache_set drv (js ''ad '') v c)\<rparr>) w) = Inr v"
proof -
  have "cache_set drv (js ''ad '') v c = lruPut (hashText (js ''afb'')) v c"
    using assms by (simp add: cache_set_def Let_def colliding_texts del: js_Cons)
  with memory_hit_after_put [of "js ''afb''" v c] show ?thesis
    by (simp add: memory_hit_answers del: js_Cons)
qed

text \<open>
  The semantic strategy saves no request: once it holds a vector, every text that is not in memory is
  sent to the service to be compared, and a miss sends it again.
\<close>

lemma semantic_lookup_sends_the_text:
  assumes "oe_cache em = Some c" and "cc_strategy (sc_config c) = SemanticStrategy"
    and "cc_persistence (sc_config c) = MemoryOnly" and "sc_semantic c \<noteq> []" and "memory_hit c t = None"
    and "embedDirect create em t w = (Inr q, w1)"
    and "best_match q (sc_semantic c) (- 1) None = (s, None)"
  shows "snd (snd (openai_embed drv create t em w)) = snd (embedDirect create em t w1)"
  using assms
  by (auto simp: openai_embed_def cache_get_def file_hit_def semantic_hit_def split: sum.splits prod.splits)

lemma semantic_hit_sends_the_text:
  assumes "oe_cache em = Some c" and "cc_strategy (sc_config c) = SemanticStrategy"
    and "cc_persistence (sc_config c) = MemoryOnly" and "sc_semantic c \<noteq> []" and "memory_hit c t = None"
    and "embedDirect create em t w = (Inr q, w1)"
    and "best_match q (sc_semantic c) (- 1) None = (s, Some e)" and "s \<ge> cc_similarityThreshold (sc_config c)"
  shows "fst (openai_embed drv create t em w) = Inr e \<and> snd (snd (openai_embed drv create t em w)) = w1"
  using assms by (simp add: openai_embed_def cache_get_def file_hit_def semantic_hit_def)

subsection \<open>The size of the cache\<close>

lemma to_base36_nonempty: "to_base36 n \<noteq> []"
  by (subst to_base36.simps) simp

definition entry_limit :: "rat \<Rightarrow> nat \<Rightarrow> int" where
  "entry_limit mb dims = max 1 \<lfloor>(mb * 1024 * 1024) / (of_nat dims * 4 + 2)\<rfloor>"

lemma maxEntries_le:
  assumes "0 \<le> mb" and "length e = dims" and "key \<noteq> []"
  shows "maxEntries mb key e \<le> entry_limit mb dims"
proof -
  have "1 \<le> length key" using assms(3) by (simp add: Suc_le_eq)
  then have "(2 :: rat) \<le> of_nat (length key) * 2" by simp
  then have "(mb * 1024 * 1024) / (of_nat (length e) * 4 + of_nat (length key) * 2)
      \<le> (mb * 1024 * 1024) / (of_nat dims * 4 + 2)"
    using assms(1,2) by (intro divide_left_mono) (auto intro!: mult_pos_pos add_nonneg_pos)
  from floor_mono [OF this] show ?thesis by (simp add: maxEntries_def entry_limit_def)
qed

lemma lruPut_size:
  assumes "int (length (sc_lru c)) \<le> limit" and "1 \<le> limit"
    and "maxEntries (cc_maxSizeMB (sc_config c)) key e \<le> limit"
  shows "int (length (sc_lru (lruPut key e c))) \<le> limit"
proof -
  have "length (filter P xs) \<le> length xs" for P and xs :: "(string \<times> vec) list" by simp
  note f = this
  show ?thesis
  proof (cases "int (length (sc_lru c)) \<ge> maxEntries (cc_maxSizeMB (sc_config c)) key e")
    case True
    then show ?thesis
      using assms f [of "\<lambda>kv. fst kv \<noteq> key" "tl (sc_lru c)"] by (auto simp: lruPut_def Let_def)
  next
    case False
    then show ?thesis
      using assms f [of "\<lambda>kv. fst kv \<noteq> key" "sc_lru c"] by (simp add: lruPut_def Let_def del: length_filter_le)
  qed
qed

definition sized_cache :: "cache_config \<Rightarrow> nat \<Rightarrow> 'd semantic_cache \<Rightarrow> bool" where
  "sized_cache cfg dims c =
     (sc_config c = cfg \<and> int (length (sc_lru c)) \<le> entry_limit (cc_maxSizeMB cfg) dims)"

lemma sized_cache_invariant:
  assumes "cc_persistence cfg = MemoryOnly" and "0 \<le> cc_maxSizeMB cfg"
  shows "cache_invariant drv create (\<lambda>t v. length v = dims) (\<lambda>t e. True) T (sized_cache cfg dims)"
proof -
  have "sized_cache cfg dims (cache_set drv t v c)"
    if c: "sized_cache cfg dims c" and v: "length v = dims" for c t v
  proof -
    have "int (length (sc_lru (lruPut (hashText t) v c))) \<le> entry_limit (cc_maxSizeMB cfg) dims"
      using lruPut_size [of c _ "hashText t" v] maxEntries_le [OF assms(2) v, of "hashText t"] c
        to_base36_nonempty by (simp add: sized_cache_def hashText_def entry_limit_def)
    then show ?thesis using c assms(1) by (simp add: sized_cache_def cache_set_def Let_def)
  qed
  moreover have "sized_cache cfg dims (snd (file_hit drv t c))" if "sized_cache cfg dims c" for c t
    using that assms(1) by (simp add: sized_cache_def file_hit_def)
  ultimately show ?thesis unfolding cache_invariant_def by simp
qed

text \<open>
  The memory part of the cache stays within the configured size, counted at four bytes a component and
  two for the shortest key, under either strategy. Nothing bounds the list of the semantic strategy.
\<close>

lemma cache_size_bounded:
  fixes drv :: "'d sqlite_driver"
  assumes "api_answers (\<lambda>t v. length v = dims) create"
    and "oc_cache cfg = Some opts" and "co_persistence opts \<noteq> Some SqliteFile"
    and "0 \<le> or_default (co_maxSizeMB opts) 500"
  shows "case oe_cache (fst (snd (run_calls drv create qs (new_openai_embedder hostname cfg) w))) of
      None \<Rightarrow> False | Some c \<Rightarrow> int (length (sc_lru c)) \<le> entry_limit (or_default (co_maxSizeMB opts) 500) dims"
proof -
  define c :: "'d semantic_cache" where "c = new_cache opts"
  define em :: "'d openai_embedder" where "em = new_openai_embedder hostname cfg"
  have p: "cc_persistence (sc_config c) = MemoryOnly" "cc_maxSizeMB (sc_config c) = or_default (co_maxSizeMB opts) 500"
    using assms(3) by (cases "co_persistence opts") (auto simp: c_def new_cache_def or_default_def intro: cache_persistence.exhaust)
  have ok: "cache_ok (sized_cache (sc_config c) dims) em"
    using assms(2) by (simp add: em_def new_openai_embedder_def cache_ok_def sized_cache_def entry_limit_def c_def)
      (simp add: new_cache_def)
  obtain rs em' w' where run: "run_calls drv create qs em w = (rs, em', w')" by (metis prod_cases3)
  have inv: "cache_invariant drv create (\<lambda>t v. length v = dims) (\<lambda>t e. True) UNIV (sized_cache (sc_config c) dims)"
    by (rule sized_cache_invariant) (use p assms(4) in simp_all)
  have "cache_ok (sized_cache (sc_config c) dims) em'"
    using run_calls_ok [OF inv assms(1) ok _ run] by simp
  then show ?thesis
    using run p(2) by (auto simp: em_def [symmetric] cache_ok_def sized_cache_def split: option.splits)
qed

subsection \<open>Bounds of the figures\<close>

lemma cosine_bounds: "\<bar>cosine a b\<bar> \<le> 1"
proof -
  obtain d na nb where s: "cosine_sums a b = (d, na, nb)" by (cases "cosine_sums a b") auto
  have "0 \<le> na" "0 \<le> nb" using cosine_sums_bounds [of a b] s by auto
  then have "cosine a b = cosineSimilarity a b"
    by (simp add: cosine_def cosineSimilarity_def s Let_def)
  then show ?thesis using cosineSimilarity_bounds by simp
qed

lemma average_bounds:
  fixes f :: "nat \<Rightarrow> real"
  assumes "\<And>i. \<bar>f i\<bar> \<le> 1"
  shows "\<bar>sum_list (map f [0..<k]) / of_nat k\<bar> \<le> 1"
proof -
  have "\<bar>sum_list (map f [0..<k])\<bar> \<le> of_nat k"
  proof (induction k)
    case (Suc k)
    then show ?case using assms [of k] by simp
  qed simp
  then show ?thesis by (cases "k = 0") (simp_all add: abs_divide divide_le_eq_1)
qed

lemma avg_cosine_bounds: "\<bar>computeAvgCosineSimRandomPairs rnd es k\<bar> \<le> 1"
proof -
  have "\<bar>case random_pair rnd n i of (a, b) \<Rightarrow> cosine (es ! a) (es ! b)\<bar> \<le> 1" for n i
    by (simp add: cosine_bounds split: prod.splits)
  from average_bounds [OF this] show ?thesis
    by (simp add: computeAvgCosineSimRandomPairs_def Let_def del: abs_divide)
qed

lemma random_pair_distinct:
  assumes "\<And>i. 0 \<le> rnd i" and "\<And>i. rnd i < 1" and "2 \<le> n" and "random_pair rnd n i = (a, b)"
  shows "a < n \<and> b < n \<and> a \<noteq> b"
proof -
  have draw: "nat \<lfloor>rnd j * of_nat m\<rfloor> < m" if "0 < m" for j m
  proof -
    have "rnd j * of_nat m < of_nat m" using assms(2) [of j] that by simp
    moreover have "0 \<le> rnd j * of_nat m" using assms(1) [of j] by simp
    ultimately show ?thesis by (simp add: nat_less_iff floor_less_iff)
  qed
  show ?thesis
    using assms(3,4) draw [of n "2 * i"] draw [of "n - 1" "2 * i + 1"]
    by (auto simp: random_pair_def Let_def split: if_splits)
qed

text \<open>
  At most 16 percent of the vectors can be outliers: their squared deviations alone exceed
  6.25 variances each.
\<close>

lemma squares_of_outliers:
  fixes xs :: "real list"
  assumes "0 < std"
  shows "of_nat (length (filter (\<lambda>n. \<bar>n - mean\<bar> / std > 25 / 10) xs)) * ((25 / 10) ^ 2 * std ^ 2)
    \<le> sum_list (map (\<lambda>v. (v - mean) ^ 2) xs)"
proof (induction xs)
  case (Cons x xs)
  have "(25 / 10) ^ 2 * std ^ 2 \<le> (x - mean) ^ 2" if "\<bar>x - mean\<bar> / std > 25 / 10"
  proof -
    have "25 / 10 * std \<le> \<bar>x - mean\<bar>" using that assms by (simp add: field_simps)
    then have "(25 / 10 * std) ^ 2 \<le> \<bar>x - mean\<bar> ^ 2" using assms by (intro power_mono) simp_all
    then show ?thesis unfolding power2_abs power_mult_distrib .
  qed
  then show ?case
    using Cons zero_le_power2 [of "x - mean"]
    by (cases "\<bar>x - mean\<bar> / std > 25 / 10") (simp_all add: distrib_right add_increasing)
qed simp

lemma outlier_fraction_bounds: "0 \<le> detectOutliers es \<and> detectOutliers es \<le> 16 / 100"
proof -
  define norms where "norms = map norm_of es"
  define mean where "mean = sum_list norms / of_nat (length norms)"
  define s where "s = sum_list (map (\<lambda>v. (v - mean) ^ 2) norms)"
  define std where "std = sqrt (s / of_nat (length norms))"
  define out where "out = length (filter (\<lambda>n. \<bar>n - mean\<bar> / std > 25 / 10) norms)"
  have eq: "detectOutliers es = (if length es < 2 then 0 else if std = 0 then 0
      else of_nat out / of_nat (length norms))"
    by (simp add: detectOutliers_def Let_def norms_def mean_def s_def std_def out_def)
  have s: "0 \<le> s" unfolding s_def by (rule sum_list_nonneg) auto
  show ?thesis
  proof (cases "length es < 2 \<or> std = 0")
    case True
    then show ?thesis by (auto simp: eq)
  next
    case False
    then have n: "0 < length norms" unfolding norms_def length_map by linarith
    have std: "0 < std" using False s by (simp add: std_def less_le)
    have sq: "std ^ 2 = s / of_nat (length norms)" using s by (simp add: std_def)
    have "of_nat out * ((25 / 10) ^ 2 * std ^ 2) \<le> s"
      using squares_of_outliers [OF std, of mean norms] by (simp add: out_def s_def)
    also have "s = of_nat (length norms) * std ^ 2" using n by (simp add: sq)
    finally have "(of_nat out * (25 / 10) ^ 2) * std ^ 2 \<le> of_nat (length norms) * std ^ 2" by (simp add: mult_ac)
    then have "of_nat out * (25 / 10) ^ 2 \<le> (of_nat (length norms) :: real)" using std by simp
    then have "of_nat out / of_nat (length norms) \<le> (16 / 100 :: real)"
      using n by (simp add: field_simps power2_eq_square)
    then show ?thesis using False by (simp add: eq)
  qed
qed

end
