(* ===== verification/Quality.thy ===== *)
theory Quality
  imports Telemetry
begin

section \<open>Quality scores\<close>

text \<open>
  \<open>src/packages/virage-core/src/quality\<close>: normalisation and aggregation (\<open>scoring.ts\<close>), the metrics
  of seven of the eight components of the pipeline (\<open>metrics\<close>; the fourth is in theory
  \<open>DenseQuality\<close>) and the types of \<open>interfaces.ts\<close>.

  Scores are exact reals. Within one assessment the embedding model is a function of the text it
  embeds; an error of it is the left side of a sum. Vectors have one length. An undefined field is
  \<^const>\<open>None\<close>.
\<close>

subsection \<open>Results\<close>

record metric_result =
  mr_name :: string
  mr_rawValue :: real
  mr_normalizedValue :: real
  mr_weight :: real
  mr_skipped :: bool
  mr_skipReason :: "string option"
  mr_mustPass :: bool
  mr_mustPassThreshold :: "real option"
  mr_mustPassPassed :: "bool option"

record component_result =
  cr_id :: string
  cr_label :: string
  cr_score :: real
  cr_weight :: real
  cr_skipped :: bool
  cr_skipReason :: "string option"
  cr_metrics :: "metric_result list"

record must_pass_gate =
  mg_metricName :: string
  mg_threshold :: real
  mg_value :: real
  mg_passed :: bool

datatype quality_status = PASS | FAIL

definition plain_average :: "real list \<Rightarrow> real" where
  "plain_average xs = (if xs = [] then 0 else sum_list xs / of_nat (length xs))"

definition share :: "nat \<Rightarrow> nat \<Rightarrow> real" where
  "share part whole = of_nat part / of_nat whole"

subsection \<open>Normalisation\<close>

definition normalizeMonotonicUp01 :: "real \<Rightarrow> real" where
  "normalizeMonotonicUp01 v = max 0 (min 1 v)"

definition normalizeMonotonicUpSigned :: "real \<Rightarrow> real" where
  "normalizeMonotonicUpSigned v = max 0 (min 1 ((v + 1) / 2))"

definition normalizeMonotonicDown :: "real \<Rightarrow> real" where
  "normalizeMonotonicDown v = max 0 (min 1 (1 - v))"

definition normalizeIntrinsicDimension :: "real \<Rightarrow> real" where
  "normalizeIntrinsicDimension f =
     (if f \<le> 0 then 0 else if f < 7 / 10 then f / (7 / 10) else if f \<le> 9 / 10 then 1
      else if f < 1 then (1 - f) / (1 / 10) else 0)"

definition normalizeUniformity :: "real \<Rightarrow> real" where
  "normalizeUniformity v =
     (if v \<le> 0 then 0 else if v < 7 / 10 then v / (7 / 10) else if v \<le> 85 / 100 then 1
      else if v < 1 then (1 - v) / (15 / 100) else 0)"

definition normalizeCoherence :: "real \<Rightarrow> real" where
  "normalizeCoherence v =
     (if v < 0 then 0 else if v < 4 / 10 then v / (4 / 10) else if v \<le> 6 / 10 then 1
      else if v < 1 then (1 - v) / (4 / 10) else 0)"

definition normalizeCalibration :: "real \<Rightarrow> real \<Rightarrow> real" where
  "normalizeCalibration m s = max 0 (min 1 (1 - \<bar>m - 1 / 2\<bar> - \<bar>s - 1 / 4\<bar>))"

subsection \<open>Aggregation\<close>

definition weighted_average :: "(real \<times> real) list \<Rightarrow> real" where
  "weighted_average vs =
     (if vs = [] then 0
      else let total = sum_list (map snd vs)
           in if total = 0 then 0 else sum_list (map (\<lambda>(v, w). v * w) vs) / total)"

definition aggregateComponent :: "metric_result list \<Rightarrow> real" where
  "aggregateComponent ms =
     weighted_average (map (\<lambda>m. (mr_normalizedValue m, mr_weight m)) (filter (\<lambda>m. \<not> mr_skipped m) ms))"

definition aggregateOverall :: "component_result list \<Rightarrow> real" where
  "aggregateOverall cs =
     weighted_average (map (\<lambda>c. (cr_score c, cr_weight c)) (filter (\<lambda>c. \<not> cr_skipped c) cs))"

definition evaluateMustPassGates :: "must_pass_gate list \<Rightarrow> quality_status" where
  "evaluateMustPassGates gates = (if list_ex (\<lambda>g. \<not> mg_passed g) gates then FAIL else PASS)"

definition computeStatus :: "real \<Rightarrow> must_pass_gate list \<Rightarrow> quality_status" where
  "computeStatus overall gates = (if overall < 7 / 10 then FAIL else evaluateMustPassGates gates)"

subsection \<open>Building metric results\<close>

type_synonym weight_overrides = "string \<Rightarrow> real option"

definition weight_of :: "weight_overrides \<Rightarrow> string \<Rightarrow> real \<Rightarrow> real" where
  "weight_of ov key w = (case ov key of Some v \<Rightarrow> v | None \<Rightarrow> w)"

definition measured :: "string \<Rightarrow> real \<Rightarrow> real \<Rightarrow> real \<Rightarrow> metric_result" where
  "measured name raw nv w =
     \<lparr>mr_name = name, mr_rawValue = raw, mr_normalizedValue = nv, mr_weight = w, mr_skipped = False,
      mr_skipReason = None, mr_mustPass = False, mr_mustPassThreshold = None, mr_mustPassPassed = None\<rparr>"

definition skipped_metric :: "string \<Rightarrow> real \<Rightarrow> string \<Rightarrow> metric_result" where
  "skipped_metric name w reason =
     (measured name 0 0 w)\<lparr>mr_skipped := True, mr_skipReason := Some reason\<rparr>"

text \<open>A metric whose raw value may be missing (\<open>null\<close>).\<close>

definition measured_if_present :: "string \<Rightarrow> real option \<Rightarrow> (real \<Rightarrow> real) \<Rightarrow> real \<Rightarrow> string \<Rightarrow> metric_result" where
  "measured_if_present name raw nf w reason =
     (case raw of None \<Rightarrow> skipped_metric name w reason | Some v \<Rightarrow> measured name v (nf v) w)"

definition must_pass :: "real \<Rightarrow> bool option \<Rightarrow> metric_result \<Rightarrow> metric_result" where
  "must_pass threshold passed m =
     m\<lparr>mr_mustPass := True, mr_mustPassThreshold := Some threshold, mr_mustPassPassed := passed\<rparr>"

fun result_traverse :: "('a \<Rightarrow> 'b result) \<Rightarrow> 'a list \<Rightarrow> 'b list result" where
  "result_traverse f [] = Inr []"
| "result_traverse f (x # xs) =
     result_bind (f x) (\<lambda>y. result_bind (result_traverse f xs) (\<lambda>ys. Inr (y # ys)))"

subsection \<open>Component 1: chunking\<close>

record measured_chunk =
  mc_denseText :: jstext
  mc_sparseText :: jstext
  mc_astNodeCount :: "nat option"
  mc_astNodeCountInBounds :: "nat option"
  mc_tokenCount :: "nat option"

definition sentence_end :: "16 word \<Rightarrow> bool" where
  "sentence_end u = (u \<in> {0x2E, 0x21, 0x3F, 10})"

text \<open>The matches of \<open>/[^.!?\n]+[.!?\n]+/g\<close>.\<close>

function sentence_matches :: "jstext \<Rightarrow> jstext list" where
  "sentence_matches t =
     (let s = dropWhile sentence_end t;
          body = takeWhile (\<lambda>u. \<not> sentence_end u) s;
          rest = dropWhile (\<lambda>u. \<not> sentence_end u) s
      in if rest = [] then []
         else (body @ takeWhile sentence_end rest) # sentence_matches (dropWhile sentence_end rest))"
  by pat_completeness auto

termination
proof (relation "measure length")
  fix t s body rest :: jstext
  assume s: "s = dropWhile sentence_end t"
    and rest: "rest = dropWhile (\<lambda>u. \<not> sentence_end u) s" "rest \<noteq> []"
  have "sentence_end (hd rest)" using hd_dropWhile [of "\<lambda>u. \<not> sentence_end u" s] rest by simp
  then have "length (dropWhile sentence_end rest) < length rest"
    using rest(2) length_dropWhile_le [of sentence_end "tl rest"] by (cases rest) (auto simp: less_Suc_eq_le)
  also have "length rest \<le> length s" unfolding rest(1) by (rule length_dropWhile_le)
  also have "length s \<le> length t" unfolding s by (rule length_dropWhile_le)
  finally show "(dropWhile sentence_end rest, t) \<in> measure length" by simp
qed simp

definition js_trim :: "jstext \<Rightarrow> jstext" where
  "js_trim t = List.rev (dropWhile js_space (List.rev (dropWhile js_space t)))"

definition splitSentences :: "jstext \<Rightarrow> jstext list" where
  "splitSentences t = filter (\<lambda>s. length s > 10) (map js_trim (sentence_matches t))"

fun pairs_of :: "'a list \<Rightarrow> ('a \<times> 'a) list" where
  "pairs_of [] = []"
| "pairs_of (x # xs) = map (Pair x) xs @ pairs_of xs"

definition chunk_cohesion :: "(jstext \<Rightarrow> real list result) \<Rightarrow> measured_chunk \<Rightarrow> real list result" where
  "chunk_cohesion embedFn c =
     (let sentences = splitSentences (mc_denseText c)
      in if length sentences < 2 then Inr []
         else result_bind (result_traverse embedFn sentences)
           (\<lambda>es. Inr (let sims = map (\<lambda>(a, b). cosineSimilarity a b) (pairs_of es)
                      in if sims = [] then [] else [sum_list sims / of_nat (length sims)])))"

definition computeCohesion :: "measured_chunk list \<Rightarrow> (jstext \<Rightarrow> real list result) \<Rightarrow> nat \<Rightarrow> real result" where
  "computeCohesion chunks embedFn sampleSize =
     result_bind (result_traverse (chunk_cohesion embedFn) (take sampleSize chunks))
       (\<lambda>vs. Inr (plain_average (concat vs)))"

definition computeIntegrity :: "measured_chunk list \<Rightarrow> real option" where
  "computeIntegrity chunks =
     (let counted = filter (\<lambda>c. mc_astNodeCount c \<noteq> None \<and> mc_astNodeCountInBounds c \<noteq> None) chunks;
          total = sum_list (map (\<lambda>c. the (mc_astNodeCount c)) counted);
          bounded = sum_list (map (\<lambda>c. the (mc_astNodeCountInBounds c)) counted)
      in if total = 0 then None else Some (share bounded total))"

definition computeCoherence :: "measured_chunk list \<Rightarrow> (jstext \<Rightarrow> real list result) \<Rightarrow> nat \<Rightarrow> real result" where
  "computeCoherence chunks embedFn sampleSize =
     (if length chunks < 2 then Inr (1 / 2)
      else result_bind (result_traverse (\<lambda>c. embedFn (mc_denseText c)) (take (sampleSize + 1) chunks))
        (\<lambda>es. Inr (let sims = map (\<lambda>(a, b). cosineSimilarity a b) (zip es (tl es))
                   in sum_list sims / of_nat (length sims))))"

text \<open>The number of pieces of \<open>split(/\s+/)\<close>: one more than the number of runs of white space.\<close>

fun space_runs :: "bool \<Rightarrow> jstext \<Rightarrow> nat" where
  "space_runs inside [] = 0"
| "space_runs inside (u # us) =
     (if js_space u then (if inside then 0 else 1) + space_runs True us else space_runs False us)"

definition token_count :: "measured_chunk \<Rightarrow> nat" where
  "token_count c =
     (case mc_tokenCount c of Some n \<Rightarrow> n | None \<Rightarrow> space_runs False (mc_denseText c) + 1)"

definition computeCoverage :: "measured_chunk list \<Rightarrow> nat \<Rightarrow> nat \<Rightarrow> real" where
  "computeCoverage chunks minTokens maxTokens =
     (if chunks = [] then 0
      else share (length (filter (\<lambda>c. token_count c \<ge> minTokens \<and> token_count c \<le> maxTokens) chunks)) (length chunks))"

definition computeChunkingMetrics ::
  "measured_chunk list \<Rightarrow> (jstext \<Rightarrow> real list result) \<Rightarrow> nat \<Rightarrow> nat \<Rightarrow> nat \<Rightarrow> weight_overrides \<Rightarrow> metric_result list result" where
  "computeChunkingMetrics chunks embedFn tokenRangeMin tokenRangeMax sampleSize ov =
     (let sample = take sampleSize chunks in
      result_bind (computeCohesion sample embedFn sampleSize) (\<lambda>cohesionRaw.
      result_bind (computeCoherence sample embedFn sampleSize) (\<lambda>coherenceRaw.
      (let coverageRaw = computeCoverage chunks tokenRangeMin tokenRangeMax in
       Inr [measured ''Cohesion'' cohesionRaw (normalizeMonotonicUp01 ((cohesionRaw + 1) / 2)) (weight_of ov ''cohesion'' 2),
            measured_if_present ''Integrity'' (computeIntegrity chunks) normalizeMonotonicUp01
              (weight_of ov ''integrity'' 2) ''AST node boundary metadata not present in chunks'',
            measured ''Coherence'' coherenceRaw (normalizeCoherence coherenceRaw) (weight_of ov ''coherence'' (1 / 2)),
            measured ''Coverage'' coverageRaw (normalizeMonotonicUp01 coverageRaw) (weight_of ov ''coverage'' 1)]))))"

subsection \<open>Component 2: metadata\<close>

record metadata_chunk =
  md_id :: "string option"
  md_breadcrumb :: "jstext option"
  md_fqn :: "jstext option"
  md_imports :: "jstext list option"
  md_resolvedImports :: "nat option"
  md_totalImports :: "nat option"
  md_prevId :: "string option"
  md_nextId :: "string option"
  md_sourceFile :: "jstext option"
  md_isCode :: bool

definition EXPECTED_FIELDS :: "string list" where
  "EXPECTED_FIELDS = [''breadcrumb'', ''fqn'', ''imports'', ''siblings'']"

text \<open>Reading a field by its name; an empty text or list counts as missing.\<close>

definition field_present :: "metadata_chunk \<Rightarrow> string \<Rightarrow> bool" where
  "field_present m f =
     (if f = ''breadcrumb'' then (case md_breadcrumb m of None \<Rightarrow> False | Some t \<Rightarrow> t \<noteq> [])
      else if f = ''fqn'' then (case md_fqn m of None \<Rightarrow> False | Some t \<Rightarrow> t \<noteq> [])
      else if f = ''imports'' then (case md_imports m of None \<Rightarrow> False | Some xs \<Rightarrow> xs \<noteq> [])
      else False)"

definition computeCompleteness :: "metadata_chunk option list \<Rightarrow> real" where
  "computeCompleteness chunks =
     (let ms = concat (map (\<lambda>c. case c of None \<Rightarrow> [] | Some m \<Rightarrow> [m]) chunks);
          checks = concat (map (\<lambda>m. map (field_present m) EXPECTED_FIELDS) ms)
      in if checks = [] then 0 else share (length (filter id checks)) (length checks))"

definition crumbs_by_file :: "metadata_chunk option list \<Rightarrow> (jstext \<times> jstext list) list" where
  "crumbs_by_file chunks =
     foldl (\<lambda>byFile c. case c of None \<Rightarrow> byFile
       | Some m \<Rightarrow>
           (case (md_sourceFile m, md_breadcrumb m) of
              (Some f, Some b) \<Rightarrow>
                if f = [] \<or> b = [] then byFile
                else AList.update f ((case map_of byFile f of None \<Rightarrow> [] | Some l \<Rightarrow> l) @ [b]) byFile
            | _ \<Rightarrow> byFile)) [] chunks"

definition common_length :: "jstext list \<Rightarrow> nat" where
  "common_length crumbs =
     (let reference = hd crumbs
      in length (takeWhile (\<lambda>i. list_all (\<lambda>c. i < length c \<and> c ! i = reference ! i) crumbs) [0..<length reference]))"

definition crumb_score :: "jstext list \<Rightarrow> real" where
  "crumb_score crumbs =
     (let maxLen = foldl max 0 (map length crumbs)
      in if maxLen = 0 then 1 else share (common_length crumbs) maxLen)"

definition computeBreadcrumbConsistency :: "metadata_chunk option list \<Rightarrow> real" where
  "computeBreadcrumbConsistency chunks =
     (let byFile = crumbs_by_file chunks
      in if byFile = [] then 0
         else plain_average (map crumb_score (filter (\<lambda>l. l \<noteq> []) (map snd byFile))))"

definition computeFqnCompleteness :: "metadata_chunk option list \<Rightarrow> real option" where
  "computeFqnCompleteness chunks =
     (let code = filter (\<lambda>c. case c of None \<Rightarrow> False | Some m \<Rightarrow> md_isCode m) chunks;
          withFqn = filter (\<lambda>c. case c of None \<Rightarrow> False
            | Some m \<Rightarrow> (case md_fqn m of None \<Rightarrow> False | Some t \<Rightarrow> t \<noteq> [])) code
      in if code = [] then None else Some (share (length withFqn) (length code)))"

definition import_counts :: "metadata_chunk option \<Rightarrow> nat \<times> nat" where
  "import_counts c =
     (case c of None \<Rightarrow> (0, 0)
      | Some m \<Rightarrow>
          (case md_totalImports m of None \<Rightarrow> (0, 0)
           | Some n \<Rightarrow> (n, case md_resolvedImports m of None \<Rightarrow> 0 | Some r \<Rightarrow> r)))"

definition computeImportResolution :: "metadata_chunk option list \<Rightarrow> real option" where
  "computeImportResolution chunks =
     (let total = sum_list (map (fst \<circ> import_counts) chunks);
          resolved = sum_list (map (snd \<circ> import_counts) chunks)
      in if total = 0 then None else Some (share resolved total))"

definition sibling_links :: "metadata_chunk option \<Rightarrow> string list" where
  "sibling_links c =
     (case c of None \<Rightarrow> []
      | Some m \<Rightarrow> (case md_prevId m of None \<Rightarrow> [] | Some i \<Rightarrow> [i])
                  @ (case md_nextId m of None \<Rightarrow> [] | Some i \<Rightarrow> [i]))"

definition computeSiblingIntegrity :: "metadata_chunk option list \<Rightarrow> string list \<Rightarrow> real option" where
  "computeSiblingIntegrity chunks chunkIdSet =
     (let links = concat (map sibling_links chunks)
      in if links = [] then None
         else Some (share (length (filter (\<lambda>i. i \<in> set chunkIdSet) links)) (length links)))"

definition computeMetadataMetrics ::
  "metadata_chunk option list \<Rightarrow> string list \<Rightarrow> real \<Rightarrow> weight_overrides \<Rightarrow> metric_result list" where
  "computeMetadataMetrics chunks chunkIdSet importThreshold ov =
     (let completeness = computeCompleteness chunks;
          breadcrumbConsistency = computeBreadcrumbConsistency chunks;
          importResolution = computeImportResolution chunks
      in [measured ''Completeness'' completeness (normalizeMonotonicUp01 completeness) (weight_of ov ''completeness'' 1),
          measured ''BreadcrumbConsistency'' breadcrumbConsistency (normalizeMonotonicUp01 breadcrumbConsistency)
            (weight_of ov ''breadcrumbConsistency'' 1),
          measured_if_present ''FQNCompleteness'' (computeFqnCompleteness chunks) normalizeMonotonicUp01
            (weight_of ov ''fqnCompleteness'' 1) ''No code chunks found in sample'',
          must_pass importThreshold (map_option (\<lambda>r. r > importThreshold) importResolution)
            (measured_if_present ''ImportResolution'' importResolution normalizeMonotonicUp01
              (weight_of ov ''importResolution'' 1) ''No import statements found in metadata''),
          measured_if_present ''SiblingIntegrity'' (computeSiblingIntegrity chunks chunkIdSet) normalizeMonotonicUp01
            (weight_of ov ''siblingIntegrity'' (1 / 2)) ''No sibling links found in chunk metadata''])"

subsection \<open>Component 3: dense input\<close>

text \<open>
  \<open>for ... of\<close> walks the code points: a high surrogate and the low surrogate after it are one,
  which is printable.
\<close>

definition high_surrogate :: "16 word \<Rightarrow> bool" where
  "high_surrogate u = (0xD800 \<le> u \<and> u \<le> 0xDBFF)"

definition low_surrogate :: "16 word \<Rightarrow> bool" where
  "low_surrogate u = (0xDC00 \<le> u \<and> u \<le> 0xDFFF)"

definition isPrintable :: "16 word \<Rightarrow> bool" where
  "isPrintable u = (u \<ge> 0x20 \<and> u \<noteq> 0x7F)"

fun printable_points :: "jstext \<Rightarrow> nat" where
  "printable_points [] = 0"
| "printable_points [u] = (if isPrintable u then 1 else 0)"
| "printable_points (u # v # us) =
     (if high_surrogate u \<and> low_surrogate v then 1 + printable_points us
      else (if isPrintable u then 1 else 0) + printable_points (v # us))"

definition computeTextPurity :: "jstext \<Rightarrow> real" where
  "computeTextPurity t = (if t = [] then 0 else share (printable_points t) (length t))"

definition computeDenseInputMetrics ::
  "measured_chunk list \<Rightarrow> (jstext \<Rightarrow> real list result) \<Rightarrow> nat \<Rightarrow> weight_overrides \<Rightarrow> metric_result list result" where
  "computeDenseInputMetrics chunks embedFn sampleSize ov =
     (let sample = take sampleSize chunks;
          purity = plain_average (map (\<lambda>c. computeTextPurity (mc_denseText c)) sample);
          enrichedPairs = filter (\<lambda>c. mc_sparseText c \<noteq> mc_denseText c) sample
      in result_bind
           (result_traverse (\<lambda>c. result_bind (embedFn (mc_sparseText c)) (\<lambda>a.
              result_bind (embedFn (mc_denseText c)) (\<lambda>b. Inr (cosineSimilarity a b)))) enrichedPairs)
           (\<lambda>sims.
              (let enrichmentQuality = (if enrichedPairs = [] then None else Some (sum_list sims / of_nat (length sims)))
               in Inr [measured ''TextPurity'' purity (normalizeMonotonicUp01 purity) (weight_of ov ''textPurity'' 1),
                       measured_if_present ''EnrichmentQuality'' enrichmentQuality
                         (\<lambda>q. normalizeMonotonicUp01 ((q + 1) / 2)) (weight_of ov ''enrichmentQuality'' 1)
                         ''sparseText equals denseText in all sampled chunks (no enrichment detected)''])))"

subsection \<open>Component 5: sparse input\<close>

definition STOP_WORDS :: "jstext list" where
  "STOP_WORDS = map js [''a'', ''an'', ''the'', ''and'', ''or'', ''but'', ''in'', ''on'', ''at'', ''to'', ''for'',
     ''of'', ''with'', ''by'', ''from'', ''is'', ''it'', ''this'', ''that'', ''be'', ''as'']"

definition word_unit :: "16 word \<Rightarrow> bool" where
  "word_unit u = ((0x30 \<le> u \<and> u \<le> 0x39) \<or> (0x41 \<le> u \<and> u \<le> 0x5A) \<or> (0x61 \<le> u \<and> u \<le> 0x7A) \<or> u = 0x5F)"

text \<open>
  \<open>toLowerCase\<close> as far as word characters are concerned: the ASCII letters, the Kelvin sign and the
  capital I with a dot. The lower case of any other character is not a word character, like itself.
\<close>

definition lower_units :: "16 word \<Rightarrow> jstext" where
  "lower_units u =
     (if 0x41 \<le> u \<and> u \<le> 0x5A then [u + 32] else if u = 0x212A then [0x6B]
      else if u = 0x130 then [0x69, 0x307] else [u])"

fun word_runs :: "jstext \<Rightarrow> jstext \<Rightarrow> jstext list" where
  "word_runs acc [] = [acc]"
| "word_runs acc (u # us) =
     (if word_unit u then word_runs (acc @ [u]) us else acc # word_runs [] us)"

definition tokenize :: "jstext \<Rightarrow> jstext list" where
  "tokenize t = filter (\<lambda>w. length w > 2) (word_runs [] (concat (map lower_units t)))"

definition preprocessTerms :: "jstext list \<Rightarrow> jstext list" where
  "preprocessTerms ts = filter (\<lambda>t. t \<notin> set STOP_WORDS) ts"

definition term_coverage :: "jstext \<Rightarrow> real" where
  "term_coverage t =
     (let unique = remdups (tokenize t)
      in if unique = [] then 0 else share (length (preprocessTerms unique)) (length unique))"

definition term_sparsity :: "jstext list \<Rightarrow> (jstext \<times> nat) list option \<Rightarrow> real" where
  "term_sparsity chunks freqs =
     (case freqs of None \<Rightarrow> 0
      | Some m \<Rightarrow>
          if m = [] then 0
          else let uniqueTerms = remdups (concat (map tokenize chunks));
                   zeroFreq = filter (\<lambda>t. map_of m t = None \<or> map_of m t = Some 0) uniqueTerms
               in if uniqueTerms = [] then 0 else share (length zeroFreq) (length uniqueTerms))"

definition computeSparseInputMetrics ::
  "jstext list \<Rightarrow> (jstext \<times> nat) list option \<Rightarrow> weight_overrides \<Rightarrow> metric_result list" where
  "computeSparseInputMetrics chunks freqs ov =
     (let present = filter (\<lambda>t. t \<noteq> []) chunks in
      if present = [] then
        [skipped_metric ''TermCoverage'' (weight_of ov ''termCoverage'' 1) ''No sparseText found in sampled chunks'',
         skipped_metric ''TermSparsity'' (weight_of ov ''termSparsity'' (1 / 2)) ''No sparseText found in sampled chunks'']
      else
        (let termCoverage = plain_average (map term_coverage present);
             termSparsity = term_sparsity present freqs
         in [measured ''TermCoverage'' termCoverage (normalizeMonotonicUp01 termCoverage) (weight_of ov ''termCoverage'' 1),
             (measured ''TermSparsity'' termSparsity (normalizeMonotonicDown termSparsity)
                (weight_of ov ''termSparsity'' (1 / 2)))
               \<lparr>mr_skipped := (freqs = None),
                mr_skipReason := (if freqs = None then Some ''Corpus term frequencies not provided'' else None)\<rparr>]))"

subsection \<open>Component 6: lexical retrieval\<close>

record query_chunk =
  qu_id :: string
  qu_denseText :: jstext
  qu_anchorText :: "jstext option"

definition query_text :: "query_chunk \<Rightarrow> jstext" where
  "query_text c = (case qu_anchorText c of Some t \<Rightarrow> t | None \<Rightarrow> take 80 (qu_denseText c))"

definition recall_of :: "(jstext \<Rightarrow> nat \<Rightarrow> string list result) \<Rightarrow> nat \<Rightarrow> query_chunk list \<Rightarrow> real result" where
  "recall_of searchFn topK chunks =
     result_bind (result_traverse (\<lambda>c. result_bind (searchFn (query_text c) topK) (\<lambda>ids. Inr (qu_id c \<in> set ids))) chunks)
       (\<lambda>hits. Inr (share (length (filter id hits)) (length chunks)))"

definition computeLexicalRetrievalMetrics ::
  "query_chunk list \<Rightarrow> (jstext \<Rightarrow> nat \<Rightarrow> string list result) option \<Rightarrow> nat \<Rightarrow> weight_overrides \<Rightarrow> metric_result list result" where
  "computeLexicalRetrievalMetrics chunks ftsSearchFn topK ov =
     (case ftsSearchFn of
        None \<Rightarrow> Inr [skipped_metric ''LexicalRecall@K'' (weight_of ov ''lexicalRecall'' (15 / 10))
          ''FTS/BM25 search not available on this vector store'']
      | Some fts \<Rightarrow>
          if chunks = [] then
            Inr [skipped_metric ''LexicalRecall@K'' (weight_of ov ''lexicalRecall'' (15 / 10)) ''No chunks in sample'']
          else result_bind (recall_of fts topK chunks)
            (\<lambda>r. Inr [measured ''LexicalRecall@K'' r (normalizeMonotonicUp01 r) (weight_of ov ''lexicalRecall'' (15 / 10))]))"

subsection \<open>Component 7: reranker input\<close>

record reranker_sample =
  rs_chunkId :: string
  rs_denseVector :: "real list option"
  rs_sparseScore :: "real option"
  rs_metadata_present :: bool
  rs_sourceChunkId :: "string option"

definition std_dev :: "real list \<Rightarrow> real" where
  "std_dev xs =
     (let avg = sum_list xs / of_nat (length xs)
      in sqrt (sum_list (map (\<lambda>v. (v - avg) ^ 2) xs) / of_nat (length xs)))"

definition skipped_reranker_input :: "string \<Rightarrow> weight_overrides \<Rightarrow> metric_result list" where
  "skipped_reranker_input reason ov =
     map (\<lambda>(key, w, name). skipped_metric name (weight_of ov key w) reason)
       [(''featureCompleteness'', 1, ''FeatureCompleteness''),
        (''featureAblation'', 1, ''FeatureAblationImpact''),
        (''featureRedundancy'', 1 / 2, ''FeatureRedundancy''),
        (''inputConsistency'', 1, ''InputConsistency'')]"

definition feature_completeness :: "reranker_sample list \<Rightarrow> real" where
  "feature_completeness samples =
     (let present = concat (map (\<lambda>s. [rs_denseVector s \<noteq> None, rs_sparseScore s \<noteq> None, rs_metadata_present s]) samples)
      in if present = [] then 0 else share (length (filter id present)) (length present))"

definition sparse_values :: "reranker_sample list \<Rightarrow> real list" where
  "sparse_values samples = map (\<lambda>s. case rs_sparseScore s of Some v \<Rightarrow> v | None \<Rightarrow> 0) samples"

definition feature_ablation :: "reranker_sample list \<Rightarrow> real" where
  "feature_ablation samples =
     (let sparseStd = std_dev (sparse_values samples);
          denseStd = std_dev (map (\<lambda>s. case rs_denseVector s of Some v \<Rightarrow> sum_list (map abs v) | None \<Rightarrow> 0) samples);
          maxStd = max sparseStd denseStd
      in if maxStd = 0 then 0 else min sparseStd denseStd / maxStd)"

definition feature_redundancy :: "reranker_sample list \<Rightarrow> real" where
  "feature_redundancy samples =
     (let sparseVals = sparse_values samples;
          denseNorms = map (\<lambda>s. case rs_denseVector s of Some v \<Rightarrow> sqrt (sum_list (map (\<lambda>x. x * x) v)) | None \<Rightarrow> 0) samples;
          n = of_nat (length samples);
          sparseAvg = sum_list sparseVals / n;
          denseNormAvg = sum_list denseNorms / n;
          cov = sum_list (map (\<lambda>(v, d). (v - sparseAvg) * (d - denseNormAvg)) (zip sparseVals denseNorms)) / n;
          sparseStdR = std_dev sparseVals;
          denseNormStd = std_dev denseNorms
      in if sparseStdR = 0 \<or> denseNormStd = 0 then 0 else \<bar>cov / (sparseStdR * denseNormStd)\<bar>)"

definition input_consistency :: "reranker_sample list \<Rightarrow> real" where
  "input_consistency samples =
     share (length (filter (\<lambda>s. case rs_sourceChunkId s of None \<Rightarrow> True
         | Some i \<Rightarrow> i = [] \<or> i = rs_chunkId s) samples)) (length samples)"

definition computeRerankerInputMetrics ::
  "reranker_sample list \<Rightarrow> bool \<Rightarrow> weight_overrides \<Rightarrow> metric_result list" where
  "computeRerankerInputMetrics samples rerankerAvailable ov =
     (if \<not> rerankerAvailable \<or> samples = [] then
        skipped_reranker_input (if \<not> rerankerAvailable then ''No reranker configured'' else ''No reranker input samples'') ov
      else
        [measured ''FeatureCompleteness'' (feature_completeness samples)
           (normalizeMonotonicUp01 (feature_completeness samples)) (weight_of ov ''featureCompleteness'' 1),
         measured ''FeatureAblationImpact'' (feature_ablation samples)
           (normalizeMonotonicUp01 (feature_ablation samples)) (weight_of ov ''featureAblation'' 1),
         measured ''FeatureRedundancy'' (feature_redundancy samples)
           (normalizeMonotonicDown (feature_redundancy samples)) (weight_of ov ''featureRedundancy'' (1 / 2)),
         measured ''InputConsistency'' (input_consistency samples)
           (normalizeMonotonicUp01 (input_consistency samples)) (weight_of ov ''inputConsistency'' 1)])"

subsection \<open>Component 8: reranker\<close>

definition calibration_of :: "real list \<Rightarrow> real" where
  "calibration_of scores =
     (if scores = [] then 0
      else normalizeCalibration (sum_list scores / of_nat (length scores)) (std_dev scores))"

definition confidence_gap :: "real list \<Rightarrow> real" where
  "confidence_gap scores =
     (if length scores > 5 then
        (let sorted = List.rev (sort scores);
             top5 = take 5 sorted;
             next20 = take 20 (drop 5 sorted)
         in max 0 (sum_list top5 / of_nat (length top5) - plain_average next20))
      else 0)"

definition computeRerankerMetrics ::
  "real option \<Rightarrow> real option \<Rightarrow> real list \<Rightarrow> bool \<Rightarrow> weight_overrides \<Rightarrow> metric_result list" where
  "computeRerankerMetrics rerankerMrr baselineMrr scores rerankerAvailable ov =
     (case (if rerankerAvailable then rerankerMrr else None) of
        None \<Rightarrow>
          (let reason = (if \<not> rerankerAvailable then ''No reranker configured'' else ''Reranker MRR not available'')
           in [skipped_metric ''Uplift'' (weight_of ov ''uplift'' (5 / 2)) reason,
               skipped_metric ''Calibration'' (weight_of ov ''calibration'' 1) reason,
               skipped_metric ''ConfidenceGap'' (weight_of ov ''confidenceGap'' (1 / 2)) reason])
      | Some mrr \<Rightarrow>
          (let upliftRaw = mrr - (case baselineMrr of Some b \<Rightarrow> b | None \<Rightarrow> 0);
               calibrationRaw = calibration_of scores;
               confidenceGapRaw = confidence_gap scores
           in [measured ''Uplift'' upliftRaw (normalizeMonotonicUp01 (max 0 upliftRaw)) (weight_of ov ''uplift'' (5 / 2)),
               measured ''Calibration'' calibrationRaw calibrationRaw (weight_of ov ''calibration'' 1),
               measured ''ConfidenceGap'' confidenceGapRaw (normalizeMonotonicUp01 confidenceGapRaw)
                 (weight_of ov ''confidenceGap'' (1 / 2))]))"

subsection \<open>Scores lie between 0 and 1\<close>

definition unit_score :: "real \<Rightarrow> bool" where
  "unit_score v = (0 \<le> v \<and> v \<le> 1)"

lemma normalized_unit [simp]:
  "unit_score (normalizeMonotonicUp01 v)" "unit_score (normalizeMonotonicUpSigned v)"
  "unit_score (normalizeMonotonicDown v)" "unit_score (normalizeCalibration v w)"
  "unit_score 0" "unit_score 1"
  by (simp_all add: unit_score_def normalizeMonotonicUp01_def normalizeMonotonicUpSigned_def
      normalizeMonotonicDown_def normalizeCalibration_def)

lemma normalized_peak_unit [simp]:
  "unit_score (normalizeIntrinsicDimension v)" "unit_score (normalizeUniformity v)"
  "unit_score (normalizeCoherence v)"
  by (simp_all add: unit_score_def normalizeIntrinsicDimension_def normalizeUniformity_def
      normalizeCoherence_def field_simps)

text \<open>The bands in which a metric has full marks.\<close>

lemma full_marks_bands:
  "normalizeIntrinsicDimension v = 1 \<longleftrightarrow> 7 / 10 \<le> v \<and> v \<le> 9 / 10"
  "normalizeUniformity v = 1 \<longleftrightarrow> 7 / 10 \<le> v \<and> v \<le> 85 / 100"
  "normalizeCoherence v = 1 \<longleftrightarrow> 4 / 10 \<le> v \<and> v \<le> 6 / 10"
  by (auto simp: normalizeIntrinsicDimension_def normalizeUniformity_def normalizeCoherence_def field_simps)

lemma weighted_sum_le:
  fixes vs :: "(real \<times> real) list"
  assumes "list_all (\<lambda>(v, w). v \<le> b \<and> 0 \<le> w) vs"
  shows "sum_list (map (\<lambda>(v, w). v * w) vs) \<le> b * sum_list (map snd vs)"
  using assms by (induction vs) (auto simp: distrib_left intro!: add_mono mult_right_mono)

lemma weighted_sum_nonneg:
  fixes vs :: "(real \<times> real) list"
  assumes "list_all (\<lambda>(v, w). 0 \<le> v \<and> 0 \<le> w) vs"
  shows "0 \<le> sum_list (map (\<lambda>(v, w). v * w) vs)" and "0 \<le> sum_list (map snd vs)"
  using assms by (induction vs) auto

lemma weighted_average_unit:
  assumes "list_all (\<lambda>(v, w). unit_score v \<and> 0 \<le> w) vs"
  shows "unit_score (weighted_average vs)"
proof -
  have s: "list_all (\<lambda>(v, w). v \<le> 1 \<and> 0 \<le> w) vs" "list_all (\<lambda>(v, w). 0 \<le> v \<and> 0 \<le> w) vs"
    using assms by (auto simp: list_all_iff unit_score_def)
  show ?thesis
    using weighted_sum_le [OF s(1)] weighted_sum_nonneg [OF s(2)]
    by (auto simp: weighted_average_def Let_def unit_score_def divide_le_eq_1)
qed

definition metric_ok :: "metric_result \<Rightarrow> bool" where
  "metric_ok m = (unit_score (mr_normalizedValue m) \<and> 0 \<le> mr_weight m)"

lemma aggregateComponent_unit:
  assumes "list_all metric_ok ms"
  shows "unit_score (aggregateComponent ms)"
  unfolding aggregateComponent_def
  by (rule weighted_average_unit) (use assms in \<open>auto simp: list_all_iff metric_ok_def\<close>)

lemma aggregateOverall_unit:
  assumes "list_all (\<lambda>c. unit_score (cr_score c) \<and> 0 \<le> cr_weight c) cs"
  shows "unit_score (aggregateOverall cs)"
  unfolding aggregateOverall_def
  by (rule weighted_average_unit) (use assms in \<open>auto simp: list_all_iff\<close>)

definition nonneg_weights :: "weight_overrides \<Rightarrow> bool" where
  "nonneg_weights ov = (\<forall>k w. ov k = Some w \<longrightarrow> 0 \<le> w)"

lemma weight_of_nonneg [simp]: "nonneg_weights ov \<Longrightarrow> 0 \<le> d \<Longrightarrow> 0 \<le> weight_of ov k d"
  by (auto simp: weight_of_def nonneg_weights_def split: option.splits)

lemma metric_ok_simps [simp]:
  "metric_ok (measured name raw nv w) = (unit_score nv \<and> 0 \<le> w)"
  "metric_ok (skipped_metric name w reason) = (0 \<le> w)"
  "metric_ok (must_pass t p m) = metric_ok m"
  "metric_ok (m\<lparr>mr_skipped := b, mr_skipReason := r\<rparr>) = metric_ok m"
  by (simp_all add: metric_ok_def measured_def skipped_metric_def must_pass_def)

lemma metric_ok_if_present [simp]:
  "0 \<le> w \<Longrightarrow> (\<And>v. unit_score (f v)) \<Longrightarrow> metric_ok (measured_if_present name raw f w reason)"
  by (simp add: measured_if_present_def split: option.splits)

lemma chunking_metrics_ok:
  "nonneg_weights ov \<Longrightarrow> computeChunkingMetrics chunks embedFn lo hi n ov = Inr ms \<Longrightarrow> list_all metric_ok ms"
  by (auto simp: computeChunkingMetrics_def Let_def result_bind_Inr)

lemma metadata_metrics_ok:
  "nonneg_weights ov \<Longrightarrow> list_all metric_ok (computeMetadataMetrics chunks ids t ov)"
  by (simp add: computeMetadataMetrics_def Let_def)

lemma dense_input_metrics_ok:
  "nonneg_weights ov \<Longrightarrow> computeDenseInputMetrics chunks embedFn n ov = Inr ms \<Longrightarrow> list_all metric_ok ms"
  by (auto simp: computeDenseInputMetrics_def Let_def result_bind_Inr)

lemma sparse_input_metrics_ok:
  "nonneg_weights ov \<Longrightarrow> list_all metric_ok (computeSparseInputMetrics chunks freqs ov)"
  by (simp add: computeSparseInputMetrics_def Let_def)

lemma lexical_metrics_ok:
  "nonneg_weights ov \<Longrightarrow> computeLexicalRetrievalMetrics chunks fts k ov = Inr ms \<Longrightarrow> list_all metric_ok ms"
  by (auto simp: computeLexicalRetrievalMetrics_def result_bind_Inr split: option.splits if_splits)

lemma reranker_input_metrics_ok:
  "nonneg_weights ov \<Longrightarrow> list_all metric_ok (computeRerankerInputMetrics samples available ov)"
  by (simp add: computeRerankerInputMetrics_def skipped_reranker_input_def)

lemma calibration_unit [simp]: "unit_score (calibration_of scores)"
  by (simp add: calibration_of_def)

lemma reranker_metrics_ok:
  "nonneg_weights ov \<Longrightarrow> list_all metric_ok (computeRerankerMetrics mrr base scores available ov)"
  by (simp add: computeRerankerMetrics_def Let_def split: option.splits)

lemmas metrics_ok = chunking_metrics_ok metadata_metrics_ok dense_input_metrics_ok sparse_input_metrics_ok
  lexical_metrics_ok reranker_input_metrics_ok reranker_metrics_ok

subsection \<open>Metrics that cannot score\<close>

text \<open>The field \<open>siblings\<close> does not exist, so at most three of the four expected fields are present.\<close>

lemma completeness_at_most_three_quarters: "computeCompleteness chunks \<le> 3 / 4"
proof -
  define ms where "ms = concat (map (\<lambda>c. case c of None \<Rightarrow> [] | Some m \<Rightarrow> [m]) chunks)"
  define checks where "checks = concat (map (\<lambda>m. map (field_present m) EXPECTED_FIELDS) ms)"
  have "4 * length (filter id checks) \<le> 3 * length checks"
    unfolding checks_def by (induction ms) (auto simp: EXPECTED_FIELDS_def field_present_def)
  then have "4 * real (length (filter id checks)) \<le> 3 * real (length checks)" by linarith
  moreover have "computeCompleteness chunks = (if checks = [] then 0 else share (length (filter id checks)) (length checks))"
    by (simp add: computeCompleteness_def checks_def ms_def Let_def)
  ultimately show ?thesis by (auto simp: share_def divide_le_eq)
qed

text \<open>A text of one emoji is half printable, for the points are divided by the code units.\<close>

lemma purity_of_an_emoji: "computeTextPurity [0xD83D, 0xDE00] = 1 / 2"
  by (simp add: computeTextPurity_def high_surrogate_def low_surrogate_def share_def)

lemma import_resolution_without_resolution:
  assumes "list_all (\<lambda>c. case c of None \<Rightarrow> True | Some m \<Rightarrow> md_resolvedImports m = None) chunks"
    and "Some m \<in> set chunks" and "md_totalImports m = Some n" and "0 < n"
  shows "computeImportResolution chunks = Some 0"
proof -
  have z: "sum_list (map (snd \<circ> import_counts) chunks) = 0"
    using assms(1) by (induction chunks) (auto simp: import_counts_def split: option.splits)
  have "n \<in> set (map (fst \<circ> import_counts) chunks)"
    using assms(2,3) by (force simp: import_counts_def image_iff)
  then have "sum_list (map (fst \<circ> import_counts) chunks) \<noteq> 0"
    using assms(4) by (auto simp: sum_list_eq_0_iff)
  then show ?thesis using z by (simp add: computeImportResolution_def share_def)
qed

end
