(* ===== verification/DenseQuality.thy ===== *)
theory DenseQuality
  imports Quality
begin

section \<open>Metrics of the dense embedding\<close>

text \<open>
  \<open>src/packages/virage-core/src/quality/metrics/dense-embedding.ts\<close>. Matrices are lists of rows.
  \<open>rnd c j\<close> is the \<open>j\<close>-th random number, in [0, 1), that the \<open>c\<close>-th power iteration draws. The
  code compares arrays by identity to leave a vector out of its own neighbours; each call of the
  embedding model returns an array of its own, so that is a comparison of positions.
\<close>

definition vec_mean :: "real list \<Rightarrow> real" where
  "vec_mean xs = sum_list xs / of_nat (length xs)"

subsection \<open>Power iteration and deflation\<close>

definition mat_vec :: "real list list \<Rightarrow> real list \<Rightarrow> real list" where
  "mat_vec M v = map (\<lambda>row. sum_list (map2 (*) row v)) M"

definition vec_norm :: "real list \<Rightarrow> real" where
  "vec_norm v = sqrt (sum_list (map (\<lambda>x. x * x) v))"

fun power_loop :: "real list list \<Rightarrow> nat \<Rightarrow> real list \<Rightarrow> real \<Rightarrow> real \<times> real list" where
  "power_loop M 0 v l = (l, v)"
| "power_loop M (Suc n) v l =
     (let Mv = mat_vec M v; l' = vec_norm Mv
      in if l' < 1 / 10 ^ 10 then (l', v) else power_loop M n (map (\<lambda>x. x / l') Mv) l')"

definition powerIteration :: "(nat \<Rightarrow> real) \<Rightarrow> real list list \<Rightarrow> real \<times> real list" where
  "powerIteration rnd M = power_loop M 100 (map (\<lambda>j. rnd j - 1 / 2) [0..<length M]) 0"

definition centered_rows :: "real list list \<Rightarrow> nat \<Rightarrow> real list list" where
  "centered_rows matrix d =
     (let colMeans = map (\<lambda>j. vec_mean (map (\<lambda>row. row ! j) matrix)) [0..<d]
      in map (\<lambda>row. map2 (-) row colMeans) matrix)"

definition covariance :: "real list list \<Rightarrow> nat \<Rightarrow> nat \<Rightarrow> real list list" where
  "covariance centered d n =
     map (\<lambda>i. map (\<lambda>j. sum_list (map (\<lambda>row. (row ! i * row ! j) / of_nat n) centered)) [0..<d]) [0..<d]"

definition deflate :: "real list list \<Rightarrow> real \<Rightarrow> real list \<Rightarrow> nat \<Rightarrow> real list list" where
  "deflate residual l v d =
     map (\<lambda>i. map (\<lambda>j. residual ! i ! j - l * v ! i * v ! j) [0..<d]) [0..<d]"

fun pca_loop :: "(nat \<Rightarrow> nat \<Rightarrow> real) \<Rightarrow> nat \<Rightarrow> nat \<Rightarrow> nat \<Rightarrow> real list list \<Rightarrow> real list" where
  "pca_loop rnd d c 0 residual = []"
| "pca_loop rnd d c (Suc k) residual =
     (case powerIteration (rnd c) residual of
        (l, v) \<Rightarrow> l # pca_loop rnd d (c + 1) k (deflate residual l v d))"

definition pca :: "(nat \<Rightarrow> nat \<Rightarrow> real) \<Rightarrow> real list list \<Rightarrow> nat \<Rightarrow> real list" where
  "pca rnd matrix numComponents =
     (let n = length matrix;
          d = length (hd matrix);
          k = min numComponents (min d (n - 1));
          eigenvalues = pca_loop rnd d 0 k (covariance (centered_rows matrix d) d n);
          totalVar = sum_list eigenvalues
      in if totalVar = 0 then map (\<lambda>_. 0) eigenvalues else map (\<lambda>e. e / totalVar) eigenvalues)"

fun components_for :: "real \<Rightarrow> nat \<Rightarrow> real list \<Rightarrow> nat \<Rightarrow> nat" where
  "components_for cum i [] dflt = dflt"
| "components_for cum i (v # vs) dflt =
     (if cum + v \<ge> 95 / 100 then i + 1 else components_for (cum + v) (i + 1) vs dflt)"

definition intrinsicFraction :: "(nat \<Rightarrow> nat \<Rightarrow> real) \<Rightarrow> real list list \<Rightarrow> real" where
  "intrinsicFraction rnd vectors =
     (if length vectors < 4 then 0
      else let totalDims = length (hd vectors);
               maxComponents = min totalDims (min (length vectors - 1) 64)
           in share (components_for 0 0 (pca rnd vectors maxComponents) maxComponents) totalDims)"

subsection \<open>Neighbour distances\<close>

definition l2_distance :: "real list \<Rightarrow> real list \<Rightarrow> real" where
  "l2_distance a b = sqrt (sum_list (map2 (\<lambda>x y. (x - y) ^ 2) a b))"

definition distances_from :: "real list list \<Rightarrow> nat \<Rightarrow> real list" where
  "distances_from vectors i =
     map (\<lambda>j. l2_distance (vectors ! i) (vectors ! j)) (filter (\<lambda>j. j \<noteq> i) [0..<length vectors])"

definition kth_distance :: "nat \<Rightarrow> real list \<Rightarrow> real" where
  "kth_distance k ds = (let s = sort ds in if k - 1 < length s then s ! (k - 1) else 0)"

definition computeUniformity :: "real list list \<Rightarrow> nat \<Rightarrow> real" where
  "computeUniformity vectors k =
     (if length vectors < k + 1 then 0
      else let kthDistances = map (\<lambda>i. kth_distance k (distances_from vectors i)) [0..<length vectors];
               avg = vec_mean kthDistances;
               stdDev = sqrt (vec_mean (map (\<lambda>d. (d - avg) ^ 2) kthDistances))
           in if avg = 0 then 0 else max 0 (min 1 (1 - stdDev / avg)))"

fun isotropy_loop :: "(nat \<Rightarrow> nat \<Rightarrow> real) \<Rightarrow> nat \<Rightarrow> nat \<Rightarrow> nat \<Rightarrow> real list list \<Rightarrow> real list" where
  "isotropy_loop rnd d c 0 residual = []"
| "isotropy_loop rnd d c (Suc k) residual =
     (let l = fst (powerIteration (rnd c) residual);
          v = snd (powerIteration (rnd (c + 1)) residual)
      in l # isotropy_loop rnd d (c + 2) k (deflate residual l v d))"

text \<open>The minimum of no value is \<open>Infinity\<close>, which the ratio cuts to 1.\<close>

definition computeIsotropy :: "(nat \<Rightarrow> nat \<Rightarrow> real) \<Rightarrow> real list list \<Rightarrow> real" where
  "computeIsotropy rnd vectors =
     (if length vectors < 4 then 0
      else let d = length (hd vectors);
               n = length vectors;
               maxComponents = min d (min (n - 1) 32);
               variances = isotropy_loop rnd d 0 maxComponents (covariance (centered_rows vectors d) d n)
           in if length variances < 2 then 0
              else let maxEig = foldl max (hd variances) (tl variances);
                       positive = filter (\<lambda>v. v > 1 / 10 ^ 10) variances
                   in if maxEig = 0 then 0
                      else case positive of [] \<Rightarrow> 1 | p # ps \<Rightarrow> min 1 (foldl min p ps / maxEig))"

definition median :: "real list \<Rightarrow> real" where
  "median s =
     (let mid = length s div 2
      in if odd (length s) then s ! mid else (s ! (mid - 1) + s ! mid) / 2)"

definition nearest_distance :: "real list list \<Rightarrow> nat \<Rightarrow> real" where
  "nearest_distance vectors i = (let ds = distances_from vectors i in foldl min (hd ds) (tl ds))"

definition computeOutlierFraction :: "real list list \<Rightarrow> real" where
  "computeOutlierFraction vectors =
     (if length vectors < 4 then 0
      else let nearestDists = map (nearest_distance vectors) [0..<length vectors];
               med = median (sort nearestDists);
               mad = median (sort (map (\<lambda>d. \<bar>d - med\<bar>) (sort nearestDists)));
               threshold = med + 3 * mad
           in share (length (filter (\<lambda>d. d > threshold) nearestDists)) (length vectors))"

subsection \<open>The metrics\<close>

definition computeSelfRecall :: "query_chunk list \<Rightarrow> (jstext \<Rightarrow> nat \<Rightarrow> string list result) \<Rightarrow> nat \<Rightarrow> real result" where
  "computeSelfRecall chunks searchFn topK = (if chunks = [] then Inr 0 else recall_of searchFn topK chunks)"

definition skip_if :: "bool \<Rightarrow> string \<Rightarrow> metric_result \<Rightarrow> metric_result" where
  "skip_if b reason m = m\<lparr>mr_skipped := b, mr_skipReason := (if b then Some reason else None)\<rparr>"

definition computeDenseEmbeddingMetrics ::
  "(nat \<Rightarrow> nat \<Rightarrow> real) \<Rightarrow> (nat \<Rightarrow> nat \<Rightarrow> real) \<Rightarrow> query_chunk list \<Rightarrow> (jstext \<Rightarrow> nat \<Rightarrow> string list result) \<Rightarrow>
   (jstext \<Rightarrow> real list result) \<Rightarrow> nat \<Rightarrow> nat \<Rightarrow> real \<Rightarrow> real \<Rightarrow> weight_overrides \<Rightarrow> metric_result list result" where
  "computeDenseEmbeddingMetrics rnd rnd' chunks searchFn embedFn topK sampleSize selfRecallThreshold outlierThreshold ov =
     (let sample = take sampleSize chunks in
      result_bind (computeSelfRecall sample searchFn topK) (\<lambda>selfRecall.
      result_bind (result_traverse (\<lambda>c. embedFn (qu_denseText c)) sample) (\<lambda>vectors.
      (let idFraction = intrinsicFraction rnd vectors;
           uniformity = computeUniformity vectors 5;
           isotropy = computeIsotropy rnd' vectors;
           outlierFraction = computeOutlierFraction vectors;
           few = (length vectors < 4)
       in Inr
         [must_pass selfRecallThreshold (Some (selfRecall \<ge> selfRecallThreshold))
            (measured ''SelfRecall@K'' selfRecall (normalizeMonotonicUp01 selfRecall) (weight_of ov ''selfRecall'' 3)),
          skip_if few ''Insufficient sample for PCA''
            (measured ''IntrinsicDimension'' idFraction (normalizeIntrinsicDimension idFraction)
               (weight_of ov ''intrinsicDimension'' 1)),
          skip_if few ''Insufficient sample''
            (measured ''Uniformity'' uniformity (normalizeUniformity uniformity) (weight_of ov ''uniformity'' 1)),
          skip_if few ''Insufficient sample''
            (measured ''Isotropy'' isotropy (normalizeMonotonicUp01 isotropy) (weight_of ov ''isotropy'' (1 / 2))),
          must_pass outlierThreshold (Some (outlierFraction < outlierThreshold))
            (skip_if few ''Insufficient sample''
               (measured ''OutlierFraction'' outlierFraction (normalizeMonotonicDown outlierFraction)
                  (weight_of ov ''outlierFraction'' 1)))]))))"

lemma dense_embedding_metrics_ok:
  assumes "nonneg_weights ov"
    and "computeDenseEmbeddingMetrics rnd rnd' chunks searchFn embedFn topK n t u ov = Inr ms"
  shows "list_all metric_ok ms"
  using assms by (auto simp: computeDenseEmbeddingMetrics_def Let_def result_bind_Inr skip_if_def)

text \<open>The self-recall is a fraction, and so is the share of outliers.\<close>

lemma share_unit:
  assumes "m \<le> n"
  shows "unit_score (share m n)"
  using assms by (auto simp: unit_score_def share_def divide_le_eq_1)

lemma result_traverse_length: "result_traverse f xs = Inr ys \<Longrightarrow> length ys = length xs"
  by (induction xs arbitrary: ys) (auto simp: result_bind_Inr)

lemma recall_unit: "recall_of searchFn k chunks = Inr r \<Longrightarrow> unit_score r"
  by (auto simp: recall_of_def result_bind_Inr dest!: result_traverse_length intro!: share_unit)
    (metis length_filter_le)

lemma outlier_fraction_unit: "unit_score (computeOutlierFraction vectors)"
proof -
  have "length (filter P (map f [0..<n])) \<le> n" for P :: "real \<Rightarrow> bool" and f n
    using length_filter_le [of P "map f [0..<n]"] by simp
  then show ?thesis by (simp add: computeOutlierFraction_def Let_def share_unit)
qed

end
