(* ===== verification/QualityRunner.thy ===== *)
theory QualityRunner
  imports DenseQuality
begin

section \<open>The quality assessment\<close>

text \<open>
  \<open>src/packages/virage-core/src/quality/runner.ts\<close>. The loaded configuration, the vector store, the
  embedding model and the clock are the parameters of \<open>quality_env\<close>; the two RAGBench evaluations are
  functions of their options that yield an opaque summary. \<^const>\<open>None\<close> is \<open>undefined\<close>.
\<close>

record listed_metadata =
  lm_estimatedTokens :: "nat option"
  lm_breadcrumb :: "jstext list option"
  lm_fqn :: "jstext option"
  lm_imports :: "jstext list option"
  lm_siblingPrev :: "string option"
  lm_siblingNext :: "string option"
  lm_sourceFile :: "jstext option"
  lm_codeLanguage :: "string option"

record listed_chunk =
  lc_denseTextHash :: string
  lc_denseText :: jstext
  lc_sparseText :: jstext
  lc_metadata :: "listed_metadata option"

record ('b, 'h) quality_env =
  qe_initialize :: "unit result"
  qe_listAll :: "listed_chunk list result option"
  qe_embed :: "jstext \<Rightarrow> real list result"
  qe_search :: "real list \<Rightarrow> nat \<Rightarrow> string list result"
  qe_searchText :: "real list \<Rightarrow> nat \<Rightarrow> jstext \<Rightarrow> string list result"
  qe_reranker :: bool
  qe_thresholds :: weight_overrides
  qe_weights :: weight_overrides
  qe_ragBench :: "string \<Rightarrow> nat \<Rightarrow> 'b result"
  qe_ragBenchHf :: "'h result"
  qe_rnd :: "nat \<Rightarrow> nat \<Rightarrow> real"
  qe_rnd' :: "nat \<Rightarrow> nat \<Rightarrow> real"
  qe_timestamp :: string
  qe_durationMs :: int

record quality_options =
  qo_configFile :: string
  qo_sampleSize :: nat
  qo_topK :: nat
  qo_failFast :: bool
  qo_ragBenchPath :: "string option"
  qo_ragBenchHf :: bool
  qo_thresholdOverrides :: weight_overrides
  qo_weightOverrides :: weight_overrides

record ('b, 'h) quality_report =
  qr_timestamp :: string
  qr_overallScore :: real
  qr_status :: quality_status
  qr_mustPassGates :: "must_pass_gate list"
  qr_components :: "component_result list"
  qr_ragBench :: "'b option"
  qr_ragBenchHf :: "'h option"
  qr_sampleSize :: nat
  qr_topK :: nat
  qr_configFile :: string
  qr_durationMs :: int

subsection \<open>Gates, components and the report\<close>

definition gates_of_metric :: "metric_result \<Rightarrow> must_pass_gate list" where
  "gates_of_metric m =
     (case mr_mustPassPassed m of
        None \<Rightarrow> []
      | Some p \<Rightarrow>
          if mr_mustPass m \<and> \<not> mr_skipped m then
            [\<lparr>mg_metricName = mr_name m,
              mg_threshold = (case mr_mustPassThreshold m of Some x \<Rightarrow> x | None \<Rightarrow> 0),
              mg_value = mr_rawValue m, mg_passed = p\<rparr>]
          else [])"

definition collectMustPassGates :: "component_result list \<Rightarrow> must_pass_gate list" where
  "collectMustPassGates cs = concat (map (\<lambda>c. concat (map gates_of_metric (cr_metrics c))) cs)"

definition metricsToComponent ::
  "string \<Rightarrow> string \<Rightarrow> metric_result list \<Rightarrow> real \<Rightarrow> bool \<Rightarrow> string option \<Rightarrow> component_result" where
  "metricsToComponent i label ms w skipped reason =
     \<lparr>cr_id = i, cr_label = label, cr_score = aggregateComponent ms, cr_weight = w, cr_skipped = skipped,
      cr_skipReason = reason, cr_metrics = ms\<rparr>"

text \<open>\<open>COMPONENT_WEIGHTS\<close>, written as the sums of the code.\<close>

definition COMPONENT_WEIGHTS :: "string \<Rightarrow> real" where
  "COMPONENT_WEIGHTS c =
     (if c = ''chunking'' then 2 + 2 + 1 / 2 + 1
      else if c = ''metadata'' then 1 + 1 + 1 + 1 + 1 / 2
      else if c = ''denseInput'' then 1 + 1
      else if c = ''denseEmbedding'' then 3 + 1 + 1 + 1 / 2 + 1
      else if c = ''sparseInput'' then 1 + 1 / 2
      else if c = ''lexicalRetrieval'' then 15 / 10
      else if c = ''rerankerInput'' then 1 + 1 + 1 / 2 + 1
      else 5 / 2 + 1 + 1 / 2)"

definition sampleArray :: "'a list \<Rightarrow> nat \<Rightarrow> 'a list" where
  "sampleArray xs n = (if length xs \<le> n then xs else map (\<lambda>i. xs ! (i * length xs div n)) [0..<n])"

definition buildReport ::
  "('b, 'h) quality_env \<Rightarrow> quality_options \<Rightarrow> component_result list \<Rightarrow> 'b option \<Rightarrow> 'h option
   \<Rightarrow> ('b, 'h) quality_report" where
  "buildReport env opts cs ragBench ragBenchHf =
     (let gates = collectMustPassGates cs; overall = aggregateOverall cs
      in \<lparr>qr_timestamp = qe_timestamp env, qr_overallScore = overall, qr_status = computeStatus overall gates,
          qr_mustPassGates = gates, qr_components = cs, qr_ragBench = ragBench, qr_ragBenchHf = ragBenchHf,
          qr_sampleSize = qo_sampleSize opts, qr_topK = qo_topK opts, qr_configFile = qo_configFile opts,
          qr_durationMs = qe_durationMs env\<rparr>)"

definition gate_failed :: "component_result list \<Rightarrow> bool" where
  "gate_failed cs = list_ex (\<lambda>c. list_ex (\<lambda>m. mr_mustPassPassed m = Some False) (cr_metrics c)) cs"

subsection \<open>Views of a chunk\<close>

definition chunking_view :: "listed_chunk \<Rightarrow> measured_chunk" where
  "chunking_view c =
     \<lparr>mc_denseText = lc_denseText c, mc_sparseText = lc_sparseText c, mc_astNodeCount = None,
      mc_astNodeCountInBounds = None,
      mc_tokenCount = Option.bind (lc_metadata c) lm_estimatedTokens\<rparr>"

definition metadata_view :: "listed_chunk \<Rightarrow> metadata_chunk" where
  "metadata_view c =
     (let m = lc_metadata c in
      \<lparr>md_id = Some (lc_denseTextHash c),
       md_breadcrumb = map_option (join_with (js '' > '')) (Option.bind m lm_breadcrumb),
       md_fqn = Option.bind m lm_fqn, md_imports = Option.bind m lm_imports, md_resolvedImports = None,
       md_totalImports = map_option length (Option.bind m lm_imports),
       md_prevId = Option.bind m lm_siblingPrev, md_nextId = Option.bind m lm_siblingNext,
       md_sourceFile = Option.bind m lm_sourceFile,
       md_isCode = (case Option.bind m lm_codeLanguage of None \<Rightarrow> False | Some l \<Rightarrow> l \<noteq> [])\<rparr>)"

definition query_view :: "listed_chunk \<Rightarrow> query_chunk" where
  "query_view c = \<lparr>qu_id = lc_denseTextHash c, qu_denseText = lc_denseText c, qu_anchorText = None\<rparr>"

subsection \<open>The run\<close>

definition override :: "weight_overrides \<Rightarrow> weight_overrides \<Rightarrow> weight_overrides" where
  "override base over k = (case over k of Some v \<Rightarrow> Some v | None \<Rightarrow> base k)"

definition dense_search :: "('b, 'h) quality_env \<Rightarrow> jstext \<Rightarrow> nat \<Rightarrow> string list result" where
  "dense_search env query k = result_bind (qe_embed env query) (\<lambda>e. qe_search env e k)"

definition fts_search :: "('b, 'h) quality_env \<Rightarrow> jstext \<Rightarrow> nat \<Rightarrow> string list result" where
  "fts_search env query k = result_bind (qe_embed env query) (\<lambda>e. qe_searchText env e k query)"

text \<open>The lexical search is used if a test query does not throw.\<close>

definition ftsSearchFn :: "('b, 'h) quality_env \<Rightarrow> (jstext \<Rightarrow> nat \<Rightarrow> string list result) option" where
  "ftsSearchFn env = (if isl (fts_search env (js ''test'') 1) then None else Some (fts_search env))"

definition component1 ::
  "('b, 'h) quality_env \<Rightarrow> quality_options \<Rightarrow> weight_overrides \<Rightarrow> listed_chunk list \<Rightarrow> component_result result" where
  "component1 env opts ov sample =
     result_bind (computeChunkingMetrics (map chunking_view sample) (qe_embed env) 50 512
         (min 50 (qo_sampleSize opts)) ov)
       (\<lambda>ms. Inr (metricsToComponent ''chunking'' ''Chunking'' ms (COMPONENT_WEIGHTS ''chunking'') False None))"

definition component2 ::
  "weight_overrides \<Rightarrow> weight_overrides \<Rightarrow> string list \<Rightarrow> listed_chunk list \<Rightarrow> component_result" where
  "component2 thresholds ov chunkIdSet sample =
     metricsToComponent ''metadata'' ''Metadata Extraction''
       (computeMetadataMetrics (map (Some \<circ> metadata_view) sample) chunkIdSet
          (weight_of thresholds ''importResolution'' (7 / 10)) ov)
       (COMPONENT_WEIGHTS ''metadata'') False None"

definition component3 ::
  "('b, 'h) quality_env \<Rightarrow> quality_options \<Rightarrow> weight_overrides \<Rightarrow> listed_chunk list \<Rightarrow> component_result result" where
  "component3 env opts ov sample =
     result_bind (computeDenseInputMetrics (map chunking_view sample) (qe_embed env) (min 30 (qo_sampleSize opts)) ov)
       (\<lambda>ms. Inr (metricsToComponent ''denseInput'' ''Dense Input Prep'' ms (COMPONENT_WEIGHTS ''denseInput'') False None))"

definition component4 ::
  "('b, 'h) quality_env \<Rightarrow> quality_options \<Rightarrow> weight_overrides \<Rightarrow> weight_overrides \<Rightarrow> listed_chunk list
   \<Rightarrow> component_result result" where
  "component4 env opts thresholds ov sample =
     result_bind (computeDenseEmbeddingMetrics (qe_rnd env) (qe_rnd' env) (map query_view sample) (dense_search env)
         (qe_embed env) (qo_topK opts) (min (qo_sampleSize opts) 200)
         (weight_of thresholds ''selfRecall'' (8 / 10)) (weight_of thresholds ''outlierFraction'' (5 / 100)) ov)
       (\<lambda>ms. Inr (metricsToComponent ''denseEmbedding'' ''Dense Embedding'' ms (COMPONENT_WEIGHTS ''denseEmbedding'')
          False None))"

definition component5 :: "weight_overrides \<Rightarrow> listed_chunk list \<Rightarrow> component_result" where
  "component5 ov sample =
     (let sparse = filter (\<lambda>t. t \<noteq> []) (map lc_sparseText sample); skip = (sparse = [])
      in metricsToComponent ''sparseInput'' ''Sparse Input Prep'' (computeSparseInputMetrics sparse None ov)
           (COMPONENT_WEIGHTS ''sparseInput'') skip
           (if skip then Some ''No sparseText in sampled chunks'' else None))"

definition component6 ::
  "('b, 'h) quality_env \<Rightarrow> quality_options \<Rightarrow> weight_overrides \<Rightarrow> listed_chunk list \<Rightarrow> component_result result" where
  "component6 env opts ov sample =
     result_bind (computeLexicalRetrievalMetrics (map query_view sample) (ftsSearchFn env) (qo_topK opts) ov)
       (\<lambda>ms. Inr (metricsToComponent ''lexicalRetrieval'' ''Lexical Retrieval'' ms
          (COMPONENT_WEIGHTS ''lexicalRetrieval'') False None))"

definition component7 :: "bool \<Rightarrow> weight_overrides \<Rightarrow> component_result" where
  "component7 available ov =
     metricsToComponent ''rerankerInput'' ''Reranker Input'' (computeRerankerInputMetrics [] available ov)
       (COMPONENT_WEIGHTS ''rerankerInput'') (\<not> available)
       (if available then None else Some ''No reranker configured'')"

definition component8 :: "bool \<Rightarrow> weight_overrides \<Rightarrow> component_result" where
  "component8 available ov =
     metricsToComponent ''reranker'' ''Reranker'' (computeRerankerMetrics None None [] available ov)
       (COMPONENT_WEIGHTS ''reranker'') (\<not> available)
       (if available then None else Some ''No reranker configured'')"

definition rag_bench :: "('b, 'h) quality_env \<Rightarrow> quality_options \<Rightarrow> 'b option result" where
  "rag_bench env opts =
     (case qo_ragBenchPath opts of
        None \<Rightarrow> Inr None
      | Some p \<Rightarrow> if p = [] then Inr None
          else result_bind (qe_ragBench env p (qo_topK opts)) (\<lambda>b. Inr (Some b)))"

definition rag_bench_hf :: "('b, 'h) quality_env \<Rightarrow> quality_options \<Rightarrow> 'h option result" where
  "rag_bench_hf env opts =
     (if qo_ragBenchHf opts then result_bind (qe_ragBenchHf env) (\<lambda>h. Inr (Some h)) else Inr None)"

text \<open>The components in order, with the early reports of \<open>failFast\<close>.\<close>

definition assess ::
  "('b, 'h) quality_env \<Rightarrow> quality_options \<Rightarrow> listed_chunk list \<Rightarrow> ('b, 'h) quality_report result" where
  "assess env opts allChunks =
     (let thresholds = override (qe_thresholds env) (qo_thresholdOverrides opts);
          ov = override (qe_weights env) (qo_weightOverrides opts);
          sample = sampleArray allChunks (qo_sampleSize opts);
          c2 = component2 thresholds ov (map lc_denseTextHash allChunks) sample
      in result_bind (component1 env opts ov sample) (\<lambda>c1.
         if qo_failFast opts \<and> gate_failed [c1] then Inr (buildReport env opts [c1] None None)
         else if qo_failFast opts \<and> gate_failed [c1, c2] then Inr (buildReport env opts [c1, c2] None None)
         else result_bind (component3 env opts ov sample) (\<lambda>c3.
              result_bind (component4 env opts thresholds ov sample) (\<lambda>c4.
              if qo_failFast opts \<and> gate_failed [c1, c2, c3, c4]
              then Inr (buildReport env opts [c1, c2, c3, c4] None None)
              else result_bind (component6 env opts ov sample) (\<lambda>c6.
                   result_bind (rag_bench env opts) (\<lambda>b.
                   result_bind (rag_bench_hf env opts) (\<lambda>h.
                   Inr (buildReport env opts
                     [c1, c2, c3, c4, component5 ov sample, c6, component7 (qe_reranker env) ov,
                      component8 (qe_reranker env) ov] b h))))))))"

definition runQualityAssessment :: "('b, 'h) quality_env \<Rightarrow> quality_options \<Rightarrow> ('b, 'h) quality_report result" where
  "runQualityAssessment env opts =
     result_bind (qe_initialize env) (\<lambda>_.
       (case qe_listAll env of
          None \<Rightarrow> Inl (Err EError ''Vector store does not support listAll - cannot run quality assessment.'')
        | Some listed \<Rightarrow> result_bind listed (\<lambda>allChunks.
            if allChunks = [] then Inl (Err EError ''No chunks found in vector store - run `virage index` first.'')
            else assess env opts allChunks)))"

subsection \<open>What the report says\<close>

lemma result_bind_if: "result_bind (if b then m else m') f = (if b then result_bind m f else result_bind m' f)"
  by simp

lemma assess_components:
  assumes "assess env opts chunks = Inr r"
  defines "sample \<equiv> sampleArray chunks (qo_sampleSize opts)"
    and "ov \<equiv> override (qe_weights env) (qo_weightOverrides opts)"
    and "thresholds \<equiv> override (qe_thresholds env) (qo_thresholdOverrides opts)"
  obtains cs b h where "r = buildReport env opts cs b h"
    and "qr_components r = cs"
    and "\<exists>c1 rest. component1 env opts ov sample = Inr c1
      \<and> cs = c1 # rest
      \<and> (rest = [] \<and> gate_failed [c1]
         \<or> rest = [component2 thresholds ov (map lc_denseTextHash chunks) sample]
            \<and> gate_failed [c1, component2 thresholds ov (map lc_denseTextHash chunks) sample]
         \<or> (\<exists>c3 c4 more. component3 env opts ov sample = Inr c3 \<and> component4 env opts thresholds ov sample = Inr c4
            \<and> rest = [component2 thresholds ov (map lc_denseTextHash chunks) sample, c3, c4] @ more
            \<and> (more = [] \<and> qo_failFast opts
               \<or> (\<exists>c6. component6 env opts ov sample = Inr c6
                   \<and> more = [component5 ov sample, c6, component7 (qe_reranker env) ov, component8 (qe_reranker env) ov]))))"
proof -
  from assms(1) obtain c1 where c1: "component1 env opts ov sample = Inr c1"
    unfolding assess_def sample_def ov_def Let_def by (auto simp: result_bind_Inr)
  note run = assms(1) [unfolded assess_def Let_def, folded sample_def ov_def thresholds_def, unfolded c1, simplified]
  show thesis
    using run c1 that
    by (auto simp: result_bind_Inr buildReport_def Let_def split: if_splits)
qed

definition gate_of :: "metric_result \<Rightarrow> bool \<Rightarrow> must_pass_gate" where
  "gate_of m p =
     \<lparr>mg_metricName = mr_name m, mg_threshold = (case mr_mustPassThreshold m of Some x \<Rightarrow> x | None \<Rightarrow> 0),
      mg_value = mr_rawValue m, mg_passed = p\<rparr>"

lemma gate_of_metric_iff:
  "g \<in> set (gates_of_metric m) \<longleftrightarrow>
    mr_mustPass m \<and> \<not> mr_skipped m \<and> (\<exists>p. mr_mustPassPassed m = Some p \<and> g = gate_of m p)"
  by (auto simp: gates_of_metric_def gate_of_def split: option.splits)

lemma set_collectMustPassGates:
  "set (collectMustPassGates cs) = (\<Union>c \<in> set cs. \<Union>m \<in> set (cr_metrics c). set (gates_of_metric m))"
  by (simp add: collectMustPassGates_def)

definition failed_gate :: "metric_result \<Rightarrow> bool" where
  "failed_gate m = (mr_mustPass m \<and> \<not> mr_skipped m \<and> mr_mustPassPassed m = Some False)"

lemma failed_gate_iff: "(\<exists>g \<in> set (gates_of_metric m). \<not> mg_passed g) = failed_gate m"
  by (cases "mr_mustPassPassed m") (auto simp: gates_of_metric_def failed_gate_def)

lemma status_PASS_iff:
  "computeStatus overall (collectMustPassGates cs) = PASS
    \<longleftrightarrow> 7 / 10 \<le> overall \<and> (\<forall>c \<in> set cs. \<forall>m \<in> set (cr_metrics c). \<not> failed_gate m)"
proof -
  have "(\<exists>g \<in> set (collectMustPassGates cs). \<not> mg_passed g)
      \<longleftrightarrow> (\<exists>c \<in> set cs. \<exists>m \<in> set (cr_metrics c). failed_gate m)"
    by (simp add: set_collectMustPassGates failed_gate_iff)
  then show ?thesis
    by (auto simp: computeStatus_def evaluateMustPassGates_def list_ex_iff)
qed

definition component_ok :: "component_result \<Rightarrow> bool" where
  "component_ok c =
     (list_all metric_ok (cr_metrics c) \<and> cr_score c = aggregateComponent (cr_metrics c) \<and> 0 \<le> cr_weight c)"

lemma component_ok_unit: "component_ok c \<Longrightarrow> unit_score (cr_score c)"
  by (simp add: component_ok_def aggregateComponent_unit)

lemma COMPONENT_WEIGHTS_nonneg [simp]: "0 \<le> COMPONENT_WEIGHTS c"
  by (simp add: COMPONENT_WEIGHTS_def)

lemma metricsToComponent_ok [simp]:
  "0 \<le> w \<Longrightarrow> component_ok (metricsToComponent i label ms w s reason) = list_all metric_ok ms"
  by (simp add: component_ok_def metricsToComponent_def)

lemma components_ok:
  assumes "nonneg_weights ov"
  shows "component1 env opts ov sample = Inr c \<Longrightarrow> component_ok c"
    and "component_ok (component2 thresholds ov ids sample)"
    and "component3 env opts ov sample = Inr c \<Longrightarrow> component_ok c"
    and "component4 env opts thresholds ov sample = Inr c \<Longrightarrow> component_ok c"
    and "component_ok (component5 ov sample)"
    and "component6 env opts ov sample = Inr c \<Longrightarrow> component_ok c"
    and "component_ok (component7 available ov)"
    and "component_ok (component8 available ov)"
  using assms
  by (auto simp: component1_def component2_def component3_def component4_def component5_def component6_def
      component7_def component8_def result_bind_Inr metrics_ok dense_embedding_metrics_ok Let_def)

lemma assess_components_ok:
  assumes "assess env opts chunks = Inr r"
    and ov: "nonneg_weights (override (qe_weights env) (qo_weightOverrides opts))"
  shows "list_all component_ok (qr_components r)"
  using assms(1)
  by (rule assess_components) (auto simp: components_ok [OF ov])

lemma override_nonneg: "nonneg_weights v \<Longrightarrow> nonneg_weights w \<Longrightarrow> nonneg_weights (override v w)"
  by (auto simp: nonneg_weights_def override_def split: option.splits)

lemma runQualityAssessmentD:
  assumes "runQualityAssessment env opts = Inr r"
  shows "\<exists>all. qe_listAll env = Some (Inr all) \<and> all \<noteq> [] \<and> assess env opts all = Inr r"
  using assms by (auto simp: runQualityAssessment_def result_bind_Inr split: option.splits if_splits)

lemma assess_is_report:
  assumes "assess env opts chunks = Inr r"
  shows "qr_mustPassGates r = collectMustPassGates (qr_components r)
    \<and> qr_overallScore r = aggregateOverall (qr_components r)
    \<and> qr_status r = computeStatus (qr_overallScore r) (qr_mustPassGates r)"
  using assms by (rule assess_components) (auto simp: buildReport_def Let_def)

text \<open>C38. A quality report means what it says: with weights that are not negative, every normalised
  metric, every component score and the overall score lie between 0 and 1; the gates are exactly the
  must-pass metrics that were measured, with their values and outcomes; and the status is PASS
  exactly when the overall score is at least 0.7 and no measured must-pass metric failed.\<close>

theorem quality_report_consistent:
  assumes "runQualityAssessment env opts = Inr r"
    and "nonneg_weights (qe_weights env)" and "nonneg_weights (qo_weightOverrides opts)"
  shows "list_all (\<lambda>c. unit_score (cr_score c) \<and> list_all (\<lambda>m. unit_score (mr_normalizedValue m)) (cr_metrics c))
      (qr_components r)
    \<and> unit_score (qr_overallScore r)
    \<and> set (qr_mustPassGates r) =
        {gate_of m p | m p. \<exists>c \<in> set (qr_components r). m \<in> set (cr_metrics c)
           \<and> mr_mustPass m \<and> \<not> mr_skipped m \<and> mr_mustPassPassed m = Some p}
    \<and> (qr_status r = PASS \<longleftrightarrow>
        7 / 10 \<le> qr_overallScore r \<and> (\<forall>c \<in> set (qr_components r). \<forall>m \<in> set (cr_metrics c). \<not> failed_gate m))"
proof (intro conjI)
  obtain all where run: "assess env opts all = Inr r" using runQualityAssessmentD [OF assms(1)] by blast
  note report = assess_is_report [OF run]
  have ok: "list_all component_ok (qr_components r)"
    by (rule assess_components_ok [OF run override_nonneg [OF assms(2,3)]])
  then show "list_all (\<lambda>c. unit_score (cr_score c) \<and> list_all (\<lambda>m. unit_score (mr_normalizedValue m)) (cr_metrics c))
      (qr_components r)"
    using component_ok_unit by (fastforce simp: list_all_iff component_ok_def metric_ok_def)
  have "list_all (\<lambda>c. unit_score (cr_score c) \<and> 0 \<le> cr_weight c) (qr_components r)"
    using ok component_ok_unit by (auto simp: list_all_iff component_ok_def)
  then show "unit_score (qr_overallScore r)" using report by (simp add: aggregateOverall_unit)
  show "set (qr_mustPassGates r) =
      {gate_of m p | m p. \<exists>c \<in> set (qr_components r). m \<in> set (cr_metrics c)
         \<and> mr_mustPass m \<and> \<not> mr_skipped m \<and> mr_mustPassPassed m = Some p}"
    using report by (simp add: set_collectMustPassGates set_eq_iff gate_of_metric_iff) blast
  show "qr_status r = PASS \<longleftrightarrow>
      7 / 10 \<le> qr_overallScore r \<and> (\<forall>c \<in> set (qr_components r). \<forall>m \<in> set (cr_metrics c). \<not> failed_gate m)"
    using report by (simp add: status_PASS_iff)
qed

subsection \<open>Reports that cannot pass\<close>

lemma chunking_has_no_gate:
  assumes "component1 env opts ov sample = Inr c"
  shows "\<not> gate_failed [c]"
  using assms
  by (auto simp: component1_def result_bind_Inr computeChunkingMetrics_def Let_def gate_failed_def
      metricsToComponent_def measured_def measured_if_present_def skipped_metric_def split: option.splits)

lemma metadata_component_reported:
  assumes "assess env opts chunks = Inr r"
  shows "component2 (override (qe_thresholds env) (qo_thresholdOverrides opts))
      (override (qe_weights env) (qo_weightOverrides opts)) (map lc_denseTextHash chunks)
      (sampleArray chunks (qo_sampleSize opts)) \<in> set (qr_components r)"
  using assms by (rule assess_components) (auto dest: chunking_has_no_gate)

definition has_imports :: "listed_chunk \<Rightarrow> bool" where
  "has_imports c =
     (case Option.bind (lc_metadata c) lm_imports of None \<Rightarrow> False | Some xs \<Rightarrow> xs \<noteq> [])"

lemma imports_fail_the_gate:
  assumes "c \<in> set sample" and "has_imports c"
    and "0 \<le> weight_of thresholds ''importResolution'' (7 / 10)"
  shows "\<exists>m \<in> set (cr_metrics (component2 thresholds ov ids sample)). failed_gate m"
proof -
  obtain xs where xs: "Option.bind (lc_metadata c) lm_imports = Some xs" "xs \<noteq> []"
    using assms(2) by (auto simp: has_imports_def split: option.splits)
  have "computeImportResolution (map (Some \<circ> metadata_view) sample) = Some 0"
  proof (rule import_resolution_without_resolution)
    show "list_all (\<lambda>c. case c of None \<Rightarrow> True | Some m \<Rightarrow> md_resolvedImports m = None) (map (Some \<circ> metadata_view) sample)"
      by (simp add: list_all_iff metadata_view_def Let_def)
    show "Some (metadata_view c) \<in> set (map (Some \<circ> metadata_view) sample)" using assms(1) by simp
    show "md_totalImports (metadata_view c) = Some (length xs)" using xs(1) by (simp add: metadata_view_def Let_def)
    show "0 < length xs" using xs(2) by simp
  qed
  then show ?thesis
    using assms(3)
    by (simp add: component2_def metricsToComponent_def computeMetadataMetrics_def Let_def failed_gate_def
        must_pass_def measured_if_present_def measured_def)
qed

lemma aggregate_all_skipped: "list_all mr_skipped ms \<Longrightarrow> aggregateComponent ms = 0"
  by (simp add: aggregateComponent_def weighted_average_def list_all_iff)

lemma skipped_metric_skipped [simp]: "mr_skipped (skipped_metric name w reason)"
  by (simp add: skipped_metric_def)

lemma reranker_components_score_nothing:
  "cr_score (component7 available ov) = 0" "cr_score (component8 available ov) = 0"
  "cr_skipped (component7 True ov) = False" "cr_skipped (component8 True ov) = False"
  by (auto simp: component7_def component8_def metricsToComponent_def computeRerankerInputMetrics_def
      computeRerankerMetrics_def skipped_reranker_input_def Let_def intro!: aggregate_all_skipped)

lemma lexical_component_without_search:
  assumes "component6 env opts ov sample = Inr c" and "isl (fts_search env (js ''test'') 1)"
  shows "cr_score c = 0 \<and> \<not> cr_skipped c \<and> cr_weight c = 15 / 10"
  using assms
  by (auto simp: component6_def computeLexicalRetrievalMetrics_def ftsSearchFn_def metricsToComponent_def
      COMPONENT_WEIGHTS_def intro!: aggregate_all_skipped simp del: js_Cons)

definition scored :: "real \<Rightarrow> component_result \<Rightarrow> bool" where
  "scored w c = (\<not> cr_skipped c \<and> cr_weight c = w \<and> cr_score c \<le> 1)"

lemma components_scored:
  assumes "nonneg_weights ov"
  shows "component1 env opts ov sample = Inr c \<Longrightarrow> scored (55 / 10) c"
    and "scored (45 / 10) (component2 thresholds ov ids sample)"
    and "component3 env opts ov sample = Inr c \<Longrightarrow> scored 2 c"
    and "component4 env opts thresholds ov sample = Inr c \<Longrightarrow> scored (65 / 10) c"
proof -
  have le: "component_ok c \<Longrightarrow> cr_score c \<le> 1" for c
    using component_ok_unit by (simp add: unit_score_def)
  show "scored (55 / 10) c" if c: "component1 env opts ov sample = Inr c"
    using le [OF components_ok(1) [OF assms c]] c
    by (auto simp: scored_def component1_def result_bind_Inr metricsToComponent_def COMPONENT_WEIGHTS_def)
  show "scored (45 / 10) (component2 thresholds ov ids sample)"
    using le [OF components_ok(2) [OF assms]]
    by (simp add: scored_def component2_def metricsToComponent_def COMPONENT_WEIGHTS_def)
  show "scored 2 c" if c: "component3 env opts ov sample = Inr c"
    using le [OF components_ok(3) [OF assms c]] c
    by (auto simp: scored_def component3_def result_bind_Inr metricsToComponent_def COMPONENT_WEIGHTS_def)
  show "scored (65 / 10) c" if c: "component4 env opts thresholds ov sample = Inr c"
    using le [OF components_ok(4) [OF assms c]] c
    by (auto simp: scored_def component4_def result_bind_Inr metricsToComponent_def COMPONENT_WEIGHTS_def)
qed

lemma overall_without_reranker_scores:
  assumes "scored (55 / 10) c1" "scored (45 / 10) c2" "scored 2 c3" "scored (65 / 10) c4"
    and "cr_score c5 \<le> 1" "cr_weight c5 = 15 / 10"
    and "cr_score c6 = 0" "\<not> cr_skipped c6" "cr_weight c6 = 15 / 10"
  shows "aggregateOverall [c1, c2, c3, c4, c5, c6, component7 True ov, component8 True ov] < 7 / 10"
proof -
  have w: "cr_weight (component7 True ov) = 35 / 10" "cr_weight (component8 True ov) = 4"
    by (simp_all add: component7_def component8_def metricsToComponent_def COMPONENT_WEIGHTS_def)
  have w1: "cr_weight c1 = 55 / 10" "cr_weight c2 = 45 / 10" "cr_weight c3 = 2" "cr_weight c4 = 65 / 10"
      "\<not> cr_skipped c1" "\<not> cr_skipped c2" "\<not> cr_skipped c3" "\<not> cr_skipped c4"
    using assms(1-4) unfolding scored_def by blast+
  have a: "aggregateOverall [c1, c2, c3, c4, c5, c6, component7 True ov, component8 True ov]
      = (if cr_skipped c5
         then (cr_score c1 * (55 / 10) + cr_score c2 * (45 / 10) + cr_score c3 * 2 + cr_score c4 * (65 / 10)) / (275 / 10)
         else (cr_score c1 * (55 / 10) + cr_score c2 * (45 / 10) + cr_score c3 * 2 + cr_score c4 * (65 / 10)
           + cr_score c5 * (15 / 10)) / 29)"
    by (simp add: aggregateOverall_def weighted_average_def Let_def w w1 assms(6-9) reranker_components_score_nothing)
  show ?thesis unfolding a using assms(1-5) by (auto simp: scored_def)
qed

lemma assess_without_failFast:
  assumes "assess env opts chunks = Inr r" and "\<not> qo_failFast opts"
  defines "sample \<equiv> sampleArray chunks (qo_sampleSize opts)"
    and "ov \<equiv> override (qe_weights env) (qo_weightOverrides opts)"
    and "thresholds \<equiv> override (qe_thresholds env) (qo_thresholdOverrides opts)"
  shows "\<exists>c1 c3 c4 c6. component1 env opts ov sample = Inr c1 \<and> component3 env opts ov sample = Inr c3
    \<and> component4 env opts thresholds ov sample = Inr c4 \<and> component6 env opts ov sample = Inr c6
    \<and> qr_components r = [c1, component2 thresholds ov (map lc_denseTextHash chunks) sample, c3, c4,
        component5 ov sample, c6, component7 (qe_reranker env) ov, component8 (qe_reranker env) ov]"
  using assms(1) [unfolded assess_def Let_def, folded sample_def ov_def thresholds_def] assms(2)
  by (auto simp: result_bind_Inr buildReport_def Let_def)

lemma component5_scored:
  assumes "nonneg_weights ov"
  shows "cr_score (component5 ov sample) \<le> 1" and "cr_weight (component5 ov sample) = 15 / 10"
  using component_ok_unit [OF components_ok(5) [OF assms]]
  by (simp_all add: unit_score_def component5_def Let_def metricsToComponent_def COMPONENT_WEIGHTS_def)

text \<open>C39. Two kinds of project cannot pass the assessment, however good their index is. The resolution
  of imports is never measured, so as soon as a sampled chunk records an import the must-pass
  metric counts none of them as resolved and the report fails, for every threshold that is not
  negative. And when a reranker is configured its two components count with weight 7.5 and score 0,
  so that a store without lexical search, whose component scores 0 too, stays below 0.7.\<close>

theorem assessments_that_cannot_pass:
  assumes "runQualityAssessment env opts = Inr r" and "qe_listAll env = Some (Inr chunks)"
    and "nonneg_weights (qe_weights env)" and "nonneg_weights (qo_weightOverrides opts)"
    and "(\<exists>c \<in> set (sampleArray chunks (qo_sampleSize opts)). has_imports c)
        \<and> 0 \<le> weight_of (override (qe_thresholds env) (qo_thresholdOverrides opts)) ''importResolution'' (7 / 10)
      \<or> qe_reranker env \<and> isl (fts_search env (js ''test'') 1) \<and> \<not> qo_failFast opts"
  shows "qr_status r = FAIL"
proof -
  define ov where "ov = override (qe_weights env) (qo_weightOverrides opts)"
  define thresholds where "thresholds = override (qe_thresholds env) (qo_thresholdOverrides opts)"
  have ov: "nonneg_weights ov" unfolding ov_def by (rule override_nonneg [OF assms(3,4)])
  have run: "assess env opts chunks = Inr r" using runQualityAssessmentD [OF assms(1)] assms(2) by auto
  note report = assess_is_report [OF run]
  from assms(5) have "qr_status r \<noteq> PASS"
  proof
    assume "(\<exists>c \<in> set (sampleArray chunks (qo_sampleSize opts)). has_imports c)
      \<and> 0 \<le> weight_of (override (qe_thresholds env) (qo_thresholdOverrides opts)) ''importResolution'' (7 / 10)"
    then show ?thesis
      using imports_fail_the_gate metadata_component_reported [OF run] report by (auto simp: status_PASS_iff) blast
  next
    assume a: "qe_reranker env \<and> isl (fts_search env (js ''test'') 1) \<and> \<not> qo_failFast opts"
    then obtain c1 c3 c4 c6 where c: "component1 env opts ov (sampleArray chunks (qo_sampleSize opts)) = Inr c1"
        "component3 env opts ov (sampleArray chunks (qo_sampleSize opts)) = Inr c3"
        "component4 env opts thresholds ov (sampleArray chunks (qo_sampleSize opts)) = Inr c4"
        "component6 env opts ov (sampleArray chunks (qo_sampleSize opts)) = Inr c6"
      and cs: "qr_components r =
        [c1, component2 thresholds ov (map lc_denseTextHash chunks) (sampleArray chunks (qo_sampleSize opts)), c3, c4,
         component5 ov (sampleArray chunks (qo_sampleSize opts)), c6, component7 True ov, component8 True ov]"
      using assess_without_failFast [OF run] unfolding ov_def thresholds_def by auto
    have "qr_overallScore r < 7 / 10"
      using report overall_without_reranker_scores [OF components_scored(1) [OF ov c(1)] components_scored(2) [OF ov]
          components_scored(3) [OF ov c(2)] components_scored(4) [OF ov c(3)] component5_scored [OF ov]]
        lexical_component_without_search [OF c(4)] a unfolding cs by simp
    then show ?thesis using report by (simp add: status_PASS_iff)
  qed
  then show ?thesis by (cases "qr_status r") simp_all
qed

definition sample_quality_env :: "(unit, unit) quality_env" where
  "sample_quality_env =
     \<lparr>qe_initialize = Inr (),
      qe_listAll = Some (Inr [\<lparr>lc_denseTextHash = ''h1'', lc_denseText = js ''import x'', lc_sparseText = js ''x'',
        lc_metadata = Some \<lparr>lm_estimatedTokens = Some 60, lm_breadcrumb = None, lm_fqn = None,
          lm_imports = Some [js ''x''], lm_siblingPrev = None, lm_siblingNext = None,
          lm_sourceFile = Some (js ''a.ts''), lm_codeLanguage = Some ''ts''\<rparr>\<rparr>]),
      qe_embed = (\<lambda>t. Inr [1]), qe_search = (\<lambda>v k. Inr [''h1'']),
      qe_searchText = (\<lambda>v k q. Inl (Err EError ''no index'')),
      qe_reranker = True, qe_thresholds = (\<lambda>k. None), qe_weights = (\<lambda>k. None),
      qe_ragBench = (\<lambda>p k. Inr ()), qe_ragBenchHf = Inr (), qe_rnd = (\<lambda>c j. 0), qe_rnd' = (\<lambda>c j. 0),
      qe_timestamp = ''t'', qe_durationMs = 0\<rparr>"

definition sample_quality_options :: quality_options where
  "sample_quality_options =
     \<lparr>qo_configFile = ''virage.json'', qo_sampleSize = 10, qo_topK = 5, qo_failFast = False, qo_ragBenchPath = None,
      qo_ragBenchHf = False, qo_thresholdOverrides = (\<lambda>k. None), qo_weightOverrides = (\<lambda>k. None)\<rparr>"

lemma sample_assessment_returns:
  "\<exists>r. runQualityAssessment sample_quality_env sample_quality_options = Inr r"
  by (simp add: runQualityAssessment_def assess_def sample_quality_env_def sample_quality_options_def Let_def
      component1_def component3_def component4_def component6_def computeChunkingMetrics_def computeCohesion_def
      chunk_cohesion_def splitSentences_def sentence_matches.simps sentence_end_def chunking_view_def
      computeCoherence_def computeDenseInputMetrics_def computeDenseEmbeddingMetrics_def computeSelfRecall_def
      recall_of_def query_view_def dense_search_def sampleArray_def computeLexicalRetrievalMetrics_def
      ftsSearchFn_def fts_search_def rag_bench_def rag_bench_hf_def)

lemma no_overrides [simp]: "nonneg_weights (\<lambda>k. None)"
  by (simp add: nonneg_weights_def)

theorem quality_report_consistent_witness:
  "\<exists>r. runQualityAssessment sample_quality_env sample_quality_options = Inr r \<and> unit_score (qr_overallScore r)"
proof -
  obtain r where "runQualityAssessment sample_quality_env sample_quality_options = Inr r"
    using sample_assessment_returns by blast
  from this quality_report_consistent [OF this] show ?thesis
    by (simp add: sample_quality_env_def sample_quality_options_def)
qed

theorem assessments_that_cannot_pass_witness:
  "\<exists>r. runQualityAssessment sample_quality_env sample_quality_options = Inr r \<and> qr_status r = FAIL"
proof -
  obtain r where r: "runQualityAssessment sample_quality_env sample_quality_options = Inr r"
    using sample_assessment_returns by blast
  have "qr_status r = FAIL"
    by (rule assessments_that_cannot_pass [OF r, where chunks = "case qe_listAll sample_quality_env of Some (Inr cs) \<Rightarrow> cs"])
      (simp_all add: sample_quality_env_def sample_quality_options_def fts_search_def)
  then show ?thesis using r by blast
qed

end
