(* ===== verification/QualityHistory.thy ===== *)
theory QualityHistory
  imports QualityRunner Formatting RunsDb Utils "HOL-Library.AList"
begin

section \<open>The history of quality reports\<close>

text \<open>
  \<open>src/packages/virage-core/src/quality/history.ts\<close>: the reports of earlier assessments in a
  directory, with a feed for benchmark charts and a badge. The directory is a list of names with
  their contents, \<open>None\<close> when it does not exist; paths are names within it. A file that holds no
  report is \<open>Unreadable\<close>. Reports survive \<open>JSON.stringify\<close> and \<open>JSON.parse\<close>; numbers are exact.
\<close>

subsection \<open>Feed and badge\<close>

record rag_summary =
  rb_topK :: nat
  rb_mrrAtK :: real
  rb_ndcgAtK :: real
  rb_recallAtK :: real
  rb_precisionAtK :: real
  rb_hitRateAtK :: real

type_synonym 'h saved_report = "(rag_summary, 'h) quality_report"

record benchmark_point =
  bp_name :: string
  bp_value :: real

text \<open>\<open>Number(x.toFixed(4))\<close> and \<open>Math.round\<close>\<close>

definition fixed4 :: "real \<Rightarrow> real" where
  "fixed4 x = (let n = of_int \<lfloor>\<bar>x\<bar> * 10000 + 1 / 2\<rfloor> / 10000 in if x < 0 then - n else n)"

definition benchmark_point_of :: "string \<Rightarrow> real \<Rightarrow> benchmark_point" where
  "benchmark_point_of name value = \<lparr>bp_name = name, bp_value = fixed4 value\<rparr>"

definition component_points :: "component_result \<Rightarrow> benchmark_point list" where
  "component_points component =
     (if cr_skipped component then []
      else benchmark_point_of (cr_label component) (cr_score component)
           # map (\<lambda>m. benchmark_point_of (mr_name m) (mr_normalizedValue m))
               (filter (\<lambda>m. \<not> mr_skipped m) (cr_metrics component)))"

definition rag_points :: "rag_summary \<Rightarrow> benchmark_point list" where
  "rag_points rb =
     (let k = show_nat (rb_topK rb)
      in map (\<lambda>(label, value). benchmark_point_of (''RAGBench '' @ label @ ''@'' @ k) value)
           [(''MRR'', rb_mrrAtK rb), (''NDCG'', rb_ndcgAtK rb), (''Recall'', rb_recallAtK rb),
            (''Precision'', rb_precisionAtK rb), (''HitRate'', rb_hitRateAtK rb)])"

definition reportToBenchmarkData :: "'h saved_report \<Rightarrow> benchmark_point list" where
  "reportToBenchmarkData report =
     benchmark_point_of ''Overall Quality'' (qr_overallScore report)
     # concat (map component_points (qr_components report))
     @ (case qr_ragBench report of None \<Rightarrow> [] | Some rb \<Rightarrow> rag_points rb)"

datatype badge_color = Brightgreen | Green | Yellow | Orange | Red

record shields_badge =
  sb_label :: string
  sb_message :: string
  sb_color :: badge_color

definition makeQualityBadge :: "real \<Rightarrow> quality_status \<Rightarrow> shields_badge" where
  "makeQualityBadge overallScore status =
     (let percent = \<lfloor>overallScore * 100 + 1 / 2\<rfloor>
      in \<lparr>sb_label = ''quality'', sb_message = show_int percent @ ''%'',
          sb_color = (if status = FAIL then Red else if percent \<ge> 80 then Brightgreen
                      else if percent \<ge> 70 then Green else if percent \<ge> 55 then Yellow else Orange)\<rparr>)"

subsection \<open>The directory\<close>

datatype 'h history_file =
    Report "'h saved_report"
  | Feed "benchmark_point list"
  | Badge shields_badge
  | Unreadable

record 'h history_dir =
  hd_files :: "(string \<times> 'h history_file) list option"
  hd_writable :: bool

definition hd_entries :: "'h history_dir \<Rightarrow> (string \<times> 'h history_file) list" where
  "hd_entries d = nullish (hd_files d) []"

definition no_access :: js_error where
  "no_access = Err EError ''EACCES''"

definition make_directory :: "'h history_dir \<Rightarrow> unit result \<times> 'h history_dir" where
  "make_directory d =
     (case hd_files d of
        Some _ \<Rightarrow> (Inr (), d)
      | None \<Rightarrow> if hd_writable d then (Inr (), d\<lparr>hd_files := Some []\<rparr>) else (Inl no_access, d))"

definition write_file :: "string \<Rightarrow> 'h history_file \<Rightarrow> 'h history_dir \<Rightarrow> unit result \<times> 'h history_dir" where
  "write_file name content d =
     (if hd_writable d then (Inr (), d\<lparr>hd_files := map_option (AList.update name content) (hd_files d)\<rparr>)
      else (Inl no_access, d))"

text \<open>Removing a file; a failure is ignored.\<close>

definition unlink :: "string \<Rightarrow> 'h history_dir \<Rightarrow> 'h history_dir" where
  "unlink name d = (if hd_writable d then d\<lparr>hd_files := map_option (AList.delete name) (hd_files d)\<rparr> else d)"

definition run_suffix :: string where
  "run_suffix = ''-quality.json''"

definition run_files :: "string list \<Rightarrow> string list" where
  "run_files entries = rev (sort (filter (ends_with run_suffix) entries))"

text \<open>\<open>xs.slice(n)\<close>: a negative index counts from the end.\<close>

definition slice_from :: "int \<Rightarrow> 'a list \<Rightarrow> 'a list" where
  "slice_from n xs = drop (nat (if n < 0 then int (length xs) + n else n)) xs"

definition pruneHistory :: "int \<Rightarrow> 'h history_dir \<Rightarrow> 'h history_dir" where
  "pruneHistory maxRuns d =
     (let runFiles = run_files (map fst (hd_entries d))
      in if int (length runFiles) > maxRuns then fold unlink (slice_from maxRuns runFiles) d else d)"

definition report_id :: "string \<Rightarrow> string" where
  "report_id timestamp = map (\<lambda>c. if c = CHR '':'' \<or> c = CHR ''.'' then CHR ''-'' else c) timestamp"

definition historyFile :: "'h saved_report \<Rightarrow> string" where
  "historyFile report = report_id (qr_timestamp report) @ run_suffix"

definition saveQualityHistory ::
  "'h saved_report \<Rightarrow> int option \<Rightarrow> 'h history_dir \<Rightarrow> (string \<times> string) result \<times> 'h history_dir" where
  "saveQualityHistory report maxRuns =
     and_then make_directory (\<lambda>_.
       and_then (write_file (historyFile report) (Report report)) (\<lambda>_.
         and_then (write_file ''benchmark-data.json'' (Feed (reportToBenchmarkData report))) (\<lambda>_.
           and_then (write_file ''quality-badge.json''
               (Badge (makeQualityBadge (qr_overallScore report) (qr_status report)))) (\<lambda>_.
             and_then (assign (pruneHistory (nullish maxRuns 100))) (\<lambda>_.
               give (historyFile report, ''benchmark-data.json''))))))"

record history_entry =
  he_id :: string
  he_timestamp :: string
  he_overallScore :: real
  he_status :: quality_status
  he_sampleSize :: nat
  he_durationMs :: int
  he_file :: string

definition strip_suffix :: "string \<Rightarrow> string" where
  "strip_suffix f = (if ends_with run_suffix f then take (length f - length run_suffix) f else f)"

definition entry_of :: "'h history_dir \<Rightarrow> string \<Rightarrow> history_entry option" where
  "entry_of d f =
     (case map_of (hd_entries d) f of
        Some (Report r) \<Rightarrow>
          Some \<lparr>he_id = strip_suffix f, he_timestamp = qr_timestamp r, he_overallScore = qr_overallScore r,
                he_status = qr_status r, he_sampleSize = qr_sampleSize r, he_durationMs = qr_durationMs r,
                he_file = f\<rparr>
      | _ \<Rightarrow> None)"

definition listQualityHistory :: "'h history_dir \<Rightarrow> history_entry list" where
  "listQualityHistory d =
     (case hd_files d of
        None \<Rightarrow> []
      | Some entries \<Rightarrow> List.map_filter (entry_of d) (run_files (map fst entries)))"

definition loadQualityHistoryEntry :: "string \<Rightarrow> 'h history_dir \<Rightarrow> 'h saved_report option" where
  "loadQualityHistoryEntry i d =
     (case map_of (hd_entries d) (i @ run_suffix) of Some (Report r) \<Rightarrow> Some r | _ \<Rightarrow> None)"

subsection \<open>What saving does\<close>

lemma run_files_set: "set (run_files xs) = {f \<in> set xs. ends_with run_suffix f}"
  by (auto simp: run_files_def)

lemma run_files_distinct: "distinct xs \<Longrightarrow> run_files xs = rev (sorted_list_of_set {f \<in> set xs. ends_with run_suffix f})"
  by (simp add: run_files_def sorted_list_of_set_sort_remdups distinct_remdups_id flip: set_filter)

text \<open>What remains of the run files when all but the first \<open>k\<close> are removed.\<close>

lemma run_files_of_kept:
  assumes "distinct ys" and "set ys = set xs - set (drop k (run_files xs))" and "distinct xs"
  shows "run_files ys = take k (run_files xs)"
proof -
  let ?R = "run_files xs"
  have d: "distinct ?R" using assms(3) by (simp add: run_files_distinct)
  have "set (take k ?R) \<union> set (drop k ?R) = set ?R" by (metis append_take_drop_id set_append)
  moreover have "set (take k ?R) \<inter> set (drop k ?R) = {}" using d by (simp add: set_take_disj_set_drop_if_distinct)
  ultimately have "{f \<in> set ys. ends_with run_suffix f} = set (take k ?R)"
    unfolding assms(2) using run_files_set [of xs] by blast
  moreover have "sorted (rev (take k ?R))" "distinct (rev (take k ?R))"
    using d by (auto simp: run_files_def rev_take sorted_wrt_drop)
  ultimately have "sorted_list_of_set {f \<in> set ys. ends_with run_suffix f} = rev (take k ?R)"
    by (metis set_rev sorted_list_of_set.idem_if_sorted_distinct)
  then show ?thesis using assms(1) by (simp add: run_files_distinct)
qed

lemma unlink_entries:
  "hd_writable d \<Longrightarrow> hd_files d = Some es \<Longrightarrow> hd_files (fold unlink ns d) = Some (fold AList.delete ns es)"
  by (induction ns arbitrary: d es) (simp_all add: unlink_def)

lemma deleted_entries:
  "map_of (fold AList.delete ns es) f = (if f \<in> set ns then None else map_of es f)"
  "fst ` set (fold AList.delete ns es) = fst ` set es - set ns"
  "distinct (map fst es) \<Longrightarrow> distinct (map fst (fold AList.delete ns es))"
proof (induction ns arbitrary: es)
  case (Cons n ns)
  {
    case 1
    show ?case using Cons.IH(1) [of "AList.delete n es"] by (simp add: delete_conv)
  next
    case 2
    have "fst ` set (AList.delete n es) = fst ` set es - {n}"
      using arg_cong [where f = set, OF delete_keys [of n es]] by simp
    then show ?case using Cons.IH(2) [of "AList.delete n es"] by auto
  next
    case 3
    then show ?case using Cons.IH(3) [of "AList.delete n es"] by (simp add: distinct_delete)
  }
qed simp_all

text \<open>The entries before pruning.\<close>

definition saved_entries ::
  "'h saved_report \<Rightarrow> (string \<times> 'h history_file) list \<Rightarrow> (string \<times> 'h history_file) list" where
  "saved_entries report es =
     AList.update ''quality-badge.json'' (Badge (makeQualityBadge (qr_overallScore report) (qr_status report)))
       (AList.update ''benchmark-data.json'' (Feed (reportToBenchmarkData report))
         (AList.update (historyFile report) (Report report) es))"

lemma saveQualityHistory_steps:
  assumes "saveQualityHistory report maxRuns d = (Inr p, d')"
  shows "hd_writable d \<and> p = (historyFile report, ''benchmark-data.json'')
    \<and> d' = pruneHistory (nullish maxRuns 100) (d\<lparr>hd_files := Some (saved_entries report (hd_entries d))\<rparr>)"
  using assms
  by (cases "hd_writable d"; cases "hd_files d")
    (simp_all add: saveQualityHistory_def and_then_def make_directory_def write_file_def assign_def give_def
      saved_entries_def hd_entries_def nullish_def)

lemma pruneHistory_entries:
  assumes "hd_writable d" and "hd_files d = Some es" and "0 \<le> n"
  shows "hd_files (pruneHistory n d) = Some (fold AList.delete (drop (nat n) (run_files (map fst es))) es)"
proof (cases "int (length (run_files (map fst es))) > n")
  case True
  then show ?thesis using assms unlink_entries [OF assms(1,2)]
    by (simp add: pruneHistory_def hd_entries_def nullish_def slice_from_def Let_def)
next
  case False
  then show ?thesis using assms by (simp add: pruneHistory_def hd_entries_def nullish_def Let_def)
qed

lemma suffix_of_feeds: "\<not> ends_with run_suffix ''quality-badge.json''" "\<not> ends_with run_suffix ''benchmark-data.json''"
  by code_simp+

lemma ends_with_append [simp]: "ends_with s (x @ s)"
proof -
  have "starts_with p (p @ q)" for p q :: "'a list" by (induction p) simp_all
  then show ?thesis by (simp add: ends_with_def)
qed

lemma set_take_iff: "distinct R \<Longrightarrow> f \<in> set (take k R) \<longleftrightarrow> f \<in> set R \<and> f \<notin> set (drop k R)"
proof -
  assume "distinct R"
  then have "set (take k R) \<inter> set (drop k R) = {}" by (simp add: set_take_disj_set_drop_if_distinct)
  moreover have "set R = set (take k R) \<union> set (drop k R)" by (metis append_take_drop_id set_append)
  ultimately show ?thesis by blast
qed

lemma saved_entries_at:
  "map_of (saved_entries report es) f = (if f = ''quality-badge.json'' then Some (Badge (makeQualityBadge (qr_overallScore report) (qr_status report)))
     else if f = ''benchmark-data.json'' then Some (Feed (reportToBenchmarkData report))
     else if f = historyFile report then Some (Report report) else map_of es f)"
  by (simp add: saved_entries_def update_conv)

lemma saved_entries_keys:
  "fst ` set (saved_entries report es) = fst ` set es \<union> {historyFile report, ''benchmark-data.json'', ''quality-badge.json''}"
  by (auto simp: saved_entries_def dom_update)

lemma saved_entries_distinct: "distinct (map fst es) \<Longrightarrow> distinct (map fst (saved_entries report es))"
  by (simp add: saved_entries_def distinct_update)

lemma historyFile_suffix [simp]: "ends_with run_suffix (historyFile report)"
  by (simp add: historyFile_def)

lemma saved_runs:
  assumes "distinct (map fst es)"
  shows "run_files (map fst (saved_entries report es))
    = rev (sorted_list_of_set (insert (historyFile report) (set (run_files (map fst es)))))"
proof -
  have "{f \<in> set (map fst (saved_entries report es)). ends_with run_suffix f}
      = insert (historyFile report) (set (run_files (map fst es)))"
    using saved_entries_keys [of report es] suffix_of_feeds by (auto simp: run_files_set)
  then show ?thesis using run_files_distinct [OF saved_entries_distinct [OF assms]] by simp
qed

text \<open>
  C40. Saving a report keeps exactly the newest reports: of the run files with the new one the
  \<open>maxRuns\<close> last in the order of their names stay, each with its content, no other file of the
  directory changes except the feed and the badge, which describe the new report, and every report
  that stays is read back under its id as it was saved.
\<close>

theorem saved_history_is_read_back:
  assumes ok: "distinct (map fst (hd_entries d))" and n: "0 \<le> n"
    and run: "saveQualityHistory report (Some n) d = (Inr p, d')"
  shows "let es = hd_entries d; kept = run_files (map fst (hd_entries d'))
    in kept = take (nat n) (rev (sorted_list_of_set (insert (historyFile report) (set (run_files (map fst es))))))
     \<and> (\<forall>f. ends_with run_suffix f \<longrightarrow> map_of (hd_entries d') f
          = (if f \<notin> set kept then None else if f = historyFile report then Some (Report report) else map_of es f))
     \<and> (\<forall>f. \<not> ends_with run_suffix f \<longrightarrow> map_of (hd_entries d') f
          = (if f = ''quality-badge.json'' then Some (Badge (makeQualityBadge (qr_overallScore report) (qr_status report)))
             else if f = ''benchmark-data.json'' then Some (Feed (reportToBenchmarkData report)) else map_of es f))
     \<and> (historyFile report \<in> set kept \<longrightarrow> loadQualityHistoryEntry (report_id (qr_timestamp report)) d' = Some report)"
proof -
  let ?h = "historyFile report" and ?es = "hd_entries d"
  define es1 where "es1 = saved_entries report ?es"
  define R where "R = run_files (map fst es1)"
  have "hd_files d' = Some (fold AList.delete (drop (nat n) R) es1)"
    using saveQualityHistory_steps [OF run] pruneHistory_entries [of "d\<lparr>hd_files := Some es1\<rparr>" es1 n] n
    by (simp add: es1_def R_def nullish_def)
  then have es': "hd_entries d' = fold AList.delete (drop (nat n) R) es1" by (simp add: hd_entries_def nullish_def)
  have d1: "distinct (map fst es1)" using ok by (simp add: es1_def saved_entries_distinct)
  have R: "R = rev (sorted_list_of_set (insert ?h (set (run_files (map fst ?es)))))"
    unfolding R_def es1_def by (rule saved_runs [OF ok])
  have kept: "run_files (map fst (hd_entries d')) = take (nat n) R"
    unfolding R_def by (rule run_files_of_kept)
      (simp_all add: es' R_def deleted_entries d1)
  have look: "map_of (hd_entries d') f = (if f \<in> set (drop (nat n) R) then None else map_of es1 f)" for f
    by (simp add: es' deleted_entries)
  have set_R: "set R = {f \<in> fst ` set es1. ends_with run_suffix f}" by (simp add: R_def run_files_set)
  have split: "f \<in> set (take (nat n) R) \<longleftrightarrow> f \<in> set R \<and> f \<notin> set (drop (nat n) R)" for f
    by (rule set_take_iff) (use d1 in \<open>simp add: R_def run_files_distinct\<close>)
  note es1_at = saved_entries_at [of report ?es, folded es1_def]
  have run_at: "map_of (hd_entries d') f = (if f \<notin> set (take (nat n) R) then None
      else if f = ?h then Some (Report report) else map_of ?es f)" if "ends_with run_suffix f" for f
  proof (cases "f \<in> set R")
    case True
    then show ?thesis using that suffix_of_feeds by (auto simp: look split es1_at)
  next
    case False
    then have "map_of es1 f = None" using that set_R by (simp add: map_of_eq_None_iff)
    then show ?thesis using False by (simp add: look split)
  qed
  have other_at: "map_of (hd_entries d') f = map_of es1 f" if "\<not> ends_with run_suffix f" for f
  proof -
    have "f \<notin> set (drop (nat n) R)" using that set_R by (auto dest: in_set_dropD)
    then show ?thesis by (simp add: look)
  qed
  show ?thesis
    unfolding Let_def kept
    using R run_at other_at es1_at run_at [OF historyFile_suffix, of report]
    by (auto simp: loadQualityHistoryEntry_def historyFile_def)
qed

definition sample_saved_report :: "unit saved_report" where
  "sample_saved_report = \<lparr>qr_timestamp = ''2026-01-02T00:00:00.000Z'', qr_overallScore = 1 / 2, qr_status = PASS,
     qr_mustPassGates = [], qr_components = [], qr_ragBench = None, qr_ragBenchHf = None, qr_sampleSize = 1,
     qr_topK = 5, qr_configFile = ''c'', qr_durationMs = 1\<rparr>"

definition sample_history :: "unit history_dir" where
  "sample_history = \<lparr>hd_files = Some [(''2025-12-31T00-00-00-000Z-quality.json'', Unreadable)], hd_writable = True\<rparr>"

lemma saved_history_is_read_back_witness:
  "loadQualityHistoryEntry (report_id ''2026-01-02T00:00:00.000Z'')
     (snd (saveQualityHistory sample_saved_report (Some 1) sample_history)) = Some sample_saved_report"
proof -
  obtain r d' where run: "saveQualityHistory sample_saved_report (Some 1) sample_history = (r, d')" by force
  have "\<not> isl r" using run
    by (auto simp: saveQualityHistory_def and_then_def make_directory_def write_file_def assign_def give_def sample_history_def)
  then obtain p where "r = Inr p" by (cases r) auto
  have "distinct (map fst (hd_entries sample_history))" by (simp add: sample_history_def hd_entries_def nullish_def)
  note saved = saved_history_is_read_back [OF this zero_le_one run [unfolded \<open>r = Inr p\<close>], unfolded Let_def]
  have "historyFile sample_saved_report \<in> set (take (nat 1) (rev (sorted_list_of_set
      (insert (historyFile sample_saved_report) (set (run_files (map fst (hd_entries sample_history))))))))"
    by code_simp
  then have "loadQualityHistoryEntry (report_id (qr_timestamp sample_saved_report)) d' = Some sample_saved_report"
    using saved by (elim conjE) (simp only:)
  moreover have "qr_timestamp sample_saved_report = ''2026-01-02T00:00:00.000Z''" by (simp add: sample_saved_report_def)
  ultimately show ?thesis by (simp only: run snd_conv)
qed

text \<open>What the badge and the feed show.\<close>

lemma fixed4_close: "\<bar>fixed4 x - x\<bar> \<le> 1 / 20000"
proof -
  let ?k = "of_int \<lfloor>\<bar>x\<bar> * 10000 + 1 / 2\<rfloor> :: real"
  have "?k / 10000 - \<bar>x\<bar> \<le> 1 / 20000" "\<bar>x\<bar> - ?k / 10000 \<le> 1 / 20000" by linarith+
  then show ?thesis by (cases "x < 0") (simp_all only: fixed4_def Let_def abs_le_iff if_True if_False, linarith+)
qed

lemma component_points_length: "length (component_points c) =
    (if cr_skipped c then 0 else 1 + length (filter (\<lambda>m. \<not> mr_skipped m) (cr_metrics c)))"
  by (simp add: component_points_def)

lemma rag_points_length: "length (rag_points rb) = 5"
  by (simp add: rag_points_def Let_def)

lemma feed_length: "length (reportToBenchmarkData report) = 1
    + sum_list (map (\<lambda>c. if cr_skipped c then 0 else 1 + length (filter (\<lambda>m. \<not> mr_skipped m) (cr_metrics c))) (qr_components report))
    + (case qr_ragBench report of None \<Rightarrow> 0 | Some _ \<Rightarrow> 5)"
  by (simp add: reportToBenchmarkData_def length_concat comp_def component_points_length rag_points_length
      split: option.split)

text \<open>A limit of 0 removes even the report just saved, whose path is returned.\<close>

lemma limit_zero_keeps_nothing:
  assumes "distinct (map fst (hd_entries d))" and "saveQualityHistory report (Some 0) d = (Inr p, d')"
  shows "run_files (map fst (hd_entries d')) = [] \<and> fst p = historyFile report"
proof -
  let ?es = "saved_entries report (hd_entries d)"
  have "hd_files d' = Some (fold AList.delete (run_files (map fst ?es)) ?es)"
    using saveQualityHistory_steps [OF assms(2)] pruneHistory_entries [of "d\<lparr>hd_files := Some ?es\<rparr>" ?es 0]
    by (simp add: nullish_def)
  then have "hd_entries d' = fold AList.delete (run_files (map fst ?es)) ?es"
    by (simp add: hd_entries_def nullish_def)
  then have "set (run_files (map fst (hd_entries d'))) = {}"
    by (auto simp: run_files_set deleted_entries)
  then show ?thesis using saveQualityHistory_steps [OF assms(2)] by simp
qed

end
